(* ===== verification/Prelude.thy ===== *)
theory Prelude
  imports Main "HOL-Library.Word"
begin

text \<open>
  Shared vocabulary of the development: the machine integers of the target (an ILP32,
  little-endian Linux 2.6.35), the error numbers of \<open>include/asm-generic/errno-base.h\<close> and
  \<open>errno.h\<close>, the result type of code that can touch memory outside an object, and the generic
  lemmas on lists, options and words that several components use.
\<close>

unbundle bit_operations_syntax

section \<open>Machine integers\<close>

type_synonym u8 = "8 word"
type_synonym u16 = "16 word"
type_synonym u32 = "32 word"
type_synonym u64 = "64 word"

text \<open>\<open>s32 i\<close> is the value a C \<open>int\<close> holds after the 32-bit two's complement computation of \<open>i\<close>.\<close>

definition s32 :: "int \<Rightarrow> int" where
  "s32 i = signed_take_bit 31 i"

lemma s32_id [simp]: "- (2 ^ 31) \<le> i \<Longrightarrow> i < 2 ^ 31 \<Longrightarrow> s32 i = i"
  by (simp add: s32_def signed_take_bit_int_eq_self_iff)

lemma s32_small: "- 2147483648 \<le> i \<Longrightarrow> i < 2147483648 \<Longrightarrow> s32 i = i"
  by simp

lemma s32_int: "n < 2147483648 \<Longrightarrow> s32 (int n) = int n"
  by (intro s32_small) simp_all

lemma s32_range: "- (2 ^ 31) \<le> s32 i \<and> s32 i < 2 ^ 31"
  unfolding s32_def
  using signed_take_bit_int_greater_eq_minus_exp [of 31 i] signed_take_bit_int_less_exp [of 31 i]
  by simp

lemma sint_eq_unat:
  assumes "unat (w :: u32) < 2 ^ 31"
  shows "sint w = int (unat w)"
proof -
  have "int (unat w) < int (2 ^ 31)" using assms by (simp only: of_nat_less_iff)
  then have "uint w < 2 ^ 31" by simp
  moreover have "- (2 ^ 31) \<le> uint w" using uint_ge_0 [of w] by (rule order_trans [rotated]) simp
  ultimately show ?thesis by (simp add: sint_uint signed_take_bit_int_eq_self)
qed

lemma unat_of_nat_u32: "n < 2 ^ 32 \<Longrightarrow> unat (of_nat n :: u32) = n"
  by (simp add: unat_of_nat take_bit_nat_eq_self_iff)

lemma unat_plus_u32: "unat a + n < 2 ^ 32 \<Longrightarrow> unat ((a :: u32) + of_nat n) = unat a + n"
  by (simp add: unat_word_ariths unat_of_nat take_bit_nat_eq_self_iff take_bit_eq_mod)

lemma s32_wrap:
  assumes "2147483648 \<le> i" "i < 6442450944"
  shows "s32 i = i - 4294967296"
proof -
  have "s32 i = (i - 2147483648 + 4294967296) mod 4294967296 - 2147483648"
    by (simp add: s32_def signed_take_bit_eq_take_bit_shift take_bit_eq_mod add.commute)
  also have "\<dots> = i - 4294967296"
    unfolding mod_add_self2 using assms by simp
  finally show ?thesis .
qed

text \<open>\<open>s64\<close> is the same for a \<open>long long\<close>, the type of file offsets.\<close>

definition s64 :: "int \<Rightarrow> int" where
  "s64 i = signed_take_bit 63 i"

lemma s64_id: "- 9223372036854775808 \<le> i \<Longrightarrow> i < 9223372036854775808 \<Longrightarrow> s64 i = i"
  by (simp add: s64_def signed_take_bit_int_eq_self_iff)

lemma s64_wrap:
  assumes "9223372036854775808 \<le> i" "i < 27670116110564327424"
  shows "s64 i = i - 18446744073709551616"
proof -
  have "s64 i = (i - 9223372036854775808 + 18446744073709551616) mod 18446744073709551616 - 9223372036854775808"
    by (simp add: s64_def signed_take_bit_eq_take_bit_shift take_bit_eq_mod add.commute)
  also have "\<dots> = i - 18446744073709551616"
    unfolding mod_add_self2 using assms by simp
  finally show ?thesis .
qed

text \<open>Rounding down to a power of two, as the \<open>ALIGN\<close> macros do it.\<close>

lemma and_not_mask_int: "(x :: int) AND NOT (mask n) = x - x mod 2 ^ n"
proof -
  have "x AND NOT (mask n) = push_bit n (drop_bit n x)"
    by (rule bit_eqI) (auto simp: bit_simps)
  then show ?thesis
    using bits_ident [of n x] by (simp add: take_bit_eq_mod)
qed

section \<open>Error numbers\<close>

abbreviation (input) EPERM :: int where "EPERM \<equiv> 1"
abbreviation (input) ESRCH :: int where "ESRCH \<equiv> 3"
abbreviation (input) ENOENT :: int where "ENOENT \<equiv> 2"
abbreviation (input) EINTR :: int where "EINTR \<equiv> 4"
abbreviation (input) EIO :: int where "EIO \<equiv> 5"
abbreviation (input) E2BIG :: int where "E2BIG \<equiv> 7"
abbreviation (input) EAGAIN :: int where "EAGAIN \<equiv> 11"
abbreviation (input) ENOMEM :: int where "ENOMEM \<equiv> 12"
abbreviation (input) EACCES :: int where "EACCES \<equiv> 13"
abbreviation (input) EFAULT :: int where "EFAULT \<equiv> 14"
abbreviation (input) EBUSY :: int where "EBUSY \<equiv> 16"
abbreviation (input) EEXIST :: int where "EEXIST \<equiv> 17"
abbreviation (input) ENOTDIR :: int where "ENOTDIR \<equiv> 20"
abbreviation (input) EISDIR :: int where "EISDIR \<equiv> 21"
abbreviation (input) EINVAL :: int where "EINVAL \<equiv> 22"
abbreviation (input) ETXTBSY :: int where "ETXTBSY \<equiv> 26"
abbreviation (input) EFBIG :: int where "EFBIG \<equiv> 27"
abbreviation (input) ENOSPC :: int where "ENOSPC \<equiv> 28"
abbreviation (input) EROFS :: int where "EROFS \<equiv> 30"
abbreviation (input) ERANGE :: int where "ERANGE \<equiv> 34"
abbreviation (input) EBADF :: int where "EBADF \<equiv> 9"
abbreviation (input) EDEADLK :: int where "EDEADLK \<equiv> 35"
abbreviation (input) ENOLCK :: int where "ENOLCK \<equiv> 37"
abbreviation (input) EOVERFLOW :: int where "EOVERFLOW \<equiv> 75"
abbreviation (input) ERESTARTSYS :: int where "ERESTARTSYS \<equiv> 512"
abbreviation (input) ENAMETOOLONG :: int where "ENAMETOOLONG \<equiv> 36"
abbreviation (input) ENOSYS :: int where "ENOSYS \<equiv> 38"
abbreviation (input) ELOOP :: int where "ELOOP \<equiv> 40"
abbreviation (input) EIDRM :: int where "EIDRM \<equiv> 43"
abbreviation (input) ENODATA :: int where "ENODATA \<equiv> 61"
abbreviation (input) EOPNOTSUPP :: int where "EOPNOTSUPP \<equiv> 95"

section \<open>Results\<close>

text \<open>
  \<open>Ok v\<close> is a normal result and \<open>Fault\<close> an access outside the object a pointer points into: in C it
  is undefined behaviour, in the model it is a value the theorems exclude (or exhibit).
\<close>

datatype 'a outcome = Ok 'a | Fault

definition rd_mem :: "'a list \<Rightarrow> int \<Rightarrow> nat \<Rightarrow> 'a list outcome" where
  "rd_mem buf off n =
     (if 0 \<le> off \<and> off + int n \<le> int (length buf) then Ok (take n (drop (nat off) buf)) else Fault)"

lemma rd_mem_Ok_iff: "(\<exists>bs. rd_mem buf off n = Ok bs) \<longleftrightarrow> 0 \<le> off \<and> off + int n \<le> int (length buf)"
  by (simp add: rd_mem_def)

lemma rd_mem_length: "rd_mem buf off n = Ok bs \<Longrightarrow> length bs = n"
  by (auto simp: rd_mem_def split: if_splits)

section \<open>Lists and conditionals\<close>

lemma if_eqE:
  assumes "(if b then x else y) = z"
  obtains "b" "x = z" | "\<not> b" "y = z"
  using assms by (cases b) auto

lemma ex_length_Suc: "(\<exists>xs. length xs = Suc n \<and> P xs) \<longleftrightarrow> (\<exists>x xs. length xs = n \<and> P (x # xs))"
  by (metis length_Suc_conv)

lemma take_drop_prefix:
  assumes "m + n \<le> h" "h \<le> length xs"
  shows "take n (drop m (take h xs @ ys)) = take n (drop m xs)"
  using assms by (simp add: take_drop min_def)

section \<open>Invariants of transition systems\<close>

text \<open>The contract between a component's step relation and its invariant, and what it gives its
  clients: the invariant of every reachable state.\<close>

locale invariant_system =
  fixes init :: "'s \<Rightarrow> bool" and step :: "'s \<Rightarrow> 's \<Rightarrow> bool" and inv :: "'s \<Rightarrow> bool"
  assumes init_inv: "init s \<Longrightarrow> inv s"
    and step_inv: "inv s \<Longrightarrow> step s s' \<Longrightarrow> inv s'"
begin

lemma reachable_inv:
  assumes "init s" "step\<^sup>*\<^sup>* s s'"
  shows "inv s'"
  using assms(2,1) by (induction rule: rtranclp_induct) (auto intro: init_inv step_inv)

end

section \<open>Byte order\<close>

definition be32 :: "u8 list \<Rightarrow> u32" where
  "be32 bs = (case bs of [a, b, c, d] \<Rightarrow>
     push_bit 24 (ucast a) OR push_bit 16 (ucast b) OR push_bit 8 (ucast c) OR ucast d | _ \<Rightarrow> 0)"

definition be16 :: "u8 list \<Rightarrow> u16" where
  "be16 bs = (case bs of [a, b] \<Rightarrow> push_bit 8 (ucast a) OR ucast b | _ \<Rightarrow> 0)"

definition le16 :: "u8 list \<Rightarrow> u16" where
  "le16 bs = (case bs of [a, b] \<Rightarrow> push_bit 8 (ucast b) OR ucast a | _ \<Rightarrow> 0)"

definition le32 :: "u8 list \<Rightarrow> u32" where
  "le32 bs = (case bs of [a, b, c, d] \<Rightarrow>
     push_bit 24 (ucast d) OR push_bit 16 (ucast c) OR push_bit 8 (ucast b) OR ucast a | _ \<Rightarrow> 0)"

definition to_le16 :: "u16 \<Rightarrow> u8 list" where
  "to_le16 w = [ucast w, ucast (drop_bit 8 w)]"

definition to_le32 :: "u32 \<Rightarrow> u8 list" where
  "to_le32 w = [ucast w, ucast (drop_bit 8 w), ucast (drop_bit 16 w), ucast (drop_bit 24 w)]"

lemma length_to_le [simp]: "length (to_le16 v) = 2" "length (to_le32 w) = 4"
  by (simp_all add: to_le16_def to_le32_def)

lemma le16_to_le16 [simp]: "le16 (to_le16 w) = w"
  by (rule bit_word_eqI) (auto simp: le16_def to_le16_def bit_simps)

lemma le32_to_le32 [simp]: "le32 (to_le32 w) = w"
proof (rule bit_word_eqI)
  fix n assume "n < LENGTH(32)"
  then consider "n < 8" | "8 \<le> n" "n < 16" | "16 \<le> n" "n < 24" | "24 \<le> n" "n < 32" by fastforce
  then show "bit (le32 (to_le32 w)) n \<longleftrightarrow> bit w n" by cases (auto simp: le32_def to_le32_def bit_simps)
qed

section \<open>Lists of encoded items\<close>

text \<open>Items of a fixed width, stored one after the other.\<close>

locale fixed_codec =
  fixes enc :: "'a \<Rightarrow> u8 list" and dec :: "u8 list \<Rightarrow> 'a" and width :: nat
  assumes dec_enc: "dec (enc x) = x" and length_enc: "length (enc x) = width"
begin

lemma length_encs: "length (concat (map enc xs)) = length xs * width"
  by (induction xs) (simp_all add: length_enc)

lemma dec_first: "dec (take width (enc x @ r)) = x" "drop width (enc x @ r) = r"
  by (simp_all add: dec_enc flip: length_enc [of x])

end

end
