(* ===== verification/SkBuff.thy ===== *)
theory SkBuff
  imports Prelude
begin

text \<open>
  Socket buffers as the filter code sees them: the linear area, page fragments and fragment list of
  \<open>struct sk_buff\<close>, the copy routine \<open>skb_copy_bits\<close> of \<open>net/core/skbuff.c\<close>, the accessor
  \<open>skb_header_pointer\<close> of \<open>include/linux/skbuff.h\<close>, and the netlink attribute walk of
  \<open>include/net/netlink.h\<close> and \<open>lib/nlattr.c\<close> that the filter's ancillary loads call.
\<close>

section \<open>Buffers\<close>

text \<open>
  A buffer with its fragments. \<open>d_linear\<close> is the allocation from \<open>skb->data\<close> onwards, of which the
  first \<open>skb_headlen\<close> bytes are packet data; a page fragment is its bytes.
\<close>

datatype sk_data = SkData
  (d_len: u32) (d_data_len: u32) (d_linear: "u8 list") (d_frags: "u8 list list")
  (d_frag_list: "sk_data list")

record net_device =
  ifindex :: int
  dev_type :: u16

text \<open>
  \<open>skb_head\<close> is the whole allocation, the shared info behind \<open>skb->end\<close> included; \<open>skb_data\<close>,
  \<open>skb_tail\<close> and the header positions are offsets from \<open>skb->head\<close>. A header that was never set
  can hold any value. \<open>skb_protocol\<close> is stored in network byte order.
\<close>

record sk_buff =
  skb_head :: "u8 list"
  skb_data :: nat
  skb_tail :: nat
  skb_len :: u32
  skb_data_len :: u32
  skb_frags :: "u8 list list"
  skb_frag_list :: "sk_data list"
  skb_network_header :: int
  skb_mac_header :: int
  skb_protocol :: u16
  skb_pkt_type :: u8
  skb_dev :: "net_device option"
  skb_mark :: u32
  skb_queue_mapping :: u16

definition skb_view :: "sk_buff \<Rightarrow> sk_data" where
  "skb_view skb = SkData (skb_len skb) (skb_data_len skb) (drop (skb_data skb) (skb_head skb))
     (skb_frags skb) (skb_frag_list skb)"

definition skb_is_nonlinear :: "sk_buff \<Rightarrow> bool" where
  "skb_is_nonlinear skb \<longleftrightarrow> skb_data_len skb \<noteq> 0"

definition skb_headlen :: "sk_data \<Rightarrow> u32" where
  "skb_headlen d = d_len d - d_data_len d"

section \<open>Copying packet bytes\<close>

text \<open>The loop over the page fragments: \<open>start\<close>, \<open>offset\<close>, \<open>len\<close> and the bytes copied so far. It
  stops with \<open>len = 0\<close> as soon as the request is served.\<close>

fun copy_frags :: "u8 list list \<Rightarrow> int \<Rightarrow> int \<Rightarrow> int \<Rightarrow> u8 list \<Rightarrow> int \<times> int \<times> int \<times> u8 list" where
  "copy_frags [] start offset len to = (start, offset, len, to)"
| "copy_frags (f # fs) start offset len to =
    (let end' = start + int (length f); copy = end' - offset
     in if copy > 0 then
          (let copy = (if copy > len then len else copy);
               to' = to @ take (nat copy) (drop (nat (offset - start)) f)
           in if len - copy = 0 then (end', offset + copy, 0, to')
              else copy_frags fs end' (offset + copy) (len - copy) to')
        else copy_frags fs end' offset len to)"

text \<open>\<open>Ok None\<close> is the return value \<open>-EFAULT\<close>, \<open>Ok (Some bs)\<close> a return of 0 with \<open>bs\<close> copied.\<close>

fun skb_copy_bits :: "sk_data \<Rightarrow> int \<Rightarrow> int \<Rightarrow> u8 list option outcome"
and copy_frag_list :: "sk_data list \<Rightarrow> int \<Rightarrow> int \<Rightarrow> int \<Rightarrow> u8 list \<Rightarrow> u8 list option outcome" where
  "skb_copy_bits (SkData slen dlen lin frags flist) offset len =
    (let start = sint (slen - dlen)
     in if offset > s32 (sint slen - len) then Ok None
        else if start - offset > 0 then
          (let copy = (if start - offset > len then len else start - offset)
           in case rd_mem lin offset (nat copy) of
                Fault \<Rightarrow> Fault
              | Ok to \<Rightarrow>
                 if len - copy = 0 then Ok (Some to)
                 else (case copy_frags frags start (offset + copy) (len - copy) to of
                   (start', offset', len', to') \<Rightarrow>
                     if len' = 0 then Ok (Some to')
                     else copy_frag_list flist start' offset' len' to'))
        else (case copy_frags frags start offset len [] of
          (start', offset', len', to') \<Rightarrow>
            if len' = 0 then Ok (Some to') else copy_frag_list flist start' offset' len' to'))"
| "copy_frag_list [] start offset len to = (if len = 0 then Ok (Some to) else Ok None)"
| "copy_frag_list (f # fs) start offset len to =
    (let end' = start + sint (d_len f); copy = end' - offset
     in if copy > 0 then
          (let copy = (if copy > len then len else copy)
           in case skb_copy_bits f (offset - start) copy of
                Fault \<Rightarrow> Fault
              | Ok None \<Rightarrow> Ok None
              | Ok (Some bs) \<Rightarrow>
                 if len - copy = 0 then Ok (Some (to @ bs))
                 else copy_frag_list fs end' (offset + copy) (len - copy) (to @ bs))
        else copy_frag_list fs end' offset len to)"

text \<open>A pointer into the buffer's allocation (an offset from \<open>skb->head\<close>) or to the caller's copy.\<close>

datatype skb_ptr = PNull | PHead int | PBuf "u8 list"

definition skb_header_pointer :: "sk_buff \<Rightarrow> int \<Rightarrow> nat \<Rightarrow> skb_ptr outcome" where
  "skb_header_pointer skb offset len =
    (let hlen = sint (skb_headlen (skb_view skb))
     in if s32 (hlen - offset) \<ge> int len then Ok (PHead (int (skb_data skb) + offset))
        else (case skb_copy_bits (skb_view skb) offset (int len) of
                Fault \<Rightarrow> Fault
              | Ok None \<Rightarrow> Ok PNull
              | Ok (Some bs) \<Rightarrow> Ok (PBuf bs)))"

definition rd_ptr :: "sk_buff \<Rightarrow> skb_ptr \<Rightarrow> nat \<Rightarrow> u8 list outcome" where
  "rd_ptr skb p n = (case p of
      PNull \<Rightarrow> Fault
    | PHead off \<Rightarrow> rd_mem (skb_head skb) off n
    | PBuf bs \<Rightarrow> rd_mem bs 0 n)"

section \<open>Netlink attributes\<close>

text \<open>Attributes are read from a byte area; \<open>nla\<close> is an offset into it.\<close>

definition nla_len_at :: "u8 list \<Rightarrow> int \<Rightarrow> u16 outcome" where
  "nla_len_at buf nla = (case rd_mem buf nla 2 of Fault \<Rightarrow> Fault | Ok bs \<Rightarrow> Ok (le16 bs))"

definition nla_type :: "u8 list \<Rightarrow> int \<Rightarrow> int outcome" where
  "nla_type buf nla = (case rd_mem buf (nla + 2) 2 of
      Fault \<Rightarrow> Fault | Ok bs \<Rightarrow> Ok (uint (le16 bs AND NOT 0xC000)))"

definition nla_align :: "int \<Rightarrow> int" where
  "nla_align len = (len + 3) AND NOT 3"

definition nla_ok :: "u8 list \<Rightarrow> int \<Rightarrow> int \<Rightarrow> bool outcome" where
  "nla_ok buf nla remaining =
    (if remaining \<ge> 4 then
       (case nla_len_at buf nla of
          Fault \<Rightarrow> Fault
        | Ok l \<Rightarrow> Ok (uint l \<ge> 4 \<and> uint l \<le> remaining))
     else Ok False)"

text \<open>The loop of \<open>nla_for_each_attr\<close> in \<open>nla_find\<close>: \<open>Ok None\<close> is \<open>NULL\<close>.\<close>

function nla_find :: "u8 list \<Rightarrow> int \<Rightarrow> int \<Rightarrow> int \<Rightarrow> int option outcome" where
  "nla_find buf nla rem attrtype =
    (case nla_ok buf nla rem of
       Fault \<Rightarrow> Fault
     | Ok False \<Rightarrow> Ok None
     | Ok True \<Rightarrow>
        (case nla_type buf nla of
           Fault \<Rightarrow> Fault
         | Ok t \<Rightarrow>
            if t = attrtype then Ok (Some nla)
            else (case nla_len_at buf nla of
                Fault \<Rightarrow> Fault
              | Ok l \<Rightarrow>
                 let totlen = nla_align (uint l)
                 in nla_find buf (nla + totlen) (rem - totlen) attrtype)))"
  by pat_completeness auto

lemma nla_align_ge: "l \<le> nla_align l"
proof -
  have "(3 :: int) = mask 2" by (simp add: mask_eq_exp_minus_1)
  then have "nla_align l = (l + 3) - (l + 3) mod 4"
    unfolding nla_align_def using and_not_mask_int [of "l + 3" 2] by simp
  then show ?thesis by presburger
qed

termination nla_find
proof (relation "measure (\<lambda>(buf, nla, rem, attrtype). nat rem)", goal_cases)
  case 1
  then show ?case by simp
next
  case (2 buf nla rem attrtype b t l totlen)
  then have "4 \<le> uint l" "4 \<le> rem"
    by (auto simp: nla_ok_def split: if_splits)
  moreover have "uint l \<le> totlen"
    using nla_align_ge 2 by simp
  ultimately show ?case by simp
qed

declare nla_find.simps [simp del]

section \<open>The bytes of a packet\<close>

fun skb_bytes :: "sk_data \<Rightarrow> u8 list" where
  "skb_bytes (SkData slen dlen lin frags flist) =
     take (unat (slen - dlen)) lin @ concat frags @ concat (map skb_bytes flist)"

fun sk_wf :: "sk_data \<Rightarrow> bool" where
  "sk_wf (SkData slen dlen lin frags flist) \<longleftrightarrow>
     unat slen < 2 ^ 31 \<and> dlen \<le> slen \<and> unat (slen - dlen) \<le> length lin \<and>
     unat dlen = length (concat frags) + (\<Sum>d \<leftarrow> flist. unat (d_len d)) \<and>
     (\<forall>d \<in> set flist. sk_wf d)"

lemma length_skb_bytes: "sk_wf d \<Longrightarrow> length (skb_bytes d) = unat (d_len d)"
proof (induction d rule: sk_wf.induct)
  case (1 slen dlen lin frags flist)
  then have "(\<Sum>d \<leftarrow> flist. length (skb_bytes d)) = (\<Sum>d \<leftarrow> flist. unat (d_len d))"
    by (intro arg_cong [where f = sum_list] map_cong) auto
  with 1 show ?case
    by (auto simp: length_concat comp_def unat_sub word_le_nat_alt min_def)
qed

lemma copy_frags_spec:
  "0 < n \<Longrightarrow> av = drop m (concat fs) \<Longrightarrow>
   \<exists>s' o'. copy_frags fs start (start + int m) (int n) to = (s', o', int (n - length av), to @ take n av) \<and>
     (length av < n \<longrightarrow> s' = start + int (length (concat fs)) \<and> o' = s' + int (m - length (concat fs)))"
proof (induction fs arbitrary: start m n to av)
  case Nil
  then show ?case by simp
next
  case (Cons f fs)
  let ?e = "start + int (length f)"
  consider (skip) "length f \<le> m" | (all) "m < length f" "n < length f - m" | (exact) "m < length f" "n = length f - m"
    | (part) "m < length f" "length f - m < n" by linarith
  then show ?case
  proof cases
    case skip
    then have eq: "start + int m = ?e + int (m - length f)" by simp
    have "copy_frags (f # fs) start (start + int m) (int n) to =
        copy_frags fs ?e (?e + int (m - length f)) (int n) to"
      using skip by (simp add: Let_def eq [symmetric])
    with Cons.IH [of n av "m - length f" ?e to] Cons.prems skip show ?thesis by auto
  next
    case all
    then have "int n < int (length f) - int m" "\<not> length f + length (concat fs) - m < n" by linarith+
    with all Cons.prems show ?thesis by (simp add: Let_def)
  next
    case exact
    then have "\<not> length f + length (concat fs) - m < length f - m" by linarith
    with exact Cons.prems show ?thesis by (simp add: Let_def)
  next
    case part
    let ?c = "length f - m"
    have "\<not> int n < int (length f) - int m" "int n \<noteq> int (length f) - int m" using part by linarith+
    then have "copy_frags (f # fs) start (start + int m) (int n) to =
        copy_frags fs ?e (?e + int 0) (int (n - ?c)) (to @ drop m f)"
      using part by (simp add: Let_def diff_diff_eq2)
    moreover have "length f + length (concat fs) - m < n \<longleftrightarrow> length (concat fs) < n - ?c"
      using part by linarith
    ultimately show ?thesis
      using Cons.IH [of "n - ?c" "concat fs" 0 ?e "to @ drop m f"] Cons.prems part by auto
  qed
qed

definition copy_spec :: "sk_data \<Rightarrow> nat \<Rightarrow> nat \<Rightarrow> u8 list option outcome" where
  "copy_spec d m n = Ok
     (if m + n \<le> length (skb_bytes d) then Some (take n (drop m (skb_bytes d))) else None)"

lemma sk_wf_len: "sk_wf d \<Longrightarrow> sint (d_len d) = int (length (skb_bytes d)) \<and> length (skb_bytes d) < 2 ^ 31"
  using length_skb_bytes [of d] by (cases d) (simp add: sint_eq_unat)

lemma copy_frag_list_spec:
  "\<forall>d \<in> set ds. sk_wf d \<and> (\<forall>m n. 0 < n \<longrightarrow> n < 2 ^ 31 \<longrightarrow> skb_copy_bits d (int m) (int n) = copy_spec d m n) \<Longrightarrow>
   0 < n \<Longrightarrow> n < 2 ^ 31 \<Longrightarrow> av = drop m (concat (map skb_bytes ds)) \<Longrightarrow>
   copy_frag_list ds start (start + int m) (int n) to =
     Ok (if n \<le> length av then Some (to @ take n av) else None)"
proof (induction ds arbitrary: start m n to av)
  case Nil
  then show ?case by simp
next
  case (Cons f fs)
  let ?l = "length (skb_bytes f)"
  let ?e = "start + int ?l"
  have dl: "sint (d_len f) = int ?l" using Cons.prems(1) by (simp add: sk_wf_len)
  have sp: "skb_copy_bits f (int m) (int n) = copy_spec f m n" if "0 < n" "n < 2 ^ 31" for m n
    using Cons.prems(1) that by simp
  consider (skip) "?l \<le> m" | (all) "m < ?l" "n < ?l - m" | (exact) "m < ?l" "n = ?l - m"
    | (part) "m < ?l" "?l - m < n" by linarith
  then show ?case
  proof cases
    case skip
    then have eq: "start + int m = ?e + int (m - ?l)" by simp
    have "copy_frag_list (f # fs) start (start + int m) (int n) to =
        copy_frag_list fs ?e (?e + int (m - ?l)) (int n) to"
      using skip by (simp add: Let_def dl eq [symmetric])
    with Cons.IH [of n av "m - ?l" ?e to] Cons.prems skip show ?thesis by auto
  next
    case all
    then have "int n < int ?l - int m" "n \<le> ?l + length (concat (map skb_bytes fs)) - m" by linarith+
    with all Cons.prems(2-) sp [of n m] show ?thesis by (simp add: Let_def dl copy_spec_def)
  next
    case exact
    with Cons.prems sp [of n m] show ?thesis by (simp add: Let_def dl copy_spec_def)
  next
    case part
    let ?c = "?l - m"
    have "skb_copy_bits f (int m) (int ?l - int m) = Ok (Some (drop m (skb_bytes f)))"
      using sp [of ?c m] part Cons.prems by (simp add: copy_spec_def)
    moreover have "\<not> int n < int ?l - int m" "int n \<noteq> int ?l - int m" using part by linarith+
    ultimately have "copy_frag_list (f # fs) start (start + int m) (int n) to =
        copy_frag_list fs ?e (?e + int 0) (int (n - ?c)) (to @ drop m (skb_bytes f))"
      using part by (simp add: Let_def dl diff_diff_eq2)
    with Cons.IH [of "n - ?c" "concat (map skb_bytes fs)" 0 ?e "to @ drop m (skb_bytes f)"]
      Cons.prems part show ?thesis by auto
  qed
qed

lemma copy_rest_spec:
  assumes "\<forall>d \<in> set ds. sk_wf d \<and> (\<forall>m n. 0 < n \<longrightarrow> n < 2 ^ 31 \<longrightarrow> skb_copy_bits d (int m) (int n) = copy_spec d m n)"
    and "0 < n" "n < 2 ^ 31" and av: "av = drop m (concat frags @ concat (map skb_bytes ds))"
  shows "(case copy_frags frags start (start + int m) (int n) to of
      (start', offset', len', to') \<Rightarrow>
        if len' = 0 then Ok (Some to') else copy_frag_list ds start' offset' len' to') =
    Ok (if n \<le> length av then Some (to @ take n av) else None)"
proof -
  let ?av = "drop m (concat frags)"
  obtain s' o' where c: "copy_frags frags start (start + int m) (int n) to =
      (s', o', int (n - length ?av), to @ take n ?av)"
    and so: "length ?av < n \<Longrightarrow> s' = start + int (length (concat frags)) \<and> o' = s' + int (m - length (concat frags))"
    using copy_frags_spec [of n ?av m frags start to] assms(2) by blast
  show ?thesis
  proof (cases "n \<le> length ?av")
    case True
    then show ?thesis by (simp add: c av)
  next
    case False
    with so have "s' = start + int (length (concat frags))" "o' = s' + int (m - length (concat frags))" by auto
    with False c copy_frag_list_spec [OF assms(1) _ _ refl, of "n - length ?av" s' "m - length (concat frags)" "to @ ?av"] assms(2,3)
    show ?thesis by (auto simp: av)
  qed
qed

lemma skb_copy_bits_spec:
  "sk_wf d \<Longrightarrow> 0 < n \<Longrightarrow> n < 2 ^ 31 \<Longrightarrow>
   skb_copy_bits d (int m) (int n) = copy_spec d m n"
proof (induction d arbitrary: m n)
  case (SkData slen dlen lin frags flist)
  define H where "H = unat (slen - dlen)"
  define N where "N = unat slen"
  let ?d = "SkData slen dlen lin frags flist"
  let ?rest = "concat frags @ concat (map skb_bytes flist)"
  have IH: "\<forall>d \<in> set flist. sk_wf d \<and> (\<forall>m n. 0 < n \<longrightarrow> n < 2 ^ 31 \<longrightarrow> skb_copy_bits d (int m) (int n) = copy_spec d m n)"
    using SkData by auto
  have bs: "skb_bytes ?d = take H lin @ ?rest" by (simp add: H_def)
  have L: "length (skb_bytes ?d) = N"
    using length_skb_bytes [OF SkData.prems(1)] by (simp add: N_def)
  have h: "sint (slen - dlen) = int H" "H \<le> N" "H \<le> length lin"
    and sl: "sint slen = int N" "N < 2 ^ 31"
    using SkData.prems(1) by (auto simp: sint_eq_unat unat_sub word_le_nat_alt H_def N_def)
  have s: "s32 (int N - int n) = int N - int n"
    using sl(2) SkData.prems(3) by (intro s32_small) auto
  have rest: "length ?rest = N - H" using L h by (simp add: bs del: skb_bytes.simps)
  consider (short) "N < m + n" | (frag) "m + n \<le> N" "H \<le> m"
    | (lin) "m + n \<le> H" | (both) "m + n \<le> N" "m < H" "H < m + n"
    by linarith
  then show ?case
  proof cases
    case short
    then have "int N - int n < int m" by linarith
    with short show ?thesis by (simp add: copy_spec_def L s sl Let_def del: skb_bytes.simps)
  next
    case frag
    then have g: "\<not> int N - int n < int m" "int m = int H + int (m - H)" "n \<le> length (drop (m - H) ?rest)"
      using rest by auto
    have "skb_copy_bits ?d (int m) (int n) = Ok (Some (take n (drop (m - H) ?rest)))"
      using frag copy_rest_spec [OF IH _ _ refl, of n frags "int H" "m - H" "[]"] SkData.prems g
      by (simp add: h s sl Let_def del: of_nat_diff)
    then show ?thesis using frag L h by (simp add: copy_spec_def bs del: skb_bytes.simps)
  next
    case lin
    then have "\<not> int N - int n < int m" "int m < int H" "int n < int H - int m \<or> n = H - m"
      using h SkData.prems by auto
    with lin h L show ?thesis
      by (auto simp: copy_spec_def s sl rd_mem_def bs Let_def drop_take min_def nat_diff_distrib
        simp del: skb_bytes.simps)
  next
    case both
    let ?c = "H - m" and ?to = "drop m (take H lin)"
    have g: "\<not> int N - int n < int m" "int m < int H" "\<not> int n < int H - int m" "int n \<noteq> int H - int m"
      "n - ?c \<le> length ?rest" "n - ?c < 2 ^ 31"
      using both rest SkData.prems by auto
    have rd: "rd_mem lin (int m) (nat (int H - int m)) = Ok ?to"
      using both h by (simp add: rd_mem_def take_drop nat_diff_distrib)
    have "skb_copy_bits ?d (int m) (int n) = Ok (Some (?to @ take (n - ?c) ?rest))"
      using both g copy_rest_spec [OF IH _ _ refl, of "n - ?c" frags "int H" 0 ?to] SkData.prems
      by (simp add: h s sl rd Let_def diff_diff_eq2)
    then show ?thesis using both L h by (simp add: copy_spec_def bs del: skb_bytes.simps)
  qed
qed

end
