(* ===== verification/SockFilter.thy ===== *)
theory SockFilter
  imports Prelude SkBuff
begin

text \<open>
  The socket filter of \<open>net/core/filter.c\<close>: the checker \<open>sk_chk_filter\<close>, which rewrites user codes
  into the internal codes of \<open>include/linux/filter.h\<close>, the interpreter \<open>sk_run_filter\<close>, and the
  attachment of filters to sockets. The packet is the \<open>sk_buff\<close> of theory \<open>SkBuff\<close>.
\<close>

section \<open>Instructions\<close>

record sock_filter =
  f_code :: u16
  f_jt :: u8
  f_jf :: u8
  f_k :: u32

abbreviation (input) BPF_LD :: u16 where "BPF_LD \<equiv> 0x00"
abbreviation (input) BPF_LDX :: u16 where "BPF_LDX \<equiv> 0x01"
abbreviation (input) BPF_ST :: u16 where "BPF_ST \<equiv> 0x02"
abbreviation (input) BPF_STX :: u16 where "BPF_STX \<equiv> 0x03"
abbreviation (input) BPF_ALU :: u16 where "BPF_ALU \<equiv> 0x04"
abbreviation (input) BPF_JMP :: u16 where "BPF_JMP \<equiv> 0x05"
abbreviation (input) BPF_RET :: u16 where "BPF_RET \<equiv> 0x06"
abbreviation (input) BPF_MISC :: u16 where "BPF_MISC \<equiv> 0x07"
abbreviation (input) BPF_W :: u16 where "BPF_W \<equiv> 0x00"
abbreviation (input) BPF_H :: u16 where "BPF_H \<equiv> 0x08"
abbreviation (input) BPF_B :: u16 where "BPF_B \<equiv> 0x10"
abbreviation (input) BPF_IMM :: u16 where "BPF_IMM \<equiv> 0x00"
abbreviation (input) BPF_ABS :: u16 where "BPF_ABS \<equiv> 0x20"
abbreviation (input) BPF_IND :: u16 where "BPF_IND \<equiv> 0x40"
abbreviation (input) BPF_MEM :: u16 where "BPF_MEM \<equiv> 0x60"
abbreviation (input) BPF_LEN :: u16 where "BPF_LEN \<equiv> 0x80"
abbreviation (input) BPF_MSH :: u16 where "BPF_MSH \<equiv> 0xa0"
abbreviation (input) BPF_ADD :: u16 where "BPF_ADD \<equiv> 0x00"
abbreviation (input) BPF_SUB :: u16 where "BPF_SUB \<equiv> 0x10"
abbreviation (input) BPF_MUL :: u16 where "BPF_MUL \<equiv> 0x20"
abbreviation (input) BPF_DIV :: u16 where "BPF_DIV \<equiv> 0x30"
abbreviation (input) BPF_OR :: u16 where "BPF_OR \<equiv> 0x40"
abbreviation (input) BPF_AND :: u16 where "BPF_AND \<equiv> 0x50"
abbreviation (input) BPF_LSH :: u16 where "BPF_LSH \<equiv> 0x60"
abbreviation (input) BPF_RSH :: u16 where "BPF_RSH \<equiv> 0x70"
abbreviation (input) BPF_NEG :: u16 where "BPF_NEG \<equiv> 0x80"
abbreviation (input) BPF_JA :: u16 where "BPF_JA \<equiv> 0x00"
abbreviation (input) BPF_JEQ :: u16 where "BPF_JEQ \<equiv> 0x10"
abbreviation (input) BPF_JGT :: u16 where "BPF_JGT \<equiv> 0x20"
abbreviation (input) BPF_JGE :: u16 where "BPF_JGE \<equiv> 0x30"
abbreviation (input) BPF_JSET :: u16 where "BPF_JSET \<equiv> 0x40"
abbreviation (input) BPF_K :: u16 where "BPF_K \<equiv> 0x00"
abbreviation (input) BPF_X :: u16 where "BPF_X \<equiv> 0x08"
abbreviation (input) BPF_A :: u16 where "BPF_A \<equiv> 0x10"
abbreviation (input) BPF_TAX :: u16 where "BPF_TAX \<equiv> 0x00"
abbreviation (input) BPF_TXA :: u16 where "BPF_TXA \<equiv> 0x80"

abbreviation (input) BPF_MAXINSNS :: nat where "BPF_MAXINSNS \<equiv> 4096"
abbreviation (input) BPF_MEMWORDS :: nat where "BPF_MEMWORDS \<equiv> 16"

text \<open>The internal codes, in the order of the enumeration.\<close>

datatype bpf_s =
  BPF_S_RET_K | BPF_S_RET_A | BPF_S_ALU_ADD_K | BPF_S_ALU_ADD_X | BPF_S_ALU_SUB_K |
  BPF_S_ALU_SUB_X | BPF_S_ALU_MUL_K | BPF_S_ALU_MUL_X | BPF_S_ALU_DIV_X | BPF_S_ALU_AND_K |
  BPF_S_ALU_AND_X | BPF_S_ALU_OR_K | BPF_S_ALU_OR_X | BPF_S_ALU_LSH_K | BPF_S_ALU_LSH_X |
  BPF_S_ALU_RSH_K | BPF_S_ALU_RSH_X | BPF_S_ALU_NEG | BPF_S_LD_W_ABS | BPF_S_LD_H_ABS |
  BPF_S_LD_B_ABS | BPF_S_LD_W_LEN | BPF_S_LD_W_IND | BPF_S_LD_H_IND | BPF_S_LD_B_IND |
  BPF_S_LD_IMM | BPF_S_LDX_W_LEN | BPF_S_LDX_B_MSH | BPF_S_LDX_IMM | BPF_S_MISC_TAX |
  BPF_S_MISC_TXA | BPF_S_ALU_DIV_K | BPF_S_LD_MEM | BPF_S_LDX_MEM | BPF_S_ST | BPF_S_STX |
  BPF_S_JMP_JA | BPF_S_JMP_JEQ_K | BPF_S_JMP_JEQ_X | BPF_S_JMP_JGE_K | BPF_S_JMP_JGE_X |
  BPF_S_JMP_JGT_K | BPF_S_JMP_JGT_X | BPF_S_JMP_JSET_K | BPF_S_JMP_JSET_X

primrec bpf_s_code :: "bpf_s \<Rightarrow> u16" where
  "bpf_s_code BPF_S_RET_K = 0"
| "bpf_s_code BPF_S_RET_A = 1"
| "bpf_s_code BPF_S_ALU_ADD_K = 2"
| "bpf_s_code BPF_S_ALU_ADD_X = 3"
| "bpf_s_code BPF_S_ALU_SUB_K = 4"
| "bpf_s_code BPF_S_ALU_SUB_X = 5"
| "bpf_s_code BPF_S_ALU_MUL_K = 6"
| "bpf_s_code BPF_S_ALU_MUL_X = 7"
| "bpf_s_code BPF_S_ALU_DIV_X = 8"
| "bpf_s_code BPF_S_ALU_AND_K = 9"
| "bpf_s_code BPF_S_ALU_AND_X = 10"
| "bpf_s_code BPF_S_ALU_OR_K = 11"
| "bpf_s_code BPF_S_ALU_OR_X = 12"
| "bpf_s_code BPF_S_ALU_LSH_K = 13"
| "bpf_s_code BPF_S_ALU_LSH_X = 14"
| "bpf_s_code BPF_S_ALU_RSH_K = 15"
| "bpf_s_code BPF_S_ALU_RSH_X = 16"
| "bpf_s_code BPF_S_ALU_NEG = 17"
| "bpf_s_code BPF_S_LD_W_ABS = 18"
| "bpf_s_code BPF_S_LD_H_ABS = 19"
| "bpf_s_code BPF_S_LD_B_ABS = 20"
| "bpf_s_code BPF_S_LD_W_LEN = 21"
| "bpf_s_code BPF_S_LD_W_IND = 22"
| "bpf_s_code BPF_S_LD_H_IND = 23"
| "bpf_s_code BPF_S_LD_B_IND = 24"
| "bpf_s_code BPF_S_LD_IMM = 25"
| "bpf_s_code BPF_S_LDX_W_LEN = 26"
| "bpf_s_code BPF_S_LDX_B_MSH = 27"
| "bpf_s_code BPF_S_LDX_IMM = 28"
| "bpf_s_code BPF_S_MISC_TAX = 29"
| "bpf_s_code BPF_S_MISC_TXA = 30"
| "bpf_s_code BPF_S_ALU_DIV_K = 31"
| "bpf_s_code BPF_S_LD_MEM = 32"
| "bpf_s_code BPF_S_LDX_MEM = 33"
| "bpf_s_code BPF_S_ST = 34"
| "bpf_s_code BPF_S_STX = 35"
| "bpf_s_code BPF_S_JMP_JA = 36"
| "bpf_s_code BPF_S_JMP_JEQ_K = 37"
| "bpf_s_code BPF_S_JMP_JEQ_X = 38"
| "bpf_s_code BPF_S_JMP_JGE_K = 39"
| "bpf_s_code BPF_S_JMP_JGE_X = 40"
| "bpf_s_code BPF_S_JMP_JGT_K = 41"
| "bpf_s_code BPF_S_JMP_JGT_X = 42"
| "bpf_s_code BPF_S_JMP_JSET_K = 43"
| "bpf_s_code BPF_S_JMP_JSET_X = 44"

definition bpf_s_all :: "bpf_s list" where
  "bpf_s_all =
   [BPF_S_RET_K, BPF_S_RET_A, BPF_S_ALU_ADD_K, BPF_S_ALU_ADD_X, BPF_S_ALU_SUB_K, BPF_S_ALU_SUB_X,
    BPF_S_ALU_MUL_K, BPF_S_ALU_MUL_X, BPF_S_ALU_DIV_X, BPF_S_ALU_AND_K, BPF_S_ALU_AND_X,
    BPF_S_ALU_OR_K, BPF_S_ALU_OR_X, BPF_S_ALU_LSH_K, BPF_S_ALU_LSH_X, BPF_S_ALU_RSH_K,
    BPF_S_ALU_RSH_X, BPF_S_ALU_NEG, BPF_S_LD_W_ABS, BPF_S_LD_H_ABS, BPF_S_LD_B_ABS, BPF_S_LD_W_LEN,
    BPF_S_LD_W_IND, BPF_S_LD_H_IND, BPF_S_LD_B_IND, BPF_S_LD_IMM, BPF_S_LDX_W_LEN, BPF_S_LDX_B_MSH,
    BPF_S_LDX_IMM, BPF_S_MISC_TAX, BPF_S_MISC_TXA, BPF_S_ALU_DIV_K, BPF_S_LD_MEM, BPF_S_LDX_MEM,
    BPF_S_ST, BPF_S_STX, BPF_S_JMP_JA, BPF_S_JMP_JEQ_K, BPF_S_JMP_JEQ_X, BPF_S_JMP_JGE_K,
    BPF_S_JMP_JGE_X, BPF_S_JMP_JGT_K, BPF_S_JMP_JGT_X, BPF_S_JMP_JSET_K, BPF_S_JMP_JSET_X]"

text \<open>\<open>switch_code c\<close> is the case label a \<open>switch\<close> over the internal codes jumps to, \<open>None\<close> for
  \<open>default\<close>.\<close>

definition switch_code :: "u16 \<Rightarrow> bpf_s option" where
  "switch_code c = List.find (\<lambda>s. bpf_s_code s = c) bpf_s_all"

section \<open>The checker\<close>

text \<open>The cases of the first \<open>switch\<close> of \<open>sk_chk_filter\<close> that only rewrite the code.\<close>

definition chk_plain :: "(u16 \<times> bpf_s) list" where
  "chk_plain =
    [(BPF_ALU OR BPF_ADD OR BPF_K, BPF_S_ALU_ADD_K),
     (BPF_ALU OR BPF_ADD OR BPF_X, BPF_S_ALU_ADD_X),
     (BPF_ALU OR BPF_SUB OR BPF_K, BPF_S_ALU_SUB_K),
     (BPF_ALU OR BPF_SUB OR BPF_X, BPF_S_ALU_SUB_X),
     (BPF_ALU OR BPF_MUL OR BPF_K, BPF_S_ALU_MUL_K),
     (BPF_ALU OR BPF_MUL OR BPF_X, BPF_S_ALU_MUL_X),
     (BPF_ALU OR BPF_DIV OR BPF_X, BPF_S_ALU_DIV_X),
     (BPF_ALU OR BPF_AND OR BPF_K, BPF_S_ALU_AND_K),
     (BPF_ALU OR BPF_AND OR BPF_X, BPF_S_ALU_AND_X),
     (BPF_ALU OR BPF_OR OR BPF_K, BPF_S_ALU_OR_K),
     (BPF_ALU OR BPF_OR OR BPF_X, BPF_S_ALU_OR_X),
     (BPF_ALU OR BPF_LSH OR BPF_K, BPF_S_ALU_LSH_K),
     (BPF_ALU OR BPF_LSH OR BPF_X, BPF_S_ALU_LSH_X),
     (BPF_ALU OR BPF_RSH OR BPF_K, BPF_S_ALU_RSH_K),
     (BPF_ALU OR BPF_RSH OR BPF_X, BPF_S_ALU_RSH_X),
     (BPF_ALU OR BPF_NEG, BPF_S_ALU_NEG),
     (BPF_LD OR BPF_W OR BPF_ABS, BPF_S_LD_W_ABS),
     (BPF_LD OR BPF_H OR BPF_ABS, BPF_S_LD_H_ABS),
     (BPF_LD OR BPF_B OR BPF_ABS, BPF_S_LD_B_ABS),
     (BPF_LD OR BPF_W OR BPF_LEN, BPF_S_LD_W_LEN),
     (BPF_LD OR BPF_W OR BPF_IND, BPF_S_LD_W_IND),
     (BPF_LD OR BPF_H OR BPF_IND, BPF_S_LD_H_IND),
     (BPF_LD OR BPF_B OR BPF_IND, BPF_S_LD_B_IND),
     (BPF_LD OR BPF_IMM, BPF_S_LD_IMM),
     (BPF_LDX OR BPF_W OR BPF_LEN, BPF_S_LDX_W_LEN),
     (BPF_LDX OR BPF_B OR BPF_MSH, BPF_S_LDX_B_MSH),
     (BPF_LDX OR BPF_IMM, BPF_S_LDX_IMM),
     (BPF_MISC OR BPF_TAX, BPF_S_MISC_TAX),
     (BPF_MISC OR BPF_TXA, BPF_S_MISC_TXA),
     (BPF_RET OR BPF_K, BPF_S_RET_K),
     (BPF_RET OR BPF_A, BPF_S_RET_A),
     (BPF_JMP OR BPF_JEQ OR BPF_K, BPF_S_JMP_JEQ_K),
     (BPF_JMP OR BPF_JEQ OR BPF_X, BPF_S_JMP_JEQ_X),
     (BPF_JMP OR BPF_JGE OR BPF_K, BPF_S_JMP_JGE_K),
     (BPF_JMP OR BPF_JGE OR BPF_X, BPF_S_JMP_JGE_X),
     (BPF_JMP OR BPF_JGT OR BPF_K, BPF_S_JMP_JGT_K),
     (BPF_JMP OR BPF_JGT OR BPF_X, BPF_S_JMP_JGT_X),
     (BPF_JMP OR BPF_JSET OR BPF_K, BPF_S_JMP_JSET_K),
     (BPF_JMP OR BPF_JSET OR BPF_X, BPF_S_JMP_JSET_X)]"

text \<open>The first \<open>switch\<close>: the internal code, or \<open>None\<close> where the code returns \<open>-EINVAL\<close>.\<close>

definition chk_code :: "nat \<Rightarrow> nat \<Rightarrow> sock_filter \<Rightarrow> bpf_s option" where
  "chk_code flen pc ftest =
    (case map_of chk_plain (f_code ftest) of
       Some s \<Rightarrow> Some s
     | None \<Rightarrow>
        if f_code ftest = BPF_ALU OR BPF_DIV OR BPF_K then
          (if f_k ftest = 0 then None else Some BPF_S_ALU_DIV_K)
        else if f_code ftest = BPF_LD OR BPF_MEM then
          (if f_k ftest \<ge> of_nat BPF_MEMWORDS then None else Some BPF_S_LD_MEM)
        else if f_code ftest = BPF_LDX OR BPF_MEM then
          (if f_k ftest \<ge> of_nat BPF_MEMWORDS then None else Some BPF_S_LDX_MEM)
        else if f_code ftest = BPF_ST then
          (if f_k ftest \<ge> of_nat BPF_MEMWORDS then None else Some BPF_S_ST)
        else if f_code ftest = BPF_STX then
          (if f_k ftest \<ge> of_nat BPF_MEMWORDS then None else Some BPF_S_STX)
        else if f_code ftest = BPF_JMP OR BPF_JA then
          (if f_k ftest \<ge> of_int (int flen - int pc - 1) then None else Some BPF_S_JMP_JA)
        else None)"

definition is_cond_jump :: "bpf_s \<Rightarrow> bool" where
  "is_cond_jump s \<longleftrightarrow> s \<in> {BPF_S_JMP_JEQ_K, BPF_S_JMP_JEQ_X, BPF_S_JMP_JGE_K, BPF_S_JMP_JGE_X,
     BPF_S_JMP_JGT_K, BPF_S_JMP_JGT_X, BPF_S_JMP_JSET_X, BPF_S_JMP_JSET_K}"

text \<open>The loop over the instructions. The array is rewritten in place, so it is part of the result
  also when the check fails half way.\<close>

fun chk_insns :: "nat \<Rightarrow> nat \<Rightarrow> sock_filter list \<Rightarrow> int \<times> sock_filter list" where
  "chk_insns flen pc [] = (0, [])"
| "chk_insns flen pc (ftest # rest) =
    (case chk_code flen pc ftest of
       None \<Rightarrow> (- EINVAL, ftest # rest)
     | Some s \<Rightarrow>
        let ftest' = ftest\<lparr>f_code := bpf_s_code s\<rparr>
        in if is_cond_jump s \<and>
              (pc + unat (f_jt ftest) + 1 \<ge> flen \<or> pc + unat (f_jf ftest) + 1 \<ge> flen)
           then (- EINVAL, ftest' # rest)
           else (let (r, rest') = chk_insns flen (Suc pc) rest in (r, ftest' # rest')))"

definition sk_chk_filter :: "sock_filter list \<Rightarrow> int \<times> sock_filter list" where
  "sk_chk_filter insns =
    (let flen = length insns
     in if flen = 0 \<or> flen > BPF_MAXINSNS then (- EINVAL, insns)
        else (case chk_insns flen 0 insns of
          (r, insns') \<Rightarrow>
            if r \<noteq> 0 then (r, insns')
            else (case switch_code (f_code (insns' ! (flen - 1))) of
                Some BPF_S_RET_K \<Rightarrow> (0, insns')
              | Some BPF_S_RET_A \<Rightarrow> (0, insns')
              | _ \<Rightarrow> (- EINVAL, insns'))))"

section \<open>The interpreter\<close>

text \<open>The registers and scratch memory of \<open>sk_run_filter\<close>; \<open>rpc\<close> is the C \<open>int\<close> of the loop.\<close>

record bpf_state =
  rA :: u32
  rX :: u32
  rmem :: "u32 list"
  memvalid :: u32
  rpc :: int

text \<open>How one instruction ends: with \<open>continue\<close>, with a \<open>return\<close>, or with undefined behaviour.\<close>

datatype bpf_res = Next bpf_state | Return u32 | StepFault

text \<open>C leaves a shift by 32 or more to the machine, so its result is a parameter.\<close>

record bpf_arch =
  wide_lsh :: "u32 \<Rightarrow> u32 \<Rightarrow> u32"
  wide_rsh :: "u32 \<Rightarrow> u32 \<Rightarrow> u32"

definition lsh32 :: "bpf_arch \<Rightarrow> u32 \<Rightarrow> u32 \<Rightarrow> u32" where
  "lsh32 ar a n = (if n < 32 then push_bit (unat n) a else wide_lsh ar a n)"

definition rsh32 :: "bpf_arch \<Rightarrow> u32 \<Rightarrow> u32 \<Rightarrow> u32" where
  "rsh32 ar a n = (if n < 32 then drop_bit (unat n) a else wide_rsh ar a n)"

abbreviation (input) SKF_AD_OFF :: int where "SKF_AD_OFF \<equiv> - 0x1000"
abbreviation (input) SKF_NET_OFF :: int where "SKF_NET_OFF \<equiv> - 0x100000"
abbreviation (input) SKF_LL_OFF :: int where "SKF_LL_OFF \<equiv> - 0x200000"

text \<open>\<open>__load_pointer\<close>: an offset relative to the network or link layer header.\<close>

definition load_pointer_neg :: "sk_buff \<Rightarrow> int \<Rightarrow> skb_ptr" where
  "load_pointer_neg skb k =
    (let ptr = (if k \<ge> SKF_NET_OFF then Some (skb_network_header skb + k - SKF_NET_OFF)
                else if k \<ge> SKF_LL_OFF then Some (skb_mac_header skb + k - SKF_LL_OFF)
                else None)
     in case ptr of
          None \<Rightarrow> PNull
        | Some off \<Rightarrow> if off \<ge> 0 \<and> off < int (skb_tail skb) then PHead off else PNull)"

definition load_pointer :: "sk_buff \<Rightarrow> int \<Rightarrow> nat \<Rightarrow> skb_ptr outcome" where
  "load_pointer skb k sz =
    (if k \<ge> 0 then skb_header_pointer skb k sz
     else if k \<ge> SKF_AD_OFF then Ok PNull
     else Ok (load_pointer_neg skb k))"

definition ntohs :: "u16 \<Rightarrow> u16" where
  "ntohs w = push_bit 8 w OR drop_bit 8 w"

text \<open>The tail of the two netlink attribute loads: the offset of the attribute found, or 0.\<close>

definition nla_result :: "sk_buff \<Rightarrow> bpf_state \<Rightarrow> int option outcome \<Rightarrow> bpf_res" where
  "nla_result skb st r = (case r of
      Fault \<Rightarrow> StepFault
    | Ok (Some nla) \<Rightarrow> Next (st\<lparr>rA := word_of_int (nla - int (skb_data skb))\<rparr>)
    | Ok None \<Rightarrow> Next (st\<lparr>rA := 0\<rparr>))"

text \<open>The second \<open>switch\<close> of the loop body: ancillary data.\<close>

definition bpf_ancillary :: "sk_buff \<Rightarrow> bpf_state \<Rightarrow> int \<Rightarrow> bpf_res" where
  "bpf_ancillary skb st k =
    (let ad = s32 (k - SKF_AD_OFF)
     in if ad = 0 then Next (st\<lparr>rA := ucast (ntohs (skb_protocol skb))\<rparr>)
        else if ad = 4 then Next (st\<lparr>rA := ucast (skb_pkt_type skb)\<rparr>)
        else if ad = 8 then
          (case skb_dev skb of
             None \<Rightarrow> Return 0 | Some dev \<Rightarrow> Next (st\<lparr>rA := word_of_int (ifindex dev)\<rparr>))
        else if ad = 20 then Next (st\<lparr>rA := skb_mark skb\<rparr>)
        else if ad = 24 then Next (st\<lparr>rA := ucast (skb_queue_mapping skb)\<rparr>)
        else if ad = 28 then
          (case skb_dev skb of
             None \<Rightarrow> Return 0 | Some dev \<Rightarrow> Next (st\<lparr>rA := ucast (dev_type dev)\<rparr>))
        else if ad = 12 then
          (if skb_is_nonlinear skb then Return 0
           else if rA st > skb_len skb - 4 then Return 0
           else nla_result skb st
             (nla_find (skb_head skb) (int (skb_data skb) + uint (rA st))
                (sint (skb_len skb - rA st)) (sint (rX st))))
        else if ad = 16 then
          (if skb_is_nonlinear skb then Return 0
           else if rA st > skb_len skb - 4 then Return 0
           else
             (let nla = int (skb_data skb) + uint (rA st)
              in case nla_len_at (skb_head skb) nla of
                   Fault \<Rightarrow> StepFault
                 | Ok l \<Rightarrow>
                    if ucast l > rA st - skb_len skb then Return 0
                    else nla_result skb st
                      (nla_find (skb_head skb) (nla + 4) (uint l - 4) (sint (rX st)))))
        else Return 0)"

text \<open>The packet loads (labels \<open>load_w\<close>, \<open>load_h\<close>, \<open>load_b\<close>); a failed load falls through to the
  ancillary data.\<close>

definition bpf_load :: "sk_buff \<Rightarrow> bpf_state \<Rightarrow> u32 \<Rightarrow> nat \<Rightarrow> (u8 list \<Rightarrow> u32) \<Rightarrow> bpf_res" where
  "bpf_load skb st k sz conv =
    (case load_pointer skb (sint k) sz of
       Fault \<Rightarrow> StepFault
     | Ok PNull \<Rightarrow> bpf_ancillary skb st (sint k)
     | Ok p \<Rightarrow> (case rd_ptr skb p sz of
          Fault \<Rightarrow> StepFault
        | Ok bs \<Rightarrow> Next (st\<lparr>rA := conv bs\<rparr>)))"

definition bpf_jump :: "sock_filter \<Rightarrow> bpf_state \<Rightarrow> bool \<Rightarrow> bpf_res" where
  "bpf_jump fentry st cond =
    Next (st\<lparr>rpc := s32 (rpc st + (if cond then uint (f_jt fentry) else uint (f_jf fentry)))\<rparr>)"

text \<open>Scratch memory: \<open>mem[k]\<close> is read only where \<open>memvalid\<close> says it was written.\<close>

definition bpf_mem_read :: "bpf_state \<Rightarrow> u32 \<Rightarrow> u32 outcome" where
  "bpf_mem_read st k =
    (if unat k \<ge> BPF_MEMWORDS then Fault
     else if memvalid st AND push_bit (unat k) 1 \<noteq> 0 then Ok (rmem st ! unat k) else Ok 0)"

definition bpf_mem_write :: "bpf_state \<Rightarrow> u32 \<Rightarrow> u32 \<Rightarrow> bpf_res" where
  "bpf_mem_write st k v =
    (if unat k \<ge> BPF_MEMWORDS then StepFault
     else Next (st\<lparr>memvalid := memvalid st OR push_bit (unat k) 1, rmem := (rmem st)[unat k := v]\<rparr>))"

text \<open>The first \<open>switch\<close> of the loop body.\<close>

primrec bpf_exec :: "bpf_arch \<Rightarrow> sk_buff \<Rightarrow> sock_filter \<Rightarrow> bpf_state \<Rightarrow> bpf_s \<Rightarrow> bpf_res" where
  "bpf_exec ar skb fentry st BPF_S_ALU_ADD_X = Next (st\<lparr>rA := rA st + rX st\<rparr>)"
| "bpf_exec ar skb fentry st BPF_S_ALU_ADD_K = Next (st\<lparr>rA := rA st + f_k fentry\<rparr>)"
| "bpf_exec ar skb fentry st BPF_S_ALU_SUB_X = Next (st\<lparr>rA := rA st - rX st\<rparr>)"
| "bpf_exec ar skb fentry st BPF_S_ALU_SUB_K = Next (st\<lparr>rA := rA st - f_k fentry\<rparr>)"
| "bpf_exec ar skb fentry st BPF_S_ALU_MUL_X = Next (st\<lparr>rA := rA st * rX st\<rparr>)"
| "bpf_exec ar skb fentry st BPF_S_ALU_MUL_K = Next (st\<lparr>rA := rA st * f_k fentry\<rparr>)"
| "bpf_exec ar skb fentry st BPF_S_ALU_DIV_X = (if rX st = 0 then Return 0 else Next (st\<lparr>rA := rA st div rX st\<rparr>))"
| "bpf_exec ar skb fentry st BPF_S_ALU_DIV_K = (if f_k fentry = 0 then StepFault else Next (st\<lparr>rA := rA st div f_k fentry\<rparr>))"
| "bpf_exec ar skb fentry st BPF_S_ALU_AND_X = Next (st\<lparr>rA := rA st AND rX st\<rparr>)"
| "bpf_exec ar skb fentry st BPF_S_ALU_AND_K = Next (st\<lparr>rA := rA st AND f_k fentry\<rparr>)"
| "bpf_exec ar skb fentry st BPF_S_ALU_OR_X = Next (st\<lparr>rA := rA st OR rX st\<rparr>)"
| "bpf_exec ar skb fentry st BPF_S_ALU_OR_K = Next (st\<lparr>rA := rA st OR f_k fentry\<rparr>)"
| "bpf_exec ar skb fentry st BPF_S_ALU_LSH_X = Next (st\<lparr>rA := lsh32 ar (rA st) (rX st)\<rparr>)"
| "bpf_exec ar skb fentry st BPF_S_ALU_LSH_K = Next (st\<lparr>rA := lsh32 ar (rA st) (f_k fentry)\<rparr>)"
| "bpf_exec ar skb fentry st BPF_S_ALU_RSH_X = Next (st\<lparr>rA := rsh32 ar (rA st) (rX st)\<rparr>)"
| "bpf_exec ar skb fentry st BPF_S_ALU_RSH_K = Next (st\<lparr>rA := rsh32 ar (rA st) (f_k fentry)\<rparr>)"
| "bpf_exec ar skb fentry st BPF_S_ALU_NEG = Next (st\<lparr>rA := - rA st\<rparr>)"
| "bpf_exec ar skb fentry st BPF_S_JMP_JA = Next (st\<lparr>rpc := sint (word_of_int (rpc st) + f_k fentry)\<rparr>)"
| "bpf_exec ar skb fentry st BPF_S_JMP_JGT_K = bpf_jump fentry st (rA st > f_k fentry)"
| "bpf_exec ar skb fentry st BPF_S_JMP_JGE_K = bpf_jump fentry st (rA st \<ge> f_k fentry)"
| "bpf_exec ar skb fentry st BPF_S_JMP_JEQ_K = bpf_jump fentry st (rA st = f_k fentry)"
| "bpf_exec ar skb fentry st BPF_S_JMP_JSET_K = bpf_jump fentry st (rA st AND f_k fentry \<noteq> 0)"
| "bpf_exec ar skb fentry st BPF_S_JMP_JGT_X = bpf_jump fentry st (rA st > rX st)"
| "bpf_exec ar skb fentry st BPF_S_JMP_JGE_X = bpf_jump fentry st (rA st \<ge> rX st)"
| "bpf_exec ar skb fentry st BPF_S_JMP_JEQ_X = bpf_jump fentry st (rA st = rX st)"
| "bpf_exec ar skb fentry st BPF_S_JMP_JSET_X = bpf_jump fentry st (rA st AND rX st \<noteq> 0)"
| "bpf_exec ar skb fentry st BPF_S_LD_W_ABS = bpf_load skb st (f_k fentry) 4 be32"
| "bpf_exec ar skb fentry st BPF_S_LD_H_ABS = bpf_load skb st (f_k fentry) 2 (\<lambda>bs. ucast (be16 bs))"
| "bpf_exec ar skb fentry st BPF_S_LD_B_ABS = bpf_load skb st (f_k fentry) 1 (\<lambda>bs. ucast (hd bs))"
| "bpf_exec ar skb fentry st BPF_S_LD_W_LEN = Next (st\<lparr>rA := skb_len skb\<rparr>)"
| "bpf_exec ar skb fentry st BPF_S_LDX_W_LEN = Next (st\<lparr>rX := skb_len skb\<rparr>)"
| "bpf_exec ar skb fentry st BPF_S_LD_W_IND = bpf_load skb st (rX st + f_k fentry) 4 be32"
| "bpf_exec ar skb fentry st BPF_S_LD_H_IND = bpf_load skb st (rX st + f_k fentry) 2 (\<lambda>bs. ucast (be16 bs))"
| "bpf_exec ar skb fentry st BPF_S_LD_B_IND = bpf_load skb st (rX st + f_k fentry) 1 (\<lambda>bs. ucast (hd bs))"
| "bpf_exec ar skb fentry st BPF_S_LDX_B_MSH =
    (case load_pointer skb (sint (f_k fentry)) 1 of
       Fault \<Rightarrow> StepFault
     | Ok PNull \<Rightarrow> Return 0
     | Ok p \<Rightarrow> (case rd_ptr skb p 1 of
          Fault \<Rightarrow> StepFault
        | Ok bs \<Rightarrow> Next (st\<lparr>rX := push_bit 2 (ucast (hd bs AND 0xf))\<rparr>)))"
| "bpf_exec ar skb fentry st BPF_S_LD_IMM = Next (st\<lparr>rA := f_k fentry\<rparr>)"
| "bpf_exec ar skb fentry st BPF_S_LDX_IMM = Next (st\<lparr>rX := f_k fentry\<rparr>)"
| "bpf_exec ar skb fentry st BPF_S_LD_MEM =
    (case bpf_mem_read st (f_k fentry) of Fault \<Rightarrow> StepFault | Ok v \<Rightarrow> Next (st\<lparr>rA := v\<rparr>))"
| "bpf_exec ar skb fentry st BPF_S_LDX_MEM =
    (case bpf_mem_read st (f_k fentry) of Fault \<Rightarrow> StepFault | Ok v \<Rightarrow> Next (st\<lparr>rX := v\<rparr>))"
| "bpf_exec ar skb fentry st BPF_S_MISC_TAX = Next (st\<lparr>rX := rA st\<rparr>)"
| "bpf_exec ar skb fentry st BPF_S_MISC_TXA = Next (st\<lparr>rA := rX st\<rparr>)"
| "bpf_exec ar skb fentry st BPF_S_RET_K = Return (f_k fentry)"
| "bpf_exec ar skb fentry st BPF_S_RET_A = Return (rA st)"
| "bpf_exec ar skb fentry st BPF_S_ST = bpf_mem_write st (f_k fentry) (rA st)"
| "bpf_exec ar skb fentry st BPF_S_STX = bpf_mem_write st (f_k fentry) (rX st)"

text \<open>One pass of the loop body; an unknown code warns and returns 0.\<close>

definition bpf_step :: "bpf_arch \<Rightarrow> sk_buff \<Rightarrow> sock_filter list \<Rightarrow> bpf_state \<Rightarrow> bpf_res" where
  "bpf_step ar skb insns st =
    (if rpc st < 0 then StepFault
     else let fentry = insns ! nat (rpc st)
          in case switch_code (f_code fentry) of
               None \<Rightarrow> Return 0
             | Some s \<Rightarrow> bpf_exec ar skb fentry st s)"

text \<open>The \<open>for\<close> loop. \<open>None\<close> means that it never ends.\<close>

partial_function (option) bpf_loop ::
  "bpf_arch \<Rightarrow> sk_buff \<Rightarrow> sock_filter list \<Rightarrow> bpf_state \<Rightarrow> u32 outcome option" where
  "bpf_loop ar skb insns st =
    (if rpc st < int (length insns) then
       (case bpf_step ar skb insns st of
          StepFault \<Rightarrow> Some Fault
        | Return v \<Rightarrow> Some (Ok v)
        | Next st' \<Rightarrow> bpf_loop ar skb insns (st'\<lparr>rpc := s32 (rpc st' + 1)\<rparr>))
     else Some (Ok 0))"

text \<open>\<open>mem0\<close> is the uninitialised stack the scratch memory starts with.\<close>

definition sk_run_filter ::
  "bpf_arch \<Rightarrow> u32 list \<Rightarrow> sk_buff \<Rightarrow> sock_filter list \<Rightarrow> u32 outcome option" where
  "sk_run_filter ar mem0 skb insns =
    bpf_loop ar skb insns \<lparr>rA = 0, rX = 0, rmem = mem0, memvalid = 0, rpc = 0\<rparr>"

end
