(* ===== verification/FilterCheck.thy ===== *)
theory FilterCheck
  imports SockFilter
begin

text \<open>
  What \<open>sk_chk_filter\<close> accepts: the programs that are legal by the declarative reading of the
  instruction set, and what it guarantees of the rewritten program it hands to the interpreter.
\<close>

lemma switch_code_code [simp]: "switch_code (bpf_s_code s) = Some s"
  by (cases s) (simp_all add: switch_code_def bpf_s_all_def)

section \<open>What the checker accepts\<close>

primrec bpf_raw :: "bpf_s \<Rightarrow> u16" where
  "bpf_raw BPF_S_RET_K = 0x06"
| "bpf_raw BPF_S_RET_A = 0x16"
| "bpf_raw BPF_S_ALU_ADD_K = 0x04"
| "bpf_raw BPF_S_ALU_ADD_X = 0x0c"
| "bpf_raw BPF_S_ALU_SUB_K = 0x14"
| "bpf_raw BPF_S_ALU_SUB_X = 0x1c"
| "bpf_raw BPF_S_ALU_MUL_K = 0x24"
| "bpf_raw BPF_S_ALU_MUL_X = 0x2c"
| "bpf_raw BPF_S_ALU_DIV_K = 0x34"
| "bpf_raw BPF_S_ALU_DIV_X = 0x3c"
| "bpf_raw BPF_S_ALU_OR_K = 0x44"
| "bpf_raw BPF_S_ALU_OR_X = 0x4c"
| "bpf_raw BPF_S_ALU_AND_K = 0x54"
| "bpf_raw BPF_S_ALU_AND_X = 0x5c"
| "bpf_raw BPF_S_ALU_LSH_K = 0x64"
| "bpf_raw BPF_S_ALU_LSH_X = 0x6c"
| "bpf_raw BPF_S_ALU_RSH_K = 0x74"
| "bpf_raw BPF_S_ALU_RSH_X = 0x7c"
| "bpf_raw BPF_S_ALU_NEG = 0x84"
| "bpf_raw BPF_S_LD_W_ABS = 0x20"
| "bpf_raw BPF_S_LD_H_ABS = 0x28"
| "bpf_raw BPF_S_LD_B_ABS = 0x30"
| "bpf_raw BPF_S_LD_W_LEN = 0x80"
| "bpf_raw BPF_S_LD_W_IND = 0x40"
| "bpf_raw BPF_S_LD_H_IND = 0x48"
| "bpf_raw BPF_S_LD_B_IND = 0x50"
| "bpf_raw BPF_S_LD_IMM = 0x00"
| "bpf_raw BPF_S_LD_MEM = 0x60"
| "bpf_raw BPF_S_LDX_W_LEN = 0x81"
| "bpf_raw BPF_S_LDX_B_MSH = 0xb1"
| "bpf_raw BPF_S_LDX_IMM = 0x01"
| "bpf_raw BPF_S_LDX_MEM = 0x61"
| "bpf_raw BPF_S_ST = 0x02"
| "bpf_raw BPF_S_STX = 0x03"
| "bpf_raw BPF_S_MISC_TAX = 0x07"
| "bpf_raw BPF_S_MISC_TXA = 0x87"
| "bpf_raw BPF_S_JMP_JA = 0x05"
| "bpf_raw BPF_S_JMP_JEQ_K = 0x15"
| "bpf_raw BPF_S_JMP_JEQ_X = 0x1d"
| "bpf_raw BPF_S_JMP_JGT_K = 0x25"
| "bpf_raw BPF_S_JMP_JGT_X = 0x2d"
| "bpf_raw BPF_S_JMP_JGE_K = 0x35"
| "bpf_raw BPF_S_JMP_JGE_X = 0x3d"
| "bpf_raw BPF_S_JMP_JSET_K = 0x45"
| "bpf_raw BPF_S_JMP_JSET_X = 0x4d"

definition is_mem_op :: "bpf_s \<Rightarrow> bool" where
  "is_mem_op s \<longleftrightarrow> s \<in> {BPF_S_LD_MEM, BPF_S_LDX_MEM, BPF_S_ST, BPF_S_STX}"

definition operand_ok :: "nat \<Rightarrow> nat \<Rightarrow> bpf_s \<Rightarrow> sock_filter \<Rightarrow> bool" where
  "operand_ok flen i s f \<longleftrightarrow>
    (s = BPF_S_ALU_DIV_K \<longrightarrow> f_k f \<noteq> 0) \<and>
    (is_mem_op s \<longrightarrow> unat (f_k f) < BPF_MEMWORDS) \<and>
    (s = BPF_S_JMP_JA \<longrightarrow> i + unat (f_k f) + 1 < flen)"

definition targets_ok :: "nat \<Rightarrow> nat \<Rightarrow> bpf_s \<Rightarrow> sock_filter \<Rightarrow> bool" where
  "targets_ok flen i s f \<longleftrightarrow>
    (is_cond_jump s \<longrightarrow> i + unat (f_jt f) + 1 < flen \<and> i + unat (f_jf f) + 1 < flen)"

lemma chk_plain_sound:
  "(c, s) \<in> set chk_plain \<Longrightarrow> c = bpf_raw s \<and> s \<noteq> BPF_S_ALU_DIV_K \<and> \<not> is_mem_op s \<and> s \<noteq> BPF_S_JMP_JA"
  by (simp add: chk_plain_def is_mem_op_def) (elim disjE; simp)

lemma chk_plain_None:
  "map_of chk_plain (bpf_raw BPF_S_ALU_DIV_K) = None"
  "map_of chk_plain (bpf_raw BPF_S_LD_MEM) = None"
  "map_of chk_plain (bpf_raw BPF_S_LDX_MEM) = None"
  "map_of chk_plain (bpf_raw BPF_S_ST) = None"
  "map_of chk_plain (bpf_raw BPF_S_STX) = None"
  "map_of chk_plain (bpf_raw BPF_S_JMP_JA) = None"
  by (simp_all add: chk_plain_def)

lemma chk_plain_complete:
  "s \<noteq> BPF_S_ALU_DIV_K \<Longrightarrow> \<not> is_mem_op s \<Longrightarrow> s \<noteq> BPF_S_JMP_JA \<Longrightarrow> map_of chk_plain (bpf_raw s) = Some s"
  by (cases s) (simp_all add: chk_plain_def is_mem_op_def)

lemma ja_bound:
  assumes "i < flen" "flen \<le> 4096"
  shows "(k :: u32) \<ge> of_int (int flen - int i - 1) \<longleftrightarrow> \<not> (i + unat k + 1 < flen)"
proof -
  have eq: "(of_int (int flen - int i - 1) :: u32) = of_nat (flen - i - 1)"
    using assms(1) by (simp flip: of_nat_Suc add: algebra_simps)
  have "unat (of_nat (flen - i - 1) :: u32) = flen - i - 1"
    using assms by (intro unat_of_nat_u32) simp
  then show ?thesis
    unfolding eq word_le_nat_alt using assms(1) by linarith
qed

lemma mem_bound: "(k :: u32) \<ge> of_nat 16 \<longleftrightarrow> \<not> unat k < 16"
  by (simp add: word_le_nat_alt not_less)

lemma special_codes:
  "BPF_ALU OR BPF_DIV OR BPF_K = 0x34" "BPF_LD OR BPF_MEM = 0x60" "BPF_LDX OR BPF_MEM = 0x61"
  "BPF_JMP OR BPF_JA = 0x05"
  by simp_all

lemma chk_code_alt:
  assumes "i < flen" "flen \<le> 4096"
  shows "chk_code flen i f =
    (case map_of chk_plain (f_code f) of Some s \<Rightarrow> Some s | None \<Rightarrow>
       if f_code f = 0x34 then (if f_k f = 0 then None else Some BPF_S_ALU_DIV_K)
       else if f_code f = 0x60 then (if \<not> unat (f_k f) < 16 then None else Some BPF_S_LD_MEM)
       else if f_code f = 0x61 then (if \<not> unat (f_k f) < 16 then None else Some BPF_S_LDX_MEM)
       else if f_code f = 0x02 then (if \<not> unat (f_k f) < 16 then None else Some BPF_S_ST)
       else if f_code f = 0x03 then (if \<not> unat (f_k f) < 16 then None else Some BPF_S_STX)
       else if f_code f = 0x05 then (if \<not> i + unat (f_k f) + 1 < flen then None else Some BPF_S_JMP_JA)
       else None)"
  unfolding chk_code_def ja_bound [OF assms] mem_bound special_codes by (rule refl)

lemma chk_code_iff:
  assumes "i < flen" "flen \<le> 4096"
  shows "chk_code flen i f = Some s \<longleftrightarrow> f_code f = bpf_raw s \<and> operand_ok flen i s f"
proof
  assume *: "chk_code flen i f = Some s"
  show "f_code f = bpf_raw s \<and> operand_ok flen i s f"
  proof (cases "map_of chk_plain (f_code f)")
    case (Some s')
    with * have "s' = s" by (simp add: chk_code_def)
    with chk_plain_sound [OF map_of_SomeD [OF Some]] show ?thesis
      by (auto simp: operand_ok_def)
  next
    case None
    with * show ?thesis
      unfolding chk_code_alt [OF assms]
      by (simp only: option.case) (elim if_eqE; clarsimp simp: operand_ok_def is_mem_op_def)
  qed
next
  assume *: "f_code f = bpf_raw s \<and> operand_ok flen i s f"
  show "chk_code flen i f = Some s"
  proof (cases "s = BPF_S_ALU_DIV_K \<or> is_mem_op s \<or> s = BPF_S_JMP_JA")
    case False
    with * chk_plain_complete [of s] show ?thesis by (simp add: chk_code_def)
  next
    case True
    with * show ?thesis
      unfolding chk_code_alt [OF assms] operand_ok_def is_mem_op_def
      by (cases s) (simp_all only: chk_plain_None, simp_all)
  qed
qed

definition raw_legal :: "nat \<Rightarrow> nat \<Rightarrow> sock_filter \<Rightarrow> bpf_s \<Rightarrow> bool" where
  "raw_legal flen i f s \<longleftrightarrow> f_code f = bpf_raw s \<and> operand_ok flen i s f \<and> targets_ok flen i s f"

lemma chk_insns_Cons_ok:
  assumes "i < flen" "flen \<le> 4096"
  shows "chk_insns flen i (f # fs) = (0, ys) \<longleftrightarrow>
    (\<exists>s ys'. raw_legal flen i f s \<and> chk_insns flen (Suc i) fs = (0, ys') \<and> ys = f\<lparr>f_code := bpf_s_code s\<rparr> # ys')"
proof (cases "chk_code flen i f")
  case None
  then show ?thesis using chk_code_iff [OF assms, of f] by (auto simp: raw_legal_def)
next
  case (Some s)
  have u: "raw_legal flen i f s' \<longleftrightarrow> s' = s \<and> targets_ok flen i s f" for s'
    using chk_code_iff [OF assms, of f s] chk_code_iff [OF assms, of f s'] Some
    by (auto simp: raw_legal_def)
  show ?thesis
    unfolding u using Some
    by (auto simp: targets_ok_def not_less Let_def split: prod.splits)
qed

lemma chk_insns_ok:
  assumes "i + length fs \<le> flen" "flen \<le> 4096"
  shows "chk_insns flen i fs = (0, ys) \<longleftrightarrow>
    (\<exists>ss. length ss = length fs \<and> (\<forall>j < length fs. raw_legal flen (i + j) (fs ! j) (ss ! j)) \<and>
       ys = map2 (\<lambda>f s. f\<lparr>f_code := bpf_s_code s\<rparr>) fs ss)"
  using assms
proof (induction fs arbitrary: i ys)
  case Nil
  then show ?case by auto
next
  case (Cons f fs)
  have *: "chk_insns flen i (f # fs) = (0, ys) \<longleftrightarrow>
     (\<exists>s ss. length ss = length fs \<and> raw_legal flen i f s \<and>
      (\<forall>j < length fs. raw_legal flen (Suc i + j) (fs ! j) (ss ! j)) \<and>
       ys = map2 (\<lambda>f s. f\<lparr>f_code := bpf_s_code s\<rparr>) (f # fs) (s # ss))"
    using Cons by (subst chk_insns_Cons_ok) auto
  show ?case
    unfolding * length_Cons All_less_Suc2
    by (subst ex_length_Suc) (auto simp del: upt_Suc)
qed

definition rewrite_codes :: "sock_filter list \<Rightarrow> bpf_s list \<Rightarrow> sock_filter list" where
  "rewrite_codes insns ss = map2 (\<lambda>f s. f\<lparr>f_code := bpf_s_code s\<rparr>) insns ss"

lemma length_rewrite_codes [simp]: "length ss = length p \<Longrightarrow> length (rewrite_codes p ss) = length p"
  by (simp add: rewrite_codes_def)

lemma nth_rewrite_codes:
  "length ss = length p \<Longrightarrow> i < length p \<Longrightarrow> rewrite_codes p ss ! i = (p ! i)\<lparr>f_code := bpf_s_code (ss ! i)\<rparr>"
  by (simp add: rewrite_codes_def)

definition is_ret :: "bpf_s \<Rightarrow> bool" where
  "is_ret s \<longleftrightarrow> s \<in> {BPF_S_RET_K, BPF_S_RET_A}"

definition bpf_legal :: "sock_filter list \<Rightarrow> bpf_s list \<Rightarrow> bool" where
  "bpf_legal p ss \<longleftrightarrow> p \<noteq> [] \<and> length p \<le> BPF_MAXINSNS \<and> length ss = length p \<and>
    (\<forall>j < length p. raw_legal (length p) j (p ! j) (ss ! j)) \<and> is_ret (last ss)"

lemma ret_switch:
  "(case s of BPF_S_RET_K \<Rightarrow> (0, q) | BPF_S_RET_A \<Rightarrow> (0, q) | _ \<Rightarrow> (- EINVAL, q))
     = (if is_ret s then (0, q) else (- EINVAL, q))"
  by (cases s) (simp_all add: is_ret_def)

lemma sk_chk_filter_alt:
  assumes "0 < length p" "length p \<le> 4096" "chk_insns (length p) 0 p = (0, q)"
    and "f_code (q ! (length p - 1)) = bpf_s_code s"
  shows "sk_chk_filter p = (if is_ret s then (0, q) else (- EINVAL, q))"
proof -
  have "\<not> (length p = 0 \<or> 4096 < length p)" using assms by simp
  then show ?thesis
    unfolding sk_chk_filter_def Let_def assms(3) prod.case assms(4) switch_code_code option.case ret_switch
    by (simp only: if_False simp_thms)
qed

lemma sk_chk_filter_err:
  assumes "0 < length p" "length p \<le> 4096" "chk_insns (length p) 0 p = (r, q)" "r \<noteq> 0"
  shows "sk_chk_filter p = (r, q)"
proof -
  have "\<not> (length p = 0 \<or> 4096 < length p)" using assms by simp
  then show ?thesis
    unfolding sk_chk_filter_def Let_def assms(3) prod.case using assms(4)
    by (simp only: if_False if_True simp_thms)
qed

lemma sk_chk_filter_Ok:
  "sk_chk_filter p = (0, p') \<longleftrightarrow> (\<exists>ss. bpf_legal p ss \<and> p' = rewrite_codes p ss)"
proof (cases "p = [] \<or> length p > 4096")
  case True
  then show ?thesis by (auto simp: sk_chk_filter_def bpf_legal_def)
next
  case False
  then have len: "0 < length p" "length p \<le> 4096" by auto
  have last: "f_code (rewrite_codes p ss ! (length p - 1)) = bpf_s_code (last ss)"
    if "length ss = length p" for ss
  proof -
    have "ss \<noteq> []" "length p - 1 < length p" using that len by auto
    with that show ?thesis by (simp add: nth_rewrite_codes last_conv_nth)
  qed
  obtain r q where rq: "chk_insns (length p) 0 p = (r, q)" by fastforce
  define L where "L ss \<longleftrightarrow> length ss = length p \<and> (\<forall>j < length p. raw_legal (length p) j (p ! j) (ss ! j))" for ss
  have key: "r = 0 \<and> q = q' \<longleftrightarrow> (\<exists>ss. L ss \<and> q' = rewrite_codes p ss)" for q'
    using chk_insns_ok [of 0 p "length p" q', OF _ len(2)]
    by (simp only: add_0 rq prod.inject order_refl L_def rewrite_codes_def conj_assoc)
  have legal: "bpf_legal p ss \<longleftrightarrow> L ss \<and> is_ret (last ss)" for ss
    using len by (auto simp: bpf_legal_def L_def)
  have last: "f_code (rewrite_codes p ss ! (length p - 1)) = bpf_s_code (last ss)" if "L ss" for ss
    using last that unfolding L_def by blast
  show ?thesis
  proof (cases "r = 0")
    case True
    then obtain ss where ss: "L ss" "q = rewrite_codes p ss" using key by blast
    have "sk_chk_filter p = (if is_ret (last ss) then (0, q) else (- EINVAL, q))"
      using True len rq ss(2) last [OF ss(1)] by (intro sk_chk_filter_alt) simp_all
    moreover have ret: "is_ret (last ss') \<longleftrightarrow> is_ret (last ss)" if "L ss'" for ss'
      using last [OF that] last [OF ss(1)] key ss that by (metis option.inject switch_code_code)
    ultimately have "sk_chk_filter p = (0, p') \<longleftrightarrow> is_ret (last ss) \<and> q = p'" by simp
    also have "\<dots> \<longleftrightarrow> (\<exists>ss'. (L ss' \<and> is_ret (last ss')) \<and> p' = rewrite_codes p ss')"
      using ret key [of p'] True ss by metis
    finally show ?thesis by (simp only: legal)
  next
    case False
    then have "sk_chk_filter p = (r, q)"
      using len rq by (intro sk_chk_filter_err) auto
    then show ?thesis using False key [of p'] unfolding legal by auto
  qed
qed

lemma chk_insns_ret: "fst (chk_insns flen i fs) \<in> {0, - EINVAL} \<and> length (snd (chk_insns flen i fs)) = length fs"
  by (induction flen i fs rule: chk_insns.induct) (auto simp: Let_def split: option.splits prod.splits)

lemma sk_chk_filter_ret:
  "fst (sk_chk_filter p) \<in> {0, - EINVAL} \<and> length (snd (sk_chk_filter p)) = length p"
proof -
  obtain r q where rq: "chk_insns (length p) 0 p = (r, q)" by fastforce
  with chk_insns_ret [of "length p" 0 p] have r: "r = 0 \<or> r = - EINVAL" "length q = length p" by auto
  consider "length p = 0 \<or> 4096 < length p" | "0 < length p" "length p \<le> 4096" "r \<noteq> 0"
    | "0 < length p" "length p \<le> 4096" "r = 0" by linarith
  then show ?thesis
  proof cases
    case 1
    then show ?thesis by (auto simp: sk_chk_filter_def)
  next
    case 2
    then show ?thesis using sk_chk_filter_err [OF 2(1,2) rq 2(3)] r by simp
  next
    case 3
    then obtain ss where "length ss = length p" "q = map2 (\<lambda>f s. f\<lparr>f_code := bpf_s_code s\<rparr>) p ss"
      using chk_insns_ok [of 0 p "length p" q] rq by auto
    then have "f_code (q ! (length p - 1)) = bpf_s_code (ss ! (length p - 1))" using 3(1) by simp
    from sk_chk_filter_alt [OF 3(1,2) _ this] rq 3(3) r show ?thesis by simp
  qed
qed

definition insn_checked :: "nat \<Rightarrow> nat \<Rightarrow> sock_filter \<Rightarrow> bool" where
  "insn_checked flen i f \<longleftrightarrow> (\<exists>s. switch_code (f_code f) = Some s \<and> operand_ok flen i s f \<and>
     targets_ok flen i s f \<and> (i + 1 = flen \<longrightarrow> is_ret s))"

definition bpf_checked :: "sock_filter list \<Rightarrow> bool" where
  "bpf_checked insns \<longleftrightarrow> insns \<noteq> [] \<and> length insns \<le> BPF_MAXINSNS \<and>
    (\<forall>i < length insns. insn_checked (length insns) i (insns ! i))"

lemma sk_chk_filter_checked: 
  assumes "sk_chk_filter p = (0, p')"
  shows "bpf_checked p'"
proof -
  obtain ss where ss: "bpf_legal p ss" "p' = rewrite_codes p ss"
    using assms sk_chk_filter_Ok by auto
  then have len: "length p' = length p" "length ss = length p" "p \<noteq> []" "length p \<le> 4096"
    by (auto simp: bpf_legal_def)
  have "insn_checked (length p) i (p' ! i)" if "i < length p" for i
  proof -
    have "is_ret (ss ! i)" if "i + 1 = length p"
    proof -
      have "ss \<noteq> []" "length ss - 1 = i" using that len by auto
      then have "last ss = ss ! i" by (simp add: last_conv_nth)
      then show ?thesis using ss(1) by (simp add: bpf_legal_def)
    qed
    then show ?thesis
      using ss that len nth_rewrite_codes [of ss p i] unfolding insn_checked_def
      by (intro exI [of _ "ss ! i"]) (simp add: bpf_legal_def raw_legal_def operand_ok_def targets_ok_def)
  qed
  with len show ?thesis by (auto simp: bpf_checked_def)
qed

end
