(* ===== verification/FilterRun.thy ===== *)
theory FilterRun
  imports FilterCheck
begin

text \<open>
  The interpreter on checked programs: packet loads read the packet, every program ends, and memory
  is touched only inside the objects it belongs to, the netlink attribute loads apart.
\<close>

definition skb_wf :: "sk_buff \<Rightarrow> bool" where
  "skb_wf skb \<longleftrightarrow> sk_wf (skb_view skb) \<and> skb_tail skb + 3 \<le> length (skb_head skb)"

lemma skb_wf_headlen:
  assumes "skb_wf skb"
  shows "skb_data skb + unat (skb_headlen (skb_view skb)) \<le> length (skb_head skb) \<or> unat (skb_headlen (skb_view skb)) = 0"
    and "sint (skb_headlen (skb_view skb)) = int (unat (skb_headlen (skb_view skb)))"
    and "unat (skb_headlen (skb_view skb)) \<le> length (skb_bytes (skb_view skb))"
    and "unat (skb_headlen (skb_view skb)) < 2 ^ 31"
proof -
  have wf: "sk_wf (skb_view skb)" using assms by (simp add: skb_wf_def)
  have le: "unat (skb_headlen (skb_view skb)) \<le> length (skb_head skb) - skb_data skb"
    using wf by (simp add: skb_view_def skb_headlen_def)
  then show "skb_data skb + unat (skb_headlen (skb_view skb)) \<le> length (skb_head skb) \<or> unat (skb_headlen (skb_view skb)) = 0"
    by linarith
  show len: "unat (skb_headlen (skb_view skb)) \<le> length (skb_bytes (skb_view skb))"
    using le by (simp add: skb_view_def skb_headlen_def)
  then show lt: "unat (skb_headlen (skb_view skb)) < 2 ^ 31"
    using sk_wf_len [OF wf] by linarith
  then show "sint (skb_headlen (skb_view skb)) = int (unat (skb_headlen (skb_view skb)))"
    by (rule sint_eq_unat)
qed

text \<open>A packet load at a non-negative offset reads the packet's bytes, however they are fragmented.\<close>

definition packet_load :: "sk_buff \<Rightarrow> nat \<Rightarrow> nat \<Rightarrow> u8 list option" where
  "packet_load skb m n = (let bs = skb_bytes (skb_view skb)
     in if m + n \<le> length bs then Some (take n (drop m bs)) else None)"

lemma take_head_bytes:
  assumes "skb_wf skb" "m + n \<le> unat (skb_headlen (skb_view skb))"
  shows "take n (drop (skb_data skb + m) (skb_head skb)) = take n (drop m (skb_bytes (skb_view skb)))"
proof -
  have "unat (skb_len skb - skb_data_len skb) \<le> length (skb_head skb) - skb_data skb"
    using assms by (simp add: skb_wf_def skb_view_def)
  then show ?thesis
    using assms(2) take_drop_prefix [of m n _ "drop (skb_data skb) (skb_head skb)"]
    by (simp add: skb_view_def skb_headlen_def add.commute)
qed

lemma skb_header_pointer_spec:
  assumes wf: "skb_wf skb" and n: "0 < n" "n \<le> 4" and m: "m < 2 ^ 31"
  shows "\<exists>p. skb_header_pointer skb (int m) n = Ok p \<and>
     (case packet_load skb m n of None \<Rightarrow> p = PNull | Some bs \<Rightarrow> p \<noteq> PNull \<and> rd_ptr skb p n = Ok bs)"
proof -
  define H where "H = unat (skb_headlen (skb_view skb))"
  note hl = skb_wf_headlen [OF wf, folded H_def]
  have sk: "sk_wf (skb_view skb)" using wf by (simp add: skb_wf_def)
  have s: "s32 (int H - int m) = int H - int m"
    using hl(4) m by (intro s32_small) simp_all
  show ?thesis
  proof (cases "m + n \<le> H")
    case True
    then have "rd_mem (skb_head skb) (int (skb_data skb) + int m) n
        = Ok (take n (drop (skb_data skb + m) (skb_head skb)))"
      using hl(1) n by (auto simp: rd_mem_def nat_add_distrib)
    moreover have "take n (drop (skb_data skb + m) (skb_head skb)) = take n (drop m (skb_bytes (skb_view skb)))"
      using take_head_bytes [OF wf] True by (simp add: H_def)
    ultimately show ?thesis
      using True hl(3) by (simp add: skb_header_pointer_def hl(2) s packet_load_def Let_def rd_ptr_def)
  next
    case False
    then have "\<not> int n \<le> int H - int m" by linarith
    moreover have "skb_copy_bits (skb_view skb) (int m) (int n) = copy_spec (skb_view skb) m n"
      using n by (intro skb_copy_bits_spec [OF sk]) simp_all
    ultimately show ?thesis
      by (simp add: skb_header_pointer_def hl(2) s packet_load_def copy_spec_def Let_def rd_ptr_def rd_mem_def)
  qed
qed

lemma load_pointer_safe:
  assumes wf: "skb_wf skb" and n: "0 < n" "n \<le> 4" and k: "k < 2 ^ 31"
  shows "\<exists>p. load_pointer skb k n = Ok p \<and> (p = PNull \<or> (\<exists>bs. rd_ptr skb p n = Ok bs))"
proof (cases "0 \<le> k")
  case True
  then have "nat k < 2 ^ 31" using k by simp
  with True show ?thesis
    using skb_header_pointer_spec [OF wf n, of "nat k"]
    by (auto simp: load_pointer_def split: option.splits)
next
  case False
  have "\<exists>bs. rd_ptr skb p n = Ok bs" if "load_pointer_neg skb k = p" "p \<noteq> PNull" for p
    using that wf n
    by (auto simp: load_pointer_neg_def rd_ptr_def rd_mem_def skb_wf_def Let_def split: option.splits if_splits)
  with False show ?thesis by (auto simp: load_pointer_def)
qed

lemma nla_find_safe: "0 \<le> nla \<Longrightarrow> nla + rem \<le> int (length buf) \<Longrightarrow> nla_find buf nla rem t \<noteq> Fault"
proof (induction buf nla rem t rule: nla_find.induct)
  case (1 buf nla rem t)
  show ?case
  proof (cases "4 \<le> rem")
    case True
    then obtain b where len: "rd_mem buf nla 2 = Ok b"
      using 1(2,3) by (auto simp: rd_mem_def)
    obtain c where ty: "rd_mem buf (nla + 2) 2 = Ok c"
      using True 1(2,3) by (auto simp: rd_mem_def)
    show ?thesis
      using "1.IH" [OF _ _ _ _ _ refl] 1(2,3) nla_align_ge [of "uint (le16 b)"]
      by (subst nla_find.simps)
        (auto simp: nla_ok_def nla_len_at_def nla_type_def len ty Let_def split: bool.splits)
  next
    case False
    then show ?thesis by (subst nla_find.simps) (simp add: nla_ok_def)
  qed
qed

text \<open>The packet address of a load.\<close>

fun load_addr :: "bpf_state \<Rightarrow> sock_filter \<Rightarrow> bpf_s \<Rightarrow> u32 option" where
  "load_addr st f BPF_S_LD_W_ABS = Some (f_k f)"
| "load_addr st f BPF_S_LD_H_ABS = Some (f_k f)"
| "load_addr st f BPF_S_LD_B_ABS = Some (f_k f)"
| "load_addr st f BPF_S_LD_W_IND = Some (rX st + f_k f)"
| "load_addr st f BPF_S_LD_H_IND = Some (rX st + f_k f)"
| "load_addr st f BPF_S_LD_B_IND = Some (rX st + f_k f)"
| "load_addr st f _ = None"

definition nlattr_hazard :: "sk_buff \<Rightarrow> bpf_state \<Rightarrow> u32 \<Rightarrow> bool" where
  "nlattr_hazard skb st a \<longleftrightarrow> \<not> skb_is_nonlinear skb \<and> rA st \<le> skb_len skb - 4 \<and>
     (sint a = SKF_AD_OFF + 16 \<or> sint a = SKF_AD_OFF + 12 \<and> skb_len skb < 4)"

definition hazard_at :: "sk_buff \<Rightarrow> sock_filter list \<Rightarrow> bpf_state \<Rightarrow> bool" where
  "hazard_at skb insns st \<longleftrightarrow> (\<exists>s a. switch_code (f_code (insns ! nat (rpc st))) = Some s \<and>
     load_addr st (insns ! nat (rpc st)) s = Some a \<and> nlattr_hazard skb st a)"

lemma linear_headlen: "\<not> skb_is_nonlinear skb \<Longrightarrow> skb_headlen (skb_view skb) = skb_len skb"
  by (simp add: skb_is_nonlinear_def skb_view_def skb_headlen_def)

lemma s32_ad:
  assumes "s32 (sint (a :: u32) - SKF_AD_OFF) = c" "0 \<le> c"
  shows "sint a = SKF_AD_OFF + c"
proof (cases "sint a + 4096 < 2147483648")
  case True
  moreover have "- 2147483648 \<le> sint a" using sint_ge [of a] by simp
  ultimately show ?thesis using assms s32_small [of "sint a + 4096"] by simp
next
  case False
  moreover have "sint a < 2147483648" using sint_lt [of a] by simp
  ultimately show ?thesis using assms s32_wrap [of "sint a + 4096"] by simp
qed

lemma nlattr_safe:
  assumes "skb_wf skb" "\<not> skb_is_nonlinear skb" "\<not> skb_len skb < 4" "rA st \<le> skb_len skb - 4"
  shows "nla_find (skb_head skb) (int (skb_data skb) + uint (rA st)) (sint (skb_len skb - rA st)) t \<noteq> Fault"
proof (rule nla_find_safe)
  define L where "L = unat (skb_len skb)"
  define A where "A = unat (rA st)"
  note hl = skb_wf_headlen [OF assms(1), unfolded linear_headlen [OF assms(2)], folded L_def]
  have "(4 :: u32) \<le> skb_len skb" using assms(3) by simp
  then have L4: "4 \<le> L" unfolding L_def word_le_nat_alt by simp
  have "unat (skb_len skb - 4) = L - 4"
    unfolding L_def using \<open>4 \<le> skb_len skb\<close> by (simp add: unat_sub)
  then have AL: "A + 4 \<le> L"
    using assms(4) L4 unfolding A_def word_le_nat_alt by linarith
  then have "rA st \<le> skb_len skb" unfolding A_def L_def word_le_nat_alt by linarith
  then have "unat (skb_len skb - rA st) = L - A" unfolding A_def L_def by (rule unat_sub)
  then have "sint (skb_len skb - rA st) = int (L - A)"
    using hl(4) by (subst sint_eq_unat) simp_all
  then show "int (skb_data skb) + uint (rA st) + sint (skb_len skb - rA st) \<le> int (length (skb_head skb))"
    using hl(1) AL by (simp add: A_def)
qed simp

lemma bpf_ancillary_safe:
  assumes "skb_wf skb" "\<not> nlattr_hazard skb st a"
  shows "bpf_ancillary skb st (sint a) \<noteq> StepFault"
proof -
  have "nla_result skb st r \<noteq> StepFault" if "r \<noteq> Fault" for r
    using that by (auto simp: nla_result_def split: outcome.splits option.splits)
  note res = this
  define ad where "ad = s32 (sint a - SKF_AD_OFF)"
  consider "ad = 12" | "ad = 16" | "ad \<noteq> 12" "ad \<noteq> 16" by blast
  then show ?thesis
  proof cases
    case 1
    then have "sint a = SKF_AD_OFF + 12" unfolding ad_def by (rule s32_ad) simp
    with assms(2) res nlattr_safe [OF assms(1), of st] show ?thesis
      unfolding bpf_ancillary_def ad_def [symmetric] 1 by (auto simp: nlattr_hazard_def not_less)
  next
    case 2
    then have "sint a = SKF_AD_OFF + 16" unfolding ad_def by (rule s32_ad) simp
    with assms(2) show ?thesis
      unfolding bpf_ancillary_def ad_def [symmetric] 2 by (auto simp: nlattr_hazard_def not_less)
  next
    case 3
    then show ?thesis
      unfolding bpf_ancillary_def ad_def [symmetric] by (simp split: option.split)
  qed
qed

lemma bpf_load_safe:
  assumes "skb_wf skb" "\<not> nlattr_hazard skb st a" "0 < n" "n \<le> 4"
  shows "bpf_load skb st a n conv \<noteq> StepFault"
proof -
  have "sint a < 2 ^ 31" using sint_lt [of a] by simp
  from load_pointer_safe [OF assms(1,3,4) this] bpf_ancillary_safe [OF assms(1,2)]
  show ?thesis by (auto simp: bpf_load_def split: skb_ptr.splits outcome.splits)
qed

lemma bpf_exec_safe:
  assumes "skb_wf skb" "operand_ok flen i s f" 
    and "\<And>a. load_addr st f s = Some a \<Longrightarrow> \<not> nlattr_hazard skb st a"
  shows "bpf_exec ar skb f st s \<noteq> StepFault"
proof (cases "load_addr st f s")
  case (Some a)
  with assms(1) assms(3) [OF Some] bpf_load_safe show ?thesis by (cases s) auto
next
  case None
  have "sint (f_k f) < 2 ^ 31" using sint_lt [of "f_k f"] by simp
  from load_pointer_safe [OF assms(1) _ _ this, of 1] None assms(2)
  show ?thesis 
    by (cases s) (auto simp: operand_ok_def is_mem_op_def bpf_jump_def bpf_mem_read_def bpf_mem_write_def
       split: skb_ptr.splits outcome.splits)
qed

definition bpf_init :: "u32 list \<Rightarrow> bpf_state" where
  "bpf_init mem0 = \<lparr>rA = 0, rX = 0, rmem = mem0, memvalid = 0, rpc = 0\<rparr>"

inductive bpf_reach :: "bpf_arch \<Rightarrow> u32 list \<Rightarrow> sk_buff \<Rightarrow> sock_filter list \<Rightarrow> bpf_state \<Rightarrow> bool"
  for ar mem0 skb insns where
  start: "bpf_reach ar mem0 skb insns (bpf_init mem0)"
| step: "bpf_reach ar mem0 skb insns st \<Longrightarrow> rpc st < int (length insns) \<Longrightarrow>
    bpf_step ar skb insns st = Next st' \<Longrightarrow>
    bpf_reach ar mem0 skb insns (st'\<lparr>rpc := s32 (rpc st' + 1)\<rparr>)"

lemma bpf_ancillary_rpc: "bpf_ancillary skb st k = Next st' \<Longrightarrow> rpc st' = rpc st"
  unfolding bpf_ancillary_def Let_def
  by (elim if_eqE; auto simp: nla_result_def split: option.splits outcome.splits if_splits)

lemma bpf_load_rpc: "bpf_load skb st k n conv = Next st' \<Longrightarrow> rpc st' = rpc st"
  by (auto simp: bpf_load_def dest: bpf_ancillary_rpc split: outcome.splits skb_ptr.splits)

lemma bpf_exec_rpc:
  assumes "bpf_exec ar skb f st s = Next st'" "\<not> is_cond_jump s" "s \<noteq> BPF_S_JMP_JA"
  shows "rpc st' = rpc st"
  using assms
  by (cases s) (auto simp: is_cond_jump_def bpf_mem_write_def dest!: bpf_load_rpc
     split: if_splits outcome.splits skb_ptr.splits)

lemma bpf_exec_cond_rpc:
  assumes "bpf_exec ar skb f st s = Next st'" "is_cond_jump s"
  shows "rpc st' = s32 (rpc st + uint (f_jt f)) \<or> rpc st' = s32 (rpc st + uint (f_jf f))"
  using assms by (cases s) (auto simp: is_cond_jump_def bpf_jump_def)

lemma bpf_exec_ret: "is_ret s \<Longrightarrow> \<exists>v. bpf_exec ar skb f st s = Return v"
  by (auto simp: is_ret_def)

text \<open>A checked instruction leads forward and stays inside the program.\<close>

lemma bpf_step_progress:
  assumes chk: "bpf_checked insns" and pc: "rpc st = int i" "i < length insns"
    and step: "bpf_step ar skb insns st = Next st'"
  shows "\<exists>j. i \<le> j \<and> j + 1 < length insns \<and> rpc st' = int j"
proof -
  let ?f = "insns ! i"
  have len: "length insns \<le> 4096" using chk by (simp add: bpf_checked_def)
  obtain s where s: "switch_code (f_code ?f) = Some s" "operand_ok (length insns) i s ?f"
      "targets_ok (length insns) i s ?f" "i + 1 = length insns \<longrightarrow> is_ret s"
    using chk pc(2) by (auto simp: bpf_checked_def insn_checked_def)
  have exec: "bpf_exec ar skb ?f st s = Next st'"
    using step pc(1) s(1) by (simp add: bpf_step_def)
  then have i1: "i + 1 < length insns"
    using s(4) pc(2) bpf_exec_ret [of s ar skb ?f st] by fastforce
  consider (ja) "s = BPF_S_JMP_JA" | (cond) "is_cond_jump s" | (other) "\<not> is_cond_jump s" "s \<noteq> BPF_S_JMP_JA"
    by blast
  then show ?thesis
  proof cases
    case ja
    then have lt: "i + unat (f_k ?f) + 1 < length insns" using s(2) by (simp add: operand_ok_def)
    have "rpc st' = sint (of_nat (i + unat (f_k ?f)) :: u32)"
      using exec ja pc(1) by auto
    also have "\<dots> = int (i + unat (f_k ?f))"
      using lt len by (subst sint_eq_unat; subst unat_of_nat_u32) simp_all
    finally show ?thesis using lt by (intro exI [of _ "i + unat (f_k ?f)"]) simp
  next
    case cond
    then have lt: "i + unat (f_jt ?f) + 1 < length insns" "i + unat (f_jf ?f) + 1 < length insns"
      using s(3) by (simp_all add: targets_ok_def)
    have *: "s32 (int i + uint w) = int (i + unat w)" if "i + unat w + 1 < length insns" for w :: u8
    proof -
      have "s32 (int (i + unat w)) = int (i + unat w)" using that len by (intro s32_int) linarith
      then show ?thesis by simp
    qed
    have "rpc st' = int (i + unat (f_jt ?f)) \<or> rpc st' = int (i + unat (f_jf ?f))"
      using bpf_exec_cond_rpc [OF exec cond] unfolding pc(1) * [OF lt(1)] * [OF lt(2)] .
    moreover have ?thesis if "i + n + 1 < length insns" "rpc st' = int (i + n)" for n
      using that by (intro exI [of _ "i + n"]) simp
    ultimately show ?thesis using lt by blast
  next
    case other
    then have "rpc st' = int i" using bpf_exec_rpc [OF exec] pc(1) by simp
    with i1 show ?thesis by blast
  qed
qed

lemma bpf_checked_pc:
  assumes chk: "bpf_checked insns" and pc: "rpc st = int i" "i < length insns"
    and step: "bpf_step ar skb insns st = Next st'"
  shows "\<exists>j. i < j \<and> j < length insns \<and> rpc (st'\<lparr>rpc := s32 (rpc st' + 1)\<rparr>) = int j"
proof -
  obtain j where j: "i \<le> j" "j + 1 < length insns" "rpc st' = int j"
    using bpf_step_progress [OF assms] by blast
  have "s32 (int (j + 1)) = int (j + 1)"
    using j(2) chk by (intro s32_small) (simp_all add: bpf_checked_def)
  then show ?thesis using j by (intro exI [of _ "j + 1"]) (simp add: add.commute)
qed

lemma bpf_reach_pc:
  assumes "bpf_checked insns" "bpf_reach ar mem0 skb insns st"
  shows "\<exists>i < length insns. rpc st = int i"
  using assms(2)
proof induction
  case start
  then show ?case using assms(1) by (simp add: bpf_init_def bpf_checked_def)
next
  case (step st st')
  then show ?case using bpf_checked_pc [OF assms(1)] by metis
qed

lemma bpf_loop_terminates:
  assumes "bpf_checked insns"
  shows "rpc st = int i \<Longrightarrow> i < length insns \<Longrightarrow> \<exists>r. bpf_loop ar skb insns st = Some r"
proof (induction "length insns - i" arbitrary: st i rule: less_induct)
  case less
  show ?case
  proof (cases "bpf_step ar skb insns st")
    case (Next st')
    from bpf_checked_pc [OF assms less.prems this] obtain j
      where "i < j" "j < length insns" "rpc (st'\<lparr>rpc := s32 (rpc st' + 1)\<rparr>) = int j" by blast
    with less.hyps [of j] less.prems(2)
    have "\<exists>r. bpf_loop ar skb insns (st'\<lparr>rpc := s32 (rpc st' + 1)\<rparr>) = Some r"
      by (metis diff_less_mono2)
    then show ?thesis using Next less.prems by (subst bpf_loop.simps) simp
  qed (subst bpf_loop.simps, simp add: less.prems)+
qed

lemma bpf_step_safe:
  assumes "bpf_checked insns" "skb_wf skb" "rpc st = int i" "i < length insns" "\<not> hazard_at skb insns st"
  shows "bpf_step ar skb insns st \<noteq> StepFault"
proof -
  obtain s where s: "switch_code (f_code (insns ! i)) = Some s" "operand_ok (length insns) i s (insns ! i)"
    using assms(1,4) by (auto simp: bpf_checked_def insn_checked_def)
  have "\<not> nlattr_hazard skb st a" if "load_addr st (insns ! i) s = Some a" for a
    using assms(3,5) s(1) that by (auto simp: hazard_at_def)
  from bpf_exec_safe [OF assms(2) s(2) this] show ?thesis
    using s(1) assms(3) by (simp add: bpf_step_def)
qed

lemma bpf_loop_safe:
  assumes chk: "bpf_checked insns" and wf: "skb_wf skb"
    and haz: "\<And>st. bpf_reach ar mem0 skb insns st \<Longrightarrow> \<not> hazard_at skb insns st"
  shows "bpf_reach ar mem0 skb insns st \<Longrightarrow> rpc st = int i \<Longrightarrow> i < length insns \<Longrightarrow>
    \<exists>v. bpf_loop ar skb insns st = Some (Ok v)"
proof (induction "length insns - i" arbitrary: st i rule: less_induct)
  case less
  have "bpf_step ar skb insns st \<noteq> StepFault"
    using bpf_step_safe [OF chk wf less.prems(2,3)] haz less.prems(1) by blast
  then consider (ret) v where "bpf_step ar skb insns st = Return v" | (nxt) st' where "bpf_step ar skb insns st = Next st'"
    by (cases "bpf_step ar skb insns st") auto
  then show ?case
  proof cases
    case ret
    then show ?thesis using less.prems by (subst bpf_loop.simps) simp
  next
    case nxt
    from bpf_checked_pc [OF chk less.prems(2,3) this] obtain j
      where j: "i < j" "j < length insns" "rpc (st'\<lparr>rpc := s32 (rpc st' + 1)\<rparr>) = int j" by blast
    have "bpf_reach ar mem0 skb insns (st'\<lparr>rpc := s32 (rpc st' + 1)\<rparr>)"
      using less.prems nxt by (intro bpf_reach.step) simp_all
    with less.hyps [of j] less.prems j
    have "\<exists>v. bpf_loop ar skb insns (st'\<lparr>rpc := s32 (rpc st' + 1)\<rparr>) = Some (Ok v)"
      by (metis diff_less_mono2)
    then show ?thesis using nxt less.prems by (subst bpf_loop.simps) simp
  qed
qed

definition mem_agree :: "bpf_state \<Rightarrow> u32 list \<Rightarrow> bool" where
  "mem_agree st m \<longleftrightarrow> length (rmem st) = 16 \<and> length m = 16 \<and>
     (\<forall>i < 16. bit (memvalid st) i \<longrightarrow> rmem st ! i = m ! i)"

definition res_agree :: "bpf_res \<Rightarrow> bpf_res \<Rightarrow> bool" where
  "res_agree r r' \<longleftrightarrow> (case r of
      Next st \<Rightarrow> (\<exists>m. mem_agree st m \<and> r' = Next (st\<lparr>rmem := m\<rparr>))
    | _ \<Rightarrow> r' = r)"

lemma res_agree_if:
  "b' = b \<Longrightarrow> (b \<Longrightarrow> res_agree x x') \<Longrightarrow> (\<not> b \<Longrightarrow> res_agree y y') \<Longrightarrow>
   res_agree (if b then x else y) (if b' then x' else y')"
  by simp

lemma bpf_ancillary_agree:
  "mem_agree st m \<Longrightarrow> res_agree (bpf_ancillary skb st k) (bpf_ancillary skb (st\<lparr>rmem := m\<rparr>) k)"
  unfolding bpf_ancillary_def Let_def
  by (intro res_agree_if; (simp; fail)?;
      auto simp: res_agree_def mem_agree_def nla_result_def split: option.splits outcome.splits)

lemma bpf_load_agree:
  "mem_agree st m \<Longrightarrow> res_agree (bpf_load skb st k n conv) (bpf_load skb (st\<lparr>rmem := m\<rparr>) k n conv)"
  using bpf_ancillary_agree [of st m skb "sint k"]
  by (auto simp: bpf_load_def split: outcome.splits skb_ptr.splits) (auto simp: res_agree_def mem_agree_def)

lemma bpf_mem_read_agree: "mem_agree st m \<Longrightarrow> bpf_mem_read (st\<lparr>rmem := m\<rparr>) k = bpf_mem_read st k"
  unfolding bpf_mem_read_def mem_agree_def bit_iff_and_push_bit_not_eq_0 by simp

lemma bpf_mem_write_agree:
  assumes "mem_agree st m"
  shows "res_agree (bpf_mem_write st k v) (bpf_mem_write (st\<lparr>rmem := m\<rparr>) k v)"
proof (cases "unat k < 16")
  case True
  then have "mem_agree (st\<lparr>memvalid := memvalid st OR push_bit (unat k) 1, rmem := (rmem st)[unat k := v]\<rparr>) (m[unat k := v])"
    using assms by (auto simp: mem_agree_def nth_list_update bit_simps)
  with True show ?thesis by (auto simp: bpf_mem_write_def res_agree_def)
qed (simp add: bpf_mem_write_def res_agree_def)

lemma next_agree: 
  assumes "mem_agree st m" "rmem st' = rmem st" "memvalid st' = memvalid st"
  shows "res_agree (Next st') (Next (st'\<lparr>rmem := m\<rparr>))"
  using assms by (auto simp: res_agree_def mem_agree_def)

lemma bpf_exec_agree:
  assumes "mem_agree st m"
  shows "res_agree (bpf_exec ar skb f st s) (bpf_exec ar skb f (st\<lparr>rmem := m\<rparr>) s)"
  using assms
  by (cases s) 
     (simp_all add: bpf_load_agree bpf_mem_read_agree bpf_mem_write_agree bpf_jump_def,
      auto simp: res_agree_def mem_agree_def split: outcome.splits skb_ptr.splits)

lemma bpf_step_agree:
  "mem_agree st m \<Longrightarrow> res_agree (bpf_step ar skb insns st) (bpf_step ar skb insns (st\<lparr>rmem := m\<rparr>))"
  using bpf_exec_agree [of st m ar skb "insns ! nat (rpc st)"]
  by (cases "switch_code (f_code (insns ! nat (rpc st)))") (simp_all add: bpf_step_def, simp_all add: res_agree_def)

lemma bpf_loop_agree:
  "bpf_loop ar skb insns st = Some r \<Longrightarrow> mem_agree st m \<Longrightarrow> bpf_loop ar skb insns (st\<lparr>rmem := m\<rparr>) = Some r"
proof (induction arbitrary: m rule: bpf_loop.raw_induct [rotated, consumes 1, case_names 1])
  case (1 loop ar skb insns st r)
  note sim = bpf_step_agree [OF 1(3), of ar skb insns]
  show ?case
  proof (cases "bpf_step ar skb insns st")
    case (Next st')
    with sim obtain m' where m': "mem_agree st' m'" "bpf_step ar skb insns (st\<lparr>rmem := m\<rparr>) = Next (st'\<lparr>rmem := m'\<rparr>)"
      by (auto simp: res_agree_def)
    have comm: "st'\<lparr>rmem := m', rpc := v\<rparr> = st'\<lparr>rpc := v, rmem := m'\<rparr>" for v by (cases st') simp
    have "mem_agree (st'\<lparr>rpc := s32 (rpc st' + 1)\<rparr>) m'" using m'(1) by (simp add: mem_agree_def)
    with 1(1) [of ar skb insns "st'\<lparr>rpc := s32 (rpc st' + 1)\<rparr>" r m'] 1(2) Next m'(2)
    show ?thesis by (subst bpf_loop.simps) (simp add: comm split: if_splits)
  qed (use sim 1(2) in \<open>subst bpf_loop.simps, simp add: res_agree_def split: if_splits\<close>)+
qed

lemma sk_run_filter_mem0_Some:
  assumes "length m = 16" "length m' = 16" "sk_run_filter ar m skb insns = Some r"
  shows "sk_run_filter ar m' skb insns = Some r"
  using bpf_loop_agree [OF assms(3) [unfolded sk_run_filter_def], of m'] assms(1,2)
  by (simp add: mem_agree_def sk_run_filter_def)

end
