(* ===== verification/SkTrim.thy ===== *)
theory SkTrim
  imports SkBuff
begin

text \<open>
  Trimming a socket buffer to a length: \<open>pskb_trim\<close> of \<open>include/linux/skbuff.h\<close> and \<open>___pskb_trim\<close>
  of \<open>net/core/skbuff.c\<close>, on buffers with page fragments and fragment lists.
\<close>

section \<open>The code\<close>

text \<open>The loop over the page fragments of \<open>___pskb_trim\<close>: the fragments kept when the cut falls into
  them, or the offset the loop ends with.\<close>

fun trim_frags :: "u8 list list \<Rightarrow> u32 \<Rightarrow> u32 \<Rightarrow> (u8 list list, u32) sum" where
  "trim_frags [] offset len = Inr offset"
| "trim_frags (f # fs) offset len =
    (let end' = offset + of_nat (length f)
     in if end' < len then map_sum (Cons f) id (trim_frags fs end' len)
        else Inl [take (unat (len - offset)) f])"

text \<open>The label \<open>done\<close>.\<close>

definition trim_done :: "u32 \<Rightarrow> u32 \<Rightarrow> u8 list \<Rightarrow> u8 list list \<Rightarrow> sk_data list \<Rightarrow> u32 \<Rightarrow> sk_data" where
  "trim_done slen dlen lin frags flist len =
    (if len > slen - dlen then SkData len (dlen - (slen - len)) lin frags flist
     else SkData len 0 lin frags flist)"

text \<open>\<open>pskb_trim\<close>, \<open>__pskb_trim\<close>, \<open>__skb_trim\<close> and \<open>___pskb_trim\<close>. The two parameters stand for the memory
  allocator: \<open>ex d\<close> is the error of unsharing the head of a cloned buffer (0 if it is not cloned or
  the copy succeeds), \<open>cl d\<close> is false where a shared fragment cannot be cloned.\<close>

fun pskb_trim :: "(sk_data \<Rightarrow> int) \<Rightarrow> (sk_data \<Rightarrow> bool) \<Rightarrow> sk_data \<Rightarrow> u32 \<Rightarrow> int \<times> sk_data"
and trim_frag_list ::
  "(sk_data \<Rightarrow> int) \<Rightarrow> (sk_data \<Rightarrow> bool) \<Rightarrow> sk_data list \<Rightarrow> u32 \<Rightarrow> u32 \<Rightarrow> int \<times> sk_data list" where
  "pskb_trim ex cl (SkData slen dlen lin frags flist) len =
    (let d = SkData slen dlen lin frags flist
     in if \<not> len < slen then (0, d)
        else if dlen = 0 then (0, SkData len dlen lin frags flist)
        else if ex d \<noteq> 0 then (ex d, d)
        else if slen - dlen \<ge> len then (0, trim_done slen dlen lin [] [] len)
        else (case trim_frags frags (slen - dlen) len of
            Inl frags' \<Rightarrow> (0, trim_done slen dlen lin frags' [] len)
          | Inr offset \<Rightarrow>
             (case trim_frag_list ex cl flist offset len of
                (err, flist') \<Rightarrow>
                  if err \<noteq> 0 then (err, SkData slen dlen lin frags flist')
                  else (0, trim_done slen dlen lin frags flist' len))))"
| "trim_frag_list ex cl [] offset len = (0, [])"
| "trim_frag_list ex cl (f # fs) offset len =
    (let end' = offset + d_len f
     in if \<not> cl f then (- ENOMEM, f # fs)
        else if end' < len then
          (case trim_frag_list ex cl fs end' len of (err, fs') \<Rightarrow> (err, f # fs'))
        else if end' > len then
          (case pskb_trim ex cl f (len - offset) of
             (err, f') \<Rightarrow> if err \<noteq> 0 then (err, f' # fs) else (0, [f']))
        else (0, [f]))"

section \<open>Trimming keeps a prefix\<close>

lemma trim_frags_spec:
  assumes "unat off + length (concat fs) < 2 ^ 31" "unat off < unat len"
  shows "(case trim_frags fs off len of
      Inl fs' \<Rightarrow> concat fs' = take (unat len - unat off) (concat fs) \<and> unat len - unat off \<le> length (concat fs)
    | Inr off' \<Rightarrow> unat off' = unat off + length (concat fs) \<and> unat off' < unat len)"
  using assms
proof (induction fs arbitrary: off)
  case Nil
  then show ?case by simp
next
  case (Cons f fs)
  have e: "unat (off + of_nat (length f)) = unat off + length f"
    using Cons.prems(1) by (intro unat_plus_u32) simp
  have l: "unat (len - off) = unat len - unat off"
    using Cons.prems(2) by (intro unat_sub) (simp add: word_le_nat_alt)
  show ?case
  proof (cases "unat off + length f < unat len")
    case True
    then have lt: "off + of_nat (length f) < len" by (simp add: word_less_nat_alt e)
    have "unat (off + of_nat (length f)) + length (concat fs) < 2 ^ 31"
      using Cons.prems(1) by (simp add: e)
    from Cons.IH [OF this] True show ?thesis
      by (auto simp: Let_def lt e split: sum.splits)
  next
    case False
    then have "\<not> off + of_nat (length f) < len" by (simp add: word_less_nat_alt e)
    with False show ?thesis by (simp add: Let_def l)
  qed
qed


lemma sum_len_bytes:
  "\<forall>f \<in> set fs. sk_wf f \<Longrightarrow> (\<Sum>f \<leftarrow> fs. unat (d_len f)) = length (concat (map skb_bytes fs))"
  by (induction fs) (auto simp: length_skb_bytes)

lemma trim_done_low:
  assumes "sk_wf (SkData slen dlen lin frags flist)" "len < slen" "len \<le> slen - dlen"
  shows "sk_wf (trim_done slen dlen lin [] [] len) \<and>
    skb_bytes (trim_done slen dlen lin [] [] len) = take (unat len) (skb_bytes (SkData slen dlen lin frags flist))"
proof -
  have "unat len \<le> unat (slen - dlen)" "unat (slen - dlen) \<le> length lin" "unat len < unat slen" "unat slen < 2 ^ 31"
    using assms by (auto simp: word_le_nat_alt word_less_nat_alt)
  with assms(3) show ?thesis by (simp add: trim_done_def not_less [symmetric])
qed

lemma trim_done_high:
  assumes wf: "sk_wf (SkData slen dlen lin frags flist)" and len: "len < slen" "\<not> len \<le> slen - dlen"
    and wf': "\<forall>f \<in> set flist'. sk_wf f"
    and bytes: "concat frags' @ concat (map skb_bytes flist')
      = take (unat len - unat (slen - dlen)) (concat frags @ concat (map skb_bytes flist))"
  shows "sk_wf (trim_done slen dlen lin frags' flist' len) \<and>
    skb_bytes (trim_done slen dlen lin frags' flist' len) = take (unat len) (skb_bytes (SkData slen dlen lin frags flist))"
proof -
  define H where "H = unat (slen - dlen)"
  have le: "dlen \<le> slen" using wf by simp
  have H: "H = unat slen - unat dlen" unfolding H_def using le by (rule unat_sub)
  have ul: "unat len < unat slen" "H < unat len" "unat slen < 2 ^ 31" "H \<le> length lin"
    using wf len by (auto simp: word_le_nat_alt word_less_nat_alt H_def)
  have ds: "slen - len \<le> dlen" "unat (slen - len) = unat slen - unat len"
  proof -
    show u: "unat (slen - len) = unat slen - unat len"
      using ul(1) by (intro unat_sub) (simp add: word_le_nat_alt)
    show "slen - len \<le> dlen" unfolding word_le_nat_alt u using ul H by linarith
  qed
  have dl: "unat (dlen - (slen - len)) = unat len - H"
    unfolding unat_sub [OF ds(1)] ds(2) using ul H le [unfolded word_le_nat_alt] by linarith
  have eq: "len - (dlen - (slen - len)) = slen - dlen" by simp
  have "dlen - (slen - len) \<le> len" unfolding word_le_nat_alt dl by simp
  moreover have "unat dlen = length (concat frags @ concat (map skb_bytes flist))"
    using wf sum_len_bytes [of flist] by simp
  then have "unat len - H \<le> length (concat frags @ concat (map skb_bytes flist))"
    using ul(1) H by linarith
  then have "length (concat frags' @ concat (map skb_bytes flist')) = unat len - H"
    unfolding bytes H_def [symmetric] by simp
  then have "unat (dlen - (slen - len)) = length (concat frags') + (\<Sum>f \<leftarrow> flist'. unat (d_len f))"
    unfolding dl sum_len_bytes [OF wf'] by simp
  moreover have "take (unat len) (take H lin @ concat frags @ concat (map skb_bytes flist))
      = take H lin @ concat frags' @ concat (map skb_bytes flist')"
    unfolding bytes H_def [symmetric] using ul by (simp add: min_def)
  ultimately show ?thesis
    using ul wf' len(2) by (simp add: trim_done_def eq H_def not_le)
qed


definition trim_ok :: "u32 \<Rightarrow> sk_data \<Rightarrow> int \<times> sk_data \<Rightarrow> bool" where
  "trim_ok len d r \<longleftrightarrow> sk_wf (snd r) \<and>
     skb_bytes (snd r) = (if fst r = 0 then take (unat len) (skb_bytes d) else skb_bytes d) \<and>
     (fst r \<noteq> 0 \<longrightarrow> d_len (snd r) = d_len d)"

definition trim_list_ok :: "nat \<Rightarrow> sk_data list \<Rightarrow> int \<times> sk_data list \<Rightarrow> bool" where
  "trim_list_ok n fs r \<longleftrightarrow> (\<forall>f \<in> set (snd r). sk_wf f) \<and>
     concat (map skb_bytes (snd r)) = (if fst r = 0 then take n (concat (map skb_bytes fs)) else concat (map skb_bytes fs)) \<and>
     (fst r \<noteq> 0 \<longrightarrow> map d_len (snd r) = map d_len fs)"

lemma trim_list_step:
  assumes wf: "sk_wf f" "\<forall>f \<in> set fs. sk_wf f" and off: "unat off < unat len"
    and bound: "unat off + unat (d_len f) + length (concat (map skb_bytes fs)) < 2 ^ 31"
    and IH1: "\<And>e. e = off + d_len f \<Longrightarrow> cl f \<Longrightarrow> e < len \<Longrightarrow> trim_list_ok (unat len - unat e) fs (trim_frag_list ex cl fs e len)"
    and IH2: "\<And>e. e = off + d_len f \<Longrightarrow> cl f \<Longrightarrow> e > len \<Longrightarrow> trim_ok (len - off) f (pskb_trim ex cl f (len - off))"
  shows "trim_list_ok (unat len - unat off) (f # fs) (trim_frag_list ex cl (f # fs) off len)"
proof -
  define e where "e = off + d_len f"
  have "off + of_nat (unat (d_len f)) = e" by (simp add: e_def)
  then have ue: "unat e = unat off + unat (d_len f)"
    using unat_plus_u32 [of off "unat (d_len f)"] bound by simp
  have lb: "length (skb_bytes f) = unat (d_len f)" using wf(1) by (rule length_skb_bytes)
  have ul: "unat (len - off) = unat len - unat off"
    using off by (intro unat_sub) (simp add: word_le_nat_alt)
  have simp: "trim_frag_list ex cl (f # fs) off len =
     (if \<not> cl f then (- ENOMEM, f # fs)
      else if e < len then (case trim_frag_list ex cl fs e len of (err, fs') \<Rightarrow> (err, f # fs'))
      else if e > len then
          (case pskb_trim ex cl f (len - off) of
             (err, f') \<Rightarrow> if err \<noteq> 0 then (err, f' # fs) else (0, [f']))
      else (0, [f]))"
    by (simp add: e_def)
  consider (nomem) "\<not> cl f" | (skip) "cl f" "e < len" | (cut) "cl f" "e > len" | (exact) "cl f" "e = len"
    by fastforce
  then show ?thesis
  proof cases
    case nomem
    then show ?thesis unfolding simp using wf by (simp add: trim_list_ok_def)
  next
    case skip
    then have "unat off + unat (d_len f) < unat len" by (simp add: word_less_nat_alt ue)
    with skip IH1 [OF e_def] show ?thesis
      unfolding simp using wf by (auto simp: trim_list_ok_def lb ue split: prod.splits)
  next
    case cut
    then have "unat len < unat off + unat (d_len f)" by (simp add: word_less_nat_alt ue)
    with cut IH2 [OF e_def] show ?thesis
      unfolding simp using wf by (auto simp: trim_list_ok_def trim_ok_def lb ul split: prod.splits)
  next
    case exact
    then have "unat len - unat off = length (skb_bytes f)" using ue lb by simp
    with exact show ?thesis unfolding simp using wf by (simp add: trim_list_ok_def)
  qed
qed

lemma trim_frags_Inl:
  assumes "trim_frags fs off len = Inl fs'" "unat off + length (concat fs) < 2 ^ 31" "unat off < unat len"
  shows "concat fs' = take (unat len - unat off) (concat fs @ ys)"
  using trim_frags_spec [OF assms(2,3)] assms(1) by (auto simp: le_diff_conv add.commute)

lemma trim_frags_Inr:
  assumes "trim_frags fs off len = Inr off'" "unat off + length (concat fs) < 2 ^ 31" "unat off < unat len"
  shows "unat off' = unat off + length (concat fs) \<and> unat off' < unat len"
  using trim_frags_spec [OF assms(2,3)] assms(1) by simp

lemma trim_main:
  "sk_wf d \<Longrightarrow> trim_ok len d (pskb_trim ex cl d len)"
  "\<forall>f \<in> set fs. sk_wf f \<Longrightarrow> unat off + length (concat (map skb_bytes fs)) < 2 ^ 31 \<Longrightarrow> unat off < unat len \<Longrightarrow>
     trim_list_ok (unat len - unat off) fs (trim_frag_list ex cl fs off len)"
proof (induction ex cl d len and ex cl fs off len rule: pskb_trim_trim_frag_list.induct)
  case (1 ex cl slen dlen lin frags flist len)
  let ?d = "SkData slen dlen lin frags flist"
  define H where "H = slen - dlen"
  have wfl: "\<forall>f \<in> set flist. sk_wf f" using "1.prems" by simp
  have H: "unat H = unat slen - unat dlen" "unat dlen \<le> unat slen" "unat slen < 2 ^ 31"
    using "1.prems" by (auto simp: H_def word_le_nat_alt unat_sub)
  have dl: "unat dlen = length (concat frags) + length (concat (map skb_bytes flist))"
    using "1.prems" sum_len_bytes [OF wfl] by simp
  consider (keep) "\<not> len < slen" | (linear) "len < slen" "dlen = 0" | (err) "len < slen" "dlen \<noteq> 0" "ex ?d \<noteq> 0"
    | (low) "len < slen" "dlen \<noteq> 0" "ex ?d = 0" "len \<le> H"
    | (pages) fr where "len < slen" "dlen \<noteq> 0" "ex ?d = 0" "\<not> len \<le> H" "trim_frags frags H len = Inl fr"
    | (list) off where "len < slen" "dlen \<noteq> 0" "ex ?d = 0" "\<not> len \<le> H" "trim_frags frags H len = Inr off"
    by (cases "trim_frags frags H len") auto
  then show ?case
  proof cases
    case keep
    then have "length (skb_bytes ?d) \<le> unat len"
      using length_skb_bytes [OF "1.prems"] by (simp add: word_less_nat_alt)
    with keep "1.prems" show ?thesis by (simp add: trim_ok_def del: skb_bytes.simps)
  next
    case linear
    then have "unat len < unat slen" by (simp add: word_less_nat_alt)
    with linear "1.prems" dl show ?thesis by (simp add: trim_ok_def)
  next
    case err
    with "1.prems" show ?thesis by (simp add: trim_ok_def Let_def del: skb_bytes.simps)
  next
    case low
    with trim_done_low [OF "1.prems", of len] show ?thesis
      by (simp add: trim_ok_def H_def del: skb_bytes.simps sk_wf.simps)
  next
    case pages
    have "unat H < unat len" using pages(4) by (simp add: word_le_nat_alt)
    moreover have "unat H + length (concat frags) < 2 ^ 31" using H dl by linarith
    ultimately have "concat fr @ concat (map skb_bytes [])
        = take (unat len - unat (slen - dlen)) (concat frags @ concat (map skb_bytes flist))"
      using trim_frags_Inl [OF pages(5)] by (simp add: H_def)
    from trim_done_high [OF "1.prems" pages(1) pages(4) [unfolded H_def] _ this] pages
    show ?thesis by (simp add: trim_ok_def H_def del: skb_bytes.simps sk_wf.simps)
  next
    case list
    have Hl: "unat H < unat len" using list(4) by (simp add: word_le_nat_alt)
    moreover have "unat H + length (concat frags) < 2 ^ 31" using H dl by linarith
    ultimately have off: "unat off = unat H + length (concat frags)" "unat off < unat len"
      using trim_frags_Inr [OF list(5)] by blast+
    have IH: "trim_list_ok (unat len - unat off) flist (trim_frag_list ex cl flist off len)"
      using list off H dl wfl "1.IH" [of ?d off] by (simp add: H_def)
    obtain e fl where r: "trim_frag_list ex cl flist off len = (e, fl)" by fastforce
    show ?thesis
    proof (cases "e = 0")
      case True
      have "concat frags @ concat (map skb_bytes fl)
        = take (unat len - unat (slen - dlen)) (concat frags @ concat (map skb_bytes flist))"
        using IH r True off by (simp add: trim_list_ok_def H_def)
      from trim_done_high [OF "1.prems" list(1) list(4) [unfolded H_def] _ this] list r True IH
      show ?thesis by (simp add: trim_ok_def H_def trim_list_ok_def del: skb_bytes.simps sk_wf.simps)
    next
      case False
      have "map d_len fl = map d_len flist" using IH r False by (simp add: trim_list_ok_def)
      then have "sum_list (map unat (map d_len fl)) = sum_list (map unat (map d_len flist))" by (rule arg_cong)
      then have "(\<Sum>f \<leftarrow> fl. unat (d_len f)) = (\<Sum>f \<leftarrow> flist. unat (d_len f))" by (simp add: comp_def)
      with IH r False list "1.prems" show ?thesis
        by (simp add: trim_ok_def trim_list_ok_def H_def)
    qed
  qed
next
  case (2 ex cl offset len)
  then show ?case by (simp add: trim_list_ok_def)
next
  case (3 ex cl f fs offset len)
  show ?case
  proof (rule trim_list_step)
    show "sk_wf f" "\<forall>f \<in> set fs. sk_wf f" "unat offset < unat len" using 3 by simp_all
    show b: "unat offset + unat (d_len f) + length (concat (map skb_bytes fs)) < 2 ^ 31"
      using 3 length_skb_bytes [of f] by simp
    have "offset + of_nat (unat (d_len f)) = offset + d_len f" by simp
    then have "unat (offset + d_len f) = unat offset + unat (d_len f)"
      using unat_plus_u32 [of offset "unat (d_len f)"] b by simp
    then show "trim_list_ok (unat len - unat e) fs (trim_frag_list ex cl fs e len)"
      if "e = offset + d_len f" "cl f" "e < len" for e
      using "3.IH"(1) [OF that(1)] that 3 b by (simp add: word_less_nat_alt)
    show "trim_ok (len - offset) f (pskb_trim ex cl f (len - offset))"
      if "e = offset + d_len f" "cl f" "e > len" for e
      using "3.IH"(2) [OF that(1)] that 3 by (simp add: not_less)
  qed
qed

end
