(* ===== verification/SockAttach.thy ===== *)
theory SockAttach
  imports FilterRun SkTrim
begin

text \<open>
  Filters on sockets: \<open>sk_attach_filter\<close>, \<open>sk_detach_filter\<close> and \<open>sk_filter\<close> of \<open>net/core/filter.c\<close>,
  the reference counts of \<open>include/net/sock.h\<close>, and the option memory and socket life cycle of
  \<open>net/core/sock.c\<close>, with the invariant that ties them together.
\<close>

section \<open>Filters and sockets\<close>

record sk_filter_obj =
  fp_refcnt :: int
  fp_len :: nat
  fp_insns :: "sock_filter list"

record sock =
  sk_filter_ptr :: "nat option"
  sk_omem_alloc :: int

type_synonym fheap = "nat \<rightharpoonup> sk_filter_obj"

definition sk_filter_len :: "sk_filter_obj \<Rightarrow> int" where
  "sk_filter_len fp = int (fp_len fp) * 8 + 16"

definition sock_kmalloc :: "int \<Rightarrow> nat option \<Rightarrow> sock \<Rightarrow> int \<Rightarrow> nat option \<times> sock" where
  "sock_kmalloc optmem_max kmalloc sk sz =
    (if sz \<le> optmem_max \<and> sk_omem_alloc sk + sz < optmem_max then
       (let sk' = sk\<lparr>sk_omem_alloc := sk_omem_alloc sk + sz\<rparr>
        in case kmalloc of
             Some a \<Rightarrow> (Some a, sk')
           | None \<Rightarrow> (None, sk'\<lparr>sk_omem_alloc := sk_omem_alloc sk' - sz\<rparr>))
     else (None, sk))"

definition sock_kfree_s :: "sock \<Rightarrow> int \<Rightarrow> sock" where
  "sock_kfree_s sk sz = sk\<lparr>sk_omem_alloc := sk_omem_alloc sk - sz\<rparr>"

definition sk_filter_release :: "fheap \<Rightarrow> nat \<Rightarrow> fheap outcome" where
  "sk_filter_release h a = (case h a of
      None \<Rightarrow> Fault
    | Some fp \<Rightarrow> Ok (if fp_refcnt fp - 1 = 0 then h(a := None)
                     else h(a \<mapsto> fp\<lparr>fp_refcnt := fp_refcnt fp - 1\<rparr>)))"

definition sk_filter_uncharge :: "fheap \<Rightarrow> sock \<Rightarrow> nat \<Rightarrow> (fheap \<times> sock) outcome" where
  "sk_filter_uncharge h sk a = (case h a of
      None \<Rightarrow> Fault
    | Some fp \<Rightarrow> (case sk_filter_release h a of
        Fault \<Rightarrow> Fault
      | Ok h' \<Rightarrow> Ok (h', sk\<lparr>sk_omem_alloc := sk_omem_alloc sk - sk_filter_len fp\<rparr>)))"

definition sk_filter_charge :: "fheap \<Rightarrow> sock \<Rightarrow> nat \<Rightarrow> (fheap \<times> sock) outcome" where
  "sk_filter_charge h sk a = (case h a of
      None \<Rightarrow> Fault
    | Some fp \<Rightarrow> Ok (h(a \<mapsto> fp\<lparr>fp_refcnt := fp_refcnt fp + 1\<rparr>),
                     sk\<lparr>sk_omem_alloc := sk_omem_alloc sk + sk_filter_len fp\<rparr>))"

datatype user_filter = UserNull | UserBad | UserInsns "nat \<Rightarrow> sock_filter"

record sock_fprog =
  fprog_len :: u16
  fprog_filter :: user_filter

definition sk_attach_filter ::
  "int \<Rightarrow> nat option \<Rightarrow> sock_fprog \<Rightarrow> fheap \<Rightarrow> sock \<Rightarrow> (int \<times> fheap \<times> sock) outcome" where
  "sk_attach_filter optmem_max kmalloc fprog h sk =
    (let fsize = 8 * uint (fprog_len fprog)
     in if fprog_filter fprog = UserNull then Ok (- EINVAL, h, sk)
        else (case sock_kmalloc optmem_max kmalloc sk (fsize + 16) of
            (None, sk1) \<Rightarrow> Ok (- ENOMEM, h, sk1)
          | (Some a, sk1) \<Rightarrow>
             (case fprog_filter fprog of
                UserInsns mem \<Rightarrow>
                 (let insns = map mem [0..<unat (fprog_len fprog)];
                      (err, insns') = sk_chk_filter insns;
                      fp = \<lparr>fp_refcnt = 1, fp_len = unat (fprog_len fprog), fp_insns = insns'\<rparr>;
                      h1 = h(a \<mapsto> fp)
                  in if err \<noteq> 0 then
                       (case sk_filter_uncharge h1 sk1 a of
                          Fault \<Rightarrow> Fault
                        | Ok (h2, sk2) \<Rightarrow> Ok (err, h2, sk2))
                     else
                       (let sk2 = sk1\<lparr>sk_filter_ptr := Some a\<rparr>
                        in case sk_filter_ptr sk1 of
                             None \<Rightarrow> Ok (0, h1, sk2)
                           | Some old_fp \<Rightarrow>
                              (case sk_filter_uncharge h1 sk2 old_fp of
                                 Fault \<Rightarrow> Fault
                               | Ok (h2, sk3) \<Rightarrow> Ok (0, h2, sk3))))
              | _ \<Rightarrow> Ok (- EFAULT, h, sock_kfree_s sk1 (fsize + 16)))))"

definition sk_detach_filter :: "fheap \<Rightarrow> sock \<Rightarrow> (int \<times> fheap \<times> sock) outcome" where
  "sk_detach_filter h sk = (case sk_filter_ptr sk of
      None \<Rightarrow> Ok (- ENOENT, h, sk)
    | Some a \<Rightarrow> (case sk_filter_uncharge h (sk\<lparr>sk_filter_ptr := None\<rparr>) a of
        Fault \<Rightarrow> Fault
      | Ok (h', sk') \<Rightarrow> Ok (0, h', sk')))"

definition sk_clone :: "fheap \<Rightarrow> sock \<Rightarrow> (fheap \<times> sock) outcome" where
  "sk_clone h sk =
    (let newsk = sk\<lparr>sk_omem_alloc := 0\<rparr>
     in case sk_filter_ptr newsk of
          None \<Rightarrow> Ok (h, newsk)
        | Some a \<Rightarrow> sk_filter_charge h newsk a)"

text \<open>The second component is the amount \<open>__sk_free\<close> reports as leaked option memory.\<close>

definition sk_free :: "fheap \<Rightarrow> sock \<Rightarrow> (fheap \<times> int) outcome" where
  "sk_free h sk = (case sk_filter_ptr sk of
      None \<Rightarrow> Ok (h, sk_omem_alloc sk)
    | Some a \<Rightarrow> (case sk_filter_uncharge h sk a of
        Fault \<Rightarrow> Fault
      | Ok (h', sk') \<Rightarrow> Ok (h', sk_omem_alloc sk')))"

section \<open>The invariant\<close>

record sock_world =
  filters :: fheap
  socks :: "nat \<rightharpoonup> sock"

definition users :: "(nat \<rightharpoonup> sock) \<Rightarrow> nat \<Rightarrow> nat set" where
  "users ss a = {s. \<exists>sk. ss s = Some sk \<and> sk_filter_ptr sk = Some a}"

definition filter_ok :: "sk_filter_obj \<Rightarrow> bool" where
  "filter_ok fp \<longleftrightarrow> bpf_checked (fp_insns fp) \<and> fp_len fp = length (fp_insns fp)"

definition slot_ok :: "sk_filter_obj option \<Rightarrow> nat set \<Rightarrow> bool" where
  "slot_ok x V \<longleftrightarrow> finite V \<and> (case x of
      None \<Rightarrow> V = {}
    | Some fp \<Rightarrow> fp_refcnt fp = int (card V) \<and> V \<noteq> {} \<and> filter_ok fp)"

definition heap_ok :: "fheap \<Rightarrow> (nat \<Rightarrow> nat set) \<Rightarrow> bool" where
  "heap_ok h U \<longleftrightarrow> (\<forall>a. slot_ok (h a) (U a))"

definition charge :: "fheap \<Rightarrow> sock \<Rightarrow> int" where
  "charge h sk = (case sk_filter_ptr sk of
      None \<Rightarrow> 0
    | Some a \<Rightarrow> (case h a of None \<Rightarrow> 0 | Some fp \<Rightarrow> sk_filter_len fp))"

definition sock_inv :: "sock_world \<Rightarrow> bool" where
  "sock_inv w \<longleftrightarrow> heap_ok (filters w) (users (socks w)) \<and>
     (\<forall>s sk. socks w s = Some sk \<longrightarrow> sk_omem_alloc sk = charge (filters w) sk)"

lemma heap_ok_upd: "heap_ok h U \<Longrightarrow> slot_ok x V \<Longrightarrow> heap_ok (h(a := x)) (U(a := V))"
  by (simp add: heap_ok_def)

lemma heap_ok_live: "heap_ok h U \<Longrightarrow> s \<in> U a \<Longrightarrow> \<exists>fp. h a = Some fp"
  by (cases "h a") (auto simp: heap_ok_def slot_ok_def dest!: spec [of _ a])

text \<open>The filters a heap keeps have the size they had.\<close>

definition same_len :: "fheap \<Rightarrow> fheap \<Rightarrow> bool" where
  "same_len h h' \<longleftrightarrow> (\<forall>a fp'. h' a = Some fp' \<longrightarrow> (\<exists>fp. h a = Some fp \<and> sk_filter_len fp = sk_filter_len fp'))"

lemma slot_ok_drop:
  assumes "slot_ok (Some fp) V" "s \<in> V"
  shows "slot_ok (if fp_refcnt fp - 1 = 0 then None else Some (fp\<lparr>fp_refcnt := fp_refcnt fp - 1\<rparr>)) (V - {s})"
proof -
  have fin: "finite V" "fp_refcnt fp = int (card V)" "filter_ok fp" using assms(1) by (auto simp: slot_ok_def)
  have c: "card V = Suc (card (V - {s}))" using fin(1) assms(2) by (rule card.remove)
  then have "fp_refcnt fp - 1 = int (card (V - {s}))" using fin(2) by simp
  with fin show ?thesis by (auto simp: slot_ok_def filter_ok_def)
qed

lemma slot_ok_add:
  assumes "slot_ok (Some fp) V" "s \<notin> V"
  shows "slot_ok (Some (fp\<lparr>fp_refcnt := fp_refcnt fp + 1\<rparr>)) (insert s V)"
  using assms by (auto simp: slot_ok_def filter_ok_def)

lemma uncharge_ok:
  assumes "heap_ok h U" "s \<in> U b"
  obtains h' fp where "h b = Some fp" "heap_ok h' (U(b := U b - {s}))" "same_len h h'"
    "\<And>sk. sk_filter_uncharge h sk b = Ok (h', sk\<lparr>sk_omem_alloc := sk_omem_alloc sk - sk_filter_len fp\<rparr>)"
proof -
  obtain fp where fp: "h b = Some fp" using heap_ok_live [OF assms] by blast
  define x where "x = (if fp_refcnt fp - 1 = 0 then None else Some (fp\<lparr>fp_refcnt := fp_refcnt fp - 1\<rparr>))"
  have "slot_ok (Some fp) (U b)" using assms(1) fp by (metis heap_ok_def)
  then have "heap_ok (h(b := x)) (U(b := U b - {s}))"
    unfolding x_def using assms by (intro heap_ok_upd slot_ok_drop)
  moreover have "same_len h (h(b := x))" using fp by (auto simp: same_len_def x_def sk_filter_len_def)
  moreover have "sk_filter_uncharge h sk b = Ok (h(b := x), sk\<lparr>sk_omem_alloc := sk_omem_alloc sk - sk_filter_len fp\<rparr>)" for sk
    using fp by (simp add: sk_filter_uncharge_def sk_filter_release_def x_def)
  ultimately show ?thesis using fp that by blast
qed

lemma users_upd:
  "users (ss(s := x)) a = (users ss a - {s}) \<union> (if \<exists>sk. x = Some sk \<and> sk_filter_ptr sk = Some a then {s} else {})"
  by (auto simp: users_def)

lemma charge_same:
  assumes "same_len h h'" "heap_ok h' U" "\<And>a. sk_filter_ptr sk = Some a \<Longrightarrow> U a \<noteq> {}"
  shows "charge h' sk = charge h sk"
proof (cases "sk_filter_ptr sk")
  case (Some a)
  then obtain fp' where "h' a = Some fp'" using heap_ok_live [OF assms(2)] assms(3) by fast
  moreover from this assms(1) obtain fp where "h a = Some fp" "sk_filter_len fp = sk_filter_len fp'"
    unfolding same_len_def by blast
  ultimately show ?thesis using Some by (simp add: charge_def)
qed (simp add: charge_def)

text \<open>Replacing the entry of one socket keeps the invariant if the heap matches the new users and
  the socket's account matches its filter.\<close>

lemma sock_inv_upd:
  assumes inv: "sock_inv w" and heap: "heap_ok h' (users ((socks w)(s := x)))" and len: "same_len (filters w) h' \<or> (\<exists>a fp. filters w a = None \<and> same_len ((filters w)(a \<mapsto> fp)) h')"
    and x: "\<And>sk. x = Some sk \<Longrightarrow> sk_omem_alloc sk = charge h' sk"
  shows "sock_inv \<lparr>filters = h', socks = (socks w)(s := x)\<rparr>"
proof -
  have "sk_omem_alloc sk = charge h' sk" if "socks w t = Some sk" "t \<noteq> s" for t sk
  proof -
    have own: "sk_omem_alloc sk = charge (filters w) sk" using inv that by (simp add: sock_inv_def)
    have live: "users ((socks w)(s := x)) a \<noteq> {}" if "sk_filter_ptr sk = Some a" for a
      using that \<open>socks w t = Some sk\<close> \<open>t \<noteq> s\<close> by (auto simp: users_def)
    from len show ?thesis
    proof (elim disjE exE conjE)
      assume "same_len (filters w) h'"
      from charge_same [OF this heap live] own show ?thesis by simp
    next
      fix a fp assume a: "filters w a = None" "same_len ((filters w)(a \<mapsto> fp)) h'"
      have "users (socks w) a = {}"
        using inv a(1) heap_ok_live [of "filters w" "users (socks w)" _ a] by (auto simp: sock_inv_def)
      then have "sk_filter_ptr sk \<noteq> Some a" using that(1) by (auto simp: users_def)
      then have "charge ((filters w)(a \<mapsto> fp)) sk = charge (filters w) sk"
        by (auto simp: charge_def split: option.splits)
      with charge_same [OF a(2) heap live] own show ?thesis by simp
    qed
  qed
  with heap x show ?thesis by (auto simp: sock_inv_def)
qed


section \<open>Every operation keeps the invariant\<close>

lemma attach_error:
  assumes "sk_attach_filter om km fprog h sk = Ok (r, h', sk')" "r \<noteq> 0" "\<And>a. km = Some a \<Longrightarrow> h a = None"
  shows "h' = h \<and> sk' = sk \<and> r \<in> {- EINVAL, - ENOMEM, - EFAULT}"
proof -
  have "r = - EINVAL" if "sk_chk_filter p = (r, q)" "r \<noteq> 0" for p q r
    using sk_chk_filter_ret [of p] that by auto
  then show ?thesis
    using assms
    by (auto simp: sk_attach_filter_def sock_kmalloc_def sock_kfree_s_def sk_filter_uncharge_def
        sk_filter_release_def Let_def sk_filter_len_def
        split: if_splits option.splits user_filter.splits prod.splits outcome.splits)
qed

text \<open>A successful attach: the new filter is on the heap, checked, and the old one released.\<close>

lemma attach_success:
  assumes "sk_attach_filter om km fprog h sk = Ok (0, h', sk')"
  obtains a mem insns' h1 sk1 where "km = Some a" "fprog_filter fprog = UserInsns mem"
    "sk_chk_filter (map mem [0..<unat (fprog_len fprog)]) = (0, insns')"
    "h1 = h(a \<mapsto> \<lparr>fp_refcnt = 1, fp_len = unat (fprog_len fprog), fp_insns = insns'\<rparr>)"
    "sk1 = sk\<lparr>sk_omem_alloc := sk_omem_alloc sk + (8 * uint (fprog_len fprog) + 16), sk_filter_ptr := Some a\<rparr>"
    "case sk_filter_ptr sk of None \<Rightarrow> (h', sk') = (h1, sk1) | Some b \<Rightarrow> sk_filter_uncharge h1 sk1 b = Ok (h', sk')"
  using assms that
  by (auto simp: sk_attach_filter_def sock_kmalloc_def sock_kfree_s_def Let_def
        split: if_splits option.splits user_filter.splits prod.splits outcome.splits)


lemma users_ptr: "ss s = Some sk \<Longrightarrow> s \<in> users ss a \<longleftrightarrow> sk_filter_ptr sk = Some a"
  by (auto simp: users_def)

lemma same_len_refl [simp]: "same_len h h"
  by (simp add: same_len_def)

lemma inv_heap: "sock_inv w \<Longrightarrow> heap_ok (filters w) (users (socks w))"
  by (simp add: sock_inv_def)

lemma inv_omem: "sock_inv w \<Longrightarrow> socks w s = Some sk \<Longrightarrow> sk_omem_alloc sk = charge (filters w) sk"
  by (simp add: sock_inv_def)

lemma inv_fresh: "sock_inv w \<Longrightarrow> filters w a = None \<Longrightarrow> users (socks w) a = {}"
  using heap_ok_live [OF inv_heap, of w _ a] by auto

lemma slot_ok_new:
  assumes "sk_chk_filter p = (0, p')"
  shows "slot_ok (Some \<lparr>fp_refcnt = 1, fp_len = length p, fp_insns = p'\<rparr>) {s}"
  using sk_chk_filter_checked [OF assms] sk_chk_filter_ret [of p] assms
  by (simp add: slot_ok_def filter_ok_def)

lemma attach_inv:
  assumes inv: "sock_inv w" and s: "socks w s = Some sk" and fresh: "\<And>a. km = Some a \<Longrightarrow> filters w a = None"
    and run: "sk_attach_filter om km fprog (filters w) sk = Ok (r, h', sk')"
  shows "sock_inv \<lparr>filters = h', socks = (socks w)(s \<mapsto> sk')\<rparr>"
proof (cases "r = 0")
  case False
  with attach_error [OF run] fresh have "h' = filters w" "sk' = sk" by blast+
  then have "\<lparr>filters = h', socks = (socks w)(s \<mapsto> sk')\<rparr> = w"
    using s by (cases w) (simp add: map_upd_triv)
  then show ?thesis using inv by simp
next
  case True
  let ?U = "users (socks w)"
  obtain a mem p' h1 sk1 where A: "km = Some a" "sk_chk_filter (map mem [0..<unat (fprog_len fprog)]) = (0, p')"
    "h1 = (filters w)(a \<mapsto> \<lparr>fp_refcnt = 1, fp_len = unat (fprog_len fprog), fp_insns = p'\<rparr>)"
    "sk1 = sk\<lparr>sk_omem_alloc := sk_omem_alloc sk + (8 * uint (fprog_len fprog) + 16), sk_filter_ptr := Some a\<rparr>"
    "case sk_filter_ptr sk of None \<Rightarrow> (h', sk') = (h1, sk1) | Some b \<Rightarrow> sk_filter_uncharge h1 sk1 b = Ok (h', sk')"
    using attach_success [OF run [unfolded True]] by metis
  have none: "filters w a = None" "?U a = {}" using fresh A(1) inv_fresh [OF inv] by auto
  have heap1: "heap_ok h1 (?U(a := {s}))"
    unfolding A(3) using inv_heap [OF inv] slot_ok_new [OF A(2)] by (intro heap_ok_upd) simp_all
  have new: "\<exists>a fp. filters w a = None \<and> same_len ((filters w)(a \<mapsto> fp)) h2" if "same_len h1 h2" for h2
    using that none(1) unfolding A(3) by blast
  have len1: "sk_omem_alloc sk1 = sk_omem_alloc sk + sk_filter_len (the (h1 a))"
    using A(3,4) by (simp add: sk_filter_len_def)
  show ?thesis
  proof (cases "sk_filter_ptr sk")
    case None
    then have eq: "h' = h1" "sk' = sk1" using A(5) by auto
    have "users ((socks w)(s \<mapsto> sk')) = ?U(a := {s})"
      using users_ptr [of "socks w" s sk, OF s] None none A(4) eq by (auto simp: users_upd fun_eq_iff)
    moreover have "sk_omem_alloc sk' = charge h' sk'"
      using len1 inv_omem [OF inv s] None A(3,4) eq by (simp add: charge_def)
    ultimately show ?thesis
      using heap1 eq by (intro sock_inv_upd [OF inv] disjI2 new) simp_all
  next
    case (Some b)
    then have b: "b \<noteq> a" "s \<in> (?U(a := {s})) b" using users_ptr [of "socks w" s sk, OF s] none(2) by auto
    obtain h2 fp where U: "h1 b = Some fp" "heap_ok h2 ((?U(a := {s}))(b := (?U(a := {s})) b - {s}))" "same_len h1 h2"
      "sk_filter_uncharge h1 sk1 b = Ok (h2, sk1\<lparr>sk_omem_alloc := sk_omem_alloc sk1 - sk_filter_len fp\<rparr>)"
      using uncharge_ok [OF heap1 b(2)] by metis
    then have eq: "h' = h2" "sk' = sk1\<lparr>sk_omem_alloc := sk_omem_alloc sk1 - sk_filter_len fp\<rparr>"
      using A(5) Some by auto
    have us: "users ((socks w)(s \<mapsto> sk')) = (?U(a := {s}))(b := (?U(a := {s})) b - {s})"
      using users_ptr [of "socks w" s sk, OF s] Some none A(4) eq b by (auto simp: users_upd fun_eq_iff)
    have "filters w b = Some fp" using U(1) A(3) b(1) by simp
    then have "sk_omem_alloc sk = sk_filter_len fp" using inv_omem [OF inv s] Some by (simp add: charge_def)
    moreover have "charge h' sk' = charge h1 sk'"
      using U us eq A(4) b by (intro charge_same [OF U(3) [folded eq(1)] U(2) [folded eq(1)]]) auto
    ultimately have "sk_omem_alloc sk' = charge h' sk'"
      using len1 A(3,4) eq by (simp add: charge_def)
    then show ?thesis
      using U(2,3) us eq(1) by (intro sock_inv_upd [OF inv] disjI2 new) simp_all
  qed
qed

lemma drop_step:
  assumes inv: "sock_inv w" and s: "socks w s = Some sk" "sk_filter_ptr sk = Some a"
  obtains h' where "same_len (filters w) h'"
    "\<And>sk0. sk_omem_alloc sk0 = sk_omem_alloc sk \<Longrightarrow>
       sk_filter_uncharge (filters w) sk0 a = Ok (h', sk0\<lparr>sk_omem_alloc := 0\<rparr>)"
    "\<And>x. (\<And>sk. x = Some sk \<Longrightarrow> sk_filter_ptr sk = None) \<Longrightarrow> heap_ok h' (users ((socks w)(s := x)))"
proof -
  have "s \<in> users (socks w) a" using s users_ptr by simp
  from uncharge_ok [OF inv_heap [OF inv] this] obtain h' fp where U: "filters w a = Some fp"
    "heap_ok h' ((users (socks w))(a := users (socks w) a - {s}))" "same_len (filters w) h'"
    "\<And>sk0. sk_filter_uncharge (filters w) sk0 a = Ok (h', sk0\<lparr>sk_omem_alloc := sk_omem_alloc sk0 - sk_filter_len fp\<rparr>)"
    by metis
  have "users ((socks w)(s := x)) = (users (socks w))(a := users (socks w) a - {s})"
    if "\<And>sk. x = Some sk \<Longrightarrow> sk_filter_ptr sk = None" for x
    using that users_ptr [of "socks w" s sk, OF s(1)] s(2) by (auto simp: users_upd fun_eq_iff)
  moreover have "sk_omem_alloc sk = sk_filter_len fp" using inv_omem [OF inv s(1)] U(1) s(2) by (simp add: charge_def)
  ultimately show ?thesis using U(2-4) by (intro that) simp_all
qed

lemma no_filter_users:
  assumes "\<And>sk. socks w s = Some sk \<Longrightarrow> sk_filter_ptr sk = None" "\<And>sk. x = Some sk \<Longrightarrow> sk_filter_ptr sk = None"
  shows "users ((socks w)(s := x)) = users (socks w)"
  using assms by (auto simp: users_def fun_eq_iff)

lemma detach_inv:
  assumes inv: "sock_inv w" and s: "socks w s = Some sk"
  shows "\<exists>r h' sk'. sk_detach_filter (filters w) sk = Ok (r, h', sk') \<and>
     sk_filter_ptr sk' = None \<and> sock_inv \<lparr>filters = h', socks = (socks w)(s \<mapsto> sk')\<rparr>"
proof (cases "sk_filter_ptr sk")
  case None
  then have "(socks w)(s \<mapsto> sk) = socks w" using s by (simp add: map_upd_triv)
  then show ?thesis using None inv by (cases w) (simp add: sk_detach_filter_def)
next
  case (Some a)
  obtain h' where h': "same_len (filters w) h'"
      "sk_filter_uncharge (filters w) (sk\<lparr>sk_filter_ptr := None\<rparr>) a = Ok (h', sk\<lparr>sk_filter_ptr := None, sk_omem_alloc := 0\<rparr>)"
      "heap_ok h' (users ((socks w)(s \<mapsto> sk\<lparr>sk_filter_ptr := None, sk_omem_alloc := 0\<rparr>)))"
    using drop_step [OF inv s Some] by (metis (no_types, lifting) option.inject sock.select_convs(1) sock.surjective sock.update_convs(1,2) sock.select_convs(2))
  have "sock_inv \<lparr>filters = h', socks = (socks w)(s \<mapsto> sk\<lparr>sk_filter_ptr := None, sk_omem_alloc := 0\<rparr>)\<rparr>"
    using h' by (intro sock_inv_upd [OF inv]) (auto simp: charge_def)
  with h'(2) Some show ?thesis by (simp add: sk_detach_filter_def)
qed

lemma free_inv:
  assumes inv: "sock_inv w" and s: "socks w s = Some sk"
  shows "\<exists>h'. sk_free (filters w) sk = Ok (h', 0) \<and> sock_inv \<lparr>filters = h', socks = (socks w)(s := None)\<rparr>"
proof (cases "sk_filter_ptr sk")
  case None
  then have "sk_omem_alloc sk = 0" using inv_omem [OF inv s] by (simp add: charge_def)
  moreover have "users ((socks w)(s := None)) = users (socks w)"
    using None s by (intro no_filter_users) auto
  then have "sock_inv \<lparr>filters = filters w, socks = (socks w)(s := None)\<rparr>"
    using inv_heap [OF inv] by (intro sock_inv_upd [OF inv]) simp_all
  ultimately show ?thesis using None by (simp add: sk_free_def)
next
  case (Some a)
  obtain h' where h': "same_len (filters w) h'" "sk_filter_uncharge (filters w) sk a = Ok (h', sk\<lparr>sk_omem_alloc := 0\<rparr>)"
      "heap_ok h' (users ((socks w)(s := None)))"
    using drop_step [OF inv s Some] by (metis option.distinct(1))
  then have "sock_inv \<lparr>filters = h', socks = (socks w)(s := None)\<rparr>"
    by (intro sock_inv_upd [OF inv]) simp_all
  with h'(2) Some show ?thesis by (simp add: sk_free_def)
qed

lemma clone_inv:
  assumes inv: "sock_inv w" and s: "socks w s = Some sk" and t: "socks w t = None"
  shows "\<exists>h' sk'. sk_clone (filters w) sk = Ok (h', sk') \<and> sk_filter_ptr sk' = sk_filter_ptr sk \<and>
    sock_inv \<lparr>filters = h', socks = (socks w)(t \<mapsto> sk')\<rparr>"
proof (cases "sk_filter_ptr sk")
  case None
  have "users ((socks w)(t \<mapsto> sk\<lparr>sk_omem_alloc := 0\<rparr>)) = users (socks w)"
    using None t by (intro no_filter_users) auto
  then have "sock_inv \<lparr>filters = filters w, socks = (socks w)(t \<mapsto> sk\<lparr>sk_omem_alloc := 0\<rparr>)\<rparr>"
    using inv_heap [OF inv] None by (intro sock_inv_upd [OF inv]) (auto simp: charge_def)
  then show ?thesis using None by (simp add: sk_clone_def)
next
  case (Some a)
  have tU: "t \<notin> users (socks w) a" using t by (simp add: users_def)
  have "s \<in> users (socks w) a" using s Some users_ptr by simp
  then obtain fp where fp: "filters w a = Some fp" using heap_ok_live [OF inv_heap [OF inv]] by blast
  then have "slot_ok (Some fp) (users (socks w) a)" using inv_heap [OF inv] by (metis heap_ok_def)
  define h' where "h' = (filters w)(a \<mapsto> fp\<lparr>fp_refcnt := fp_refcnt fp + 1\<rparr>)"
  define sk' where "sk' = sk\<lparr>sk_omem_alloc := sk_filter_len fp\<rparr>"
  have "heap_ok h' ((users (socks w))(a := insert t (users (socks w) a)))"
    unfolding h'_def using \<open>slot_ok _ _\<close> tU by (intro heap_ok_upd inv_heap [OF inv] slot_ok_add)
  moreover have "users ((socks w)(t \<mapsto> sk')) = (users (socks w))(a := insert t (users (socks w) a))"
    using t Some by (auto simp: users_def fun_eq_iff sk'_def)
  moreover have "same_len (filters w) h'" using fp by (auto simp: same_len_def h'_def sk_filter_len_def)
  moreover have "sk_omem_alloc sk' = charge h' sk'" using Some by (simp add: charge_def sk'_def h'_def sk_filter_len_def)
  ultimately have "sock_inv \<lparr>filters = h', socks = (socks w)(t \<mapsto> sk')\<rparr>"
    by (intro sock_inv_upd [OF inv]) simp_all
  moreover have "sk_clone (filters w) sk = Ok (h', sk')"
    using Some fp by (simp add: sk_clone_def sk_filter_charge_def h'_def sk'_def)
  ultimately show ?thesis using Some by (auto simp: sk'_def)
qed


lemma attach_no_fault:
  assumes inv: "sock_inv w" and s: "socks w s = Some sk" and fresh: "\<And>a. km = Some a \<Longrightarrow> filters w a = None"
  shows "sk_attach_filter om km fprog (filters w) sk \<noteq> Fault"
proof
  assume F: "sk_attach_filter om km fprog (filters w) sk = Fault"
  have dead: "sk_filter_uncharge (h(a \<mapsto> fp)) sk1 a \<noteq> Fault" for h a fp sk1
    by (simp add: sk_filter_uncharge_def sk_filter_release_def)
  have "sk_filter_uncharge ((filters w)(a \<mapsto> fp)) sk1 b \<noteq> Fault" if "sk_filter_ptr sk = Some b" for a b fp sk1
  proof -
    have "s \<in> users (socks w) b" using s that users_ptr by simp
    then have "\<exists>fp'. ((filters w)(a \<mapsto> fp)) b = Some fp'" using heap_ok_live [OF inv_heap [OF inv]] by simp
    then show ?thesis by (auto simp: sk_filter_uncharge_def sk_filter_release_def)
  qed
  with dead F show False
    by (auto simp: sk_attach_filter_def sock_kmalloc_def Let_def
        split: if_splits option.splits user_filter.splits prod.splits outcome.splits)
qed

section \<open>The socket layer as a transition system\<close>

inductive sock_step :: "int \<Rightarrow> sock_world \<Rightarrow> sock_world \<Rightarrow> bool" for optmem_max where
  create: "socks w s = None \<Longrightarrow>
    sock_step optmem_max w \<lparr>filters = filters w, socks = (socks w)(s \<mapsto> \<lparr>sk_filter_ptr = None, sk_omem_alloc = 0\<rparr>)\<rparr>"
| attach: "socks w s = Some sk \<Longrightarrow> (\<And>a. kmalloc = Some a \<Longrightarrow> filters w a = None) \<Longrightarrow>
    sk_attach_filter optmem_max kmalloc fprog (filters w) sk = Ok (r, h', sk') \<Longrightarrow>
    sock_step optmem_max w \<lparr>filters = h', socks = (socks w)(s \<mapsto> sk')\<rparr>"
| detach: "socks w s = Some sk \<Longrightarrow> sk_detach_filter (filters w) sk = Ok (r, h', sk') \<Longrightarrow>
    sock_step optmem_max w \<lparr>filters = h', socks = (socks w)(s \<mapsto> sk')\<rparr>"
| clone: "socks w s = Some sk \<Longrightarrow> socks w t = None \<Longrightarrow> sk_clone (filters w) sk = Ok (h', sk') \<Longrightarrow>
    sock_step optmem_max w \<lparr>filters = h', socks = (socks w)(t \<mapsto> sk')\<rparr>"
| free: "socks w s = Some sk \<Longrightarrow> sk_free (filters w) sk = Ok (h', leak) \<Longrightarrow>
    sock_step optmem_max w \<lparr>filters = h', socks = (socks w)(s := None)\<rparr>"

definition sock_init :: sock_world where
  "sock_init = \<lparr>filters = Map.empty, socks = Map.empty\<rparr>"

lemma sock_init_inv: "sock_inv sock_init"
  by (simp add: sock_inv_def sock_init_def heap_ok_def slot_ok_def users_def)

lemma sock_step_inv:
  assumes inv: "sock_inv w" and step: "sock_step om w w'"
  shows "sock_inv w'"
  using step
proof cases
  case (create s)
  have "users ((socks w)(s \<mapsto> \<lparr>sk_filter_ptr = None, sk_omem_alloc = 0\<rparr>)) = users (socks w)"
    using create by (intro no_filter_users) auto
  then show ?thesis
    unfolding create(1) using inv_heap [OF inv] by (intro sock_inv_upd [OF inv]) (auto simp: charge_def)
next
  case (attach s sk kmalloc fprog r h' sk')
  then show ?thesis using attach_inv [OF inv] by metis
next
  case (detach s sk r h' sk')
  then show ?thesis using detach_inv [OF inv, of s sk] by auto
next
  case (clone s sk t h' sk')
  then show ?thesis using clone_inv [OF inv, of s sk t] by auto
next
  case (free s sk h' leak)
  then show ?thesis using free_inv [OF inv, of s sk] by auto
qed

interpretation sock_sys: invariant_system "\<lambda>w. w = sock_init" "sock_step om" sock_inv for om
  by unfold_locales (auto intro: sock_init_inv sock_step_inv)

section \<open>Receiving a packet\<close>

text \<open>\<open>pskb_trim\<close> on the packet itself, with the tail pointer it moves.\<close>

definition sk_buff_trim :: "(sk_data \<Rightarrow> int) \<Rightarrow> (sk_data \<Rightarrow> bool) \<Rightarrow> sk_buff \<Rightarrow> u32 \<Rightarrow> int \<times> sk_buff" where
  "sk_buff_trim ex cl skb len =
    (case pskb_trim ex cl (skb_view skb) len of
       (err, d) \<Rightarrow> (err, skb\<lparr>skb_len := d_len d, skb_data_len := d_data_len d, skb_frags := d_frags d,
           skb_frag_list := d_frag_list d,
           skb_tail := (if err = 0 \<and> len < skb_len skb \<and> (skb_data_len skb = 0 \<or> len \<le> skb_len skb - skb_data_len skb)
             then skb_data skb + unat len else skb_tail skb)\<rparr>))"

text \<open>\<open>sec\<close> is the verdict of the security module, \<open>security_sock_rcv_skb\<close>.\<close>

definition sk_filter ::
  "int \<Rightarrow> (sk_data \<Rightarrow> int) \<Rightarrow> (sk_data \<Rightarrow> bool) \<Rightarrow> bpf_arch \<Rightarrow> u32 list \<Rightarrow> fheap \<Rightarrow> sock \<Rightarrow> sk_buff \<Rightarrow>
   (int \<times> sk_buff) outcome option" where
  "sk_filter sec ex cl ar mem0 h sk skb =
    (if sec \<noteq> 0 then Some (Ok (sec, skb))
     else case sk_filter_ptr sk of
       None \<Rightarrow> Some (Ok (0, skb))
     | Some a \<Rightarrow> (case h a of
         None \<Rightarrow> Some Fault
       | Some fp \<Rightarrow> (case sk_run_filter ar mem0 skb (fp_insns fp) of
           None \<Rightarrow> None
         | Some Fault \<Rightarrow> Some Fault
         | Some (Ok pkt_len) \<Rightarrow> Some (Ok (if pkt_len \<noteq> 0 then sk_buff_trim ex cl skb pkt_len else (- EPERM, skb))))))"

lemma d_linear_trim: "d_linear (snd (pskb_trim ex cl d len)) = d_linear d"
  by (cases d) (auto simp: trim_done_def Let_def split: sum.splits prod.splits)

lemma sk_buff_trim_view: "skb_view (snd (sk_buff_trim ex cl skb len)) = snd (pskb_trim ex cl (skb_view skb) len)"
proof -
  obtain err d where r: "pskb_trim ex cl (skb_view skb) len = (err, d)" by fastforce
  have "d_linear d = drop (skb_data skb) (skb_head skb)"
    using d_linear_trim [of ex cl "skb_view skb" len] unfolding r by (simp add: skb_view_def)
  then show ?thesis unfolding sk_buff_trim_def r by (cases d) (simp add: skb_view_def)
qed

lemma sk_buff_trim_bytes:
  assumes "sk_wf (skb_view skb)" "sk_buff_trim ex cl skb len = (err, skb')"
  shows "sk_wf (skb_view skb') \<and> skb_bytes (skb_view skb') =
    (if err = 0 then take (unat len) (skb_bytes (skb_view skb)) else skb_bytes (skb_view skb))"
proof -
  have "skb_view skb' = snd (pskb_trim ex cl (skb_view skb) len)" "err = fst (pskb_trim ex cl (skb_view skb) len)"
    using sk_buff_trim_view [of ex cl skb len] assms(2) by (auto simp: sk_buff_trim_def split: prod.splits)
  with trim_main(1) [OF assms(1), of len ex cl] show ?thesis by (simp add: trim_ok_def)
qed

end
