(* ===== verification/FilterProps.thy ===== *)
theory FilterProps
  imports FilterRun
begin

text \<open>
  The properties of the socket filter checker and interpreter, each at a sample program and packet.
\<close>

fun bpf_loop_upto :: "nat \<Rightarrow> bpf_arch \<Rightarrow> sk_buff \<Rightarrow> sock_filter list \<Rightarrow> bpf_state \<Rightarrow> u32 outcome option" where
  "bpf_loop_upto 0 ar skb insns st = None"
| "bpf_loop_upto (Suc n) ar skb insns st =
    (if rpc st < int (length insns) then
       (case bpf_step ar skb insns st of
          StepFault \<Rightarrow> Some Fault
        | Return v \<Rightarrow> Some (Ok v)
        | Next st' \<Rightarrow> bpf_loop_upto n ar skb insns (st'\<lparr>rpc := s32 (rpc st' + 1)\<rparr>))
     else Some (Ok 0))"

lemma bpf_loop_upto_Some:
  "bpf_loop_upto n ar skb insns st = Some r \<Longrightarrow> bpf_loop ar skb insns st = Some r"
  by (induction n ar skb insns st rule: bpf_loop_upto.induct)
     (subst bpf_loop.simps; simp split: if_splits bpf_res.splits)+

lemma sk_run_filter_upto:
  "bpf_loop_upto n ar skb insns (bpf_init mem0) = Some r \<Longrightarrow> sk_run_filter ar mem0 skb insns = Some r"
  by (simp add: sk_run_filter_def bpf_init_def bpf_loop_upto_Some)

section \<open>Sample programs and packets\<close>

definition bpf_stmt :: "bpf_s \<Rightarrow> u32 \<Rightarrow> sock_filter" where
  "bpf_stmt s kk = \<lparr>f_code = bpf_raw s, f_jt = 0, f_jf = 0, f_k = kk\<rparr>"

definition linear_skb :: "u8 list \<Rightarrow> nat \<Rightarrow> sk_buff" where
  "linear_skb bs n = \<lparr>skb_head = bs, skb_data = 0, skb_tail = n, skb_len = of_nat n, skb_data_len = 0,
    skb_frags = [], skb_frag_list = [], skb_network_header = 0, skb_mac_header = 0, skb_protocol = 0,
    skb_pkt_type = 0, skb_dev = None, skb_mark = 0, skb_queue_mapping = 0\<rparr>"

definition zero_arch :: bpf_arch where
  "zero_arch = \<lparr>wide_lsh = (\<lambda>_ _. 0), wide_rsh = (\<lambda>_ _. 0)\<rparr>"

definition zero_mem :: "u32 list" where
  "zero_mem = replicate 16 0"

definition len_prog :: "sock_filter list" where
  "len_prog = [bpf_stmt BPF_S_LD_H_ABS 1, bpf_stmt BPF_S_ST 3, bpf_stmt BPF_S_LD_MEM 3, bpf_stmt BPF_S_RET_A 0]"

text \<open>A packet of four bytes, the last two of them in a page fragment.\<close>

definition frag_skb :: sk_buff where
  "frag_skb = (linear_skb [0x11, 0x22, 0, 0, 0] 2)
     \<lparr>skb_len := 4, skb_data_len := 2, skb_frags := [[0x33, 0x44]]\<rparr>"

definition nlattr_prog :: "sock_filter list" where
  "nlattr_prog = [bpf_stmt BPF_S_LD_IMM 0x80000003, bpf_stmt BPF_S_LD_B_ABS (word_of_int (SKF_AD_OFF + 12)),
     bpf_stmt BPF_S_RET_A 0]"

definition nlattr_nest_prog :: "sock_filter list" where
  "nlattr_nest_prog = [bpf_stmt BPF_S_LD_IMM 0, bpf_stmt BPF_S_LDX_IMM 7,
     bpf_stmt BPF_S_LD_B_ABS (word_of_int (SKF_AD_OFF + 16)), bpf_stmt BPF_S_RET_A 0]"

definition tail_prog :: "sock_filter list" where
  "tail_prog = [bpf_stmt BPF_S_LD_W_ABS (word_of_int (SKF_LL_OFF + 1)), bpf_stmt BPF_S_RET_A 0]"

definition checked :: "sock_filter list \<Rightarrow> sock_filter list" where
  "checked p = snd (sk_chk_filter p)"

lemma len_prog_checked: "sk_chk_filter len_prog = (0, checked len_prog)"
  unfolding checked_def by code_simp

lemma frag_skb_wf: "skb_wf frag_skb"
  by (simp add: frag_skb_def linear_skb_def skb_wf_def skb_view_def)

section \<open>Properties\<close>

text \<open>C2. The checker accepts exactly the legal programs: \<open>sk_chk_filter\<close> returns 0 on a program iff
  it has between 1 and 4096 instructions, each of them an instruction of the documented encoding with
  operands in range (no constant division by zero, scratch index below 16, every jump target inside
  the program), and ends with a return; it then rewrites the codes and nothing else.\<close>

theorem sk_chk_filter_accepts_iff:
  "sk_chk_filter p = (0, p') \<longleftrightarrow> (\<exists>ss. bpf_legal p ss \<and> p' = rewrite_codes p ss)"
  by (rule sk_chk_filter_Ok)

text \<open>C3. A program the checker has accepted terminates on every packet, from any initial scratch
  memory, whatever the machine does with wide shifts.\<close>

theorem sk_run_filter_terminates:
  assumes "sk_chk_filter p = (0, p')"
  shows "\<exists>r. sk_run_filter ar mem0 skb p' = Some r"
proof -
  have chk: "bpf_checked p'" using assms by (rule sk_chk_filter_checked)
  then have "0 < length p'" by (simp add: bpf_checked_def)
  with bpf_loop_terminates [OF chk, where i = 0] show ?thesis by (simp add: sk_run_filter_def)
qed

theorem sk_run_filter_terminates_witness:
  "\<exists>r. sk_run_filter zero_arch zero_mem frag_skb (checked len_prog) = Some r"
  by (rule sk_run_filter_terminates [OF len_prog_checked])

text \<open>C1. Memory safety: on a well-formed packet a checked program ends with a value, and never
  reads or writes outside the packet buffer and the scratch memory, unless it reaches one of the two
  netlink attribute loads in a state where they are unguarded.\<close>

theorem sk_run_filter_safe:
  assumes "sk_chk_filter p = (0, p')" "skb_wf skb"
    and "\<And>st. bpf_reach ar mem0 skb p' st \<Longrightarrow> \<not> hazard_at skb p' st"
  shows "\<exists>v. sk_run_filter ar mem0 skb p' = Some (Ok v)"
proof -
  have chk: "bpf_checked p'" using assms(1) by (rule sk_chk_filter_checked)
  then have "0 < length p'" by (simp add: bpf_checked_def)
  with bpf_loop_safe [OF chk assms(2,3) bpf_reach.start, where i = 0] show ?thesis
    by (simp add: sk_run_filter_def bpf_init_def)
qed

theorem sk_run_filter_safe_witness:
  "\<exists>v. sk_run_filter zero_arch zero_mem frag_skb (checked len_prog) = Some (Ok v)"
  by (rule sk_run_filter_safe [OF len_prog_checked frag_skb_wf])
    (simp add: hazard_at_def nlattr_hazard_def skb_is_nonlinear_def frag_skb_def)

text \<open>C5. A packet load at a non-negative offset yields the bytes of the packet at that offset,
  across the linear area, page fragments and fragment list, and fails exactly when the packet is too
  short.\<close>

theorem load_pointer_reads_packet:
  assumes "skb_wf skb" "0 < n" "n \<le> 4" "m < 2 ^ 31"
  shows "\<exists>q. load_pointer skb (int m) n = Ok q \<and>
     (case packet_load skb m n of None \<Rightarrow> q = PNull | Some bs \<Rightarrow> q \<noteq> PNull \<and> rd_ptr skb q n = Ok bs)"
  using skb_header_pointer_spec [OF assms] by (simp add: load_pointer_def)

theorem load_pointer_reads_packet_witness:
  "\<exists>q. load_pointer frag_skb 1 2 = Ok q \<and> q \<noteq> PNull \<and> rd_ptr frag_skb q 2 = Ok [0x22, 0x33]"
proof -
  have "packet_load frag_skb 1 2 = Some [0x22, 0x33]" by code_simp
  with load_pointer_reads_packet [OF frag_skb_wf, of 2 1] show ?thesis by simp
qed

text \<open>C9. The uninitialised scratch memory never influences a run: from any two initial contents
  the filter gives the same result, on any program.\<close>

theorem sk_run_filter_mem_init:
  assumes "length m = BPF_MEMWORDS" "length m' = BPF_MEMWORDS"
  shows "sk_run_filter ar m skb insns = sk_run_filter ar m' skb insns"
  using sk_run_filter_mem0_Some [OF assms] sk_run_filter_mem0_Some [OF assms(2,1)]
  by (metis not_Some_eq)

theorem sk_run_filter_mem_init_witness:
  "sk_run_filter zero_arch zero_mem frag_skb (checked len_prog)
     = sk_run_filter zero_arch (replicate 16 0xffffffff) frag_skb (checked len_prog)"
  by (rule sk_run_filter_mem_init) (simp_all add: zero_mem_def)

text \<open>C19. The guard of the netlink attribute load subtracts the header size from the packet length
  without a check, so on a packet shorter than four bytes a checked program reads outside the packet.\<close>

theorem nlattr_guard_underflow:
  "fst (sk_chk_filter nlattr_prog) = 0 \<and> skb_wf (linear_skb [0, 0, 0, 0, 0] 2) \<and>
   sk_run_filter zero_arch zero_mem (linear_skb [0, 0, 0, 0, 0] 2) (snd (sk_chk_filter nlattr_prog)) = Some Fault"
proof (intro conjI)
  show "fst (sk_chk_filter nlattr_prog) = 0" by code_simp
  show "skb_wf (linear_skb [0, 0, 0, 0, 0] 2)" by (simp add: linear_skb_def skb_wf_def skb_view_def)
  show "sk_run_filter zero_arch zero_mem (linear_skb [0, 0, 0, 0, 0] 2) (snd (sk_chk_filter nlattr_prog)) = Some Fault"
    by (rule sk_run_filter_upto [of 3]) code_simp
qed

text \<open>C20. The guard of the nested attribute load compares the attribute length with
  \<open>A - skb->len\<close>, the subtraction the wrong way round, so an attribute longer than the packet passes
  it and a checked program reads outside the packet, also when the packet holds a whole attribute
  header.\<close>

theorem nlattr_nest_guard_reversed:
  "fst (sk_chk_filter nlattr_nest_prog) = 0 \<and> skb_wf (linear_skb [255, 0, 0, 0, 8, 0, 1, 0, 0, 0, 0] 8) \<and>
   sk_run_filter zero_arch zero_mem (linear_skb [255, 0, 0, 0, 8, 0, 1, 0, 0, 0, 0] 8)
     (snd (sk_chk_filter nlattr_nest_prog)) = Some Fault"
proof (intro conjI)
  show "fst (sk_chk_filter nlattr_nest_prog) = 0" by code_simp
  show "skb_wf (linear_skb [255, 0, 0, 0, 8, 0, 1, 0, 0, 0, 0] 8)"
    by (simp add: linear_skb_def skb_wf_def skb_view_def)
  show "sk_run_filter zero_arch zero_mem (linear_skb [255, 0, 0, 0, 8, 0, 1, 0, 0, 0, 0] 8)
     (snd (sk_chk_filter nlattr_nest_prog)) = Some Fault"
    by (rule sk_run_filter_upto [of 4]) code_simp
qed

text \<open>C21. A load relative to a header checks only that its first byte lies before the tail, not its
  width: the verdict of a checked program can depend on bytes behind the packet.\<close>

theorem load_pointer_reads_past_tail:
  "fst (sk_chk_filter tail_prog) = 0 \<and>
   skb_bytes (skb_view (linear_skb [1, 2, a, b, c] 2)) = [1, 2] \<and>
   sk_run_filter zero_arch zero_mem (linear_skb [1, 2, a, b, c] 2) (snd (sk_chk_filter tail_prog))
     = Some (Ok (be32 [2, a, b, c]))"
proof (intro conjI)
  show "fst (sk_chk_filter tail_prog) = 0" by code_simp
  show "skb_bytes (skb_view (linear_skb [1, 2, a, b, c] 2)) = [1, 2]"
    by (simp add: linear_skb_def skb_view_def)
  have c: "snd (sk_chk_filter tail_prog) = [\<lparr>f_code = 18, f_jt = 0, f_jf = 0, f_k = 0xffe00001\<rparr>,
      \<lparr>f_code = 1, f_jt = 0, f_jf = 0, f_k = 0\<rparr>]" by code_simp
  show "sk_run_filter zero_arch zero_mem (linear_skb [1, 2, a, b, c] 2) (snd (sk_chk_filter tail_prog))
     = Some (Ok (be32 [2, a, b, c]))"
    unfolding c by (rule sk_run_filter_upto [of 2]) code_simp
qed

end
