(* ===== verification/SockProps.thy ===== *)
theory SockProps
  imports SockAttach FilterProps
begin

text \<open>
  The properties of filters on sockets, each at a sample socket.
\<close>

section \<open>A sample socket\<close>

definition demo_fprog :: sock_fprog where
  "demo_fprog = \<lparr>fprog_len = 4, fprog_filter = UserInsns (\<lambda>i. len_prog ! i)\<rparr>"

definition demo_filter :: sk_filter_obj where
  "demo_filter = \<lparr>fp_refcnt = 1, fp_len = 4, fp_insns = checked len_prog\<rparr>"

definition demo_sock :: sock where
  "demo_sock = \<lparr>sk_filter_ptr = Some 7, sk_omem_alloc = 48\<rparr>"

definition demo_world :: sock_world where
  "demo_world = \<lparr>filters = [7 \<mapsto> demo_filter], socks = [1 \<mapsto> demo_sock]\<rparr>"

lemma demo_attach:
  "sk_attach_filter 10240 (Some 7) demo_fprog Map.empty \<lparr>sk_filter_ptr = None, sk_omem_alloc = 0\<rparr>
     = Ok (0, [7 \<mapsto> demo_filter], demo_sock)"
proof -
  have "map (\<lambda>i. len_prog ! i) [0..<4] = len_prog" by (simp add: len_prog_def numeral_eq_Suc)
  then show ?thesis
    using len_prog_checked
    by (simp add: sk_attach_filter_def demo_fprog_def sock_kmalloc_def demo_filter_def demo_sock_def)
qed

lemma demo_reachable: "(sock_step 10240)\<^sup>*\<^sup>* sock_init demo_world"
proof -
  have "sock_step 10240 sock_init \<lparr>filters = Map.empty, socks = [1 \<mapsto> \<lparr>sk_filter_ptr = None, sk_omem_alloc = 0\<rparr>]\<rparr>"
    using sock_step.create [of sock_init 1 10240] by (simp add: sock_init_def)
  moreover have "sock_step 10240 \<lparr>filters = Map.empty, socks = [1 \<mapsto> \<lparr>sk_filter_ptr = None, sk_omem_alloc = 0\<rparr>]\<rparr> demo_world"
    using sock_step.attach [of "\<lparr>filters = Map.empty, socks = [1 \<mapsto> \<lparr>sk_filter_ptr = None, sk_omem_alloc = 0\<rparr>]\<rparr>" 1 _ "Some 7" 10240 demo_fprog]
      demo_attach by (simp add: demo_world_def)
  ultimately show ?thesis by (rule converse_rtranclp_into_rtranclp [OF _ r_into_rtranclp])
qed

section \<open>Properties\<close>

text \<open>C4. In every state the socket layer can reach, by creating, cloning and freeing sockets and
  attaching and detaching filters in any order, the filter a socket points to is allocated, its
  reference count is the number of sockets that point to it, the option memory charged to the socket
  is the size of its filter, and the program terminates on every packet.\<close>

theorem attached_filter_invariant:
  assumes "(sock_step om)\<^sup>*\<^sup>* sock_init w" "socks w s = Some sk" "sk_filter_ptr sk = Some a"
  shows "\<exists>fp. filters w a = Some fp \<and> fp_refcnt fp = int (card (users (socks w) a)) \<and>
    sk_omem_alloc sk = sk_filter_len fp \<and> (\<forall>ar mem0 skb. \<exists>r. sk_run_filter ar mem0 skb (fp_insns fp) = Some r)"
proof -
  have inv: "sock_inv w" using sock_sys.reachable_inv [OF refl assms(1)] .
  have "s \<in> users (socks w) a" using users_ptr [of "socks w", OF assms(2)] assms(3) by simp
  then obtain fp where fp: "filters w a = Some fp" using heap_ok_live [OF inv_heap [OF inv]] by blast
  then have "slot_ok (Some fp) (users (socks w) a)" using inv_heap [OF inv] by (metis heap_ok_def)
  then have "fp_refcnt fp = int (card (users (socks w) a))" "bpf_checked (fp_insns fp)"
    by (simp_all add: slot_ok_def filter_ok_def)
  moreover have "sk_omem_alloc sk = sk_filter_len fp"
    using inv_omem [OF inv assms(2)] assms(3) fp by (simp add: charge_def)
  moreover have "0 < length (fp_insns fp)" using \<open>bpf_checked _\<close> by (simp add: bpf_checked_def)
  then have "\<exists>r. sk_run_filter ar mem0 skb (fp_insns fp) = Some r" for ar mem0 skb
    using bpf_loop_terminates [OF \<open>bpf_checked _\<close>, where i = 0] by (simp add: sk_run_filter_def)
  ultimately show ?thesis using fp by blast
qed

theorem attached_filter_invariant_witness:
  "\<exists>fp. filters demo_world 7 = Some fp \<and> fp_refcnt fp = int (card (users (socks demo_world) 7)) \<and>
    sk_omem_alloc demo_sock = sk_filter_len fp \<and> (\<forall>ar mem0 skb. \<exists>r. sk_run_filter ar mem0 skb (fp_insns fp) = Some r)"
  by (rule attached_filter_invariant [OF demo_reachable, of 1]) (simp_all add: demo_world_def demo_sock_def)

text \<open>C8. No operation on a reachable state touches a filter that was freed, and freeing a socket
  never reports leaked option memory.\<close>

theorem no_use_after_free:
  assumes "(sock_step om)\<^sup>*\<^sup>* sock_init w" "socks w s = Some sk"
    and "\<And>a. kmalloc = Some a \<Longrightarrow> filters w a = None" "socks w t = None"
  shows "sk_attach_filter om kmalloc fprog (filters w) sk \<noteq> Fault \<and> sk_detach_filter (filters w) sk \<noteq> Fault \<and>
    sk_clone (filters w) sk \<noteq> Fault \<and> (\<exists>h'. sk_free (filters w) sk = Ok (h', 0))"
proof -
  have inv: "sock_inv w" using sock_sys.reachable_inv [OF refl assms(1)] .
  show ?thesis
    using attach_no_fault [OF inv assms(2,3), where om = om and fprog = fprog] detach_inv [OF inv assms(2)]
      clone_inv [OF inv assms(2,4)] free_inv [OF inv assms(2)] by auto
qed

theorem no_use_after_free_witness:
  "sk_attach_filter 10240 (Some 8) demo_fprog (filters demo_world) demo_sock \<noteq> Fault \<and>
   sk_detach_filter (filters demo_world) demo_sock \<noteq> Fault \<and>
   sk_clone (filters demo_world) demo_sock \<noteq> Fault \<and> (\<exists>h'. sk_free (filters demo_world) demo_sock = Ok (h', 0))"
  by (rule no_use_after_free [OF demo_reachable, of 1 _ _ 2]) (auto simp: demo_world_def)

text \<open>C10. An attach that fails, for whatever reason, leaves the socket, its account and the heap as
  they were, and returns \<open>-EINVAL\<close>, \<open>-ENOMEM\<close> or \<open>-EFAULT\<close>.\<close>

theorem attach_failure_atomic:
  assumes "sk_attach_filter om kmalloc fprog h sk = Ok (r, h', sk')" "r \<noteq> 0"
    and "\<And>a. kmalloc = Some a \<Longrightarrow> h a = None"
  shows "h' = h \<and> sk' = sk \<and> r \<in> {- EINVAL, - ENOMEM, - EFAULT}"
  using attach_error [OF assms] .

theorem attach_failure_atomic_witness:
  "sk_attach_filter 10240 (Some 8) \<lparr>fprog_len = 0, fprog_filter = UserInsns (\<lambda>i. len_prog ! i)\<rparr>
     [7 \<mapsto> demo_filter] demo_sock = Ok (- EINVAL, [7 \<mapsto> demo_filter], demo_sock)"
proof -
  obtain r h' sk' where r: "sk_attach_filter 10240 (Some 8) \<lparr>fprog_len = 0, fprog_filter = UserInsns (\<lambda>i. len_prog ! i)\<rparr>
     [7 \<mapsto> demo_filter] demo_sock = Ok (r, h', sk')" "r = - EINVAL"
    by (simp add: sk_attach_filter_def sock_kmalloc_def demo_sock_def sk_chk_filter_def Let_def
        sk_filter_uncharge_def sk_filter_release_def)
  with attach_failure_atomic [OF r(1)] show ?thesis by simp
qed

text \<open>C6. Trimming: when it succeeds the packet is cut to the given length, its first bytes
  unchanged, wherever the cut falls (linear area, page fragment or fragment list); when it fails the
  packet is unchanged. The buffer stays well-formed either way.\<close>

theorem pskb_trim_prefix:
  assumes "sk_wf d" "pskb_trim ex cl d len = (err, d')"
  shows "sk_wf d' \<and> skb_bytes d' = (if err = 0 then take (unat len) (skb_bytes d) else skb_bytes d)"
  using trim_main(1) [OF assms(1), of len ex cl] assms(2) by (simp add: trim_ok_def)

theorem pskb_trim_prefix_witness:
  "skb_bytes (snd (pskb_trim (\<lambda>_. 0) (\<lambda>_. True) (skb_view frag_skb) 3)) = [0x11, 0x22, 0x33]"
proof -
  have wf: "sk_wf (skb_view frag_skb)" using frag_skb_wf by (simp add: skb_wf_def)
  obtain d' where "pskb_trim (\<lambda>_. 0) (\<lambda>_. True) (skb_view frag_skb) 3 = (0, d')"
    by (simp add: skb_view_def frag_skb_def linear_skb_def)
  moreover from pskb_trim_prefix [OF wf this]
  have "skb_bytes d' = take 3 (skb_bytes (skb_view frag_skb))" by simp
  ultimately show ?thesis by (simp add: skb_view_def frag_skb_def linear_skb_def)
qed

text \<open>C11. A packet accepted by the filter is cut to the length the filter returned; a verdict of 0
  rejects the packet with \<open>-EPERM\<close> and leaves it alone.\<close>

theorem sk_filter_verdict:
  assumes "sk_wf (skb_view skb)" "sk_filter_ptr sk = Some a" "h a = Some fp"
    and "sk_run_filter ar mem0 skb (fp_insns fp) = Some (Ok n)"
  shows "\<exists>err skb'. sk_filter 0 ex cl ar mem0 h sk skb = Some (Ok (err, skb')) \<and>
    (n = 0 \<longrightarrow> err = - EPERM \<and> skb' = skb) \<and>
    (n \<noteq> 0 \<and> err = 0 \<longrightarrow> skb_bytes (skb_view skb') = take (unat n) (skb_bytes (skb_view skb)))"
proof -
  obtain err skb' where t: "sk_buff_trim ex cl skb n = (err, skb')" by fastforce
  with sk_buff_trim_bytes [OF assms(1) t] assms(2-4) show ?thesis
    by (auto simp: sk_filter_def)
qed

theorem sk_filter_verdict_witness:
  "\<exists>err skb'. sk_filter 0 (\<lambda>_. 0) (\<lambda>_. True) zero_arch zero_mem [7 \<mapsto> demo_filter] demo_sock frag_skb = Some (Ok (err, skb')) \<and>
    ((0x2233 :: u32) = 0 \<longrightarrow> err = - EPERM \<and> skb' = frag_skb) \<and>
    ((0x2233 :: u32) \<noteq> 0 \<and> err = 0 \<longrightarrow> skb_bytes (skb_view skb') = take (unat (0x2233 :: u32)) (skb_bytes (skb_view frag_skb)))"
proof (rule sk_filter_verdict)
  show "sk_wf (skb_view frag_skb)" using frag_skb_wf by (simp add: skb_wf_def)
  show "sk_filter_ptr demo_sock = Some 7" "[7 \<mapsto> demo_filter] 7 = Some demo_filter"
    by (simp_all add: demo_sock_def)
  show "sk_run_filter zero_arch zero_mem frag_skb (fp_insns demo_filter) = Some (Ok 0x2233)"
    by (rule sk_run_filter_upto [of 4]) code_simp
qed

end
