(* ===== verification/SysvSem.thy ===== *)
theory SysvSem
  imports Prelude
begin

text \<open>
  System V semaphores, \<open>ipc/sem.c\<close>: the array with its pending queue and undo structures, and every
  operation on it. One array is modelled together with the queue entries of the tasks that sleep on it and
  the undo structures attached to it; identifiers stand for the pointers to entries and undo structures.
  A value stored in a \<open>short\<close> is reduced to 16 bits by \<open>s16\<close>. \<open>Fault\<close> is a failing \<open>BUG_ON\<close>.
\<close>

section \<open>Data\<close>

abbreviation (input) SEMVMX :: int where "SEMVMX \<equiv> 32767"
abbreviation (input) SEMAEM :: int where "SEMAEM \<equiv> 32767"
abbreviation (input) SEMOPM_FAST :: nat where "SEMOPM_FAST \<equiv> 64"
abbreviation (input) IN_WAKEUP :: int where "IN_WAKEUP \<equiv> 1"
abbreviation (input) IPC_NOWAIT :: u16 where "IPC_NOWAIT \<equiv> 0x800"
abbreviation (input) SEM_UNDO :: u16 where "SEM_UNDO \<equiv> 0x1000"

text \<open>The value a C \<open>short\<close> holds after storing \<open>i\<close>.\<close>

definition s16 :: "int \<Rightarrow> int" where
  "s16 i = signed_take_bit 15 i"

record sembuf =
  sem_num :: nat
  sem_op :: int
  sem_flg :: u16

definition flg_undo :: "sembuf \<Rightarrow> bool" where
  "flg_undo sop \<longleftrightarrow> sem_flg sop AND SEM_UNDO \<noteq> 0"

definition flg_nowait :: "sembuf \<Rightarrow> bool" where
  "flg_nowait sop \<longleftrightarrow> sem_flg sop AND IPC_NOWAIT \<noteq> 0"

text \<open>The queues are lists of identifiers of \<open>sem_queue\<close> structures, head first.\<close>

record sem =
  semval :: int
  sempid :: int
  simple_pending :: "nat list"

record sem_queue =
  q_sops :: "sembuf list"
  q_undo :: "nat option"
  q_pid :: int
  q_status :: int
  q_alter :: bool

record sem_undo =
  un_semid :: int
  semadj :: "int list"

record sem_array =
  sem_base :: "sem list"
  sem_pending :: "nat list"
  list_id :: "nat list"
  complex_count :: int
  sem_otime :: int
  sem_ctime :: int

text \<open>One array with the queue entries and undo structures that exist.\<close>

record sem_sys =
  sma :: sem_array
  queues :: "nat \<Rightarrow> sem_queue"
  undos :: "nat \<Rightarrow> sem_undo"

definition un_adj :: "sem_sys \<Rightarrow> nat option \<Rightarrow> int list" where
  "un_adj st un = (case un of None \<Rightarrow> [] | Some u \<Rightarrow> semadj (undos st u))"

section \<open>Trying an operation\<close>

text \<open>The first loop of \<open>try_atomic_semop\<close>: the result so far, the operations performed (last first)
  and the array.\<close>

fun semop_apply :: "int list \<Rightarrow> sembuf list \<Rightarrow> sembuf list \<Rightarrow> sem list \<Rightarrow> int \<times> sembuf list \<times> sem list" where
  "semop_apply adj [] performed base = (0, performed, base)"
| "semop_apply adj (sop # sops) performed base =
    (let curr = base ! sem_num sop;
         would_block = ((if flg_nowait sop then - EAGAIN else 1), performed, base);
         out_of_range = (- ERANGE, performed, base)
     in if sem_op sop = 0 \<and> semval curr \<noteq> 0 then would_block
        else (let result = semval curr + sem_op sop
              in if result < 0 then would_block
                 else if result > SEMVMX then out_of_range
                 else if flg_undo sop \<and> (adj ! sem_num sop - sem_op sop < - SEMAEM - 1 \<or> adj ! sem_num sop - sem_op sop > SEMAEM)
                 then out_of_range
                 else semop_apply adj sops (sop # performed) (base[sem_num sop := curr\<lparr>semval := result\<rparr>])))"

text \<open>The loop that records the process and the adjustments.\<close>

fun semop_commit :: "int \<Rightarrow> sembuf list \<Rightarrow> sem list \<Rightarrow> int list \<Rightarrow> sem list \<times> int list" where
  "semop_commit pid [] base adj = (base, adj)"
| "semop_commit pid (sop # performed) base adj =
    semop_commit pid performed (base[sem_num sop := (base ! sem_num sop)\<lparr>sempid := pid\<rparr>])
      (if flg_undo sop then adj[sem_num sop := s16 (adj ! sem_num sop - sem_op sop)] else adj)"

text \<open>The loop at label \<open>undo\<close>.\<close>

fun semop_undo :: "sembuf list \<Rightarrow> sem list \<Rightarrow> sem list" where
  "semop_undo [] base = base"
| "semop_undo (sop # performed) base =
    semop_undo performed (base[sem_num sop := (base ! sem_num sop)\<lparr>semval := semval (base ! sem_num sop) - sem_op sop\<rparr>])"

definition set_base :: "sem list \<Rightarrow> sem_sys \<Rightarrow> sem_sys" where
  "set_base base st = st\<lparr>sma := (sma st)\<lparr>sem_base := base\<rparr>\<rparr>"

definition set_adj :: "nat option \<Rightarrow> int list \<Rightarrow> sem_sys \<Rightarrow> sem_sys" where
  "set_adj un adj st = (case un of
      None \<Rightarrow> st
    | Some u \<Rightarrow> st\<lparr>undos := (undos st)(u := (undos st u)\<lparr>semadj := adj\<rparr>)\<rparr>)"

definition try_atomic_semop :: "sem_sys \<Rightarrow> sembuf list \<Rightarrow> nat option \<Rightarrow> int \<Rightarrow> int \<times> sem_sys" where
  "try_atomic_semop st sops un pid =
    (case semop_apply (un_adj st un) sops [] (sem_base (sma st)) of
       (result, performed, base) \<Rightarrow>
         if result = 0 then
           (case semop_commit pid performed base (un_adj st un) of
              (base', adj') \<Rightarrow> (0, set_adj un adj' (set_base base' st)))
         else (result, set_base (semop_undo performed base) st))"

section \<open>The pending queue\<close>

definition wake_up_sem_queue_prepare :: "sem_sys \<Rightarrow> nat \<Rightarrow> int \<Rightarrow> sem_sys" where
  "wake_up_sem_queue_prepare st qi error =
    st\<lparr>queues := (queues st)(qi := (queues st qi)\<lparr>q_status := IN_WAKEUP, q_pid := error\<rparr>)\<rparr>"

fun wake_up_sem_queue_do :: "nat list \<Rightarrow> sem_sys \<Rightarrow> sem_sys" where
  "wake_up_sem_queue_do [] st = st"
| "wake_up_sem_queue_do (qi # pt) st =
    wake_up_sem_queue_do pt (st\<lparr>queues := (queues st)(qi := (queues st qi)\<lparr>q_status := q_pid (queues st qi)\<rparr>)\<rparr>)"

definition nsops :: "sem_queue \<Rightarrow> nat" where
  "nsops q = length (q_sops q)"

definition unlink_queue :: "sem_sys \<Rightarrow> nat \<Rightarrow> sem_sys" where
  "unlink_queue st qi =
    (let q = queues st qi; s = sma st; s1 = s\<lparr>sem_pending := remove1 qi (sem_pending s)\<rparr>
     in st\<lparr>sma :=
        (if nsops q = 1 then
           (let n = sem_num (q_sops q ! 0); curr = sem_base s ! n
            in s1\<lparr>sem_base := (sem_base s)[n := curr\<lparr>simple_pending := remove1 qi (simple_pending curr)\<rparr>]\<rparr>)
         else s1\<lparr>complex_count := complex_count s - 1\<rparr>)\<rparr>)"

text \<open>A failing \<open>BUG_ON\<close> is \<open>Fault\<close>.\<close>

definition check_restart :: "sem_sys \<Rightarrow> sem_queue \<Rightarrow> bool outcome" where
  "check_restart st q =
    (if \<not> q_alter q then Ok False
     else if complex_count (sma st) \<noteq> 0 then Ok True
     else if nsops q > 1 then Ok True
     else (let curr = sem_base (sma st) ! sem_num (q_sops q ! 0)
           in if simple_pending curr = [] then Ok False
              else if semval curr \<noteq> 0 then
                (if sem_op (q_sops q ! 0) \<ge> 0 then Fault else Ok False)
              else (let h = queues st (hd (simple_pending curr))
                    in if nsops h \<noteq> 1 then Fault
                       else if sem_num (q_sops h ! 0) \<noteq> sem_num (q_sops q ! 0) then Fault
                       else Ok (sem_op (q_sops h ! 0) = 0))))"

definition pending_list :: "int \<Rightarrow> sem_sys \<Rightarrow> nat list" where
  "pending_list semnum st =
    (if semnum = -1 then sem_pending (sma st) else simple_pending (sem_base (sma st) ! nat semnum))"

text \<open>The scan of \<open>update_queue\<close>, from the position \<open>walk\<close>; \<open>None\<close> means that it never ends.\<close>

partial_function (option) update_walk ::
  "int \<Rightarrow> sem_sys \<Rightarrow> nat list \<Rightarrow> nat list \<Rightarrow> bool \<Rightarrow> (sem_sys \<times> nat list \<times> bool) outcome option" where
  "update_walk semnum st walk pt completed =
    (case walk of
       [] \<Rightarrow> Some (Ok (st, pt, completed))
     | qi # rest \<Rightarrow>
        if semnum \<noteq> -1 \<and> semval (sem_base (sma st) ! nat semnum) = 0 \<and> q_alter (queues st qi)
        then Some (Ok (st, pt, completed))
        else (case try_atomic_semop st (q_sops (queues st qi)) (q_undo (queues st qi)) (q_pid (queues st qi)) of
            (error, st1) \<Rightarrow>
              if error > 0 then update_walk semnum st1 rest pt completed
              else if error \<noteq> 0 then
                update_walk semnum (wake_up_sem_queue_prepare (unlink_queue st1 qi) qi error) rest (pt @ [qi]) completed
              else (case check_restart (unlink_queue st1 qi) (queues st qi) of
                  Fault \<Rightarrow> Some Fault
                | Ok restart \<Rightarrow>
                   update_walk semnum (wake_up_sem_queue_prepare (unlink_queue st1 qi) qi error)
                     (if restart then pending_list semnum (wake_up_sem_queue_prepare (unlink_queue st1 qi) qi error)
                      else rest) (pt @ [qi]) True)))"

definition update_queue :: "sem_sys \<Rightarrow> int \<Rightarrow> nat list \<Rightarrow> (sem_sys \<times> nat list \<times> bool) outcome option" where
  "update_queue st semnum0 pt =
    (let semnum = (if complex_count (sma st) \<noteq> 0 then -1 else semnum0)
     in update_walk semnum st (pending_list semnum st) pt False)"

text \<open>The loop of \<open>do_smart_update\<close> over the operations that were performed.\<close>

fun smart_loop :: "sem_sys \<Rightarrow> sembuf list \<Rightarrow> bool \<Rightarrow> nat list \<Rightarrow> (sem_sys \<times> bool \<times> nat list) outcome option" where
  "smart_loop st [] otime pt = Some (Ok (st, otime, pt))"
| "smart_loop st (sop # sops) otime pt =
    (if sem_op sop > 0 \<or> sem_op sop < 0 \<and> semval (sem_base (sma st) ! sem_num sop) = 0 then
       (case update_queue st (int (sem_num sop)) pt of
          None \<Rightarrow> None
        | Some Fault \<Rightarrow> Some Fault
        | Some (Ok (st', pt', completed)) \<Rightarrow> smart_loop st' sops (otime \<or> completed) pt')
     else smart_loop st sops otime pt)"

definition set_otime :: "int \<Rightarrow> bool \<Rightarrow> sem_sys \<Rightarrow> sem_sys" where
  "set_otime now otime st = (if otime then st\<lparr>sma := (sma st)\<lparr>sem_otime := now\<rparr>\<rparr> else st)"

definition do_smart_update ::
  "int \<Rightarrow> sem_sys \<Rightarrow> sembuf list option \<Rightarrow> bool \<Rightarrow> nat list \<Rightarrow> (sem_sys \<times> nat list) outcome option" where
  "do_smart_update now st sops otime pt =
    (if complex_count (sma st) \<noteq> 0 \<or> sops = None then
       (case update_queue st (-1) pt of
          None \<Rightarrow> None
        | Some Fault \<Rightarrow> Some Fault
        | Some (Ok (st', pt', completed)) \<Rightarrow> Some (Ok (set_otime now (otime \<or> completed) st', pt')))
     else
       (case smart_loop st (the sops) otime pt of
          None \<Rightarrow> None
        | Some Fault \<Rightarrow> Some Fault
        | Some (Ok (st', otime', pt')) \<Rightarrow> Some (Ok (set_otime now otime' st', pt'))))"

definition count_sops :: "(sembuf \<Rightarrow> bool) \<Rightarrow> sem_sys \<Rightarrow> nat" where
  "count_sops P st = sum_list (map (\<lambda>qi. length (filter P (q_sops (queues st qi)))) (sem_pending (sma st)))"

definition count_semncnt :: "sem_sys \<Rightarrow> nat \<Rightarrow> nat" where
  "count_semncnt st semnum = count_sops (\<lambda>sop. sem_num sop = semnum \<and> sem_op sop < 0 \<and> \<not> flg_nowait sop) st"

definition count_semzcnt :: "sem_sys \<Rightarrow> nat \<Rightarrow> nat" where
  "count_semzcnt st semnum = count_sops (\<lambda>sop. sem_num sop = semnum \<and> sem_op sop = 0 \<and> \<not> flg_nowait sop) st"

section \<open>Creating and removing an array\<close>

text \<open>What the environment answers in \<open>newary\<close>: the allocation, the security module, \<open>ipc_addid\<close>.\<close>

record newary_env =
  na_alloc :: bool
  na_security :: int
  na_addid :: int
  na_now :: int

definition newary :: "newary_env \<Rightarrow> int \<Rightarrow> int \<Rightarrow> int \<Rightarrow> (int \<times> int \<times> sem_array) + int" where
  "newary env used_sems sc_semmns nsems' =
    (if nsems' = 0 then Inr (- EINVAL)
     else if used_sems + nsems' > sc_semmns then Inr (- ENOSPC)
     else if \<not> na_alloc env then Inr (- ENOMEM)
     else if na_security env \<noteq> 0 then Inr (na_security env)
     else if na_addid env < 0 then Inr (na_addid env)
     else Inl (na_addid env, used_sems + nsems',
       \<lparr>sem_base = replicate (nat nsems') \<lparr>semval = 0, sempid = 0, simple_pending = []\<rparr>,
        sem_pending = [], list_id = [], complex_count = 0, sem_otime = 0, sem_ctime = na_now env\<rparr>))"

fun free_pending :: "nat list \<Rightarrow> nat list \<Rightarrow> sem_sys \<Rightarrow> nat list \<times> sem_sys" where
  "free_pending [] tasks st = (tasks, st)"
| "free_pending (qi # qs) tasks st =
    free_pending qs (tasks @ [qi]) (wake_up_sem_queue_prepare (unlink_queue st qi) qi (- EIDRM))"

definition freeary :: "int \<Rightarrow> sem_sys \<Rightarrow> int \<times> sem_sys" where
  "freeary used_sems st =
    (let st1 = st\<lparr>undos := (\<lambda>u. if u \<in> set (list_id (sma st)) then (undos st u)\<lparr>un_semid := -1\<rparr> else undos st u),
                  sma := (sma st)\<lparr>list_id := []\<rparr>\<rparr>;
         (tasks, st2) = free_pending (sem_pending (sma st1)) [] st1
     in (used_sems - int (length (sem_base (sma st))), wake_up_sem_queue_do tasks st2))"

section \<open>\<open>semctl\<close>\<close>

record semctl_env =
  sc_lock :: int
  sc_denied :: "bool \<Rightarrow> bool"
  sc_security :: int
  sc_alloc :: bool
  sc_deleted :: bool
  sc_copyout_fault :: bool
  sc_now :: int
  sc_tgid :: int

text \<open>The user array of \<open>SETALL\<close> is \<open>None\<close> where it cannot be read.\<close>

datatype semctl_cmd = GETALL | SETALL "(nat \<Rightarrow> u16) option" | GETVAL | GETPID | GETNCNT | GETZCNT | SETVAL int

definition is_write_cmd :: "semctl_cmd \<Rightarrow> bool" where
  "is_write_cmd cmd = (case cmd of SETALL _ \<Rightarrow> True | SETVAL _ \<Rightarrow> True | _ \<Rightarrow> False)"

text \<open>The tail of \<open>SETVAL\<close> and \<open>SETALL\<close>: look for tasks that can proceed, unlock, wake them.\<close>

definition update_and_wake :: "int \<Rightarrow> sembuf list option \<Rightarrow> bool \<Rightarrow> sem_sys \<Rightarrow> sem_sys outcome option" where
  "update_and_wake now sops otime st =
    (case do_smart_update now st sops otime [] of
       None \<Rightarrow> None
     | Some Fault \<Rightarrow> Some Fault
     | Some (Ok (st', tasks)) \<Rightarrow> Some (Ok (wake_up_sem_queue_do tasks st')))"

definition reset_adj :: "(nat \<Rightarrow> int \<Rightarrow> int) \<Rightarrow> sem_sys \<Rightarrow> sem_sys" where
  "reset_adj f st = st\<lparr>undos := (\<lambda>u. if u \<in> set (list_id (sma st))
      then (undos st u)\<lparr>semadj := map (\<lambda>i. f i (semadj (undos st u) ! i)) [0..<length (semadj (undos st u))]\<rparr>
      else undos st u)\<rparr>"

definition set_ctime :: "int \<Rightarrow> sem_sys \<Rightarrow> sem_sys" where
  "set_ctime now st = st\<lparr>sma := (sma st)\<lparr>sem_ctime := now\<rparr>\<rparr>"

text \<open>The result is the return value, the values copied out, and the state. The state \<open>st\<close> is the one
  under the array's lock, where the lock is dropped and taken again the one under the second lock.\<close>

definition semctl_main ::
  "semctl_env \<Rightarrow> sem_sys \<Rightarrow> int \<Rightarrow> semctl_cmd \<Rightarrow> (int \<times> int list \<times> sem_sys) outcome option" where
  "semctl_main env st semnum cmd =
    (let base = sem_base (sma st); nsems' = length base; curr = base ! nat semnum
     in if sc_lock env \<noteq> 0 then Some (Ok (sc_lock env, [], st))
        else if sc_denied env (is_write_cmd cmd) then Some (Ok (- EACCES, [], st))
        else if sc_security env \<noteq> 0 then Some (Ok (sc_security env, [], st))
        else (case cmd of
          GETALL \<Rightarrow>
            if nsems' > 256 \<and> \<not> sc_alloc env then Some (Ok (- ENOMEM, [], st))
            else if nsems' > 256 \<and> sc_deleted env then Some (Ok (- EIDRM, [], st))
            else if sc_copyout_fault env then Some (Ok (- EFAULT, [], st))
            else Some (Ok (0, map semval base, st))
        | SETALL arg \<Rightarrow>
            if nsems' > 256 \<and> \<not> sc_alloc env then Some (Ok (- ENOMEM, [], st))
            else (case arg of
              None \<Rightarrow> Some (Ok (- EFAULT, [], st))
            | Some sem_io \<Rightarrow>
                if \<exists>i \<in> set [0..<nsems']. uint (sem_io i) > SEMVMX then Some (Ok (- ERANGE, [], st))
                else if sc_deleted env then Some (Ok (- EIDRM, [], st))
                else (case update_and_wake (sc_now env) None False (set_ctime (sc_now env)
                       (reset_adj (\<lambda>i a. if i < nsems' then 0 else a)
                         (set_base (map (\<lambda>i. (base ! i)\<lparr>semval := uint (sem_io i)\<rparr>) [0..<nsems']) st))) of
                    None \<Rightarrow> None
                  | Some Fault \<Rightarrow> Some Fault
                  | Some (Ok st') \<Rightarrow> Some (Ok (0, [], st'))))
        | _ \<Rightarrow>
            if semnum < 0 \<or> semnum \<ge> int nsems' then Some (Ok (- EINVAL, [], st))
            else (case cmd of
              GETVAL \<Rightarrow> Some (Ok (semval curr, [], st))
            | GETPID \<Rightarrow> Some (Ok (sempid curr, [], st))
            | GETNCNT \<Rightarrow> Some (Ok (int (count_semncnt st (nat semnum)), [], st))
            | GETZCNT \<Rightarrow> Some (Ok (int (count_semzcnt st (nat semnum)), [], st))
            | SETVAL val \<Rightarrow>
                if val > SEMVMX \<or> val < 0 then Some (Ok (- ERANGE, [], st))
                else (case update_and_wake (sc_now env) None False (set_ctime (sc_now env)
                       (set_base (base[nat semnum := curr\<lparr>semval := val, sempid := sc_tgid env\<rparr>])
                         (reset_adj (\<lambda>i a. if i = nat semnum then 0 else a) st))) of
                    None \<Rightarrow> None
                  | Some Fault \<Rightarrow> Some Fault
                  | Some (Ok st') \<Rightarrow> Some (Ok (0, [], st')))
            | _ \<Rightarrow> Some (Ok (- EINVAL, [], st)))))"

section \<open>Undo structures\<close>

text \<open>A process's undo structures are the list \<open>ulp\<close> of their identifiers, head first.\<close>

definition lookup_undo_list :: "sem_sys \<Rightarrow> nat list \<Rightarrow> int \<Rightarrow> nat option" where
  "lookup_undo_list st ulp semid = List.find (\<lambda>u. un_semid (undos st u) = semid) ulp"

definition lookup_undo :: "sem_sys \<Rightarrow> nat list \<Rightarrow> int \<Rightarrow> nat option \<times> nat list" where
  "lookup_undo st ulp semid = (case lookup_undo_list st ulp semid of
      None \<Rightarrow> (None, ulp)
    | Some u \<Rightarrow> (Some u, u # remove1 u ulp))"

text \<open>The environment of \<open>find_alloc_undo\<close>; \<open>fa_new\<close> is the identifier of the structure allocated and
  \<open>fa_race\<close> the process's list after the lock was taken again.\<close>

record undo_env =
  fa_list_ok :: bool
  fa_lock :: int
  fa_kzalloc :: bool
  fa_deleted :: bool
  fa_race :: "nat list"
  fa_new :: nat

definition find_alloc_undo ::
  "undo_env \<Rightarrow> sem_sys \<Rightarrow> nat list \<Rightarrow> int \<Rightarrow> (int + nat) \<times> nat list \<times> sem_sys" where
  "find_alloc_undo env st ulp semid =
    (if \<not> fa_list_ok env then (Inl (- ENOMEM), ulp, st)
     else (case lookup_undo st ulp semid of
       (Some u, ulp') \<Rightarrow> (Inr u, ulp', st)
     | (None, _) \<Rightarrow>
        if fa_lock env \<noteq> 0 then (Inl (fa_lock env), ulp, st)
        else if \<not> fa_kzalloc env then (Inl (- ENOMEM), ulp, st)
        else if fa_deleted env then (Inl (- EIDRM), ulp, st)
        else (case lookup_undo st (fa_race env) semid of
          (Some u, ulp') \<Rightarrow> (Inr u, ulp', st)
        | (None, ulp') \<Rightarrow>
           (Inr (fa_new env), fa_new env # ulp',
            st\<lparr>undos := (undos st)(fa_new env :=
                  \<lparr>un_semid = semid, semadj = replicate (length (sem_base (sma st))) 0\<rparr>),
                sma := (sma st)\<lparr>list_id := fa_new env # list_id (sma st)\<rparr>\<rparr>))))"

text \<open>The range checks of \<open>exit_sem\<close> on one semaphore.\<close>

definition exit_clamp :: "int \<Rightarrow> int" where
  "exit_clamp v = (let v1 = (if v < 0 then 0 else v) in if v1 > SEMVMX then SEMVMX else v1)"

definition exit_adjust :: "int \<Rightarrow> int list \<Rightarrow> sem list \<Rightarrow> sem list" where
  "exit_adjust pid adj base = map (\<lambda>i. let semaphore = base ! i
     in if adj ! i \<noteq> 0 then semaphore\<lparr>semval := exit_clamp (semval semaphore + adj ! i), sempid := pid\<rparr>
        else semaphore) [0..<length base]"

text \<open>One pass of the loop of \<open>exit_sem\<close>, for the undo structure \<open>u\<close> of this array.\<close>

definition exit_sem_pass :: "int \<Rightarrow> int \<Rightarrow> nat \<Rightarrow> sem_sys \<Rightarrow> sem_sys outcome option" where
  "exit_sem_pass now pid u st =
    (let s = (sma st)\<lparr>list_id := remove1 u (list_id (sma st))\<rparr>;
         st1 = st\<lparr>sma := s\<lparr>sem_base := exit_adjust pid (semadj (undos st u)) (sem_base s)\<rparr>\<rparr>
     in update_and_wake now None True st1)"

section \<open>\<open>semtimedop\<close>\<close>

text \<open>What the code before the array's lock finds, and the answers under it. \<open>so_timeout\<close> is \<open>None\<close> for
  a null pointer, \<open>Some None\<close> where it cannot be read.\<close>

record semop_env =
  so_semopm :: nat
  so_kmalloc :: bool
  so_copyin :: bool
  so_timeout :: "(int \<times> int) option option"
  so_undo :: "int + nat"
  so_lock :: int
  so_denied :: "bool \<Rightarrow> bool"
  so_security :: int
  so_pid :: int
  so_now :: int

datatype semop_result = Finished int sem_sys | Sleeping sem_sys

definition max_num :: "sembuf list \<Rightarrow> nat" where
  "max_num sops = foldl (\<lambda>mx sop. if sem_num sop \<ge> mx then sem_num sop else mx) 0 sops"

definition any_undo :: "sembuf list \<Rightarrow> bool" where
  "any_undo sops = (\<exists>sop \<in> set sops. flg_undo sop)"

definition any_alter :: "sembuf list \<Rightarrow> bool" where
  "any_alter sops = (\<exists>sop \<in> set sops. sem_op sop \<noteq> 0)"

text \<open>Queueing the caller as entry \<open>qi\<close>.\<close>

definition sem_enqueue :: "sem_sys \<Rightarrow> nat \<Rightarrow> sembuf list \<Rightarrow> nat option \<Rightarrow> int \<Rightarrow> sem_sys" where
  "sem_enqueue st qi sops un pid =
    (let alter = any_alter sops;
         ins = (\<lambda>xs. if alter then xs @ [qi] else qi # xs);
         s = (sma st)\<lparr>sem_pending := ins (sem_pending (sma st))\<rparr>
     in st\<lparr>queues := (queues st)(qi :=
             \<lparr>q_sops = sops, q_undo = un, q_pid = pid, q_status = - EINTR, q_alter = alter\<rparr>),
           sma := (if length sops = 1 then
              (let n = sem_num (sops ! 0); curr = sem_base s ! n
               in s\<lparr>sem_base := (sem_base s)[n := curr\<lparr>simple_pending := ins (simple_pending curr)\<rparr>]\<rparr>)
            else s\<lparr>complex_count := complex_count s + 1\<rparr>)\<rparr>)"

text \<open>The end of \<open>semtimedop\<close> up to the point where it unlocks: the operation is tried and the caller
  finishes or goes to sleep as entry \<open>qi\<close>.\<close>

definition semop_run :: "semop_env \<Rightarrow> sem_sys \<Rightarrow> sembuf list \<Rightarrow> nat option \<Rightarrow> nat \<Rightarrow> semop_result outcome option" where
  "semop_run env st sops un qi =
    (case try_atomic_semop st sops un (so_pid env) of
       (error, st1) \<Rightarrow>
         if error \<le> 0 then
           (if any_alter sops \<and> error = 0 then
              (case update_and_wake (so_now env) (Some sops) True st1 of
                 None \<Rightarrow> None
               | Some Fault \<Rightarrow> Some Fault
               | Some (Ok st2) \<Rightarrow> Some (Ok (Finished error st2)))
            else Some (Ok (Finished error st1)))
         else Some (Ok (Sleeping (sem_enqueue st1 qi sops un (so_pid env)))))"

text \<open>\<open>semtimedop\<close> up to the point where it returns or goes to sleep as entry \<open>qi\<close>.\<close>

definition semtimedop :: "semop_env \<Rightarrow> sem_sys \<Rightarrow> int \<Rightarrow> sembuf list \<Rightarrow> nat \<Rightarrow> semop_result outcome option" where
  "semtimedop env st semid sops qi =
    (let n = length sops; alter = any_alter sops
     in if n < 1 \<or> semid < 0 then Some (Ok (Finished (- EINVAL) st))
        else if n > so_semopm env then Some (Ok (Finished (- E2BIG) st))
        else if n > SEMOPM_FAST \<and> \<not> so_kmalloc env then Some (Ok (Finished (- ENOMEM) st))
        else if \<not> so_copyin env then Some (Ok (Finished (- EFAULT) st))
        else if so_timeout env = Some None then Some (Ok (Finished (- EFAULT) st))
        else if (case so_timeout env of Some (Some (sec, nsec)) \<Rightarrow> sec < 0 \<or> nsec < 0 \<or> nsec \<ge> 1000000000 | _ \<Rightarrow> False)
          then Some (Ok (Finished (- EINVAL) st))
        else if any_undo sops \<and> isl (so_undo env) then Some (Ok (Finished (projl (so_undo env)) st))
        else (let un = (if any_undo sops then Some (projr (so_undo env)) else None)
          in if so_lock env \<noteq> 0 then Some (Ok (Finished (so_lock env) st))
             else if (case un of Some u \<Rightarrow> un_semid (undos st u) = -1 | None \<Rightarrow> False)
               then Some (Ok (Finished (- EIDRM) st))
             else if max_num sops \<ge> length (sem_base (sma st)) then Some (Ok (Finished (- EFBIG) st))
             else if so_denied env alter then Some (Ok (Finished (- EACCES) st))
             else if so_security env \<noteq> 0 then Some (Ok (Finished (so_security env) st))
             else semop_run env st sops un qi))"

text \<open>\<open>get_queue_result\<close>: \<open>None\<close> while the waker has not stored the final value.\<close>

definition get_queue_result :: "sem_sys \<Rightarrow> nat \<Rightarrow> int option" where
  "get_queue_result st qi = (if q_status (queues st qi) = IN_WAKEUP then None else Some (q_status (queues st qi)))"

text \<open>\<open>semtimedop\<close> after \<open>schedule\<close> returned: woken by a completed operation, or by a signal or the
  timeout. \<open>st0\<close> is the state at the first look at the entry, \<open>lock\<close> the one under the array's lock or
  \<open>None\<close> where \<open>sem_lock\<close> fails, \<open>timed_out\<close> is \<open>timeout && jiffies_left == 0\<close>.\<close>

definition semtimedop_resume :: "bool \<Rightarrow> sem_sys \<Rightarrow> sem_sys option \<Rightarrow> nat \<Rightarrow> (int \<times> sem_sys) option" where
  "semtimedop_resume timed_out st0 lock qi =
    (case get_queue_result st0 qi of
       None \<Rightarrow> None
     | Some error \<Rightarrow>
        if error \<noteq> - EINTR then Some (error, st0)
        else (case lock of
           None \<Rightarrow> Some (- EIDRM, st0)
         | Some st \<Rightarrow>
            (case get_queue_result st qi of
               None \<Rightarrow> None
             | Some error' \<Rightarrow>
                if error' \<noteq> - EINTR then Some (error', st)
                else Some ((if timed_out then - EAGAIN else error'), unlink_queue st qi))))"

end
