(* ===== verification/SemQueue.thy ===== *)
theory SemQueue
  imports SysvSem
begin

text \<open>
  What \<open>try_atomic_semop\<close> does, stated on the values of the semaphores alone: \<open>op_result\<close> runs the
  operations without any undoing, and the code's apply, commit and undo loops are related to it.
  A failing operation leaves the state as it was; a successful one is described by \<open>commits\<close>.
\<close>

section \<open>One operation\<close>

definition ev :: "sem list \<Rightarrow> nat \<Rightarrow> int" where
  "ev base i = semval (base ! i)"

definition stops_at :: "(nat \<Rightarrow> int) \<Rightarrow> sembuf \<Rightarrow> bool" where
  "stops_at v sop \<longleftrightarrow> sem_op sop = 0 \<and> v (sem_num sop) \<noteq> 0 \<or> v (sem_num sop) + sem_op sop < 0"

definition range_err :: "int list \<Rightarrow> (nat \<Rightarrow> int) \<Rightarrow> sembuf \<Rightarrow> bool" where
  "range_err adj v sop \<longleftrightarrow> v (sem_num sop) + sem_op sop > SEMVMX \<or>
     flg_undo sop \<and> (adj ! sem_num sop - sem_op sop < - SEMAEM - 1 \<or> adj ! sem_num sop - sem_op sop > SEMAEM)"

definition block_code :: "sembuf \<Rightarrow> int" where
  "block_code sop = (if flg_nowait sop then - EAGAIN else 1)"

definition sop_exec :: "(nat \<Rightarrow> int) \<Rightarrow> sembuf \<Rightarrow> nat \<Rightarrow> int" where
  "sop_exec v sop = v(sem_num sop := v (sem_num sop) + sem_op sop)"

lemma sop_exec_apply: "sop_exec v sop i = v i + (if sem_num sop = i then sem_op sop else 0)"
  by (simp add: sop_exec_def)

text \<open>The meaning of a sequence of operations on the values alone.\<close>

fun op_result :: "int list \<Rightarrow> sembuf list \<Rightarrow> (nat \<Rightarrow> int) \<Rightarrow> int \<times> (nat \<Rightarrow> int)" where
  "op_result adj [] v = (0, v)"
| "op_result adj (sop # sops) v =
    (if stops_at v sop then (block_code sop, v)
     else if range_err adj v sop then (- ERANGE, v)
     else op_result adj sops (sop_exec v sop))"

definition nums_ok :: "nat \<Rightarrow> sembuf list \<Rightarrow> bool" where
  "nums_ok n sops \<longleftrightarrow> (\<forall>sop \<in> set sops. sem_num sop < n)"

lemma nums_ok_Cons [simp]: "nums_ok n (sop # sops) \<longleftrightarrow> sem_num sop < n \<and> nums_ok n sops"
  by (simp add: nums_ok_def)

lemma ev_upd: "n < length base \<Longrightarrow> ev (base[n := x]) = (ev base)(n := semval x)"
  by (auto simp: ev_def fun_eq_iff nth_list_update)

lemma semop_apply_Cons:
  "semop_apply adj (sop # sops) performed base =
    (if stops_at (ev base) sop then (block_code sop, performed, base)
     else if range_err adj (ev base) sop then (- ERANGE, performed, base)
     else semop_apply adj sops (sop # performed)
       (base[sem_num sop := (base ! sem_num sop)\<lparr>semval := ev base (sem_num sop) + sem_op sop\<rparr>]))"
  by (auto simp add: Let_def stops_at_def range_err_def block_code_def ev_def)

declare semop_apply.simps(2) [simp del]

lemma semop_apply_result:
  assumes "nums_ok (length base) sops" "semop_apply adj sops performed base = (r, performed', base')"
  shows "fst (op_result adj sops (ev base)) = r \<and> length base' = length base \<and>
    (\<forall>i. simple_pending (base' ! i) = simple_pending (base ! i) \<and> sempid (base' ! i) = sempid (base ! i)) \<and>
    (r = 0 \<longrightarrow> performed' = rev sops @ performed \<and> ev base' = snd (op_result adj sops (ev base)))"
  using assms
proof (induction sops arbitrary: performed base)
  case Nil
  then show ?case by simp
next
  case (Cons sop sops)
  let ?b = "base[sem_num sop := (base ! sem_num sop)\<lparr>semval := ev base (sem_num sop) + sem_op sop\<rparr>]"
  have n: "sem_num sop < length base" "nums_ok (length ?b) sops" using Cons.prems(1) by simp_all
  have rest: "simple_pending (?b ! i) = simple_pending (base ! i) \<and> sempid (?b ! i) = sempid (base ! i)" for i
    using n(1) by (cases "i = sem_num sop") simp_all
  have "ev ?b = sop_exec (ev base) sop"
    using ev_upd [OF n(1)] by (simp add: sop_exec_def)
  with Cons.IH [OF n(2), of "sop # performed"] Cons.prems(2) rest show ?case
    by (auto simp add: semop_apply_Cons block_code_def split: if_splits)
qed

lemma semop_apply_undo:
  assumes "nums_ok (length base) sops" "semop_apply adj sops performed base = (r, performed', base')"
  shows "semop_undo performed' base' = semop_undo performed base"
  using assms
proof (induction sops arbitrary: performed base)
  case Nil
  then show ?case by simp
next
  case (Cons sop sops)
  let ?b = "base[sem_num sop := (base ! sem_num sop)\<lparr>semval := ev base (sem_num sop) + sem_op sop\<rparr>]"
  have n: "sem_num sop < length base" "nums_ok (length ?b) sops" using Cons.prems(1) by simp_all
  have "semop_undo (sop # performed) ?b = semop_undo performed base" using n(1) by (simp add: ev_def)
  with Cons.IH [OF n(2), of "sop # performed"] Cons.prems(2) show ?case
    by (simp add: semop_apply_Cons split: if_splits)
qed

lemma op_result_range: "fst (op_result adj sops v) \<in> {0, 1, - EAGAIN, - ERANGE}"
  by (induction sops arbitrary: v) (auto simp: block_code_def)

lemma semop_commit_base:
  assumes "nums_ok (length base) performed" "semop_commit pid performed base adj = (base', adj')"
  shows "length base' = length base \<and> length adj' = length adj \<and>
    (\<forall>i < length base. base' ! i = (base ! i)\<lparr>sempid := (if i \<in> sem_num ` set performed then pid else sempid (base ! i))\<rparr>)"
  using assms
proof (induction performed arbitrary: base adj)
  case Nil
  then show ?case by simp
next
  case (Cons sop performed)
  let ?b = "base[sem_num sop := (base ! sem_num sop)\<lparr>sempid := pid\<rparr>]"
  let ?a = "if flg_undo sop then adj[sem_num sop := s16 (adj ! sem_num sop - sem_op sop)] else adj"
  have "length base' = length ?b \<and> length adj' = length ?a \<and>
    (\<forall>i < length ?b. base' ! i = (?b ! i)\<lparr>sempid := (if i \<in> sem_num ` set performed then pid else sempid (?b ! i))\<rparr>)"
    using Cons by (intro Cons.IH) simp_all
  with Cons.prems(1) show ?case by (auto simp: nth_list_update)
qed

lemma s16_zero [simp]: "s16 0 = 0"
  by (simp add: s16_def)

lemma s16_idem [simp]: "s16 (s16 x) = s16 x"
  by (simp add: s16_def)

lemma semop_commit_short:
  "semop_commit pid performed base adj = (base', adj') \<Longrightarrow> \<forall>a \<in> set adj. s16 a = a \<Longrightarrow> \<forall>a \<in> set adj'. s16 a = a"
proof (induction performed arbitrary: base adj)
  case (Cons sop performed)
  let ?a = "if flg_undo sop then adj[sem_num sop := s16 (adj ! sem_num sop - sem_op sop)] else adj"
  have "\<forall>a \<in> set ?a. s16 a = a" using Cons.prems(2) by (auto dest!: set_update_subset_insert [THEN subsetD])
  from Cons.IH [OF _ this] Cons.prems(1) show ?case by simp
qed simp

lemma semop_commit_zero:
  "semop_commit pid performed base adj = (base', adj') \<Longrightarrow> \<forall>a \<in> set adj. s16 a = a \<Longrightarrow>
   \<forall>sop \<in> set performed. sem_op sop = 0 \<Longrightarrow> adj' = adj"
proof (induction performed arbitrary: base adj)
  case (Cons sop performed)
  have "adj[sem_num sop := s16 (adj ! sem_num sop - sem_op sop)] = adj"
    using Cons.prems(2,3) by (cases "sem_num sop < length adj") (simp_all add: list_update_beyond)
  with Cons show ?case by (simp split: if_splits)
qed simp

lemma op_result_zero:
  "\<forall>sop \<in> set sops. sem_op sop = 0 \<Longrightarrow> snd (op_result adj sops v) = v"
  by (induction sops arbitrary: v) (auto simp: sop_exec_def)

lemma op_result_Cons_0:
  "fst (op_result adj (sop # sops) v) = 0 \<longleftrightarrow>
     \<not> stops_at v sop \<and> \<not> range_err adj v sop \<and> fst (op_result adj sops (sop_exec v sop)) = 0"
  by (simp add: block_code_def)

lemma sop_exec_bounds:
  assumes "\<not> stops_at v sop" "\<not> range_err adj v sop" "\<forall>i < n. 0 \<le> v i \<and> v i \<le> SEMVMX"
  shows "\<forall>i < n. 0 \<le> sop_exec v sop i \<and> sop_exec v sop i \<le> SEMVMX"
  using assms by (auto simp: stops_at_def range_err_def sop_exec_def)

lemma op_result_bounds:
  assumes "fst (op_result adj sops v) = 0" "\<forall>i < n. 0 \<le> v i \<and> v i \<le> SEMVMX"
  shows "\<forall>i < n. 0 \<le> snd (op_result adj sops v) i \<and> snd (op_result adj sops v) i \<le> SEMVMX"
  using assms
proof (induction sops arbitrary: v)
  case (Cons sop sops)
  from Cons.prems(1) [unfolded op_result_Cons_0]
  have "\<not> stops_at v sop" "\<not> range_err adj v sop" "fst (op_result adj sops (sop_exec v sop)) = 0" by blast+
  with Cons.IH [of "sop_exec v sop"] sop_exec_bounds [of v sop adj n] Cons.prems(2) show ?case by simp
qed simp

definition op_sum :: "sembuf list \<Rightarrow> nat \<Rightarrow> int" where
  "op_sum sops i = sum_list (map sem_op (filter (\<lambda>sop. sem_num sop = i) sops))"

lemma op_result_sum:
  assumes "fst (op_result adj sops v) = 0"
  shows "snd (op_result adj sops v) i = v i + op_sum sops i"
  using assms
proof (induction sops arbitrary: v)
  case (Cons sop sops)
  from Cons.prems(1) [unfolded op_result_Cons_0]
  have "\<not> stops_at v sop" "\<not> range_err adj v sop" "fst (op_result adj sops (sop_exec v sop)) = 0" by blast+
  with Cons.IH [of "sop_exec v sop"] show ?case
    unfolding sop_exec_apply [of v sop i] by (simp add: op_sum_def)
qed (simp add: op_sum_def)


section \<open>The state\<close>

definition vals :: "sem_sys \<Rightarrow> nat \<Rightarrow> int" where
  "vals st = ev (sem_base (sma st))"

definition nsems :: "sem_sys \<Rightarrow> nat" where
  "nsems st = length (sem_base (sma st))"

definition op_code :: "sem_sys \<Rightarrow> sembuf list \<Rightarrow> nat option \<Rightarrow> int" where
  "op_code st sops un = fst (op_result (un_adj st un) sops (vals st))"

lemma set_base_same [simp]: "set_base (sem_base (sma st)) st = st"
  by (simp add: set_base_def)

lemma try_fails:
  assumes "nums_ok (nsems st) sops" "op_code st sops un \<noteq> 0"
  shows "try_atomic_semop st sops un pid = (op_code st sops un, st)"
proof -
  obtain r performed base where a: "semop_apply (un_adj st un) sops [] (sem_base (sma st)) = (r, performed, base)"
    by (metis prod_cases3)
  have "op_code st sops un = r"
    using semop_apply_result [OF _ a] assms(1) by (simp add: op_code_def vals_def nsems_def)
  moreover have "semop_undo performed base = sem_base (sma st)"
    using semop_apply_undo [OF _ a] assms(1) by (simp add: nsems_def)
  ultimately show ?thesis using assms(2) a by (simp add: try_atomic_semop_def)
qed

text \<open>What a successful operation leaves: the new values, everything else as it was.\<close>

definition commits :: "sem_sys \<Rightarrow> sembuf list \<Rightarrow> nat option \<Rightarrow> int \<Rightarrow> sem_sys \<Rightarrow> bool" where
  "commits st sops un pid st' \<longleftrightarrow>
     queues st' = queues st \<and> sem_pending (sma st') = sem_pending (sma st) \<and>
     complex_count (sma st') = complex_count (sma st) \<and> list_id (sma st') = list_id (sma st) \<and>
     nsems st' = nsems st \<and>
     (\<forall>i < nsems st. simple_pending (sem_base (sma st') ! i) = simple_pending (sem_base (sma st) ! i)) \<and>
     (\<forall>i < nsems st. vals st' i = vals st i + op_sum sops i) \<and>
     (\<forall>i < nsems st. sempid (sem_base (sma st') ! i) =
        (if i \<in> sem_num ` set sops then pid else sempid (sem_base (sma st) ! i))) \<and>
     (\<forall>u. un \<noteq> Some u \<longrightarrow> undos st' u = undos st u) \<and>
     (\<forall>u. un_semid (undos st' u) = un_semid (undos st u) \<and>
        length (semadj (undos st' u)) = length (semadj (undos st u)) \<and>
        ((\<forall>a \<in> set (semadj (undos st u)). s16 a = a) \<longrightarrow> (\<forall>a \<in> set (semadj (undos st' u)). s16 a = a)))"

lemma commitsD:
  assumes "commits st sops un pid st'"
  shows "queues st' = queues st" "sem_pending (sma st') = sem_pending (sma st)"
    "complex_count (sma st') = complex_count (sma st)" "list_id (sma st') = list_id (sma st)" "nsems st' = nsems st"
    "i < nsems st \<Longrightarrow> simple_pending (sem_base (sma st') ! i) = simple_pending (sem_base (sma st) ! i)"
    "i < nsems st \<Longrightarrow> vals st' i = vals st i + op_sum sops i"
    "un \<noteq> Some u \<Longrightarrow> undos st' u = undos st u"
    "length (semadj (undos st' u)) = length (semadj (undos st u))"
    "\<forall>a \<in> set (semadj (undos st u)). s16 a = a \<Longrightarrow> \<forall>a \<in> set (semadj (undos st' u)). s16 a = a"
  using assms by (simp_all add: commits_def)

lemma try_succeeds:
  assumes "nums_ok (nsems st) sops" "op_code st sops un = 0"
  obtains st' where "try_atomic_semop st sops un pid = (0, st')" "commits st sops un pid st'"
    "\<And>u. \<forall>sop \<in> set sops. sem_op sop = 0 \<Longrightarrow> \<forall>a \<in> set (semadj (undos st u)). s16 a = a \<Longrightarrow> undos st' u = undos st u"
proof -
  obtain r performed base where a: "semop_apply (un_adj st un) sops [] (sem_base (sma st)) = (r, performed, base)"
    by (metis prod_cases3)
  note ar = semop_apply_result [OF _ a]
  have r: "r = 0" "performed = rev sops" "length base = nsems st"
    "\<And>i. simple_pending (base ! i) = simple_pending (sem_base (sma st) ! i)"
    "\<And>i. sempid (base ! i) = sempid (sem_base (sma st) ! i)"
    "\<And>i. ev base i = vals st i + op_sum sops i"
    using ar assms op_result_sum [of "un_adj st un" sops "vals st"]
    by (simp_all add: op_code_def vals_def nsems_def)
  obtain base' adj' where c: "semop_commit pid performed base (un_adj st un) = (base', adj')" by fastforce
  have nums: "nums_ok (length base) performed" using assms(1) r(2,3) by (simp add: nums_ok_def)
  note cb = semop_commit_base [OF nums c]
  define st' where "st' = set_adj un adj' (set_base base' st)"
  have t: "try_atomic_semop st sops un pid = (0, st')"
    using a c r(1) by (simp add: try_atomic_semop_def st'_def)
  have s': "sma st' = (sma st)\<lparr>sem_base := base'\<rparr>" "queues st' = queues st"
    by (simp_all add: st'_def set_adj_def set_base_def split: option.split)
  have u': "undos st' u = (if un = Some u then (undos st u)\<lparr>semadj := adj'\<rparr> else undos st u)" for u
    by (simp add: st'_def set_adj_def set_base_def split: option.split)
  have "commits st sops un pid st'"
    using s' u' cb r semop_commit_short [OF c]
    by (auto simp: commits_def nsems_def vals_def un_adj_def ev_def)
  moreover have "undos st' u = undos st u"
    if "\<forall>sop \<in> set sops. sem_op sop = 0" "\<forall>a \<in> set (semadj (undos st u)). s16 a = a" for u
    using that semop_commit_zero [OF c] r(2) by (simp add: u' un_adj_def)
  ultimately show ?thesis using t that by blast
qed

end
