(* ===== verification/SemWalk.thy ===== *)
theory SemWalk
  imports SemQueue
begin

text \<open>
  Well-formed states of one semaphore array (\<open>sem_wf\<close>: the two kinds of queues agree, the count of complex
  entries is right, tasks that only wait for zero come first, values and adjustments are in range), and
  what unlinking an entry or completing its operation keeps of them. \<open>complete_entry\<close> justifies the
  cases in which \<open>check_restart\<close> decides that no new scan is needed.
\<close>

section \<open>Well-formed states\<close>

definition simple_on :: "sem_sys \<Rightarrow> nat \<Rightarrow> nat \<Rightarrow> bool" where
  "simple_on st i qi \<longleftrightarrow> nsops (queues st qi) = 1 \<and> sem_num (q_sops (queues st qi) ! 0) = i"

definition q_ok :: "sem_sys \<Rightarrow> nat \<Rightarrow> bool" where
  "q_ok st qi \<longleftrightarrow> q_sops (queues st qi) \<noteq> [] \<and> nums_ok (nsems st) (q_sops (queues st qi)) \<and>
     (q_alter (queues st qi) \<longleftrightarrow> any_alter (q_sops (queues st qi))) \<and>
     (nsops (queues st qi) = 1 \<longrightarrow> \<not> flg_nowait (q_sops (queues st qi) ! 0)) \<and>
     (nsops (queues st qi) = 1 \<and> q_alter (queues st qi) \<longrightarrow> sem_op (q_sops (queues st qi) ! 0) < 0)"

definition sem_wf :: "sem_sys \<Rightarrow> bool" where
  "sem_wf st \<longleftrightarrow> (let P = sem_pending (sma st) in
     distinct P \<and> (\<forall>qi \<in> set P. q_ok st qi) \<and>
     complex_count (sma st) = int (length (filter (\<lambda>qi. nsops (queues st qi) \<noteq> 1) P)) \<and>
     (\<forall>i < nsems st. simple_pending (sem_base (sma st) ! i) = filter (simple_on st i) P) \<and>
     sorted_wrt (\<lambda>p q. q_alter (queues st p) \<longrightarrow> q_alter (queues st q)) P \<and>
     (\<forall>i < nsems st. 0 \<le> vals st i \<and> vals st i \<le> SEMVMX) \<and>
     (\<forall>u. \<forall>a \<in> set (semadj (undos st u)). s16 a = a))"

lemma sem_wfD:
  assumes "sem_wf st"
  shows "distinct (sem_pending (sma st))" "qi \<in> set (sem_pending (sma st)) \<Longrightarrow> q_ok st qi"
    "complex_count (sma st) = int (length (filter (\<lambda>qi. nsops (queues st qi) \<noteq> 1) (sem_pending (sma st))))"
    "i < nsems st \<Longrightarrow> simple_pending (sem_base (sma st) ! i) = filter (simple_on st i) (sem_pending (sma st))"
    "sorted_wrt (\<lambda>p q. q_alter (queues st p) \<longrightarrow> q_alter (queues st q)) (sem_pending (sma st))"
    "i < nsems st \<Longrightarrow> 0 \<le> vals st i" "i < nsems st \<Longrightarrow> vals st i \<le> SEMVMX"
    "a \<in> set (semadj (undos st u)) \<Longrightarrow> s16 a = a"
  using assms by (simp_all add: sem_wf_def Let_def)

definition blocked :: "sem_sys \<Rightarrow> nat \<Rightarrow> bool" where
  "blocked st qi \<longleftrightarrow> op_code st (q_sops (queues st qi)) (q_undo (queues st qi)) = 1"

definition quiescent :: "sem_sys \<Rightarrow> bool" where
  "quiescent st \<longleftrightarrow> (\<forall>qi \<in> set (sem_pending (sma st)). blocked st qi)"

lemma un_adj_cong: "undos st' = undos st \<Longrightarrow> un_adj st' un = un_adj st un"
  by (simp add: un_adj_def split: option.split)

text \<open>Queue entries that differ only in the status and the result.\<close>

definition same_op :: "sem_queue \<Rightarrow> sem_queue \<Rightarrow> bool" where
  "same_op q q' \<longleftrightarrow> q_sops q' = q_sops q \<and> q_undo q' = q_undo q \<and> q_alter q' = q_alter q"

lemma same_op_refl [simp]: "same_op q q"
  by (simp add: same_op_def)

lemma prepare_same [simp]:
  "sma (wake_up_sem_queue_prepare st qi e) = sma st" "undos (wake_up_sem_queue_prepare st qi e) = undos st"
  "same_op (queues st p) (queues (wake_up_sem_queue_prepare st qi e) p)"
  by (simp_all add: wake_up_sem_queue_prepare_def same_op_def)

text \<open>Well-formedness and blocking do not depend on the status of the entries.\<close>

lemma wf_same_op:
  assumes "sma st' = sma st" "undos st' = undos st" "\<And>p. same_op (queues st p) (queues st' p)"
  shows "sem_wf st' = sem_wf st" "blocked st' p = blocked st p" "vals st' = vals st" "nsems st' = nsems st"
    "simple_on st' i p = simple_on st i p" "pending_list semnum st' = pending_list semnum st"
proof -
  have q: "q_sops (queues st' p) = q_sops (queues st p)" "q_undo (queues st' p) = q_undo (queues st p)"
    "q_alter (queues st' p) = q_alter (queues st p)" "nsops (queues st' p) = nsops (queues st p)" for p
    using assms(3) [of p] by (simp_all add: same_op_def nsops_def)
  show v: "vals st' = vals st" "nsems st' = nsems st" using assms(1) by (simp_all add: vals_def nsems_def)
  show "blocked st' p = blocked st p"
    using v un_adj_cong [OF assms(2)] by (simp add: blocked_def op_code_def q)
  show s: "simple_on st' i p = simple_on st i p" for i p by (simp add: simple_on_def q)
  then have "simple_on st' = simple_on st" by (simp add: fun_eq_iff)
  then show "sem_wf st' = sem_wf st"
    using assms(1,2) v by (simp add: sem_wf_def q_ok_def q)
  show "pending_list semnum st' = pending_list semnum st"
    using assms(1) by (simp add: pending_list_def)
qed

lemmas prepare_wf = wf_same_op [OF prepare_same]

section \<open>Removing an entry\<close>

lemma semval_upd: "semval (base[n := (base ! n)\<lparr>simple_pending := y\<rparr>] ! i) = semval (base ! i)"
  by (cases "n < length base") (auto simp: nth_list_update list_update_beyond)

lemma unlink_parts:
  "queues (unlink_queue st qi) = queues st" "undos (unlink_queue st qi) = undos st"
  "sem_pending (sma (unlink_queue st qi)) = remove1 qi (sem_pending (sma st))"
  "list_id (sma (unlink_queue st qi)) = list_id (sma st)"
  "vals (unlink_queue st qi) = vals st" "nsems (unlink_queue st qi) = nsems st"
  by (auto simp: unlink_queue_def Let_def vals_def nsems_def ev_def fun_eq_iff semval_upd)

lemma unlink_complex:
  "complex_count (sma (unlink_queue st qi)) = complex_count (sma st) - (if nsops (queues st qi) = 1 then 0 else 1)"
  by (simp add: unlink_queue_def Let_def)

lemma unlink_simple:
  assumes "i < nsems st"
  shows "simple_pending (sem_base (sma (unlink_queue st qi)) ! i) =
    (if simple_on st i qi then remove1 qi (simple_pending (sem_base (sma st) ! i)) else simple_pending (sem_base (sma st) ! i))"
  using assms by (auto simp: unlink_queue_def Let_def simple_on_def nsems_def nth_list_update)

lemma unlink_blocked: "blocked (unlink_queue st qi) p = blocked st p"
  using un_adj_cong [OF unlink_parts(2)] by (simp add: blocked_def op_code_def unlink_parts)

lemma unlink_simple_on: "simple_on (unlink_queue st qi) = simple_on st"
  by (simp add: simple_on_def unlink_parts fun_eq_iff)

lemma remove1_filter_eq: "distinct xs \<Longrightarrow> remove1 x (filter P xs) = filter (\<lambda>y. P y \<and> x \<noteq> y) xs"
  by (simp add: distinct_remove1_removeAll removeAll_filter_not_eq conj_commute)

lemma filter_remove1:
  assumes "distinct xs"
  shows "filter P (remove1 x xs) = (if P x then remove1 x (filter P xs) else filter P xs)"
proof -
  have "filter P (remove1 x xs) = filter (\<lambda>y. P y \<and> x \<noteq> y) xs"
    using assms by (simp add: distinct_remove1_removeAll removeAll_filter_not_eq conj_commute)
  moreover have "filter (\<lambda>y. P y \<and> x \<noteq> y) xs = filter P xs" if "\<not> P x"
    using that by (intro filter_cong) auto
  ultimately show ?thesis using remove1_filter_eq [OF assms] by metis
qed

lemma length_filter_remove1:
  assumes "distinct xs" "x \<in> set xs"
  shows "length (filter P (remove1 x xs)) = length (filter P xs) - (if P x then 1 else 0)"
  using assms by (simp add: filter_remove1 length_remove1)

lemma unlink_wf:
  assumes "sem_wf st" "qi \<in> set (sem_pending (sma st))"
  shows "sem_wf (unlink_queue st qi)"
proof -
  let ?st' = "unlink_queue st qi" and ?P = "sem_pending (sma st)"
  note wf = sem_wfD [OF assms(1)]
  have pos: "0 < length (filter (\<lambda>q. nsops (queues st q) \<noteq> 1) ?P)" if "nsops (queues st qi) \<noteq> 1"
    using that assms(2) by (auto simp: filter_empty_conv)
  have "complex_count (sma ?st') = int (length (filter (\<lambda>q. nsops (queues ?st' q) \<noteq> 1) (sem_pending (sma ?st'))))"
  proof (cases "nsops (queues st qi) = 1")
    case True
    then show ?thesis using wf(1,3) assms(2) by (simp add: unlink_complex unlink_parts length_filter_remove1)
  next
    case False
    then obtain m where "length (filter (\<lambda>q. nsops (queues st q) \<noteq> 1) ?P) = Suc m"
      using pos gr0_implies_Suc by blast
    with False show ?thesis using wf(1,3) assms(2) by (simp add: unlink_complex unlink_parts length_filter_remove1)
  qed
  moreover have "simple_pending (sem_base (sma ?st') ! i) = filter (simple_on ?st' i) (sem_pending (sma ?st'))"
    if "i < nsems st" for i
    using wf(4) [OF that] that wf(1)
    by (simp add: unlink_simple unlink_parts filter_remove1 unlink_simple_on)
  moreover have "sorted_wrt (\<lambda>p q. q_alter (queues st p) \<longrightarrow> q_alter (queues st q)) (remove1 qi ?P)"
    using wf(1,5) by (simp add: distinct_remove1_removeAll removeAll_filter_not_eq sorted_wrt_filter)
  ultimately show ?thesis
    using wf by (auto simp: sem_wf_def Let_def q_ok_def unlink_parts dest: notin_set_remove1)
qed


section \<open>Completing an operation\<close>

lemma commits_simple_on: "commits st sops un pid st' \<Longrightarrow> simple_on st' = simple_on st"
  by (simp add: simple_on_def commits_def fun_eq_iff)

lemma commits_vals:
  assumes "commits st sops un pid st'" "op_code st sops un = 0" "i < nsems st"
  shows "vals st' i = snd (op_result (un_adj st un) sops (vals st)) i"
  using assms op_result_sum [of "un_adj st un" sops "vals st" i] by (simp add: commitsD op_code_def)

lemma commits_wf:
  assumes wf: "sem_wf st" and c: "commits st sops un pid st'" "op_code st sops un = 0"
  shows "sem_wf st'"
proof -
  have "\<forall>i < nsems st. 0 \<le> vals st' i \<and> vals st' i \<le> SEMVMX"
    using op_result_bounds [of "un_adj st un" sops "vals st" "nsems st"] sem_wfD(6,7) [OF wf] c
    by (simp add: op_code_def commits_vals)
  moreover have "\<forall>i < nsems st. simple_pending (sem_base (sma st') ! i) = filter (simple_on st' i) (sem_pending (sma st'))"
    using sem_wfD(4) [OF wf] c(1) by (simp add: commitsD commits_simple_on)
  moreover have "\<forall>u. \<forall>a \<in> set (semadj (undos st' u)). s16 a = a"
    using sem_wfD(8) [OF wf] commitsD(10) [OF c(1)] by blast
  ultimately show ?thesis
    using wf commitsD [OF c(1)] by (simp add: sem_wf_def q_ok_def Let_def)
qed

lemma single_sop: "nsops q = 1 \<longleftrightarrow> q_sops q = [q_sops q ! 0]"
  by (cases "q_sops q") (auto simp: nsops_def)

lemma blocked_single:
  assumes "nsops (queues st p) = 1"
  shows "blocked st p \<longleftrightarrow> stops_at (vals st) (q_sops (queues st p) ! 0) \<and> \<not> flg_nowait (q_sops (queues st p) ! 0)"
proof -
  have "op_code st [sop] un = 1 \<longleftrightarrow> stops_at (vals st) sop \<and> \<not> flg_nowait sop" for sop un
    by (simp add: op_code_def block_code_def)
  with assms show ?thesis unfolding blocked_def single_sop by metis
qed

lemma no_complex:
  assumes "sem_wf st" "complex_count (sma st) = 0" "p \<in> set (sem_pending (sma st))"
  shows "nsops (queues st p) = 1"
  using sem_wfD(3) [OF assms(1)] assms(2,3) by (auto simp: filter_empty_conv)

lemma single_zero:
  assumes "sem_wf st" "p \<in> set (sem_pending (sma st))" "nsops (queues st p) = 1"
  shows "q_alter (queues st p) \<longleftrightarrow> sem_op (q_sops (queues st p) ! 0) < 0"
    "\<not> q_alter (queues st p) \<longleftrightarrow> sem_op (q_sops (queues st p) ! 0) = 0"
proof -
  have ok: "q_ok st p" using sem_wfD(2) [OF assms(1,2)] .
  have "any_alter (q_sops (queues st p)) \<longleftrightarrow> sem_op (q_sops (queues st p) ! 0) \<noteq> 0"
    using assms(3) unfolding single_sop any_alter_def by (metis empty_set list.set(2) singleton_iff)
  with ok assms(3) show "q_alter (queues st p) \<longleftrightarrow> sem_op (q_sops (queues st p) ! 0) < 0"
    "\<not> q_alter (queues st p) \<longleftrightarrow> sem_op (q_sops (queues st p) ! 0) = 0" by (auto simp: q_ok_def)
qed

lemma op_sum_zero: "\<forall>sop \<in> set sops. sem_op sop = 0 \<Longrightarrow> op_sum sops i = 0"
  by (induction sops) (auto simp: op_sum_def)

lemma op_result_cong:
  assumes "nums_ok n sops" "\<forall>i < n. v i = v' i"
  shows "fst (op_result adj sops v) = fst (op_result adj sops v')"
  using assms
proof (induction sops arbitrary: v v')
  case (Cons sop sops)
  then have n: "v (sem_num sop) = v' (sem_num sop)" by simp
  have "\<forall>i < n. sop_exec v sop i = sop_exec v' sop i" using Cons.prems(2) by (simp add: sop_exec_def)
  moreover have "stops_at v sop = stops_at v' sop" "range_err adj v sop = range_err adj v' sop"
    using n by (simp_all add: stops_at_def range_err_def)
  ultimately show ?case
    using Cons.IH [of "sop_exec v sop" "sop_exec v' sop"] Cons.prems(1) by simp
qed simp

text \<open>A completed operation with only zero amounts changes neither the values nor the adjustments.\<close>

lemma commits_zero_blocked:
  assumes wf: "sem_wf st" and c: "commits st sops un pid st'" and zero: "\<forall>sop \<in> set sops. sem_op sop = 0"
    and u: "\<And>u. \<forall>a \<in> set (semadj (undos st u)). s16 a = a \<Longrightarrow> undos st' u = undos st u"
    and p: "p \<in> set (sem_pending (sma st))"
  shows "blocked st' p = blocked st p"
proof -
  have v: "\<forall>i < nsems st. vals st' i = vals st i"
    using commitsD(7) [OF c] op_sum_zero [OF zero] by simp
  have "undos st' u = undos st u" for u using u sem_wfD(8) [OF wf] by blast
  then have "un_adj st' = un_adj st" by (simp add: un_adj_def fun_eq_iff split: option.split)
  moreover have "nums_ok (nsems st) (q_sops (queues st p))" using sem_wfD(2) [OF wf p] by (simp add: q_ok_def)
  ultimately show ?thesis
    using op_result_cong [OF _ v] commitsD(1) [OF c] by (simp add: blocked_def op_code_def)
qed

lemma single_on:
  assumes "simple_on st n p"
  shows "nsops (queues st p) = 1" "sem_num (q_sops (queues st p) ! 0) = n"
  using assms by (simp_all add: simple_on_def)

text \<open>The argument of \<open>check_restart\<close>: where it says no, whoever was blocked before is blocked now.\<close>

lemma check_restart_simple:
  assumes wf: "sem_wf st2" and cc: "complex_count (sma st2) = 0"
    and q: "nsops q = 1" "q_alter q" "sem_op (q_sops q ! 0) < 0" "sem_num (q_sops q ! 0) = n" "n < nsems st2"
    and old: "\<And>p. p \<in> set (sem_pending (sma st2)) \<Longrightarrow> simple_on st2 n p \<Longrightarrow> R p \<Longrightarrow>
      \<not> flg_nowait (q_sops (queues st2 p) ! 0) \<and> stops_at v (q_sops (queues st2 p) ! 0)"
    and v: "vals st2 n = v n + sem_op (q_sops q ! 0)"
  shows "\<exists>b. check_restart st2 q = Ok b \<and>
    (\<not> b \<longrightarrow> (\<forall>p \<in> set (sem_pending (sma st2)). simple_on st2 n p \<and> R p \<longrightarrow> blocked st2 p))"
proof -
  let ?L = "simple_pending (sem_base (sma st2) ! n)"
  have L: "?L = filter (simple_on st2 n) (sem_pending (sma st2))" using sem_wfD(4) [OF wf q(5)] .
  have vn: "semval (sem_base (sma st2) ! n) = vals st2 n" by (simp add: vals_def ev_def)
  have cr: "check_restart st2 q = (if ?L = [] then Ok False
      else if vals st2 n \<noteq> 0 then Ok False
      else (let h = queues st2 (hd ?L)
            in if nsops h \<noteq> 1 then Fault else if sem_num (q_sops h ! 0) \<noteq> n then Fault
               else Ok (sem_op (q_sops h ! 0) = 0)))"
    using cc q vn by (simp add: check_restart_def Let_def)
  consider (none) "?L = []" | (pos) "?L \<noteq> []" "vals st2 n \<noteq> 0" | (zero) h hs where "?L = h # hs" "vals st2 n = 0"
    by (cases ?L) auto
  then show ?thesis
  proof cases
    case none
    then show ?thesis unfolding cr L by (auto simp: filter_empty_conv)
  next
    case pos
    have "blocked st2 p" if p: "p \<in> set (sem_pending (sma st2))" "simple_on st2 n p" "R p" for p
      using old [OF p] single_on [OF p(2)] single_zero [OF wf p(1)] v q(3) pos(2)
      by (auto simp: blocked_single stops_at_def)
    with pos show ?thesis unfolding cr by (intro exI [of _ False]) simp
  next
    case zero
    have "h \<in> set ?L" using zero(1) by simp
    then have h: "h \<in> set (sem_pending (sma st2))" "simple_on st2 n h" unfolding L by simp_all
    have cr': "check_restart st2 q = Ok (sem_op (q_sops (queues st2 h) ! 0) = 0)"
      using zero single_on [OF h(2)] unfolding cr by simp
    have "blocked st2 p" if p: "p \<in> set (sem_pending (sma st2))" "simple_on st2 n p" "R p"
        and hn: "sem_op (q_sops (queues st2 h) ! 0) \<noteq> 0" for p
    proof -
      have ha: "q_alter (queues st2 h)" using single_zero [OF wf h(1)] single_on [OF h(2)] hn by simp
      have sorted: "sorted_wrt (\<lambda>p q. q_alter (queues st2 p) \<longrightarrow> q_alter (queues st2 q)) (h # hs)"
        using sorted_wrt_filter [OF sem_wfD(5) [OF wf]] zero(1) L by metis
      have "p \<in> set (h # hs)" using p unfolding zero(1) [symmetric] L by simp
      with sorted ha have "q_alter (queues st2 p)" by auto
      then have "sem_op (q_sops (queues st2 p) ! 0) < 0" using single_zero [OF wf p(1)] single_on [OF p(2)] by simp
      then show ?thesis
        using old [OF p] single_on [OF p(2)] zero(2) by (simp add: blocked_single stops_at_def)
    qed
    then show ?thesis unfolding cr' by blast
  qed
qed


lemma complete_entry:
  assumes wf: "sem_wf st" and qi: "qi \<in> set (sem_pending (sma st))"
    and ok: "op_code st (q_sops (queues st qi)) (q_undo (queues st qi)) = 0"
  obtains st1 b where
    "try_atomic_semop st (q_sops (queues st qi)) (q_undo (queues st qi)) pid = (0, st1)"
    "commits st (q_sops (queues st qi)) (q_undo (queues st qi)) pid st1"
    "sem_wf (unlink_queue st1 qi)"
    "check_restart (unlink_queue st1 qi) (queues st qi) = Ok b"
    "\<And>p. \<not> b \<Longrightarrow> p \<in> set (sem_pending (sma (unlink_queue st1 qi))) \<Longrightarrow> blocked st p \<Longrightarrow> blocked (unlink_queue st1 qi) p"
proof -
  let ?q = "queues st qi"
  have qok: "q_ok st qi" using sem_wfD(2) [OF wf qi] .
  then obtain st1 where st1: "try_atomic_semop st (q_sops ?q) (q_undo ?q) pid = (0, st1)"
      "commits st (q_sops ?q) (q_undo ?q) pid st1"
      "\<And>u. \<forall>sop \<in> set (q_sops ?q). sem_op sop = 0 \<Longrightarrow> \<forall>a \<in> set (semadj (undos st u)). s16 a = a \<Longrightarrow> undos st1 u = undos st u"
    using try_succeeds [OF _ ok] by (metis q_ok_def)
  let ?st2 = "unlink_queue st1 qi"
  have c: "queues st1 = queues st" "sem_pending (sma st1) = sem_pending (sma st)" "nsems st1 = nsems st"
    using commitsD [OF st1(2)] by simp_all
  have wf1: "sem_wf st1" using commits_wf [OF wf st1(2) ok] .
  then have wf2: "sem_wf ?st2" using unlink_wf qi c by simp
  have sub: "p \<in> set (sem_pending (sma st))" if "p \<in> set (sem_pending (sma ?st2))" for p
    using that c set_remove1_subset [of qi "sem_pending (sma st)"] by (auto simp: unlink_parts)
  have "\<exists>b. check_restart ?st2 ?q = Ok b \<and>
      (\<not> b \<longrightarrow> (\<forall>p \<in> set (sem_pending (sma ?st2)). blocked st p \<longrightarrow> blocked ?st2 p))"
  proof (cases "q_alter ?q")
    case False
    then have "\<forall>sop \<in> set (q_sops ?q). sem_op sop = 0" using qok by (auto simp: q_ok_def any_alter_def)
    from commits_zero_blocked [OF wf st1(2) this st1(3) [OF this]] False sub
    show ?thesis by (auto simp: check_restart_def unlink_blocked)
  next
    case True
    show ?thesis
    proof (cases "complex_count (sma ?st2) = 0 \<and> nsops ?q = 1")
      case False
      then have "complex_count (sma ?st2) \<noteq> 0 \<or> nsops ?q > 1"
        using qok by (cases "q_sops ?q") (auto simp: q_ok_def nsops_def)
      then show ?thesis using True by (auto simp: check_restart_def)
    next
      case cc: True
      define n where "n = sem_num (q_sops ?q ! 0)"
      have single: "q_sops ?q = [q_sops ?q ! 0]" using cc single_sop by blast
      then have n: "n < nsems st" unfolding n_def using qok by (metis q_ok_def nums_ok_Cons)
      have op: "sem_op (q_sops ?q ! 0) < 0" using qok cc True by (simp add: q_ok_def)
      have sum: "op_sum (q_sops ?q) i = (if n = i then sem_op (q_sops ?q ! 0) else 0)" for i
        by (subst single) (simp add: op_sum_def n_def)
      have v: "vals ?st2 i = vals st i + (if n = i then sem_op (q_sops ?q ! 0) else 0)" if "i < nsems st" for i
        using commitsD(7) [OF st1(2) that] by (simp add: unlink_parts sum)
      have "simple_on ?st2 = simple_on st" using commits_simple_on [OF st1(2)] by (simp add: unlink_simple_on)
      then have "\<exists>b. check_restart ?st2 ?q = Ok b \<and>
         (\<not> b \<longrightarrow> (\<forall>p \<in> set (sem_pending (sma ?st2)). simple_on ?st2 n p \<and> blocked st p \<longrightarrow> blocked ?st2 p))"
        using cc True op n v [OF n] c
        by (intro check_restart_simple [OF wf2, where v = "vals st"])
          (auto simp: n_def unlink_parts blocked_single dest: single_on(1))
      then obtain b where b: "check_restart ?st2 ?q = Ok b"
        "\<And>p. \<not> b \<Longrightarrow> p \<in> set (sem_pending (sma ?st2)) \<Longrightarrow> simple_on ?st2 n p \<Longrightarrow> blocked st p \<Longrightarrow> blocked ?st2 p" by blast
      have "blocked ?st2 p" if p: "p \<in> set (sem_pending (sma ?st2))" "blocked st p" "\<not> simple_on ?st2 n p" for p
      proof -
        have ns: "nsops (queues ?st2 p) = 1" using no_complex [OF wf2 _ p(1)] cc by blast
        then have "sem_num (q_sops (queues st p) ! 0) \<noteq> n" using p(3) c by (simp add: simple_on_def unlink_parts)
        moreover have "sem_num (q_sops (queues st p) ! 0) < nsems st"
          using sem_wfD(2) [OF wf sub [OF p(1)]] ns c by (auto simp: q_ok_def nums_ok_def unlink_parts nsops_def)
        ultimately show ?thesis
          using p(2) ns c v by (simp add: blocked_single unlink_parts stops_at_def)
      qed
      with b show ?thesis by blast
    qed
  qed
  then show ?thesis using that st1 wf2 by blast
qed

end
