(* ===== verification/SemUpdate.thy ===== *)
theory SemUpdate
  imports SemWalk
begin

text \<open>
  The scans of \<open>update_queue\<close> and \<open>do_smart_update\<close>: they end, no \<open>BUG_ON\<close> fires, and afterwards every task
  still queued is blocked. \<open>walk_frame\<close> says what a scan may change.
\<close>

text \<open>The entries that left the list \<open>P\<close> are marked and hold their result; nobody else's entry changed.\<close>

definition woken :: "nat list \<Rightarrow> nat list \<Rightarrow> (nat \<Rightarrow> sem_queue) \<Rightarrow> (nat \<Rightarrow> sem_queue) \<Rightarrow> bool" where
  "woken P P' Q Q' \<longleftrightarrow> set P' \<subseteq> set P \<and>
     (\<forall>p \<in> set P - set P'. q_status (Q' p) = IN_WAKEUP \<and> q_pid (Q' p) \<in> {0, - EAGAIN, - ERANGE}) \<and>
     (\<forall>p. p \<notin> set P - set P' \<longrightarrow> Q' p = Q p)"

lemma woken_trans: assumes "woken P P' Q Q'" "woken P' P'' Q' Q''" shows "woken P P'' Q Q''"
proof -
  note a = assms [unfolded woken_def]
  have "q_status (Q'' p) = IN_WAKEUP \<and> q_pid (Q'' p) \<in> {0, - EAGAIN, - ERANGE}" if "p \<in> set P - set P''" for p
    using a that by (cases "p \<in> set P'") auto
  moreover have "Q'' p = Q p" if "p \<notin> set P - set P''" for p
    using a that by (cases "p \<in> set P'") auto
  ultimately show ?thesis using a unfolding woken_def by blast
qed

definition walk_frame :: "int \<Rightarrow> sem_sys \<Rightarrow> sem_sys \<Rightarrow> bool" where
  "walk_frame k st st' \<longleftrightarrow>
     nsems st' = nsems st \<and> list_id (sma st') = list_id (sma st) \<and>
     (\<forall>p. same_op (queues st p) (queues st' p)) \<and>
     set (sem_pending (sma st')) \<subseteq> set (sem_pending (sma st)) \<and>
     woken (sem_pending (sma st)) (sem_pending (sma st')) (queues st) (queues st') \<and>
     (\<forall>u. un_semid (undos st' u) = un_semid (undos st u) \<and> length (semadj (undos st' u)) = length (semadj (undos st u))) \<and>
     (k \<noteq> -1 \<longrightarrow> complex_count (sma st') = complex_count (sma st) \<and>
        (\<forall>i < nsems st. i \<noteq> nat k \<longrightarrow> vals st' i = vals st i) \<and>
        (\<forall>p \<in> set (sem_pending (sma st)). \<not> simple_on st (nat k) p \<longrightarrow> p \<in> set (sem_pending (sma st'))))"

lemma same_op_simple_on: "(\<And>p. same_op (queues st p) (queues st' p)) \<Longrightarrow> simple_on st' i p = simple_on st i p"
  by (simp add: simple_on_def same_op_def nsops_def)

lemma same_op_trans: "same_op a b \<Longrightarrow> same_op b c \<Longrightarrow> same_op a c"
  by (simp add: same_op_def)

lemma walk_frame_refl [simp]: "walk_frame k st st"
  by (simp add: walk_frame_def woken_def)

lemma walk_frame_trans:
  assumes "walk_frame k st st'" "walk_frame k st' st''"
  shows "walk_frame k st st''"
proof -
  note a = assms [unfolded walk_frame_def]
  have so: "simple_on st' = simple_on st" using a(1) same_op_simple_on [of st st'] by (simp add: fun_eq_iff)
  have "woken (sem_pending (sma st)) (sem_pending (sma st'')) (queues st) (queues st'')"
    using a woken_trans by blast
  moreover have "same_op (queues st p) (queues st'' p)" for p using a by (blast intro: same_op_trans)
  ultimately show ?thesis
    using a unfolding walk_frame_def so by (simp (no_asm_simp)) blast
qed

definition walk_range :: "int \<Rightarrow> sem_sys \<Rightarrow> bool" where
  "walk_range k st \<longleftrightarrow> k = -1 \<or> 0 \<le> k \<and> k < int (nsems st) \<and> complex_count (sma st) = 0"

definition in_list :: "int \<Rightarrow> sem_sys \<Rightarrow> nat \<Rightarrow> bool" where
  "in_list k st p \<longleftrightarrow> k = -1 \<or> simple_on st (nat k) p"

lemma pending_list_wf:
  assumes "sem_wf st" "walk_range k st"
  shows "pending_list k st = filter (in_list k st) (sem_pending (sma st))"
proof (cases "k = -1")
  case True
  then show ?thesis by (simp add: pending_list_def in_list_def)
next
  case False
  then have "nat k < nsems st" "in_list k st = simple_on st (nat k)"
    using assms(2) by (auto simp: walk_range_def in_list_def)
  with sem_wfD(4) [OF assms(1)] False show ?thesis by (simp add: pending_list_def)
qed

lemma walk_range_frame: "walk_range k st \<Longrightarrow> walk_frame k st st' \<Longrightarrow> walk_range k st'"
  by (auto simp: walk_range_def walk_frame_def)

text \<open>Taking one entry off the queue.\<close>

lemma drop_entry:
  assumes wf: "sem_wf st" and rng: "walk_range k st" and L: "pending_list k st = pre @ qi # rest"
    and st3: "sem_wf st3" "sem_pending (sma st3) = remove1 qi (sem_pending (sma st))" "walk_frame k st st3"
  shows "pending_list k st3 = pre @ rest" "length (sem_pending (sma st3)) < length (sem_pending (sma st))"
    "set (sem_pending (sma st)) - set (sem_pending (sma st3)) = {qi}" "walk_range k st3"
proof -
  have d: "distinct (sem_pending (sma st))" using sem_wfD(1) [OF wf] .
  have qi: "qi \<in> set (sem_pending (sma st))" "in_list k st qi"
  proof -
    have "qi \<in> set (pending_list k st)" using L by simp
    then show "qi \<in> set (sem_pending (sma st))" "in_list k st qi" by (simp_all add: pending_list_wf [OF wf rng])
  qed
  show rng3: "walk_range k st3" using walk_range_frame [OF rng st3(3)] .
  have il: "in_list k st3 = in_list k st"
    using st3(3) same_op_simple_on [of st st3] by (simp add: in_list_def walk_frame_def fun_eq_iff)
  have "distinct (pre @ qi # rest)" using d L pending_list_wf [OF wf rng] by (metis distinct_filter)
  then have "remove1 qi (pre @ qi # rest) = pre @ rest" by (simp add: remove1_append)
  then show "pending_list k st3 = pre @ rest"
    using L qi(2) d unfolding pending_list_wf [OF st3(1) rng3] pending_list_wf [OF wf rng] st3(2) il
    by (simp add: filter_remove1)
  show "length (sem_pending (sma st3)) < length (sem_pending (sma st))"
    using qi(1) st3(2) by (metis length_pos_if_in_set length_remove1 diff_less zero_less_one)
  show "set (sem_pending (sma st)) - set (sem_pending (sma st3)) = {qi}"
    using qi(1) d st3(2) by auto
qed

lemma op_code_cases: "op_code st sops un \<in> {0, 1, - EAGAIN, - ERANGE}"
  unfolding op_code_def by (rule op_result_range)

lemma walk_step:
  "update_walk k st (qi # rest) pt c =
    (if k \<noteq> -1 \<and> vals st (nat k) = 0 \<and> q_alter (queues st qi) then Some (Ok (st, pt, c))
     else (case try_atomic_semop st (q_sops (queues st qi)) (q_undo (queues st qi)) (q_pid (queues st qi)) of
        (error, st1) \<Rightarrow>
          if error > 0 then update_walk k st1 rest pt c
          else if error \<noteq> 0 then
            update_walk k (wake_up_sem_queue_prepare (unlink_queue st1 qi) qi error) rest (pt @ [qi]) c
          else (case check_restart (unlink_queue st1 qi) (queues st qi) of
              Fault \<Rightarrow> Some Fault
            | Ok restart \<Rightarrow>
               update_walk k (wake_up_sem_queue_prepare (unlink_queue st1 qi) qi error)
                 (if restart then pending_list k (wake_up_sem_queue_prepare (unlink_queue st1 qi) qi error)
                  else rest) (pt @ [qi]) True)))"
  by (subst update_walk.simps) (simp add: vals_def ev_def)

lemma walk_nil: "update_walk k st [] pt c = Some (Ok (st, pt, c))"
  by (subst update_walk.simps) simp

text \<open>The post-condition of a scan.\<close>

definition walk_post :: "int \<Rightarrow> sem_sys \<Rightarrow> nat list \<Rightarrow> (sem_sys \<times> nat list \<times> bool) outcome option \<Rightarrow> bool" where
  "walk_post k st pt r \<longleftrightarrow> (\<exists>st' pt' c'. r = Some (Ok (st', pt', c')) \<and> sem_wf st' \<and> walk_frame k st st' \<and>
     (\<forall>p \<in> set (pending_list k st'). blocked st' p) \<and>
     set pt' = set pt \<union> (set (sem_pending (sma st)) - set (sem_pending (sma st'))))"

lemma walk_post_trans:
  assumes "walk_frame k st st'" "set (sem_pending (sma st)) - set (sem_pending (sma st')) = {qi}"
    "walk_post k st' (pt @ [qi]) r"
  shows "walk_post k st pt r"
proof -
  obtain st'' pt'' c'' where r: "r = Some (Ok (st'', pt'', c''))" "sem_wf st''" "walk_frame k st' st''"
     "\<forall>p \<in> set (pending_list k st''). blocked st'' p"
     "set pt'' = set (pt @ [qi]) \<union> (set (sem_pending (sma st')) - set (sem_pending (sma st'')))"
    using assms(3) unfolding walk_post_def by blast
  have sub: "set (sem_pending (sma st'')) \<subseteq> set (sem_pending (sma st'))" "set (sem_pending (sma st')) \<subseteq> set (sem_pending (sma st))"
    using assms(1) r(3) by (simp_all add: walk_frame_def)
  have "set pt'' = set pt \<union> (set (sem_pending (sma st)) - set (sem_pending (sma st'')))"
    using r(5) assms(2) sub by auto
  with r walk_frame_trans [OF assms(1) r(3)] show ?thesis unfolding walk_post_def by blast
qed

lemma prepare_woken:
  assumes "qi \<in> set P" "distinct P" "e \<in> {0, - EAGAIN, - ERANGE}"
  shows "woken P (remove1 qi P) (queues st) (queues (wake_up_sem_queue_prepare st qi e))"
  using assms by (auto simp: wake_up_sem_queue_prepare_def woken_def)

lemma commits_frame:
  assumes "commits st (q_sops (queues st qi)) un pid st1" "in_list k st qi" "q_ok st qi" "walk_range k st"
    "qi \<in> set (sem_pending (sma st))" "sem_wf st" "e \<in> {0, - EAGAIN, - ERANGE}"
  shows "walk_frame k st (wake_up_sem_queue_prepare (unlink_queue st1 qi) qi e)"
proof -
  let ?st3 = "wake_up_sem_queue_prepare (unlink_queue st1 qi) qi e"
  note c = commitsD [OF assms(1)]
  have "same_op (queues (unlink_queue st1 qi) p) (queues ?st3 p)" for p by simp
  then have s3: "sma ?st3 = sma (unlink_queue st1 qi)" "undos ?st3 = undos st1"
    "\<And>p. same_op (queues st p) (queues ?st3 p)"
    using c(1) by (simp_all add: unlink_parts)
  have v3: "vals ?st3 = vals st1" "nsems ?st3 = nsems st" using s3(1) c(5) by (simp_all add: vals_def nsems_def unlink_parts [unfolded vals_def nsems_def])
  have "complex_count (sma ?st3) = complex_count (sma st)" "\<forall>i < nsems st. i \<noteq> nat k \<longrightarrow> vals ?st3 i = vals st i"
       "\<forall>p \<in> set (sem_pending (sma st)). \<not> simple_on st (nat k) p \<longrightarrow> p \<in> set (sem_pending (sma ?st3))" if "k \<noteq> -1"
  proof -
    have so: "nsops (queues st qi) = 1" "sem_num (q_sops (queues st qi) ! 0) = nat k"
      using assms(2) that by (simp_all add: in_list_def simple_on_def)
    then show "complex_count (sma ?st3) = complex_count (sma st)"
      using c by (simp add: s3(1) unlink_complex)
    have "op_sum [sop] i = 0" if "i \<noteq> sem_num sop" for i sop using that by (simp add: op_sum_def)
    then have "op_sum (q_sops (queues st qi)) i = 0" if "i \<noteq> nat k" for i
      using so that unfolding single_sop by metis
    then show "\<forall>i < nsems st. i \<noteq> nat k \<longrightarrow> vals ?st3 i = vals st i" using c(7) v3 by simp
    show "\<forall>p \<in> set (sem_pending (sma st)). \<not> simple_on st (nat k) p \<longrightarrow> p \<in> set (sem_pending (sma ?st3))"
      using assms(2) that c(2) s3(1) in_set_remove1 [of _ qi] by (fastforce simp: unlink_parts in_list_def)
  qed
  moreover have "set (sem_pending (sma ?st3)) \<subseteq> set (sem_pending (sma st))"
    using c(2) s3(1) set_remove1_subset [of qi "sem_pending (sma st)"] by (simp add: unlink_parts)
  moreover have "un_semid (undos st1 u) = un_semid (undos st u) \<and> length (semadj (undos st1 u)) = length (semadj (undos st u))" for u
    using assms(1) by (simp add: commits_def)
  moreover have "woken (sem_pending (sma st)) (sem_pending (sma ?st3)) (queues st) (queues ?st3)"
    using prepare_woken [OF assms(5) sem_wfD(1) [OF assms(6)] assms(7), of "unlink_queue st1 qi"] c(1,2) s3(1)
    by (simp add: unlink_parts)
  ultimately show ?thesis
    using v3 s3 c(4) unfolding walk_frame_def by (simp add: unlink_parts)
qed


lemma unlink_frame:
  assumes "in_list k st qi" "qi \<in> set (sem_pending (sma st))" "sem_wf st" "e \<in> {0, - EAGAIN, - ERANGE}"
  shows "walk_frame k st (wake_up_sem_queue_prepare (unlink_queue st qi) qi e)"
proof -
  let ?st3 = "wake_up_sem_queue_prepare (unlink_queue st qi) qi e"
  have "same_op (queues (unlink_queue st qi) p) (queues ?st3 p)" for p by simp
  then have s3: "sma ?st3 = sma (unlink_queue st qi)" "undos ?st3 = undos st"
    "\<And>p. same_op (queues st p) (queues ?st3 p)" by (simp_all add: unlink_parts)
  have "vals ?st3 = vals st" "nsems ?st3 = nsems st"
    using s3(1) unlink_parts(5,6) [of st qi] by (simp_all add: vals_def nsems_def)
  moreover have "set (sem_pending (sma ?st3)) \<subseteq> set (sem_pending (sma st))"
    using s3(1) set_remove1_subset [of qi "sem_pending (sma st)"] by (simp add: unlink_parts)
  moreover have "p \<in> set (sem_pending (sma ?st3))"
    if "k \<noteq> -1" "p \<in> set (sem_pending (sma st))" "\<not> simple_on st (nat k) p" for p
    using that assms s3(1) in_set_remove1 [of p qi] by (fastforce simp: unlink_parts in_list_def)
  moreover have "k \<noteq> -1 \<Longrightarrow> complex_count (sma ?st3) = complex_count (sma st)"
    using assms by (simp add: s3(1) unlink_complex in_list_def simple_on_def)
  moreover have "woken (sem_pending (sma st)) (sem_pending (sma ?st3)) (queues st) (queues ?st3)"
    using prepare_woken [OF assms(2) sem_wfD(1) [OF assms(3)] assms(4), of "unlink_queue st qi"] s3(1)
    by (simp add: unlink_parts)
  ultimately show ?thesis using s3 unfolding walk_frame_def by (simp add: unlink_parts)
qed

text \<open>The break of a scan of one semaphore at value 0: only decrements are left.\<close>

lemma break_blocked:
  assumes wf: "sem_wf st" and rng: "walk_range k st" and L: "pending_list k st = pre @ qi # rest"
    and pre: "\<forall>p \<in> set pre. blocked st p"
    and brk: "k \<noteq> -1" "vals st (nat k) = 0" "q_alter (queues st qi)"
  shows "\<forall>p \<in> set (pending_list k st). blocked st p"
proof -
  have "sorted_wrt (\<lambda>p q. q_alter (queues st p) \<longrightarrow> q_alter (queues st q)) (pre @ qi # rest)"
    using sorted_wrt_filter [OF sem_wfD(5) [OF wf]] L pending_list_wf [OF wf rng] by metis
  then have alt: "q_alter (queues st p)" if "p \<in> set (qi # rest)" for p
    using that brk(3) by (auto simp: sorted_wrt_append)
  have "blocked st p" if "p \<in> set (qi # rest)" for p
  proof -
    have "p \<in> set (pending_list k st)" using that L by auto
    then have p: "p \<in> set (sem_pending (sma st))" "simple_on st (nat k) p" "in_list k st p"
      using brk(1) by (auto simp: pending_list_wf [OF wf rng] in_list_def)
    have "sem_op (q_sops (queues st p) ! 0) < 0"
      using single_zero(1) [OF wf p(1) single_on(1) [OF p(2)]] alt [OF that] by simp
    moreover have "\<not> flg_nowait (q_sops (queues st p) ! 0)"
      using sem_wfD(2) [OF wf p(1)] single_on(1) [OF p(2)] by (simp add: q_ok_def)
    ultimately show ?thesis
      using single_on [OF p(2)] brk(2) by (simp add: blocked_single stops_at_def)
  qed
  with pre L show ?thesis by auto
qed


lemma update_walk_ok:
  assumes "sem_wf st" "walk_range k st" "pending_list k st = pre @ walk" "\<forall>p \<in> set pre. blocked st p"
  shows "walk_post k st pt (update_walk k st walk pt c)"
  using assms
proof (induction "length (sem_pending (sma st))" arbitrary: st pre walk pt c rule: less_induct)
  case (less st)
  note outer = less.hyps
  from less.prems show ?case
  proof (induction walk arbitrary: pre)
    case Nil
    then show ?case by (auto simp: walk_nil walk_post_def)
  next
    case (Cons qi rest)
    let ?q = "queues st qi"
    let ?code = "op_code st (q_sops ?q) (q_undo ?q)"
    note wf = Cons.prems(1) and rng = Cons.prems(2) and L = Cons.prems(3) and pre = Cons.prems(4)
    have "qi \<in> set (pending_list k st)" using L by simp
    then have qi: "qi \<in> set (sem_pending (sma st))" "in_list k st qi" by (simp_all add: pending_list_wf [OF wf rng])
    have qok: "q_ok st qi" using sem_wfD(2) [OF wf qi(1)] .
    consider (brk) "k \<noteq> -1 \<and> vals st (nat k) = 0 \<and> q_alter ?q"
      | (wait) "\<not> (k \<noteq> -1 \<and> vals st (nat k) = 0 \<and> q_alter ?q)" "?code = 1"
      | (err) "\<not> (k \<noteq> -1 \<and> vals st (nat k) = 0 \<and> q_alter ?q)" "?code < 0"
      | (ok) "\<not> (k \<noteq> -1 \<and> vals st (nat k) = 0 \<and> q_alter ?q)" "?code = 0"
      using op_code_cases [of st "q_sops ?q" "q_undo ?q"] by fastforce
    then show ?case
    proof cases
      case brk
      then have "\<forall>p \<in> set (pending_list k st). blocked st p"
        using break_blocked [OF wf rng L pre] by blast
      with brk wf show ?thesis unfolding walk_step by (auto simp: walk_post_def)
    next
      case wait
      have "\<forall>p \<in> set (pre @ [qi]). blocked st p" using pre wait(2) by (simp add: blocked_def)
      with Cons.IH [of "pre @ [qi]"] wf rng L have "walk_post k st pt (update_walk k st rest pt c)" by simp
      then show ?thesis
        unfolding walk_step using wait try_fails [of st "q_sops ?q" "q_undo ?q" "q_pid ?q"] qok
        by (auto simp: q_ok_def)
    next
      case err
      let ?st3 = "wake_up_sem_queue_prepare (unlink_queue st qi) qi ?code"
      have wf3: "sem_wf ?st3" using unlink_wf [OF wf qi(1)] prepare_wf(1) by blast
      have "?code \<in> {0, - EAGAIN, - ERANGE}"
        using op_code_cases [of st "q_sops ?q" "q_undo ?q"] err(2) by auto
      note fr = unlink_frame [OF qi(2,1) wf this]
      note d = drop_entry [OF wf rng L wf3 _ fr]
      have p3: "sem_pending (sma ?st3) = remove1 qi (sem_pending (sma st))" by (simp add: unlink_parts)
      have "\<forall>p \<in> set pre. blocked ?st3 p" using pre prepare_wf(2) unlink_blocked by blast
      with outer [OF d(2) [OF p3] wf3 d(4) [OF p3] d(1) [OF p3]]
      have "walk_post k ?st3 (pt @ [qi]) (update_walk k ?st3 rest (pt @ [qi]) c)" by blast
      from walk_post_trans [OF fr d(3) [OF p3] this] show ?thesis
        unfolding walk_step using err try_fails [of st "q_sops ?q" "q_undo ?q" "q_pid ?q"] qok
        by (auto simp: q_ok_def)
    next
      case ok
      obtain st1 b where s: "try_atomic_semop st (q_sops ?q) (q_undo ?q) (q_pid ?q) = (0, st1)"
        "commits st (q_sops ?q) (q_undo ?q) (q_pid ?q) st1" "sem_wf (unlink_queue st1 qi)"
        "check_restart (unlink_queue st1 qi) ?q = Ok b"
        "\<And>p. \<not> b \<Longrightarrow> p \<in> set (sem_pending (sma (unlink_queue st1 qi))) \<Longrightarrow> blocked st p \<Longrightarrow> blocked (unlink_queue st1 qi) p"
        using complete_entry [OF wf qi(1) ok(2)] by metis
      let ?st3 = "wake_up_sem_queue_prepare (unlink_queue st1 qi) qi 0"
      have wf3: "sem_wf ?st3" using s(3) prepare_wf(1) by blast
      have "(0 :: int) \<in> {0, - EAGAIN, - ERANGE}" by simp
      note fr = commits_frame [OF s(2) qi(2) qok rng qi(1) wf this]
      note d = drop_entry [OF wf rng L wf3 _ fr]
      have p3: "sem_pending (sma ?st3) = remove1 qi (sem_pending (sma st))"
        using commitsD(2) [OF s(2)] by (simp add: unlink_parts)
      have "pending_list k ?st3 = (if b then [] else pre) @ (if b then pending_list k ?st3 else rest)"
        using d(1) [OF p3] by simp
      moreover have "blocked ?st3 p" if "p \<in> set (if b then [] else pre)" for p
      proof -
        have p: "\<not> b" "p \<in> set pre" using that by (auto split: if_splits)
        then have "p \<in> set (pending_list k ?st3)" using d(1) [OF p3] by simp
        then have "p \<in> set (sem_pending (sma ?st3))" by (simp add: pending_list_wf [OF wf3 d(4) [OF p3]])
        with s(5) [OF p(1)] pre p(2) have "blocked (unlink_queue st1 qi) p" by simp
        then show ?thesis using prepare_wf(2) by blast
      qed
      ultimately have "walk_post k ?st3 (pt @ [qi])
          (update_walk k ?st3 (if b then pending_list k ?st3 else rest) (pt @ [qi]) True)"
        using outer [OF d(2) [OF p3] wf3 d(4) [OF p3]] by blast
      from walk_post_trans [OF fr d(3) [OF p3] this] show ?thesis
        unfolding walk_step using ok s(1,4) by auto
    qed
  qed
qed


section \<open>After an update nobody who could proceed is left waiting\<close>

lemma update_all_ok:
  assumes "sem_wf st"
  obtains st' pt' c' where "update_queue st (-1) pt = Some (Ok (st', pt', c'))" "sem_wf st'" "quiescent st'"
    "walk_frame (-1) st st'" "set pt' = set pt \<union> (set (sem_pending (sma st)) - set (sem_pending (sma st')))"
proof -
  have "walk_post (-1) st pt (update_walk (-1) st (pending_list (-1) st) pt False)"
    using assms by (intro update_walk_ok [of _ _ "[]"]) (simp_all add: walk_range_def)
  then show ?thesis
    using that by (auto simp: walk_post_def update_queue_def quiescent_def pending_list_def)
qed

definition settled :: "sem_sys \<Rightarrow> nat \<Rightarrow> bool" where
  "settled st i \<longleftrightarrow> (\<forall>p \<in> set (sem_pending (sma st)). simple_on st i p \<longrightarrow> blocked st p)"

lemma update_one_ok:
  assumes "sem_wf st" "complex_count (sma st) = 0" "n < nsems st"
  obtains st' pt' c' where "update_queue st (int n) pt = Some (Ok (st', pt', c'))" "sem_wf st'" "settled st' n"
    "walk_frame (int n) st st'" "set pt' = set pt \<union> (set (sem_pending (sma st)) - set (sem_pending (sma st')))"
proof -
  have rng: "walk_range (int n) st" using assms by (simp add: walk_range_def)
  have "walk_post (int n) st pt (update_walk (int n) st (pending_list (int n) st) pt False)"
    using assms rng by (intro update_walk_ok [of _ _ "[]"]) simp_all
  then obtain st' pt' c' where w: "update_walk (int n) st (pending_list (int n) st) pt False = Some (Ok (st', pt', c'))"
    "sem_wf st'" "walk_frame (int n) st st'" "\<forall>p \<in> set (pending_list (int n) st'). blocked st' p"
    "set pt' = set pt \<union> (set (sem_pending (sma st)) - set (sem_pending (sma st')))"
    unfolding walk_post_def by blast
  have "settled st' n"
    using w(4) unfolding pending_list_wf [OF w(2) walk_range_frame [OF rng w(3)]] settled_def
    by (simp add: in_list_def)
  moreover have "update_queue st (int n) pt = Some (Ok (st', pt', c'))"
    using w(1) assms(2) by (simp add: update_queue_def)
  ultimately show ?thesis using that w by blast
qed

text \<open>Updating one semaphore leaves the others settled if they were.\<close>

lemma settled_other:
  assumes "sem_wf st" "sem_wf st'" "complex_count (sma st) = 0" "walk_frame (int n) st st'" "settled st i" "i \<noteq> n" "i < nsems st"
  shows "settled st' i"
proof -
  have fr: "vals st' i = vals st i" "\<And>p. same_op (queues st p) (queues st' p)"
    "set (sem_pending (sma st')) \<subseteq> set (sem_pending (sma st))"
    using assms(4,6,7) by (simp_all add: walk_frame_def)
  show ?thesis unfolding settled_def
  proof (intro ballI impI)
    fix p assume p: "p \<in> set (sem_pending (sma st'))" "simple_on st' i p"
    have so: "simple_on st i p" using same_op_simple_on [OF fr(2)] p(2) by simp
    then have "blocked st p" using p(1) fr(3) assms(5) by (auto simp: settled_def)
    then show "blocked st' p"
      using single_on [OF so] single_on [OF p(2)] fr(1) fr(2) [of p]
      by (simp add: blocked_single stops_at_def same_op_def)
  qed
qed

lemma quiescent_settled:
  assumes "sem_wf st" "complex_count (sma st) = 0"
  shows "quiescent st \<longleftrightarrow> (\<forall>i < nsems st. settled st i)"
proof -
  have "\<exists>i < nsems st. simple_on st i p" if "p \<in> set (sem_pending (sma st))" for p
    using no_complex [OF assms that] sem_wfD(2) [OF assms(1) that]
    by (auto simp: simple_on_def q_ok_def nums_ok_def nsops_def)
  then show ?thesis unfolding quiescent_def settled_def by blast
qed

text \<open>The operations left for the loop of \<open>do_smart_update\<close> cover every semaphore that is not settled.\<close>

definition covers :: "sembuf list \<Rightarrow> sem_sys \<Rightarrow> nat \<Rightarrow> bool" where
  "covers sops st i \<longleftrightarrow> (\<exists>sop \<in> set sops. sem_num sop = i \<and> (sem_op sop > 0 \<or> sem_op sop < 0 \<and> vals st i = 0))"

lemma smart_loop_ok:
  assumes "sem_wf st" "complex_count (sma st) = 0" "nums_ok (nsems st) sops"
    "\<forall>i < nsems st. settled st i \<or> covers sops st i"
  shows "\<exists>st' otime' pt'. smart_loop st sops otime pt = Some (Ok (st', otime', pt')) \<and> sem_wf st' \<and> quiescent st' \<and>
    walk_frame (-1) st st' \<and> set pt' = set pt \<union> (set (sem_pending (sma st)) - set (sem_pending (sma st')))"
  using assms
proof (induction sops arbitrary: st otime pt)
  case Nil
  then have "quiescent st" by (simp add: quiescent_settled covers_def)
  with Nil show ?case by auto
next
  case (Cons sop sops)
  let ?n = "sem_num sop"
  have n: "?n < nsems st" "nums_ok (nsems st) sops" using Cons.prems(3) by simp_all
  show ?case
  proof (cases "sem_op sop > 0 \<or> sem_op sop < 0 \<and> vals st ?n = 0")
    case False
    have "settled st i \<or> covers sops st i" if "i < nsems st" for i
      using Cons.prems(4) that False by (auto simp: covers_def)
    moreover have "smart_loop st (sop # sops) otime pt = smart_loop st sops otime pt"
      using False by (auto simp: vals_def ev_def)
    ultimately show ?thesis using Cons.IH [OF Cons.prems(1,2) n(2)] by simp
  next
    case True
    obtain st1 pt1 c1 where u: "update_queue st (int ?n) pt = Some (Ok (st1, pt1, c1))" "sem_wf st1" "settled st1 ?n"
      "walk_frame (int ?n) st st1" "set pt1 = set pt \<union> (set (sem_pending (sma st)) - set (sem_pending (sma st1)))"
      using update_one_ok [OF Cons.prems(1,2) n(1)] by metis
    have f: "nsems st1 = nsems st" "complex_count (sma st1) = 0" "\<And>i. i < nsems st \<Longrightarrow> i \<noteq> ?n \<Longrightarrow> vals st1 i = vals st i"
      "set (sem_pending (sma st1)) \<subseteq> set (sem_pending (sma st))"
      using u(4) Cons.prems(2) by (simp_all add: walk_frame_def)
    have "settled st1 i \<or> covers sops st1 i" if "i < nsems st1" for i
    proof (cases "i = ?n")
      case True
      then show ?thesis using u(3) by simp
    next
      case False
      have i: "i < nsems st" using that f(1) by simp
      then have "settled st i \<or> covers (sop # sops) st i" using Cons.prems(4) by blast
      then show ?thesis
        using f(3) [OF i False] settled_other [OF Cons.prems(1) u(2) Cons.prems(2) u(4) _ False i] False
        by (auto simp: covers_def)
    qed
    then have "\<forall>i < nsems st1. settled st1 i \<or> covers sops st1 i" by blast
    moreover have "nums_ok (nsems st1) sops" using n(2) f(1) by simp
    ultimately have "\<exists>st' otime' pt'. smart_loop st1 sops (otime \<or> c1) pt1 = Some (Ok (st', otime', pt')) \<and>
        sem_wf st' \<and> quiescent st' \<and> walk_frame (-1) st1 st' \<and>
        set pt' = set pt1 \<union> (set (sem_pending (sma st1)) - set (sem_pending (sma st')))"
      by (intro Cons.IH u(2) f(2))
    then obtain st' otime' pt' where
      r: "smart_loop st1 sops (otime \<or> c1) pt1 = Some (Ok (st', otime', pt'))" "sem_wf st'" "quiescent st'"
        "walk_frame (-1) st1 st'" "set pt' = set pt1 \<union> (set (sem_pending (sma st1)) - set (sem_pending (sma st')))"
      by blast
    have "walk_frame (-1) st st1" using u(4) by (simp add: walk_frame_def)
    then have "walk_frame (-1) st st'" using r(4) by (rule walk_frame_trans)
    moreover have "set (sem_pending (sma st')) \<subseteq> set (sem_pending (sma st1))" using r(4) by (simp add: walk_frame_def)
    then have "set pt' = set pt \<union> (set (sem_pending (sma st)) - set (sem_pending (sma st')))"
      using r(5) u(5) f(4) by auto
    moreover have "smart_loop st (sop # sops) otime pt = Some (Ok (st', otime', pt'))"
      using True u(1) r(1) by (simp add: vals_def ev_def)
    ultimately show ?thesis using r(2,3) by blast
  qed
qed

end
