(* ===== verification/SemSys.thy ===== *)
theory SemSys
  imports SemUpdate
begin

text \<open>
  One array as a transition system. First, what each operation keeps: waking tasks, queueing a caller,
  \<open>semtimedop\<close>, \<open>semctl_main\<close>, \<open>exit_sem\<close>, \<open>find_alloc_undo\<close>, \<open>freeary\<close> and the return of a sleeper. Then
  the step relation and its invariant: the state is well-formed, nobody queued could proceed, every sleeper
  is queued or holds its result, and the undo structures fit the array.
\<close>

section \<open>The operations of one caller cover what they enabled\<close>

lemma op_sum_neg:
  assumes "op_sum sops i < 0"
  shows "\<exists>sop \<in> set sops. sem_num sop = i \<and> sem_op sop < 0"
proof (rule ccontr)
  assume "\<not> ?thesis"
  then have "0 \<le> op_sum sops i" unfolding op_sum_def by (intro sum_list_nonneg) fastforce
  with assms show False by simp
qed

lemma op_sum_pos:
  assumes "op_sum sops i > 0"
  shows "\<exists>sop \<in> set sops. sem_num sop = i \<and> sem_op sop > 0"
proof (rule ccontr)
  assume "\<not> ?thesis"
  then have "op_sum sops i \<le> 0" unfolding op_sum_def by (intro sum_list_nonpos) fastforce
  with assms show False by simp
qed

definition smart_ok :: "sembuf list option \<Rightarrow> sem_sys \<Rightarrow> bool" where
  "smart_ok sops st \<longleftrightarrow> (case sops of None \<Rightarrow> True
     | Some s \<Rightarrow> nums_ok (nsems st) s \<and> (complex_count (sma st) = 0 \<longrightarrow> (\<forall>i < nsems st. settled st i \<or> covers s st i)))"

lemma commits_smart_ok:
  assumes wf: "sem_wf st" and q: "quiescent st" and c: "commits st sops un pid st1" "sem_wf st1" and n: "nums_ok (nsems st) sops"
  shows "smart_ok (Some sops) st1"
proof -
  note cd = commitsD [OF c(1)]
  have "covers sops st1 i" if i: "i < nsems st" and p: "p \<in> set (sem_pending (sma st1))" "simple_on st1 i p" "\<not> blocked st1 p" for i p
  proof -
    let ?sop = "q_sops (queues st p) ! 0"
    have so: "simple_on st i p" using p(2) commits_simple_on [OF c(1)] by simp
    have qk: "q_ok st p" "blocked st p" using p(1) cd(2) sem_wfD(2) [OF wf] q by (auto simp: quiescent_def)
    have "stops_at (vals st) ?sop" "\<not> stops_at (vals st1) ?sop" "sem_num ?sop = i"
      using qk p(2,3) so blocked_single [of st p] blocked_single [of st1 p] cd(1)
      by (auto simp: simple_on_def q_ok_def)
    moreover have "vals st1 i = vals st i + op_sum sops i" using cd(7) [OF i] .
    moreover have "0 \<le> vals st i" "0 \<le> vals st1 i" using sem_wfD(6) [OF wf i] sem_wfD(6) [OF c(2)] i cd(5) by simp_all
    ultimately have "op_sum sops i > 0 \<or> op_sum sops i < 0 \<and> vals st1 i = 0"
      by (auto simp: stops_at_def)
    then show ?thesis using op_sum_neg op_sum_pos unfolding covers_def by metis
  qed
  then show ?thesis using n cd(5) unfolding smart_ok_def settled_def by auto
qed

section \<open>Updating and waking\<close>

lemma do_smart_update_ok:
  assumes "sem_wf st" "smart_ok sops st"
  obtains st' otime' pt' where "do_smart_update now st sops otime pt = Some (Ok (set_otime now otime' st', pt'))"
    "sem_wf st'" "quiescent st'" "walk_frame (-1) st st'"
    "set pt' = set pt \<union> (set (sem_pending (sma st)) - set (sem_pending (sma st')))"
proof (cases "complex_count (sma st) \<noteq> 0 \<or> sops = None")
  case True
  obtain st' pt' c' where u: "update_queue st (-1) pt = Some (Ok (st', pt', c'))" "sem_wf st'" "quiescent st'"
    "walk_frame (-1) st st'" "set pt' = set pt \<union> (set (sem_pending (sma st)) - set (sem_pending (sma st')))"
    using update_all_ok [OF assms(1)] .
  then show ?thesis using that [of "otime \<or> c'" st' pt'] True by (simp add: do_smart_update_def)
next
  case False
  then obtain s where s: "sops = Some s" "complex_count (sma st) = 0" by auto
  then have "nums_ok (nsems st) s" "\<forall>i < nsems st. settled st i \<or> covers s st i"
    using assms(2) by (simp_all add: smart_ok_def)
  from smart_loop_ok [OF assms(1) s(2) this, of otime pt] s show ?thesis
    using that unfolding do_smart_update_def by force
qed

lemma wake_do_same:
  "sma (wake_up_sem_queue_do pt st) = sma st" "undos (wake_up_sem_queue_do pt st) = undos st"
  "same_op (queues st p) (queues (wake_up_sem_queue_do pt st) p)"
  "q_pid (queues (wake_up_sem_queue_do pt st) p) = q_pid (queues st p)"
  "q_status (queues (wake_up_sem_queue_do pt st) p) =
     (if p \<in> set pt then q_pid (queues st p) else q_status (queues st p))"
  by (induction pt arbitrary: st) (auto simp: same_op_def)

lemma wake_do_other: "p \<notin> set pt \<Longrightarrow> queues (wake_up_sem_queue_do pt st) p = queues st p"
  by (induction pt arbitrary: st) auto

text \<open>Every sleeper is either queued and marked as waiting, or has its result.\<close>

definition status_ok :: "nat set \<Rightarrow> sem_sys \<Rightarrow> bool" where
  "status_ok S st \<longleftrightarrow> set (sem_pending (sma st)) \<subseteq> S \<and>
     (\<forall>p \<in> S. if p \<in> set (sem_pending (sma st)) then q_status (queues st p) = - EINTR
       else q_status (queues st p) \<in> {0, - EAGAIN, - ERANGE, - EIDRM})"

lemma status_ok_cong:
  "queues st' = queues st \<Longrightarrow> sem_pending (sma st') = sem_pending (sma st) \<Longrightarrow> status_ok S st' = status_ok S st"
  by (simp add: status_ok_def)

text \<open>The undo structures of the array fit it, and a queued operation that needs one has one of them.\<close>

definition undo_wf :: "sem_sys \<Rightarrow> bool" where
  "undo_wf st \<longleftrightarrow> (\<forall>u \<in> set (list_id (sma st)). length (semadj (undos st u)) = nsems st) \<and>
     (\<forall>p \<in> set (sem_pending (sma st)). any_undo (q_sops (queues st p)) \<longrightarrow>
        (\<exists>u \<in> set (list_id (sma st)). q_undo (queues st p) = Some u))"

definition sem_core :: "nat set \<Rightarrow> sem_sys \<Rightarrow> bool" where
  "sem_core S st \<longleftrightarrow> sem_wf st \<and> status_ok S st \<and> undo_wf st"

lemma undo_wf_frame:
  assumes "walk_frame k st st'" "undo_wf st"
  shows "undo_wf st'"
  using assms unfolding walk_frame_def undo_wf_def same_op_def by (metis subsetD)

text \<open>The times and the state of the entries do not matter.\<close>

lemma sem_cong:
  assumes "sem_base (sma st') = sem_base (sma st)" "sem_pending (sma st') = sem_pending (sma st)"
    "complex_count (sma st') = complex_count (sma st)" "list_id (sma st') = list_id (sma st)" "undos st' = undos st"
    "\<And>p. same_op (queues st p) (queues st' p)"
  shows "sem_wf st' = sem_wf st" "quiescent st' = quiescent st" "undo_wf st' = undo_wf st" "nsems st' = nsems st"
proof -
  have so: "simple_on st' = simple_on st" using same_op_simple_on [OF assms(6)] by (simp add: fun_eq_iff)
  have v: "vals st' = vals st" "nsems st' = nsems st" using assms by (simp_all add: vals_def nsems_def)
  have q: "q_sops (queues st' p) = q_sops (queues st p)" "q_undo (queues st' p) = q_undo (queues st p)"
    "q_alter (queues st' p) = q_alter (queues st p)" "nsops (queues st' p) = nsops (queues st p)" for p
    using assms(6) [of p] by (simp_all add: same_op_def nsops_def)
  have qo: "q_ok st' = q_ok st" by (simp add: q_ok_def q v fun_eq_iff)
  show "sem_wf st' = sem_wf st" unfolding sem_wf_def so v q qo assms(1-5) ..
  have "blocked st' p = blocked st p" for p
    by (simp add: blocked_def op_code_def v q un_adj_cong [OF assms(5)])
  then show "quiescent st' = quiescent st" by (simp add: quiescent_def assms(2))
  show "undo_wf st' = undo_wf st" unfolding undo_wf_def v q assms(2,4,5) ..
  show "nsems st' = nsems st" by (rule v)
qed

lemma set_otime_parts [simp]:
  "sem_base (sma (set_otime now b st)) = sem_base (sma st)" "sem_pending (sma (set_otime now b st)) = sem_pending (sma st)"
  "complex_count (sma (set_otime now b st)) = complex_count (sma st)" "list_id (sma (set_otime now b st)) = list_id (sma st)"
  "queues (set_otime now b st) = queues st" "undos (set_otime now b st) = undos st"
  by (simp_all add: set_otime_def)

lemma woken_status:
  assumes "status_ok S st" "woken (sem_pending (sma st)) (sem_pending (sma st')) (queues st) (queues st')"
    "set pt = set (sem_pending (sma st)) - set (sem_pending (sma st'))"
  shows "status_ok S (wake_up_sem_queue_do pt (set_otime now b st'))"
proof -
  have "if p \<in> set (sem_pending (sma st')) then q_status (queues st' p) = - EINTR
      else (if p \<in> set pt then q_pid (queues st' p) else q_status (queues st' p)) \<in> {0, - EAGAIN, - ERANGE, - EIDRM}"
    if "p \<in> S" for p
  proof (cases "p \<in> set pt")
    case True
    then show ?thesis using assms(2,3) by (auto simp: woken_def)
  next
    case False
    then have "queues st' p = queues st p" using assms(2,3) by (simp add: woken_def)
    moreover have "p \<in> set (sem_pending (sma st')) \<longleftrightarrow> p \<in> set (sem_pending (sma st))"
      using False assms(2,3) by (auto simp: woken_def)
    ultimately show ?thesis using assms(1) that False unfolding status_ok_def by metis
  qed
  moreover have "set (sem_pending (sma st')) \<subseteq> S" using assms by (auto simp: woken_def status_ok_def)
  moreover have "p \<notin> set (sem_pending (sma st'))" if "p \<in> set pt" for p using that assms(3) by simp
  ultimately show ?thesis unfolding status_ok_def wake_do_same set_otime_parts by metis
qed

lemma update_and_wake_ok:
  assumes c: "sem_core S st" and s: "smart_ok sops st"
  obtains st' where "update_and_wake now sops otime st = Some (Ok st')" "sem_core S st'" "quiescent st'"
    "nsems st' = nsems st" "list_id (sma st') = list_id (sma st)"
proof -
  have wf: "sem_wf st" using c by (simp add: sem_core_def)
  obtain st1 o1 pt where u: "do_smart_update now st sops otime [] = Some (Ok (set_otime now o1 st1, pt))"
    "sem_wf st1" "quiescent st1" "walk_frame (-1) st st1"
    "set pt = set (sem_pending (sma st)) - set (sem_pending (sma st1))"
    by (rule do_smart_update_ok [OF wf s, of now otime "[]"]) simp
  let ?st2 = "set_otime now o1 st1" let ?st3 = "wake_up_sem_queue_do pt ?st2"
  have "status_ok S ?st3"
    using woken_status [OF _ _ u(5)] c u(4) by (simp add: sem_core_def walk_frame_def)
  moreover have st3: "sem_wf ?st3 = sem_wf st1" "quiescent ?st3 = quiescent st1" "undo_wf ?st3 = undo_wf st1"
    "nsems ?st3 = nsems st1"
    using wake_do_same(3) [of ?st2 _ pt] by (intro sem_cong; simp add: wake_do_same)+
  moreover have "undo_wf st1" using undo_wf_frame [OF u(4)] c by (simp add: sem_core_def)
  moreover have "update_and_wake now sops otime st = Some (Ok ?st3)"
    using u(1) by (simp add: update_and_wake_def)
  moreover have "nsems ?st3 = nsems st" "list_id (sma ?st3) = list_id (sma st)"
    using u(4) st3 by (simp_all add: walk_frame_def wake_do_same)
  ultimately show ?thesis using that u by (simp add: sem_core_def)
qed

section \<open>Queueing a caller\<close>

lemma enqueue_parts:
  "sem_pending (sma (sem_enqueue st qi sops un pid)) =
     (if any_alter sops then sem_pending (sma st) @ [qi] else qi # sem_pending (sma st))"
  "queues (sem_enqueue st qi sops un pid) = (queues st)(qi :=
     \<lparr>q_sops = sops, q_undo = un, q_pid = pid, q_status = - EINTR, q_alter = any_alter sops\<rparr>)"
  "undos (sem_enqueue st qi sops un pid) = undos st" "list_id (sma (sem_enqueue st qi sops un pid)) = list_id (sma st)"
  "complex_count (sma (sem_enqueue st qi sops un pid)) = complex_count (sma st) + (if length sops = 1 then 0 else 1)"
  "nsems (sem_enqueue st qi sops un pid) = nsems st"
  by (simp_all add: sem_enqueue_def Let_def nsems_def)

lemma enqueue_vals: "vals (sem_enqueue st qi sops un pid) = vals st"
  by (simp add: sem_enqueue_def Let_def vals_def ev_def fun_eq_iff semval_upd)

lemma enqueue_simple:
  assumes "i < nsems st"
  shows "simple_pending (sem_base (sma (sem_enqueue st qi sops un pid)) ! i) =
     (if length sops = 1 \<and> sem_num (sops ! 0) = i
      then (if any_alter sops then simple_pending (sem_base (sma st) ! i) @ [qi] else qi # simple_pending (sem_base (sma st) ! i))
      else simple_pending (sem_base (sma st) ! i))"
  using assms by (auto simp: sem_enqueue_def Let_def nsems_def nth_list_update)

lemma enqueue_other:
  assumes "p \<noteq> qi"
  shows "q_ok (sem_enqueue st qi sops un pid) p = q_ok st p" "blocked (sem_enqueue st qi sops un pid) p = blocked st p"
    "simple_on (sem_enqueue st qi sops un pid) i p = simple_on st i p"
  using assms un_adj_cong [of "sem_enqueue st qi sops un pid" st]
  by (simp_all add: q_ok_def enqueue_parts blocked_def op_code_def enqueue_vals simple_on_def)

text \<open>An operation that has to wait is well-formed as a queue entry.\<close>

lemma wait_single:
  assumes "op_code st [sop] un = 1" "0 \<le> vals st (sem_num sop)"
  shows "\<not> flg_nowait sop" "sem_op sop \<noteq> 0 \<Longrightarrow> sem_op sop < 0"
  using assms by (auto simp: op_code_def block_code_def stops_at_def split: if_splits)

lemma enqueue_entry:
  assumes "sem_wf st" "sops \<noteq> []" "nums_ok (nsems st) sops" "op_code st sops un = 1"
  shows "q_ok (sem_enqueue st qi sops un pid) qi" "blocked (sem_enqueue st qi sops un pid) qi"
proof -
  have "\<not> flg_nowait (sops ! 0)" "any_alter sops \<longrightarrow> sem_op (sops ! 0) < 0" if "length sops = 1"
  proof -
    obtain sop where s: "sops = [sop]" using \<open>length sops = 1\<close> by (cases sops) auto
    then have "0 \<le> vals st (sem_num sop)" using assms(1,3) by (simp add: sem_wfD(6))
    then show "\<not> flg_nowait (sops ! 0)" "any_alter sops \<longrightarrow> sem_op (sops ! 0) < 0"
      using wait_single assms(4) s by (auto simp: any_alter_def)
  qed
  then show "q_ok (sem_enqueue st qi sops un pid) qi"
    using assms by (auto simp: q_ok_def enqueue_parts nsops_def)
  show "blocked (sem_enqueue st qi sops un pid) qi"
    using assms(4) un_adj_cong [of "sem_enqueue st qi sops un pid" st]
    by (simp add: blocked_def op_code_def enqueue_parts enqueue_vals)
qed

lemma enqueue_wf:
  assumes wf: "sem_wf st" and q: "quiescent st" and new: "qi \<notin> set (sem_pending (sma st))"
    and op: "sops \<noteq> []" "nums_ok (nsems st) sops" "op_code st sops un = 1"
  shows "sem_wf (sem_enqueue st qi sops un pid)" "quiescent (sem_enqueue st qi sops un pid)"
proof -
  let ?st' = "sem_enqueue st qi sops un pid" let ?P = "sem_pending (sma st)" let ?P' = "sem_pending (sma ?st')"
  note e = enqueue_entry [OF wf op, of qi pid]
  have P': "set ?P' = insert qi (set ?P)" by (auto simp: enqueue_parts)
  have F: "filter f ?P' = (if f qi then (if any_alter sops then filter f' ?P @ [qi] else qi # filter f' ?P) else filter f' ?P)"
    if "\<And>p. p \<in> set ?P \<Longrightarrow> f p = f' p" for f f'
    using that filter_cong [of ?P ?P f f'] by (simp add: enqueue_parts(1))
  have oth: "p \<noteq> qi" if "p \<in> set ?P" for p using that new by auto
  have "distinct ?P'" using sem_wfD(1) [OF wf] new by (simp add: enqueue_parts)
  moreover have "\<forall>p \<in> set ?P'. q_ok ?st' p"
    unfolding P' using e(1) enqueue_other(1) oth sem_wfD(2) [OF wf] by simp
  moreover have "complex_count (sma ?st') = int (length (filter (\<lambda>p. nsops (queues ?st' p) \<noteq> 1) ?P'))"
    using sem_wfD(3) [OF wf] oth
    by (subst F [of _ "\<lambda>p. nsops (queues st p) \<noteq> 1"]) (auto simp: enqueue_parts nsops_def)
  moreover have "\<forall>i < nsems ?st'. simple_pending (sem_base (sma ?st') ! i) = filter (simple_on ?st' i) ?P'"
  proof (intro allI impI)
    fix i assume "i < nsems ?st'"
    then have i: "i < nsems st" by (simp add: enqueue_parts)
    have "simple_on ?st' i qi \<longleftrightarrow> length sops = 1 \<and> sem_num (sops ! 0) = i"
      by (simp add: simple_on_def enqueue_parts nsops_def)
    then show "simple_pending (sem_base (sma ?st') ! i) = filter (simple_on ?st' i) ?P'"
      using F [of "simple_on ?st' i" "simple_on st i"] enqueue_other(3) oth sem_wfD(4) [OF wf i]
      by (simp add: enqueue_simple [OF i])
  qed
  moreover have "sorted_wrt (\<lambda>p q. q_alter (queues ?st' p) \<longrightarrow> q_alter (queues ?st' q)) ?P'"
  proof -
    have "sorted_wrt (\<lambda>p q. q_alter (queues ?st' p) \<longrightarrow> q_alter (queues ?st' q)) ?P"
      using sem_wfD(5) [OF wf] oth by (auto simp: enqueue_parts(2) elim!: sorted_wrt_mono_rel [rotated])
    then show ?thesis by (auto simp: enqueue_parts(1,2) sorted_wrt_append)
  qed
  ultimately show "sem_wf ?st'"
    using wf by (simp add: sem_wf_def Let_def enqueue_vals enqueue_parts(3,6))
  show "quiescent ?st'"
    unfolding quiescent_def P' using e(2) enqueue_other(2) oth q by (simp add: quiescent_def)
qed

section \<open>The operations keep the state in order\<close>

lemma max_num_le:
  "m \<le> foldl (\<lambda>mx sop. if sem_num sop \<ge> mx then sem_num sop else mx) m sops \<and>
   (\<forall>sop \<in> set sops. sem_num sop \<le> foldl (\<lambda>mx sop. if sem_num sop \<ge> mx then sem_num sop else mx) m sops)"
proof (induction sops arbitrary: m)
  case (Cons sop sops)
  show ?case using Cons.IH [of "if sem_num sop \<ge> m then sem_num sop else m"] by (auto split: if_splits)
qed simp

lemma max_num_ok: "max_num sops < n \<Longrightarrow> nums_ok n sops"
  using max_num_le [of 0 sops] by (auto simp: max_num_def nums_ok_def)

lemma commits_core:
  assumes "sem_core S st" "commits st sops un pid st1" "op_code st sops un = 0"
  shows "sem_core S st1"
proof -
  note c = commitsD [OF assms(2)]
  have "sem_wf st1" using assms(1) by (intro commits_wf [OF _ assms(2,3)]) (simp add: sem_core_def)
  with assms(1) show ?thesis unfolding sem_core_def status_ok_def undo_wf_def c(1,2,4,5,9) by blast
qed

definition undo_given :: "sem_sys \<Rightarrow> sembuf list \<Rightarrow> nat option \<Rightarrow> bool" where
  "undo_given st sops un \<longleftrightarrow> (any_undo sops \<longrightarrow> (\<exists>u \<in> set (list_id (sma st)). un = Some u))"

definition result_ok :: "nat set \<Rightarrow> nat \<Rightarrow> semop_result \<Rightarrow> bool" where
  "result_ok S qi r \<longleftrightarrow> (case r of Finished e st' \<Rightarrow> sem_core S st' \<and> quiescent st'
     | Sleeping st' \<Rightarrow> sem_core (insert qi S) st' \<and> quiescent st')"

lemma semop_run_ok:
  assumes c: "sem_core S st" and q: "quiescent st" and qi: "qi \<notin> S"
    and op: "sops \<noteq> []" "nums_ok (nsems st) sops" "undo_given st sops un"
  obtains r where "semop_run env st sops un qi = Some (Ok r)" "result_ok S qi r"
proof -
  have wf: "sem_wf st" using c by (simp add: sem_core_def)
  consider (ok) "op_code st sops un = 0" | (fail) "op_code st sops un < 0" | (wait) "op_code st sops un = 1"
    using op_result_range [of "un_adj st un" sops "vals st"] by (auto simp: op_code_def)
  then show ?thesis
  proof cases
    case fail
    then have "semop_run env st sops un qi = Some (Ok (Finished (op_code st sops un) st))"
      using try_fails [OF op(2)] by (simp add: semop_run_def)
    then show ?thesis using that c q by (simp add: result_ok_def)
  next
    case wait
    then have r: "semop_run env st sops un qi = Some (Ok (Sleeping (sem_enqueue st qi sops un (so_pid env))))"
      using try_fails [OF op(2)] by (simp add: semop_run_def)
    have new: "qi \<notin> set (sem_pending (sma st))" using c qi by (auto simp: sem_core_def status_ok_def)
    have "status_ok (insert qi S) (sem_enqueue st qi sops un (so_pid env))" "undo_wf (sem_enqueue st qi sops un (so_pid env))"
      using c op(3) new qi
      by (auto simp: sem_core_def status_ok_def undo_wf_def enqueue_parts undo_given_def)
    with enqueue_wf [OF wf q new op(1,2) wait] show ?thesis using that [OF r] by (simp add: result_ok_def sem_core_def)
  next
    case ok
    obtain st1 where t: "try_atomic_semop st sops un (so_pid env) = (0, st1)" "commits st sops un (so_pid env) st1"
      "\<And>u. \<forall>sop \<in> set sops. sem_op sop = 0 \<Longrightarrow> \<forall>a \<in> set (semadj (undos st u)). s16 a = a \<Longrightarrow> undos st1 u = undos st u"
      using try_succeeds [OF op(2) ok] by metis
    have c1: "sem_core S st1" using commits_core [OF c t(2) ok] .
    show ?thesis
    proof (cases "any_alter sops")
      case True
      have "smart_ok (Some sops) st1" using commits_smart_ok [OF wf q t(2)] c1 op(2) by (simp add: sem_core_def)
      from update_and_wake_ok [OF c1 this, of "so_now env" True] obtain st2 where
        "update_and_wake (so_now env) (Some sops) True st1 = Some (Ok st2)" "sem_core S st2" "quiescent st2" .
      then show ?thesis using that [of "Finished 0 st2"] t(1) True by (simp add: semop_run_def result_ok_def)
    next
      case False
      then have z: "\<forall>sop \<in> set sops. sem_op sop = 0" by (auto simp: any_alter_def)
      have "quiescent st1"
        using commits_zero_blocked [OF wf t(2) z t(3) [OF z]] q commitsD(2) [OF t(2)] by (simp add: quiescent_def)
      then show ?thesis using that [of "Finished 0 st1"] t(1) False c1 by (simp add: semop_run_def result_ok_def)
    qed
  qed
qed

lemma semtimedop_ok:
  assumes c: "sem_core S st" and q: "quiescent st" and qi: "qi \<notin> S"
    and u: "\<And>u. so_undo env = Inr u \<Longrightarrow> u \<in> set (list_id (sma st)) \<or> un_semid (undos st u) = -1"
  shows "\<exists>r. semtimedop env st semid sops qi = Some (Ok r) \<and> result_ok S qi r"
proof -
  have fin: "\<exists>r. Some (Ok (Finished e st)) = Some (Ok r) \<and> result_ok S qi r" for e
    using c q by (simp add: result_ok_def)
  have run: "\<exists>r. semop_run env st sops un qi = Some (Ok r) \<and> result_ok S qi r"
    if "\<not> length sops < 1" "\<not> max_num sops \<ge> length (sem_base (sma st))" "undo_given st sops un" for un
  proof -
    have "sops \<noteq> []" "max_num sops < nsems st" using that(1,2) by (auto simp: nsems_def)
    from semop_run_ok [OF c q qi this(1) max_num_ok [OF this(2)] that(3)] show ?thesis by metis
  qed
  have given: "undo_given st sops (if any_undo sops then Some (projr (so_undo env)) else None)"
    if "\<not> (any_undo sops \<and> isl (so_undo env))"
      "\<not> (case (if any_undo sops then Some (projr (so_undo env)) else None) of Some u \<Rightarrow> un_semid (undos st u) = -1 | None \<Rightarrow> False)"
    using that u by (cases "so_undo env") (auto simp: undo_given_def)
  show ?thesis
    unfolding semtimedop_def Let_def
    apply (rule if_split [THEN iffD2], intro conjI impI, rule fin)+
    by (rule run) (use given in auto)
qed

lemma semtimedop_sleeps:
  assumes "semtimedop env st semid sops qi = Some (Ok (Sleeping st'))"
  shows "qi \<in> set (sem_pending (sma st'))"
proof -
  obtain un where "semop_run env st sops un qi = Some (Ok (Sleeping st'))"
    using assms unfolding semtimedop_def Let_def by (elim if_eqE) simp_all
  then show ?thesis
    by (auto simp: semop_run_def enqueue_parts split: prod.splits if_splits option.splits outcome.splits)
qed

text \<open>New values in range do not disturb the queues.\<close>

lemma revalue_wf:
  assumes wf: "sem_wf st" and same: "queues st' = queues st" "sem_pending (sma st') = sem_pending (sma st)"
      "complex_count (sma st') = complex_count (sma st)" "nsems st' = nsems st"
    and sp: "\<And>i. i < nsems st \<Longrightarrow> simple_pending (sem_base (sma st') ! i) = simple_pending (sem_base (sma st) ! i)"
    and v: "\<And>i. i < nsems st \<Longrightarrow> 0 \<le> vals st' i \<and> vals st' i \<le> SEMVMX"
    and adj: "\<And>u a. a \<in> set (semadj (undos st' u)) \<Longrightarrow> s16 a = a"
  shows "sem_wf st'"
proof -
  have "simple_on st' = simple_on st" "q_ok st' = q_ok st"
    by (simp_all add: fun_eq_iff simple_on_def q_ok_def same)
  then show ?thesis using wf sp v adj by (simp add: sem_wf_def Let_def same)
qed

lemma reset_adj_parts:
  "sma (reset_adj f st) = sma st" "queues (reset_adj f st) = queues st"
  "length (semadj (undos (reset_adj f st) u)) = length (semadj (undos st u))"
  "un_semid (undos (reset_adj f st) u) = un_semid (undos st u)"
  by (simp_all add: reset_adj_def)

lemma reset_adj_short:
  assumes "a \<in> set (semadj (undos (reset_adj f st) u))" "\<And>a. a \<in> set (semadj (undos st u)) \<Longrightarrow> s16 a = a"
    "\<And>i a. f i a = 0 \<or> f i a = a"
  shows "s16 a = a"
proof (cases "u \<in> set (list_id (sma st))")
  case True
  then obtain i where "i < length (semadj (undos st u))" "a = f i (semadj (undos st u) ! i)"
    using assms(1) by (auto simp: reset_adj_def)
  then show ?thesis using assms(2,3) nth_mem by (metis s16_zero)
qed (use assms in \<open>simp add: reset_adj_def\<close>)

lemma set_ctime_parts:
  "sma (set_ctime now st) = (sma st)\<lparr>sem_ctime := now\<rparr>" "queues (set_ctime now st) = queues st" "undos (set_ctime now st) = undos st"
  by (simp_all add: set_ctime_def)

lemma set_base_parts:
  "sma (set_base b st) = (sma st)\<lparr>sem_base := b\<rparr>" "queues (set_base b st) = queues st" "undos (set_base b st) = undos st"
  by (simp_all add: set_base_def)

text \<open>The state \<open>SETVAL\<close> and \<open>SETALL\<close> give to \<open>do_smart_update\<close>.\<close>

lemma setvals_core:
  assumes c: "sem_core S st" and f: "\<And>i a. f i a = 0 \<or> f i a = a"
    and st': "st' = set_ctime now (set_base base (reset_adj f st)) \<or> st' = set_ctime now (reset_adj f (set_base base st))"
    and b: "length base = nsems st"
      "\<And>i. i < nsems st \<Longrightarrow> simple_pending (base ! i) = simple_pending (sem_base (sma st) ! i) \<and>
         0 \<le> semval (base ! i) \<and> semval (base ! i) \<le> SEMVMX"
  shows "sem_core S st'"
proof -
  have p: "queues st' = queues st" "sem_pending (sma st') = sem_pending (sma st)" "list_id (sma st') = list_id (sma st)"
    "complex_count (sma st') = complex_count (sma st)" "sem_base (sma st') = base"
    "undos st' = undos (reset_adj f st)"
    using st' by (auto simp: set_ctime_parts set_base_parts reset_adj_parts) (auto simp: reset_adj_def set_base_def)
  have n: "nsems st' = nsems st" using p b(1) by (simp add: nsems_def)
  have wf: "sem_wf st" using c by (simp add: sem_core_def)
  have "s16 a = a" if "a \<in> set (semadj (undos st' u))" for a u
    using reset_adj_short [OF that [unfolded p(6)] _ f] sem_wfD(8) [OF wf] by blast
  then have "sem_wf st'"
    using b(2) p n by (intro revalue_wf [OF wf]) (auto simp: vals_def ev_def)
  moreover have "status_ok S st'" "undo_wf st'"
    using c unfolding sem_core_def status_ok_def undo_wf_def p(1-3,6) n reset_adj_parts by blast+
  ultimately show ?thesis by (simp add: sem_core_def)
qed

lemma if_pred: "(b \<Longrightarrow> P x) \<Longrightarrow> (\<not> b \<Longrightarrow> P y) \<Longrightarrow> P (if b then x else y)"
  by simp

definition semctl_good :: "nat set \<Rightarrow> (int \<times> int list \<times> sem_sys) outcome option \<Rightarrow> bool" where
  "semctl_good S x \<longleftrightarrow> (\<exists>r out st'. x = Some (Ok (r, out, st')) \<and> sem_core S st' \<and> quiescent st')"

lemma setval_good:
  assumes c: "sem_core S st" and n: "\<not> (semnum < 0 \<or> semnum \<ge> int (length (sem_base (sma st))))"
    and v: "\<not> (val > SEMVMX \<or> val < 0)"
  shows "sem_core S (set_ctime now (set_base ((sem_base (sma st))[nat semnum := (sem_base (sma st) ! nat semnum)\<lparr>semval := val, sempid := pid\<rparr>])
    (reset_adj (\<lambda>i a. if i = nat semnum then 0 else a) st)))"
  using c n v sem_wfD(6,7) [of st]
  by (intro setvals_core [OF c _ disjI1 [OF refl]])
    (auto simp: nsems_def nth_list_update sem_core_def vals_def ev_def)

lemma setall_good:
  assumes c: "sem_core S st" and n: "\<not> (\<exists>i \<in> set [0..<length (sem_base (sma st))]. uint (sem_io i :: u16) > SEMVMX)"
  shows "sem_core S (set_ctime now (reset_adj (\<lambda>i a. if i < length (sem_base (sma st)) then 0 else a)
    (set_base (map (\<lambda>i. (sem_base (sma st) ! i)\<lparr>semval := uint (sem_io i)\<rparr>) [0..<length (sem_base (sma st))]) st)))"
  using n by (intro setvals_core [OF c _ disjI2 [OF refl]]) (auto simp: nsems_def not_less)

lemma semctl_ok:
  assumes c: "sem_core S st" and q: "quiescent st"
  shows "semctl_good S (semctl_main env st semnum cmd)"
proof -
  have ret: "semctl_good S (Some (Ok (r, out, st)))" for r out
    using c q by (simp add: semctl_good_def)
  have upd: "semctl_good S (case update_and_wake now None False st1 of None \<Rightarrow> None | Some Fault \<Rightarrow> Some Fault
        | Some (Ok st') \<Rightarrow> Some (Ok (0, [], st')))" if "sem_core S st1" for now st1
    using update_and_wake_ok [OF that, of None now False] by (fastforce simp: smart_ok_def semctl_good_def)
  show ?thesis
  proof (cases cmd)
    case (SETALL arg)
    then show ?thesis
      by (cases arg; simp only: semctl_main_def Let_def semctl_cmd.case option.case)
        (intro if_pred [of _ "semctl_good S"] ret upd setall_good c; assumption)+
  next
    case (SETVAL val)
    show ?thesis unfolding SETVAL semctl_main_def Let_def semctl_cmd.case
      by (intro if_pred [of _ "semctl_good S"] ret upd setval_good c; assumption)
  qed (simp_all only: semctl_main_def Let_def semctl_cmd.case, (intro if_pred [of _ "semctl_good S"] ret)+)
qed

section \<open>Undo structures, removal, and waking up\<close>

lemma exit_clamp_range: "0 \<le> exit_clamp v" "exit_clamp v \<le> SEMVMX"
  by (simp_all add: exit_clamp_def Let_def)

lemma exit_ok:
  assumes c: "sem_core S st" and u: "\<forall>p \<in> set (sem_pending (sma st)). q_undo (queues st p) \<noteq> Some u"
  shows "\<exists>st'. exit_sem_pass now pid u st = Some (Ok st') \<and> sem_core S st' \<and> quiescent st'"
proof -
  define st1 where "st1 = st\<lparr>sma := (sma st)\<lparr>list_id := remove1 u (list_id (sma st)),
      sem_base := exit_adjust pid (semadj (undos st u)) (sem_base (sma st))\<rparr>\<rparr>"
  have p: "queues st1 = queues st" "sem_pending (sma st1) = sem_pending (sma st)" "undos st1 = undos st"
    "list_id (sma st1) = remove1 u (list_id (sma st))" "complex_count (sma st1) = complex_count (sma st)" "nsems st1 = nsems st"
    by (simp_all add: st1_def nsems_def exit_adjust_def)
  have wf: "sem_wf st" using c by (simp add: sem_core_def)
  have "sem_wf st1"
    using sem_wfD(6-8) [OF wf] p exit_clamp_range
    by (intro revalue_wf [OF wf]) (auto simp: st1_def exit_adjust_def nsems_def vals_def ev_def Let_def)
  moreover have "status_ok S st1" using c unfolding sem_core_def status_ok_def p by blast
  moreover have "undo_wf st1"
    using c u unfolding sem_core_def undo_wf_def p
    by (metis (no_types, lifting) in_set_remove1 notin_set_remove1)
  ultimately have "sem_core S st1" by (simp add: sem_core_def)
  then show ?thesis
    using update_and_wake_ok [of S st1 None now True]
    by (auto simp: exit_sem_pass_def Let_def st1_def smart_ok_def)
qed

lemma alloc_undo_ok:
  assumes c: "sem_core S st" and q: "quiescent st"
    and fresh: "u \<notin> set (list_id (sma st))" "\<forall>p \<in> set (sem_pending (sma st)). q_undo (queues st p) \<noteq> Some u"
  shows "sem_core S (st\<lparr>undos := (undos st)(u := \<lparr>un_semid = semid, semadj = replicate (length (sem_base (sma st))) 0\<rparr>),
      sma := (sma st)\<lparr>list_id := u # list_id (sma st)\<rparr>\<rparr>)" (is "sem_core S ?st'")
    and "quiescent (st\<lparr>undos := (undos st)(u := \<lparr>un_semid = semid, semadj = replicate (length (sem_base (sma st))) 0\<rparr>),
      sma := (sma st)\<lparr>list_id := u # list_id (sma st)\<rparr>\<rparr>)"
proof -
  have wf: "sem_wf st" using c by (simp add: sem_core_def)
  have v: "vals ?st' = vals st" "nsems ?st' = nsems st" by (simp_all add: vals_def nsems_def)
  have "sem_wf ?st'"
    using sem_wfD(6-8) [OF wf] v by (intro revalue_wf [OF wf]) (auto split: if_splits)
  moreover have "status_ok S ?st'" using c status_ok_cong [of ?st' st S] by (simp add: sem_core_def)
  moreover have "undo_wf ?st'" using c fresh unfolding sem_core_def undo_wf_def v by (auto simp: nsems_def)
  ultimately show "sem_core S ?st'" by (simp add: sem_core_def)
  have "un_adj ?st' (q_undo (queues st p)) = un_adj st (q_undo (queues st p))" if "p \<in> set (sem_pending (sma st))" for p
    using fresh(2) that by (auto simp: un_adj_def split: option.split)
  then show "quiescent ?st'"
    using q unfolding quiescent_def blocked_def op_code_def v by simp
qed

definition undo_list_ok :: "sem_sys \<Rightarrow> int \<Rightarrow> nat list \<Rightarrow> bool" where
  "undo_list_ok st semid ulp \<longleftrightarrow> (\<forall>u \<in> set ulp. un_semid (undos st u) = semid \<longrightarrow> u \<in> set (list_id (sma st)))"

lemma lookup_undo_Some:
  "lookup_undo st ulp semid = (Some u, ulp') \<Longrightarrow> u \<in> set ulp \<and> un_semid (undos st u) = semid"
  by (auto simp: lookup_undo_def lookup_undo_list_def find_Some_iff split: option.splits dest!: nth_mem)

lemma find_alloc_undo_ok:
  assumes c: "sem_core S st" and q: "quiescent st"
    and fresh: "fa_new env \<notin> set (list_id (sma st))" "\<forall>p \<in> set (sem_pending (sma st)). q_undo (queues st p) \<noteq> Some (fa_new env)"
    and l: "undo_list_ok st semid ulp" "undo_list_ok st semid (fa_race env)"
    and r: "find_alloc_undo env st ulp semid = (r, ulp', st')"
  shows "sem_core S st' \<and> quiescent st' \<and> (\<forall>u. r = Inr u \<longrightarrow> u \<in> set (list_id (sma st')))"
  using r c q alloc_undo_ok [OF c q fresh, of semid] l lookup_undo_Some [of st _ semid]
  by (auto simp: find_alloc_undo_def undo_list_ok_def split: if_splits prod.splits option.splits; metis)

lemma free_pending_ok:
  assumes "sem_wf st" "sem_pending (sma st) = qs"
  shows "\<exists>st'. free_pending qs tasks st = (tasks @ qs, st') \<and> sem_wf st' \<and> sem_pending (sma st') = [] \<and>
    undos st' = undos st \<and> list_id (sma st') = list_id (sma st) \<and> nsems st' = nsems st \<and>
    (\<forall>p. queues st' p = (if p \<in> set qs then (queues st p)\<lparr>q_status := IN_WAKEUP, q_pid := - EIDRM\<rparr> else queues st p))"
  using assms
proof (induction qs arbitrary: st tasks)
  case (Cons qi qs)
  let ?st1 = "wake_up_sem_queue_prepare (unlink_queue st qi) qi (- EIDRM)"
  have wf1: "sem_wf ?st1" using unlink_wf [OF Cons.prems(1)] Cons.prems(2) by (simp add: prepare_wf)
  have p1: "sem_pending (sma ?st1) = qs" using Cons.prems(2) by (simp add: unlink_parts)
  have d: "qi \<notin> set qs" using sem_wfD(1) [OF Cons.prems(1)] Cons.prems(2) by simp
  obtain st' where r: "free_pending qs (tasks @ [qi]) ?st1 = ((tasks @ [qi]) @ qs, st')" "sem_wf st'" "sem_pending (sma st') = []"
    "undos st' = undos ?st1" "list_id (sma st') = list_id (sma ?st1)" "nsems st' = nsems ?st1"
    "\<forall>p. queues st' p = (if p \<in> set qs then (queues ?st1 p)\<lparr>q_status := IN_WAKEUP, q_pid := - EIDRM\<rparr> else queues ?st1 p)"
    using Cons.IH [OF wf1 p1, of "tasks @ [qi]"] by blast
  have "\<forall>p. queues st' p = (if p \<in> set (qi # qs) then (queues st p)\<lparr>q_status := IN_WAKEUP, q_pid := - EIDRM\<rparr> else queues st p)"
    using r(7) d by (simp add: wake_up_sem_queue_prepare_def unlink_parts)
  with r show ?case by (simp add: unlink_parts prepare_wf)
qed simp

lemma freeary_ok:
  assumes "sem_core S st" "freeary used st = (used', st')"
  shows "sem_core S st'" "sem_pending (sma st') = []" "used' = used - int (nsems st)" "nsems st' = nsems st"
    "\<And>p. p \<in> set (sem_pending (sma st)) \<Longrightarrow> q_status (queues st' p) = - EIDRM"
    "\<And>p. p \<notin> set (sem_pending (sma st)) \<Longrightarrow> queues st' p = queues st p"
proof -
  define st1 where "st1 = st\<lparr>undos := (\<lambda>u. if u \<in> set (list_id (sma st)) then (undos st u)\<lparr>un_semid := -1\<rparr> else undos st u),
                  sma := (sma st)\<lparr>list_id := []\<rparr>\<rparr>"
  have wf: "sem_wf st" using assms(1) by (simp add: sem_core_def)
  have v: "vals st1 = vals st" "nsems st1 = nsems st" "sem_pending (sma st1) = sem_pending (sma st)"
    "queues st1 = queues st" "list_id (sma st1) = []" by (simp_all add: st1_def vals_def nsems_def)
  have "sem_wf st1"
    using sem_wfD(6-8) [OF wf] v by (intro revalue_wf [OF wf]) (auto simp: st1_def split: if_splits)
  from free_pending_ok [OF this refl, of "[]"] obtain st2 where f: "free_pending (sem_pending (sma st1)) [] st1 = (sem_pending (sma st), st2)"
    "sem_wf st2" "sem_pending (sma st2) = []" "list_id (sma st2) = []" "nsems st2 = nsems st"
    "\<forall>p. queues st2 p = (if p \<in> set (sem_pending (sma st)) then (queues st p)\<lparr>q_status := IN_WAKEUP, q_pid := - EIDRM\<rparr> else queues st p)"
    using v by auto
  have st': "st' = wake_up_sem_queue_do (sem_pending (sma st)) st2" and u: "used' = used - int (nsems st)"
    using assms(2) f(1) by (simp_all add: freeary_def st1_def Let_def nsems_def)
  show "used' = used - int (nsems st)" by (rule u)
  show p: "sem_pending (sma st') = []" "nsems st' = nsems st" using f st' by (simp_all add: wake_do_same nsems_def)
  show s: "q_status (queues st' p) = - EIDRM" if "p \<in> set (sem_pending (sma st))" for p
    using that f(6) by (simp add: st' wake_do_same)
  show o: "queues st' p = queues st p" if "p \<notin> set (sem_pending (sma st))" for p
    using that f(6) wake_do_other [OF that, of st2] by (simp add: st')
  have "sem_wf st'" using f(2) st' wf_same_op(1) [OF wake_do_same(1-3)] by blast
  moreover have "status_ok S st'"
    using assms(1) s o p unfolding sem_core_def status_ok_def by (metis empty_iff empty_set empty_subsetI insertCI)
  moreover have "undo_wf st'" using f st' p by (simp add: undo_wf_def wake_do_same)
  ultimately show "sem_core S st'" by (simp add: sem_core_def)
qed

lemma unlink_core:
  assumes c: "sem_core S st" and q: "quiescent st" and qi: "qi \<in> set (sem_pending (sma st))"
  shows "sem_core (S - {qi}) (unlink_queue st qi)" "quiescent (unlink_queue st qi)"
proof -
  have wf: "sem_wf st" using c by (simp add: sem_core_def)
  have P: "set (sem_pending (sma (unlink_queue st qi))) = set (sem_pending (sma st)) - {qi}"
    using sem_wfD(1) [OF wf] by (simp add: unlink_parts)
  have "status_ok (S - {qi}) (unlink_queue st qi)"
    using c unfolding sem_core_def status_ok_def P unlink_parts(1) by auto
  moreover have "undo_wf (unlink_queue st qi)"
    using c unfolding sem_core_def undo_wf_def P unlink_parts(1,2,4,6) by blast
  ultimately show "sem_core (S - {qi}) (unlink_queue st qi)" using unlink_wf [OF wf qi] by (simp add: sem_core_def)
  show "quiescent (unlink_queue st qi)" using q unfolding quiescent_def P unlink_blocked by blast
qed

lemma leave_core: "sem_core S st \<Longrightarrow> qi \<notin> set (sem_pending (sma st)) \<Longrightarrow> sem_core (S - {qi}) st"
  unfolding sem_core_def status_ok_def by auto

lemma sleeper_status:
  assumes "sem_core S st" "qi \<in> S"
  shows "get_queue_result st qi = Some (q_status (queues st qi))"
    "q_status (queues st qi) = - EINTR \<longleftrightarrow> qi \<in> set (sem_pending (sma st))"
  using assms unfolding sem_core_def status_ok_def get_queue_result_def by (auto split: if_splits)

lemma resume_ok:
  assumes c: "sem_core S st" and q: "quiescent st" and qi: "qi \<in> S"
    and dead: "lock = Some st \<or> lock = None \<and> sem_pending (sma st) = []"
  shows "\<exists>e st'. semtimedop_resume timed_out st lock qi = Some (e, st') \<and> sem_core (S - {qi}) st' \<and> quiescent st' \<and>
    e = (if qi \<in> set (sem_pending (sma st)) then (if timed_out then - EAGAIN else - EINTR) else q_status (queues st qi)) \<and>
    set (sem_pending (sma st')) = set (sem_pending (sma st)) - {qi}"
proof -
  note s = sleeper_status [OF c qi]
  have d: "distinct (sem_pending (sma st))" using c sem_wfD(1) by (simp add: sem_core_def)
  show ?thesis
  proof (cases "qi \<in> set (sem_pending (sma st))")
    case True
    then show ?thesis
      using unlink_core [OF c q True] s dead d by (auto simp: semtimedop_resume_def unlink_parts)
  next
    case False
    then show ?thesis using leave_core [OF c False] q s by (simp add: semtimedop_resume_def)
  qed
qed

lemma blocked_try:
  assumes "sem_wf st" "p \<in> set (sem_pending (sma st))" "blocked st p"
  shows "try_atomic_semop st (q_sops (queues st p)) (q_undo (queues st p)) pid = (1, st)"
  using try_fails [of st "q_sops (queues st p)"] sem_wfD(2) [OF assms(1,2)] assms(3)
  by (simp add: q_ok_def blocked_def)

section \<open>The array as a transition system\<close>

text \<open>The state of one array, the queue entries of the tasks asleep in \<open>semtimedop\<close>, and whether the array
  still exists. A step is one system call up to its sleep, the return of a sleeper, or one pass of
  \<open>exit_sem\<close>; the tasks it wakes are woken in the same step.\<close>

record sem_world =
  w_sys :: sem_sys
  w_sleep :: "nat set"
  w_alive :: bool

definition sem_init :: "sem_world \<Rightarrow> bool" where
  "sem_init w \<longleftrightarrow> w_alive w \<and> w_sleep w = {} \<and>
     (\<exists>env used mns n id used'. 0 \<le> n \<and> newary env used mns n = Inl (id, used', sma (w_sys w))) \<and>
     (\<forall>u. \<forall>a \<in> set (semadj (undos (w_sys w) u)). s16 a = a)"

inductive sem_step :: "sem_world \<Rightarrow> sem_world \<Rightarrow> bool" where
  semop_returns: "w_alive w \<Longrightarrow> qi \<notin> w_sleep w \<Longrightarrow>
    (\<And>u. so_undo env = Inr u \<Longrightarrow> u \<in> set (list_id (sma (w_sys w))) \<or> un_semid (undos (w_sys w) u) = -1) \<Longrightarrow>
    semtimedop env (w_sys w) semid sops qi = Some (Ok (Finished e st')) \<Longrightarrow> sem_step w (w\<lparr>w_sys := st'\<rparr>)"
| semop_sleeps: "w_alive w \<Longrightarrow> qi \<notin> w_sleep w \<Longrightarrow>
    (\<And>u. so_undo env = Inr u \<Longrightarrow> u \<in> set (list_id (sma (w_sys w))) \<or> un_semid (undos (w_sys w) u) = -1) \<Longrightarrow>
    semtimedop env (w_sys w) semid sops qi = Some (Ok (Sleeping st')) \<Longrightarrow>
    sem_step w (w\<lparr>w_sys := st', w_sleep := insert qi (w_sleep w)\<rparr>)"
| resumes: "qi \<in> w_sleep w \<Longrightarrow>
    semtimedop_resume timed_out (w_sys w) (if w_alive w then Some (w_sys w) else None) qi = Some (e, st') \<Longrightarrow>
    sem_step w (w\<lparr>w_sys := st', w_sleep := w_sleep w - {qi}\<rparr>)"
| semctl: "w_alive w \<Longrightarrow> semctl_main cenv (w_sys w) semnum cmd = Some (Ok (r, out, st')) \<Longrightarrow> sem_step w (w\<lparr>w_sys := st'\<rparr>)"
| get_undo: "w_alive w \<Longrightarrow> fa_new fenv \<notin> set (list_id (sma (w_sys w))) \<Longrightarrow>
    \<forall>p \<in> set (sem_pending (sma (w_sys w))). q_undo (queues (w_sys w) p) \<noteq> Some (fa_new fenv) \<Longrightarrow>
    undo_list_ok (w_sys w) semid ulp \<Longrightarrow> undo_list_ok (w_sys w) semid (fa_race fenv) \<Longrightarrow>
    find_alloc_undo fenv (w_sys w) ulp semid = (r', ulp', st') \<Longrightarrow> sem_step w (w\<lparr>w_sys := st'\<rparr>)"
| exits: "w_alive w \<Longrightarrow> u \<in> set (list_id (sma (w_sys w))) \<Longrightarrow>
    \<forall>p \<in> set (sem_pending (sma (w_sys w))). q_undo (queues (w_sys w) p) \<noteq> Some u \<Longrightarrow>
    exit_sem_pass now pid u (w_sys w) = Some (Ok st') \<Longrightarrow> sem_step w (w\<lparr>w_sys := st'\<rparr>)"
| removes: "w_alive w \<Longrightarrow> freeary used (w_sys w) = (used', st') \<Longrightarrow> sem_step w (w\<lparr>w_sys := st', w_alive := False\<rparr>)"

definition sem_inv :: "sem_world \<Rightarrow> bool" where
  "sem_inv w \<longleftrightarrow> sem_core (w_sleep w) (w_sys w) \<and> quiescent (w_sys w) \<and>
     (\<not> w_alive w \<longrightarrow> sem_pending (sma (w_sys w)) = [])"

lemma newary_Inl:
  assumes "newary env used mns n = Inl (i, used', s)"
  shows "s = \<lparr>sem_base = replicate (nat n) \<lparr>semval = 0, sempid = 0, simple_pending = []\<rparr>,
        sem_pending = [], list_id = [], complex_count = 0, sem_otime = 0, sem_ctime = na_now env\<rparr>"
    "n \<noteq> 0" "used' = used + n" "used' \<le> mns" "i = na_addid env" "0 \<le> i"
  using assms by (auto simp: newary_def split: if_splits)

lemma sem_init_inv:
  assumes "sem_init w"
  shows "sem_inv w"
proof -
  obtain n now where s: "sma (w_sys w) = \<lparr>sem_base = replicate n \<lparr>semval = 0, sempid = 0, simple_pending = []\<rparr>,
        sem_pending = [], list_id = [], complex_count = 0, sem_otime = 0, sem_ctime = now\<rparr>"
    using assms newary_Inl(1) unfolding sem_init_def by blast
  then show ?thesis
    using assms by (simp add: sem_init_def sem_inv_def sem_core_def sem_wf_def status_ok_def undo_wf_def quiescent_def
      nsems_def vals_def ev_def Let_def)
qed

lemma sem_step_inv:
  assumes "sem_step w w'" "sem_inv w"
  shows "sem_inv w'"
  using assms
proof (induction rule: sem_step.induct)
  case (semop_returns w qi env semid sops e st')
  then show ?case using semtimedop_ok [of "w_sleep w" "w_sys w" qi env semid sops]
    by (auto simp: sem_inv_def result_ok_def)
next
  case (semop_sleeps w qi env semid sops st')
  then show ?case using semtimedop_ok [of "w_sleep w" "w_sys w" qi env semid sops]
    by (auto simp: sem_inv_def result_ok_def)
next
  case (resumes qi w timed_out e st')
  then show ?case
    using resume_ok [of "w_sleep w" "w_sys w" qi "if w_alive w then Some (w_sys w) else None" timed_out]
    by (auto simp: sem_inv_def split: if_splits)
next
  case (semctl w cenv semnum cmd r out st')
  then show ?case using semctl_ok [of "w_sleep w" "w_sys w" cenv semnum cmd] by (auto simp: sem_inv_def semctl_good_def)
next
  case (get_undo w fenv semid ulp r' ulp' st')
  then show ?case using find_alloc_undo_ok [of "w_sleep w" "w_sys w" fenv semid ulp r' ulp' st'] by (auto simp: sem_inv_def)
next
  case (exits w u now pid st')
  then show ?case using exit_ok [of "w_sleep w" "w_sys w" u now pid] by (auto simp: sem_inv_def)
next
  case (removes w used used' st')
  then show ?case using freeary_ok [of "w_sleep w" "w_sys w" used used' st'] by (auto simp: sem_inv_def quiescent_def)
qed

interpretation sem_array_sys: invariant_system sem_init sem_step sem_inv
  by unfold_locales (erule sem_init_inv, erule sem_step_inv)

end
