(* ===== verification/SemProps.thy ===== *)
theory SemProps
  imports SemSys
begin

text \<open>
  The properties of the System V semaphores: an operation is performed completely or not at all, the scans
  of the queue end and leave nobody behind who could proceed, the invariant holds in every reachable state,
  every call returns, and what \<open>semctl\<close> reports about a queued task. The last one shows that the adjustment
  of a process can leave the range of a \<open>short\<close>.
\<close>

section \<open>Concrete states\<close>

text \<open>An array of two semaphores with values 1 and 0 and one undo structure; nobody waits.\<close>

definition ex_sys :: sem_sys where
  "ex_sys = \<lparr>sma = \<lparr>sem_base = [\<lparr>semval = 1, sempid = 7, simple_pending = []\<rparr>, \<lparr>semval = 0, sempid = 7, simple_pending = []\<rparr>],
      sem_pending = [], list_id = [0], complex_count = 0, sem_otime = 0, sem_ctime = 0\<rparr>,
    queues = (\<lambda>_. \<lparr>q_sops = [], q_undo = None, q_pid = 0, q_status = 0, q_alter = False\<rparr>),
    undos = (\<lambda>_. \<lparr>un_semid = 0, semadj = [0, 0]\<rparr>)\<rparr>"

definition sop_of :: "nat \<Rightarrow> int \<Rightarrow> sembuf" where
  "sop_of n i = \<lparr>sem_num = n, sem_op = i, sem_flg = 0\<rparr>"

text \<open>A task waits to decrement the second semaphore.\<close>

definition ex_waiting :: sem_sys where
  "ex_waiting = sem_enqueue ex_sys 5 [sop_of 1 (-1)] None 9"

definition ex_sem_env :: semop_env where
  "ex_sem_env = \<lparr>so_semopm = 32, so_kmalloc = True, so_copyin = True, so_timeout = None, so_undo = Inl (- ENOMEM),
     so_lock = 0, so_denied = (\<lambda>_. False), so_security = 0, so_pid = 9, so_now = 100\<rparr>"

lemma ex_waiting_inv: "sem_inv \<lparr>w_sys = ex_waiting, w_sleep = {5}, w_alive = True\<rparr>"
  by (auto simp: sem_inv_def sem_core_def sem_wf_def status_ok_def undo_wf_def quiescent_def ex_waiting_def ex_sys_def
      sem_enqueue_def nsems_def vals_def ev_def Let_def any_alter_def any_undo_def sop_of_def q_ok_def nums_ok_def nsops_def
      simple_on_def flg_nowait_def flg_undo_def blocked_def op_code_def stops_at_def block_code_def less_Suc_eq numeral_2_eq_2)

section \<open>An operation is performed completely or not at all\<close>

text \<open>C12. \<open>try_atomic_semop\<close> is atomic. If it reports success then every semaphore has its old value plus the
  sum of the operations on it, the semaphores operated on carry the caller's process id, and the pending
  queue is untouched; otherwise the state is exactly what it was and the answer is one of would-block,
  \<open>EAGAIN\<close> and \<open>ERANGE\<close>, so the operations performed before the failing one have been taken back.\<close>

theorem try_atomic_semop_atomic:
  assumes "\<forall>sop \<in> set sops. sem_num sop < length (sem_base (sma st))"
    and "try_atomic_semop st sops un pid = (r, st')"
  shows "if r = 0
    then length (sem_base (sma st')) = length (sem_base (sma st)) \<and>
      (\<forall>i < length (sem_base (sma st)).
         semval (sem_base (sma st') ! i) = semval (sem_base (sma st) ! i) +
           sum_list (map sem_op (filter (\<lambda>sop. sem_num sop = i) sops)) \<and>
         sempid (sem_base (sma st') ! i) =
           (if i \<in> sem_num ` set sops then pid else sempid (sem_base (sma st) ! i))) \<and>
      queues st' = queues st \<and> sem_pending (sma st') = sem_pending (sma st)
    else st' = st \<and> r \<in> {1, - EAGAIN, - ERANGE}"
proof -
  have n: "nums_ok (nsems st) sops" using assms(1) by (simp add: nums_ok_def nsems_def)
  show ?thesis
  proof (cases "op_code st sops un = 0")
    case True
    obtain st1 where "try_atomic_semop st sops un pid = (0, st1)" "commits st sops un pid st1"
      using try_succeeds [OF n True] by metis
    then show ?thesis using assms(2) by (simp add: commits_def nsems_def vals_def ev_def op_sum_def)
  next
    case False
    then show ?thesis
      using try_fails [OF n False] assms(2) op_result_range [of "un_adj st un" sops "vals st"]
      by (auto simp: op_code_def)
  qed
qed

theorem try_atomic_semop_atomic_witness:
  "snd (try_atomic_semop ex_sys [sop_of 0 (-1), sop_of 1 (-1)] None 3) = ex_sys \<and>
   semval (sem_base (sma (snd (try_atomic_semop ex_sys [sop_of 0 (-1), sop_of 1 1] None 3))) ! 1) = 1"
proof -
  let ?f = "[sop_of 0 (-1), sop_of 1 (-1)]" and ?g = "[sop_of 0 (-1), sop_of 1 1]"
  have n: "\<forall>sop \<in> set ?f. sem_num sop < length (sem_base (sma ex_sys))" "\<forall>sop \<in> set ?g. sem_num sop < length (sem_base (sma ex_sys))"
    by (simp_all add: sop_of_def ex_sys_def)
  have "fst (try_atomic_semop ex_sys ?f None 3) = 1" "fst (try_atomic_semop ex_sys ?g None 3) = 0"
    by code_simp+
  then show ?thesis
    using try_atomic_semop_atomic [OF n(1) prod.collapse [symmetric], of None 3]
      try_atomic_semop_atomic [OF n(2) prod.collapse [symmetric], of None 3]
    by (simp add: ex_sys_def sop_of_def)
qed

section \<open>Nobody who could proceed is left waiting\<close>

text \<open>C14. The scan of the whole queue ends, no \<open>BUG_ON\<close> in it fires, and afterwards no queued operation can
  be performed: trying any of them again answers that it would block. The restarts of the scan after a
  completed operation, and the cases in which \<open>check_restart\<close> skips them, are covered.\<close>

theorem update_queue_complete:
  assumes "sem_wf st"
  shows "\<exists>st' pt' completed. update_queue st (-1) pt = Some (Ok (st', pt', completed)) \<and> sem_wf st' \<and>
    set pt' = set pt \<union> (set (sem_pending (sma st)) - set (sem_pending (sma st'))) \<and>
    (\<forall>p \<in> set (sem_pending (sma st')). fst (try_atomic_semop st' (q_sops (queues st' p)) (q_undo (queues st' p)) pid) = 1)"
proof -
  obtain st' pt' c' where u: "update_queue st (-1) pt = Some (Ok (st', pt', c'))" "sem_wf st'" "quiescent st'"
    "set pt' = set pt \<union> (set (sem_pending (sma st)) - set (sem_pending (sma st')))"
    using update_all_ok [OF assms] by metis
  have "fst (try_atomic_semop st' (q_sops (queues st' p)) (q_undo (queues st' p)) pid) = 1"
    if "p \<in> set (sem_pending (sma st'))" for p
    using blocked_try [OF u(2) that] u(3) that by (simp add: quiescent_def)
  with u show ?thesis by blast
qed

theorem update_queue_complete_witness:
  "\<exists>st' pt' completed. update_queue ex_waiting (-1) [] = Some (Ok (st', pt', completed)) \<and> sem_wf st'"
  using update_queue_complete [of ex_waiting "[]" 3] ex_waiting_inv by (auto simp: sem_inv_def sem_core_def)

section \<open>Every reachable state\<close>

text \<open>A fresh array of one semaphore, and the state after a task went to sleep on decrementing it.\<close>

definition ex_new :: sem_world where
  "ex_new = \<lparr>w_sys = \<lparr>sma = \<lparr>sem_base = [\<lparr>semval = 0, sempid = 0, simple_pending = []\<rparr>],
      sem_pending = [], list_id = [], complex_count = 0, sem_otime = 0, sem_ctime = 0\<rparr>,
      queues = (\<lambda>_. \<lparr>q_sops = [], q_undo = None, q_pid = 0, q_status = 0, q_alter = False\<rparr>),
      undos = (\<lambda>_. \<lparr>un_semid = 0, semadj = []\<rparr>)\<rparr>, w_sleep = {}, w_alive = True\<rparr>"

definition ex_slept :: sem_world where
  "ex_slept = \<lparr>w_sys = sem_enqueue (w_sys ex_new) 5 [sop_of 0 (-1)] None 9, w_sleep = {5}, w_alive = True\<rparr>"

lemma ex_new_init: "sem_init ex_new"
proof -
  have "newary \<lparr>na_alloc = True, na_security = 0, na_addid = 0, na_now = 0\<rparr> 0 32000 1 = Inl (0, 1, sma (w_sys ex_new))"
    by (simp add: newary_def ex_new_def)
  then show ?thesis unfolding sem_init_def using zero_le_one by (fastforce simp: ex_new_def)
qed

lemma ex_slept_step: "sem_step ex_new ex_slept"
proof -
  have n: "length (sem_base (sma (w_sys ex_new))) = 1" by (simp add: ex_new_def)
  have "try_atomic_semop (w_sys ex_new) [sop_of 0 (-1)] None 9 = (1, w_sys ex_new)"
    using try_fails [of "w_sys ex_new" "[sop_of 0 (-1)]" None 9]
    by (simp add: op_code_def stops_at_def block_code_def vals_def ev_def ex_new_def sop_of_def flg_nowait_def nums_ok_def nsems_def)
  with n have "semtimedop ex_sem_env (w_sys ex_new) 0 [sop_of 0 (-1)] 5 = Some (Ok (Sleeping (w_sys ex_slept)))"
    by (simp add: semtimedop_def semop_run_def ex_slept_def ex_sem_env_def any_undo_def flg_undo_def max_num_def)
      (simp add: sop_of_def)
  then have "sem_step ex_new (ex_new\<lparr>w_sys := w_sys ex_slept, w_sleep := insert 5 (w_sleep ex_new)\<rparr>)"
    by (intro semop_sleeps) (auto simp: ex_new_def ex_sem_env_def)
  then show ?thesis by (simp add: ex_slept_def ex_new_def)
qed

text \<open>C7. Whatever calls are made on an array, in whatever order: all values stay between 0 and \<open>SEMVMX\<close>,
  the queue of each semaphore lists exactly the pending single operations on it, in the order of the common
  queue, the count of complex operations is right, and no pending operation could be performed (no wake-up
  is lost by the shortcuts of \<open>do_smart_update\<close> and \<open>check_restart\<close>).\<close>

theorem sem_reachable:
  assumes "sem_init w" "sem_step\<^sup>*\<^sup>* w w'"
  shows "(\<forall>x \<in> set (sem_base (sma (w_sys w'))). 0 \<le> semval x \<and> semval x \<le> SEMVMX) \<and>
    (\<forall>i < length (sem_base (sma (w_sys w'))). simple_pending (sem_base (sma (w_sys w')) ! i) =
       filter (\<lambda>p. nsops (queues (w_sys w') p) = 1 \<and> sem_num (q_sops (queues (w_sys w') p) ! 0) = i) (sem_pending (sma (w_sys w')))) \<and>
    complex_count (sma (w_sys w')) =
      int (length (filter (\<lambda>p. nsops (queues (w_sys w') p) \<noteq> 1) (sem_pending (sma (w_sys w'))))) \<and>
    (\<forall>p \<in> set (sem_pending (sma (w_sys w'))).
       try_atomic_semop (w_sys w') (q_sops (queues (w_sys w') p)) (q_undo (queues (w_sys w') p)) pid = (1, w_sys w'))"
proof -
  have inv: "sem_inv w'" using sem_array_sys.reachable_inv assms .
  then have wf: "sem_wf (w_sys w')" and q: "quiescent (w_sys w')" by (simp_all add: sem_inv_def sem_core_def)
  have "0 \<le> semval x \<and> semval x \<le> SEMVMX" if "x \<in> set (sem_base (sma (w_sys w')))" for x
    using sem_wfD(6,7) [OF wf] that by (auto simp: in_set_conv_nth vals_def ev_def nsems_def)
  moreover have "simple_pending (sem_base (sma (w_sys w')) ! i) =
       filter (\<lambda>p. nsops (queues (w_sys w') p) = 1 \<and> sem_num (q_sops (queues (w_sys w') p) ! 0) = i) (sem_pending (sma (w_sys w')))"
    if "i < length (sem_base (sma (w_sys w')))" for i
    using sem_wfD(4) [OF wf, of i] that by (simp add: nsems_def simple_on_def [abs_def])
  ultimately show ?thesis using sem_wfD(3) [OF wf] blocked_try [OF wf] q by (simp add: quiescent_def)
qed

theorem sem_reachable_witness:
  "try_atomic_semop (w_sys ex_slept) [sop_of 0 (-1)] None 3 = (1, w_sys ex_slept) \<and>
   simple_pending (sem_base (sma (w_sys ex_slept)) ! 0) = [5]"
  using sem_reachable [OF ex_new_init r_into_rtranclp [where r = sem_step, OF ex_slept_step], of 3]
  by (simp add: ex_slept_def ex_new_def sem_enqueue_def any_alter_def sop_of_def Let_def nsops_def)

text \<open>C16. In every reachable state of an existing array \<open>semtimedop\<close> ends, whatever its arguments and
  whatever the other parts of the kernel answer: it returns to its caller or puts it to sleep, and no
  \<open>BUG_ON\<close> fires.\<close>

theorem semtimedop_returns:
  assumes "sem_init w" "sem_step\<^sup>*\<^sup>* w w'" "w_alive w'" "qi \<notin> w_sleep w'"
    and "\<And>u. so_undo env = Inr u \<Longrightarrow> u \<in> set (list_id (sma (w_sys w'))) \<or> un_semid (undos (w_sys w') u) = -1"
  shows "\<exists>r. semtimedop env (w_sys w') semid sops qi = Some (Ok r) \<and>
    (\<forall>st'. r = Sleeping st' \<longrightarrow> qi \<in> set (sem_pending (sma st')) \<and> q_status (queues st' qi) = - EINTR)"
proof -
  have inv: "sem_inv w'" using sem_array_sys.reachable_inv assms(1,2) .
  obtain r where r: "semtimedop env (w_sys w') semid sops qi = Some (Ok r)" "result_ok (w_sleep w') qi r"
    using semtimedop_ok [of "w_sleep w'" "w_sys w'" qi env semid sops] inv assms(4,5) by (auto simp: sem_inv_def)
  moreover have "qi \<in> set (sem_pending (sma st'))" if "r = Sleeping st'" for st'
    using r(1) unfolding that by (rule semtimedop_sleeps)
  ultimately show ?thesis
    by (auto simp: result_ok_def sem_core_def status_ok_def split: semop_result.splits)
qed

theorem semtimedop_returns_witness:
  "\<exists>r. semtimedop ex_sem_env (w_sys ex_slept) 0 [sop_of 0 1] 6 = Some (Ok r)"
  using semtimedop_returns [OF ex_new_init r_into_rtranclp [where r = sem_step, OF ex_slept_step], of 6 ex_sem_env 0 "[sop_of 0 1]"]
  by (auto simp: ex_slept_def ex_sem_env_def)

text \<open>C23. Removing an array reaches every task that sleeps on it: whoever is queued when \<open>freeary\<close> runs
  returns from \<open>semtimedop\<close> with \<open>EIDRM\<close>, without the array being looked up again; a task that was already
  woken keeps its result.\<close>

theorem freeary_wakes_all:
  assumes "sem_init w" "sem_step\<^sup>*\<^sup>* w w'" "qi \<in> w_sleep w'" "freeary used (w_sys w') = (used', st')"
  shows "sem_pending (sma st') = [] \<and> used' = used - int (length (sem_base (sma (w_sys w')))) \<and>
    semtimedop_resume timed_out st' None qi =
      Some (if qi \<in> set (sem_pending (sma (w_sys w'))) then - EIDRM else q_status (queues (w_sys w') qi), st')"
proof -
  have c: "sem_core (w_sleep w') (w_sys w')" using sem_array_sys.reachable_inv [OF assms(1,2)] by (simp add: sem_inv_def)
  note f = freeary_ok [OF c assms(4)]
  have "quiescent st'" using f(2) by (simp add: quiescent_def)
  from resume_ok [OF f(1) this assms(3), of None timed_out] f(2) obtain st'' where
    "semtimedop_resume timed_out st' None qi = Some (q_status (queues st' qi), st'')" by auto
  moreover have "q_status (queues st' qi) \<noteq> - EINTR" using sleeper_status(2) [OF f(1) assms(3)] f(2) by simp
  ultimately show ?thesis
    using f by (auto simp: semtimedop_resume_def nsems_def split: option.splits if_splits)
qed

theorem freeary_wakes_all_witness:
  "semtimedop_resume False (snd (freeary 1 (w_sys ex_slept))) None 5 = Some (- EIDRM, snd (freeary 1 (w_sys ex_slept)))"
  using freeary_wakes_all [OF ex_new_init r_into_rtranclp [where r = sem_step, OF ex_slept_step], of 5 1, OF _ prod.collapse [symmetric]]
  by (simp add: ex_slept_def sem_enqueue_def any_alter_def sop_of_def Let_def)

section \<open>What \<open>semctl\<close> reports\<close>

lemma blocked_waits:
  assumes "fst (op_result adj sops v) = 1" "nums_ok n sops" "\<forall>i < n. 0 \<le> v i"
  shows "\<exists>sop \<in> set sops. sem_op sop \<le> 0 \<and> \<not> flg_nowait sop"
  using assms
proof (induction sops arbitrary: v)
  case (Cons sop sops)
  show ?case
  proof (cases "stops_at v sop")
    case True
    have "0 \<le> v (sem_num sop)" using Cons.prems(2,3) by simp
    with True have "sem_op sop \<le> 0" by (auto simp: stops_at_def)
    moreover have "\<not> flg_nowait sop" using True Cons.prems(1) by (auto simp: block_code_def split: if_splits)
    ultimately show ?thesis by auto
  next
    case False
    then have "fst (op_result adj sops (sop_exec v sop)) = 1" using Cons.prems(1) by (auto split: if_splits)
    moreover have "\<forall>i < n. 0 \<le> sop_exec v sop i"
      using False Cons.prems(3) by (auto simp: sop_exec_apply stops_at_def)
    ultimately show ?thesis using Cons.IH Cons.prems(2) by auto
  qed
qed simp

lemma count_sops_pos:
  assumes "p \<in> set (sem_pending (sma st))" "sop \<in> set (q_sops (queues st p))" "P sop"
  shows "0 < count_sops P st"
proof -
  have "0 < length (filter P (q_sops (queues st p)))" using assms(2,3) by (auto simp: filter_empty_conv)
  then show ?thesis using assms(1) unfolding count_sops_def
    by (metis (no_types, lifting) gr0I image_eqI less_nat_zero_code set_map sum_list_eq_0_iff)
qed

text \<open>C32. The comment over \<open>count_semncnt\<close>: in every reachable state, a task on the pending queue is counted
  somewhere, that is, one of the semaphores it operates on has a positive \<open>semncnt\<close> or \<open>semzcnt\<close>.\<close>

theorem semcnt_positive:
  assumes "sem_init w" "sem_step\<^sup>*\<^sup>* w w'" "p \<in> set (sem_pending (sma (w_sys w')))"
  shows "\<exists>sop \<in> set (q_sops (queues (w_sys w') p)).
    0 < count_semncnt (w_sys w') (sem_num sop) + count_semzcnt (w_sys w') (sem_num sop)"
proof -
  have "sem_inv w'" using sem_array_sys.reachable_inv assms(1,2) .
  then have wf: "sem_wf (w_sys w')" and b: "blocked (w_sys w') p" using assms(3)
    by (simp_all add: sem_inv_def sem_core_def quiescent_def)
  obtain sop where s: "sop \<in> set (q_sops (queues (w_sys w') p))" "sem_op sop \<le> 0" "\<not> flg_nowait sop"
    using blocked_waits [of _ "q_sops (queues (w_sys w') p)" "vals (w_sys w')" "nsems (w_sys w')"]
      b sem_wfD(2) [OF wf assms(3)] sem_wfD(6) [OF wf]
    by (auto simp: blocked_def op_code_def q_ok_def)
  have "0 < count_semncnt (w_sys w') (sem_num sop) \<or> 0 < count_semzcnt (w_sys w') (sem_num sop)"
  proof (cases "sem_op sop = 0")
    case True
    with count_sops_pos [OF assms(3) s(1)] s(3) show ?thesis by (simp add: count_semzcnt_def)
  next
    case False
    with count_sops_pos [OF assms(3) s(1)] s(2,3) show ?thesis by (simp add: count_semncnt_def)
  qed
  with s(1) show ?thesis by auto
qed

theorem semcnt_positive_witness:
  "0 < count_semncnt (w_sys ex_slept) 0 + count_semzcnt (w_sys ex_slept) 0"
  using semcnt_positive [OF ex_new_init r_into_rtranclp [where r = sem_step, OF ex_slept_step], of 5]
  by (simp add: ex_slept_def sem_enqueue_def any_alter_def sop_of_def Let_def)

section \<open>The range of an adjustment\<close>

text \<open>C33. The check of the adjustment in \<open>try_atomic_semop\<close> compares each operation with the adjustment before
  the call, so two operations on one semaphore that are each in range can leave it: here the call succeeds,
  the operations to be undone add up to 65534, and the \<open>short\<close> that should hold it becomes -2. When the
  process exits, \<open>exit_sem\<close> takes 2 away instead of giving 65534 back.\<close>

theorem semadj_overflow:
  "\<exists>st sops un. sem_wf st \<and> list_all (\<lambda>sop. sem_num sop < length (sem_base (sma st))) sops \<and>
     fst (try_atomic_semop st sops (Some un) 3) = 0 \<and>
     semadj (undos st un) = [0] \<and>
     - sum_list (map sem_op (filter flg_undo sops)) = 65534 \<and>
     semadj (undos (snd (try_atomic_semop st sops (Some un) 3)) un) = [-2]"
proof -
  let ?st = "\<lparr>sma = \<lparr>sem_base = [\<lparr>semval = 32767, sempid = 0, simple_pending = []\<rparr>],
      sem_pending = [], list_id = [0], complex_count = 0, sem_otime = 0, sem_ctime = 0\<rparr>,
      queues = (\<lambda>_. \<lparr>q_sops = [], q_undo = None, q_pid = 0, q_status = 0, q_alter = False\<rparr>),
      undos = (\<lambda>_. \<lparr>un_semid = 0, semadj = [0]\<rparr>)\<rparr>"
  let ?u = "\<lparr>sem_num = 0, sem_op = -32767, sem_flg = SEM_UNDO\<rparr>"
  let ?sops = "[?u, \<lparr>sem_num = 0, sem_op = 32767, sem_flg = 0\<rparr>, ?u]"
  have "sem_wf ?st"
    by (simp add: sem_wf_def Let_def nsems_def vals_def ev_def)
  moreover have "fst (try_atomic_semop ?st ?sops (Some 0) 3) = 0"
    "semadj (undos (snd (try_atomic_semop ?st ?sops (Some 0) 3)) 0) = [-2]" by code_simp+
  moreover have "- sum_list (map sem_op (filter flg_undo ?sops)) = 65534" by code_simp
  ultimately show ?thesis by (intro exI [of _ ?st] exI [of _ ?sops] exI [of _ 0]) simp
qed

end
