(* ===== verification/CapSet.thy ===== *)
theory CapSet
  imports Prelude
begin

text \<open>
  Capability sets, \<open>include/linux/capability.h\<close>: two 32-bit words and the macros and inline functions on
  them, each related to the set of capability numbers \<open>caps\<close> it stands for. The facts are collected in
  \<open>cap_sets\<close>, so that statements about the words become statements about sets.
\<close>

named_theorems cap_sets

datatype kernel_cap_t = Cap u32 u32

text \<open>\<open>c.cap[i]\<close>, for the indices 0 and 1 the array has.\<close>

fun cap_word :: "kernel_cap_t \<Rightarrow> nat \<Rightarrow> u32" where
  "cap_word (Cap a b) i = (if i = 0 then a else b)"

fun cap_word_update :: "kernel_cap_t \<Rightarrow> nat \<Rightarrow> u32 \<Rightarrow> kernel_cap_t" where
  "cap_word_update (Cap a b) i w = (if i = 0 then Cap w b else Cap a w)"

definition CAP_TO_INDEX :: "nat \<Rightarrow> nat" where
  "CAP_TO_INDEX x = drop_bit 5 x"

definition CAP_TO_MASK :: "nat \<Rightarrow> u32" where
  "CAP_TO_MASK x = push_bit (x AND 31) 1"

abbreviation (input) CAP_CHOWN :: nat where "CAP_CHOWN \<equiv> 0"
abbreviation (input) CAP_DAC_OVERRIDE :: nat where "CAP_DAC_OVERRIDE \<equiv> 1"
abbreviation (input) CAP_DAC_READ_SEARCH :: nat where "CAP_DAC_READ_SEARCH \<equiv> 2"
abbreviation (input) CAP_FOWNER :: nat where "CAP_FOWNER \<equiv> 3"
abbreviation (input) CAP_FSETID :: nat where "CAP_FSETID \<equiv> 4"
abbreviation (input) CAP_SETGID :: nat where "CAP_SETGID \<equiv> 6"
abbreviation (input) CAP_SETUID :: nat where "CAP_SETUID \<equiv> 7"
abbreviation (input) CAP_SETPCAP :: nat where "CAP_SETPCAP \<equiv> 8"
abbreviation (input) CAP_LINUX_IMMUTABLE :: nat where "CAP_LINUX_IMMUTABLE \<equiv> 9"
abbreviation (input) CAP_SYS_RAWIO :: nat where "CAP_SYS_RAWIO \<equiv> 17"
abbreviation (input) CAP_SYS_PTRACE :: nat where "CAP_SYS_PTRACE \<equiv> 19"
abbreviation (input) CAP_SYS_ADMIN :: nat where "CAP_SYS_ADMIN \<equiv> 21"
abbreviation (input) CAP_SYS_NICE :: nat where "CAP_SYS_NICE \<equiv> 23"
abbreviation (input) CAP_SYS_TIME :: nat where "CAP_SYS_TIME \<equiv> 25"
abbreviation (input) CAP_MKNOD :: nat where "CAP_MKNOD \<equiv> 27"
abbreviation (input) CAP_SETFCAP :: nat where "CAP_SETFCAP \<equiv> 31"
abbreviation (input) CAP_MAC_OVERRIDE :: nat where "CAP_MAC_OVERRIDE \<equiv> 32"
abbreviation (input) CAP_LAST_CAP :: nat where "CAP_LAST_CAP \<equiv> 33"

definition CAP_EMPTY_SET :: kernel_cap_t where "CAP_EMPTY_SET = Cap 0 0"

definition CAP_FULL_SET :: kernel_cap_t where "CAP_FULL_SET = Cap (NOT 0) (NOT 0)"

definition CAP_FS_SET :: kernel_cap_t where
  "CAP_FS_SET = Cap
     (CAP_TO_MASK CAP_CHOWN OR CAP_TO_MASK CAP_MKNOD OR CAP_TO_MASK CAP_DAC_OVERRIDE OR
      CAP_TO_MASK CAP_DAC_READ_SEARCH OR CAP_TO_MASK CAP_FOWNER OR CAP_TO_MASK CAP_FSETID OR
      CAP_TO_MASK CAP_LINUX_IMMUTABLE)
     (CAP_TO_MASK CAP_MAC_OVERRIDE)"

definition cap_valid :: "nat \<Rightarrow> bool" where
  "cap_valid x \<longleftrightarrow> x \<le> CAP_LAST_CAP"

definition cap_raise :: "kernel_cap_t \<Rightarrow> nat \<Rightarrow> kernel_cap_t" where
  "cap_raise c flag = cap_word_update c (CAP_TO_INDEX flag) (cap_word c (CAP_TO_INDEX flag) OR CAP_TO_MASK flag)"

definition cap_lower :: "kernel_cap_t \<Rightarrow> nat \<Rightarrow> kernel_cap_t" where
  "cap_lower c flag = cap_word_update c (CAP_TO_INDEX flag) (cap_word c (CAP_TO_INDEX flag) AND NOT (CAP_TO_MASK flag))"

definition cap_raised :: "kernel_cap_t \<Rightarrow> nat \<Rightarrow> bool" where
  "cap_raised c flag \<longleftrightarrow> cap_word c (CAP_TO_INDEX flag) AND CAP_TO_MASK flag \<noteq> 0"

text \<open>The loops of \<open>CAP_BOP_ALL\<close> and \<open>CAP_UOP_ALL\<close> over the two words.\<close>

fun CAP_BOP_ALL :: "(u32 \<Rightarrow> u32 \<Rightarrow> u32) \<Rightarrow> kernel_cap_t \<Rightarrow> kernel_cap_t \<Rightarrow> kernel_cap_t" where
  "CAP_BOP_ALL f (Cap a0 a1) (Cap b0 b1) = Cap (f a0 b0) (f a1 b1)"

definition cap_combine :: "kernel_cap_t \<Rightarrow> kernel_cap_t \<Rightarrow> kernel_cap_t" where
  "cap_combine = CAP_BOP_ALL (\<lambda>x y. x OR y)"

definition cap_intersect :: "kernel_cap_t \<Rightarrow> kernel_cap_t \<Rightarrow> kernel_cap_t" where
  "cap_intersect = CAP_BOP_ALL (\<lambda>x y. x AND y)"

definition cap_drop :: "kernel_cap_t \<Rightarrow> kernel_cap_t \<Rightarrow> kernel_cap_t" where
  "cap_drop = CAP_BOP_ALL (\<lambda>x y. x AND NOT y)"

fun cap_invert :: "kernel_cap_t \<Rightarrow> kernel_cap_t" where
  "cap_invert (Cap a b) = Cap (NOT a) (NOT b)"

fun cap_isclear :: "kernel_cap_t \<Rightarrow> bool" where
  "cap_isclear (Cap a b) \<longleftrightarrow> \<not> (a \<noteq> 0 \<or> b \<noteq> 0)"

definition cap_issubset :: "kernel_cap_t \<Rightarrow> kernel_cap_t \<Rightarrow> bool" where
  "cap_issubset a s = cap_isclear (cap_drop a s)"

definition cap_is_fs_cap :: "nat \<Rightarrow> bool" where
  "cap_is_fs_cap cap \<longleftrightarrow> CAP_TO_MASK cap AND cap_word CAP_FS_SET (CAP_TO_INDEX cap) \<noteq> 0"

definition cap_drop_fs_set :: "kernel_cap_t \<Rightarrow> kernel_cap_t" where
  "cap_drop_fs_set a = cap_drop a CAP_FS_SET"

definition cap_raise_fs_set :: "kernel_cap_t \<Rightarrow> kernel_cap_t \<Rightarrow> kernel_cap_t" where
  "cap_raise_fs_set a permitted = cap_combine a (cap_intersect permitted CAP_FS_SET)"

section \<open>The sets they stand for\<close>

fun caps :: "kernel_cap_t \<Rightarrow> nat set" where
  "caps (Cap a b) = {n. n < 32 \<and> bit a n} \<union> {n. 32 \<le> n \<and> n < 64 \<and> bit b (n - 32)}"

lemma index_small: "x < 32 \<Longrightarrow> CAP_TO_INDEX x = 0" "32 \<le> x \<Longrightarrow> x < 64 \<Longrightarrow> CAP_TO_INDEX x = 1"
  by (simp_all add: CAP_TO_INDEX_def drop_bit_eq_div)

lemma mask_bit: "bit (CAP_TO_MASK x) n \<longleftrightarrow> n = x mod 32"
proof -
  have "x AND 31 = x mod 32" using take_bit_eq_mask [of 5 x] by (simp add: mask_eq_exp_minus_1 take_bit_eq_mod)
  then show ?thesis by (auto simp: CAP_TO_MASK_def bit_simps)
qed

lemma and_mask_iff: "(w :: u32) AND CAP_TO_MASK x \<noteq> 0 \<longleftrightarrow> bit w (x mod 32)"
proof -
  have "w AND CAP_TO_MASK x = (if bit w (x mod 32) then CAP_TO_MASK x else 0)"
    by (rule bit_word_eqI) (auto simp: mask_bit bit_simps)
  moreover have "CAP_TO_MASK x \<noteq> 0" using mask_bit [of x "x mod 32"] by auto
  ultimately show ?thesis by simp
qed

lemma mod_32: "n < 32 \<Longrightarrow> n mod 32 = n" "32 \<le> n \<Longrightarrow> n < 64 \<Longrightarrow> n mod 32 = n - (32 :: nat)"
  by (simp_all add: mod_if)

lemma caps_eq_iff [cap_sets]: "a = b \<longleftrightarrow> caps a = caps b"
proof (cases a; cases b)
  fix a0 a1 b0 b1 assume ab: "a = Cap a0 a1" "b = Cap b0 b1"
  have "a0 = b0 \<and> a1 = b1" if eq: "caps (Cap a0 a1) = caps (Cap b0 b1)"
  proof
    have "bit a0 n = bit b0 n" if "n < 32" for n
    proof -
      have "n \<in> caps (Cap a0 a1) \<longleftrightarrow> n \<in> caps (Cap b0 b1)" using eq by simp
      then show ?thesis using that by simp
    qed
    then show "a0 = b0" by (intro bit_word_eqI) simp
    have "bit a1 n = bit b1 n" if "n < 32" for n
    proof -
      have "n + 32 \<in> caps (Cap a0 a1) \<longleftrightarrow> n + 32 \<in> caps (Cap b0 b1)" using eq by simp
      then show ?thesis using that by simp
    qed
    then show "a1 = b1" by (intro bit_word_eqI) simp
  qed
  then show ?thesis using ab by auto
qed

lemma caps_bound: "n \<in> caps c \<Longrightarrow> n < 64"
  by (cases c) auto

lemma caps_empty [cap_sets]: "caps CAP_EMPTY_SET = {}"
  by (simp add: CAP_EMPTY_SET_def)

lemma caps_full [cap_sets]: "caps CAP_FULL_SET = {..<64}"
  by (auto simp: CAP_FULL_SET_def)

lemma caps_combine [cap_sets]: "caps (cap_combine a b) = caps a \<union> caps b"
  by (cases a; cases b) (auto simp: cap_combine_def bit_simps)

lemma caps_intersect [cap_sets]: "caps (cap_intersect a b) = caps a \<inter> caps b"
  by (cases a; cases b) (auto simp: cap_intersect_def bit_simps)

lemma caps_drop [cap_sets]: "caps (cap_drop a b) = caps a - caps b"
  by (cases a; cases b) (auto simp: cap_drop_def bit_simps)

lemma isclear_iff: "cap_isclear c \<longleftrightarrow> c = CAP_EMPTY_SET"
  by (cases c) (simp add: CAP_EMPTY_SET_def)

lemma caps_isclear [cap_sets]: "cap_isclear c \<longleftrightarrow> caps c = {}"
  unfolding isclear_iff caps_eq_iff caps_empty ..

lemma caps_issubset [cap_sets]: "cap_issubset a b \<longleftrightarrow> caps a \<subseteq> caps b"
  by (simp add: cap_issubset_def cap_sets)

lemma caps_raised [cap_sets]: "n < 64 \<Longrightarrow> cap_raised c n \<longleftrightarrow> n \<in> caps c"
  by (cases c; cases "n < 32") (auto simp: cap_raised_def index_small and_mask_iff mod_32)

lemma caps_raise [cap_sets]: "n < 64 \<Longrightarrow> caps (cap_raise c n) = insert n (caps c)"
  by (cases c; cases "n < 32") (auto simp: cap_raise_def index_small bit_simps mask_bit mod_32)

lemma caps_lower [cap_sets]: "n < 64 \<Longrightarrow> caps (cap_lower c n) = caps c - {n}"
  by (cases c; cases "n < 32") (auto simp: cap_lower_def index_small bit_simps mask_bit mod_32)

lemma caps_drop_fs [cap_sets]: "caps (cap_drop_fs_set a) = caps a - caps CAP_FS_SET"
  by (simp add: cap_drop_fs_set_def cap_sets)

lemma caps_raise_fs [cap_sets]: "caps (cap_raise_fs_set a p) = caps a \<union> caps p \<inter> caps CAP_FS_SET"
  by (simp add: cap_raise_fs_set_def cap_sets)

end
