(* ===== verification/GroupInfo.thy ===== *)
theory GroupInfo
  imports Prelude "HOL-Library.Multiset"
begin

text \<open>
  Supplementary groups, \<open>kernel/groups.c\<close>: the array of group ids kept in page-sized blocks, copying it from
  and to user space, the Shell sort and the binary search. \<open>flat\<close> is the list an array stands for; every
  operation on blocks is shown to be the operation on the list.
\<close>

section \<open>The array\<close>

abbreviation (input) NGROUPS_MAX :: nat where "NGROUPS_MAX \<equiv> 65536"
abbreviation (input) NGROUPS_SMALL :: nat where "NGROUPS_SMALL \<equiv> 32"

definition NGROUPS_PER_BLOCK :: nat where
  "NGROUPS_PER_BLOCK = 4096 div 4"

text \<open>The length of \<open>blocks\<close> is the field \<open>nblocks\<close>.\<close>

record group_info =
  ngroups :: nat
  blocks :: "u32 list list"

definition GROUP_AT :: "group_info \<Rightarrow> nat \<Rightarrow> u32" where
  "GROUP_AT gi i = blocks gi ! (i div NGROUPS_PER_BLOCK) ! (i mod NGROUPS_PER_BLOCK)"

text \<open>\<open>GROUP_AT\<close> on the left of an assignment.\<close>

definition GROUP_SET :: "group_info \<Rightarrow> nat \<Rightarrow> u32 \<Rightarrow> group_info" where
  "GROUP_SET gi i v = gi\<lparr>blocks := (blocks gi)[i div NGROUPS_PER_BLOCK :=
     (blocks gi ! (i div NGROUPS_PER_BLOCK))[i mod NGROUPS_PER_BLOCK := v]]\<rparr>"

text \<open>Allocation, with \<open>None\<close> where \<open>kmalloc\<close> or a page fails; \<open>junk\<close> is what the fresh memory holds.\<close>

definition groups_alloc :: "bool \<Rightarrow> (nat \<Rightarrow> nat \<Rightarrow> u32) \<Rightarrow> nat \<Rightarrow> group_info option" where
  "groups_alloc mem junk gidsetsize =
    (let n = (gidsetsize + NGROUPS_PER_BLOCK - 1) div NGROUPS_PER_BLOCK;
         nblocks = (if n \<noteq> 0 then n else 1)
     in if \<not> mem then None
        else Some \<lparr>ngroups = gidsetsize,
          blocks = (if gidsetsize \<le> NGROUPS_SMALL then [map (junk 0) [0..<NGROUPS_SMALL]]
                    else map (\<lambda>i. map (junk i) [0..<NGROUPS_PER_BLOCK]) [0..<nblocks])\<rparr>)"

text \<open>The user's array is a function; \<open>ok\<close> tells for each block whether it can be accessed.\<close>

fun copy_from_blocks :: "(nat \<Rightarrow> u32) \<Rightarrow> (nat \<Rightarrow> bool) \<Rightarrow> nat \<Rightarrow> nat \<Rightarrow> u32 list list \<Rightarrow> int \<times> u32 list list" where
  "copy_from_blocks grouplist ok i cnt [] = (0, [])"
| "copy_from_blocks grouplist ok i cnt (b # bs) =
    (let cp_count = min NGROUPS_PER_BLOCK cnt
     in if \<not> ok i then (- EFAULT, b # bs)
        else (case copy_from_blocks grouplist ok (i + 1) (cnt - cp_count) bs of
           (r, bs') \<Rightarrow> (r, (map (\<lambda>j. grouplist (i * NGROUPS_PER_BLOCK + j)) [0..<cp_count] @ drop cp_count b) # bs')))"

definition groups_from_user :: "(nat \<Rightarrow> u32) \<Rightarrow> (nat \<Rightarrow> bool) \<Rightarrow> group_info \<Rightarrow> int \<times> group_info" where
  "groups_from_user grouplist ok gi =
    (case copy_from_blocks grouplist ok 0 (ngroups gi) (blocks gi) of (r, bs) \<Rightarrow> (r, gi\<lparr>blocks := bs\<rparr>))"

text \<open>The values copied out, block after block.\<close>

fun copy_to_blocks :: "(nat \<Rightarrow> bool) \<Rightarrow> nat \<Rightarrow> nat \<Rightarrow> u32 list list \<Rightarrow> int \<times> u32 list" where
  "copy_to_blocks ok i cnt [] = (0, [])"
| "copy_to_blocks ok i cnt (b # bs) =
    (let cp_count = min NGROUPS_PER_BLOCK cnt
     in if \<not> ok i then (- EFAULT, [])
        else (case copy_to_blocks ok (i + 1) (cnt - cp_count) bs of (r, out) \<Rightarrow> (r, take cp_count b @ out)))"

definition groups_to_user :: "(nat \<Rightarrow> bool) \<Rightarrow> group_info \<Rightarrow> int \<times> u32 list" where
  "groups_to_user ok gi = copy_to_blocks ok 0 (ngroups gi) (blocks gi)"

section \<open>Sorting and searching\<close>

text \<open>The inner loop of \<open>groups_sort\<close> and the assignment after it. The stride is positive where the loop is
  entered; the test of it makes the function total.\<close>

function shift_right :: "nat \<Rightarrow> u32 \<Rightarrow> group_info \<Rightarrow> int \<Rightarrow> nat \<Rightarrow> group_info" where
  "shift_right stride tmp gi left right =
    (if 0 < stride \<and> left \<ge> 0 \<and> GROUP_AT gi (nat left) > tmp
     then shift_right stride tmp (GROUP_SET gi right (GROUP_AT gi (nat left))) (left - int stride) (nat left)
     else GROUP_SET gi right tmp)"
  by auto
termination by (relation "measure (\<lambda>(stride, tmp, gi, left, right). nat (left + 1))") auto

declare shift_right.simps [simp del]

definition insert_one :: "nat \<Rightarrow> group_info \<Rightarrow> nat \<Rightarrow> group_info" where
  "insert_one stride gi base = shift_right stride (GROUP_AT gi (base + stride)) gi (int base) (base + stride)"

definition sort_pass :: "nat \<Rightarrow> group_info \<Rightarrow> group_info" where
  "sort_pass stride gi = foldl (insert_one stride) gi [0..<ngroups gi - stride]"

text \<open>The loop that finds the first stride, and the loop over the strides.\<close>

function find_stride :: "nat \<Rightarrow> nat \<Rightarrow> nat" where
  "find_stride gidsetsize stride = (if stride < gidsetsize then find_stride gidsetsize (3 * stride + 1) else stride)"
  by auto
termination by (relation "measure (\<lambda>(n, s). n - s)") auto

declare find_stride.simps [simp del]

fun sort_passes :: "nat \<Rightarrow> group_info \<Rightarrow> group_info" where
  "sort_passes stride gi = (if stride = 0 then gi else sort_passes (stride div 3) (sort_pass stride gi))"

declare sort_passes.simps [simp del]

definition groups_sort :: "group_info \<Rightarrow> group_info" where
  "groups_sort gi = sort_passes (find_stride (ngroups gi) 1 div 3) gi"

function search_between :: "group_info \<Rightarrow> u32 \<Rightarrow> nat \<Rightarrow> nat \<Rightarrow> bool" where
  "search_between gi grp left right =
    (if left < right then
       (let mid = (left + right) div 2
        in if grp > GROUP_AT gi mid then search_between gi grp (mid + 1) right
           else if grp < GROUP_AT gi mid then search_between gi grp left mid
           else True)
     else False)"
  by auto
termination by (relation "measure (\<lambda>(gi, grp, left, right). right - left)") auto

declare search_between.simps [simp del]

definition groups_search :: "group_info \<Rightarrow> u32 \<Rightarrow> bool" where
  "groups_search gi grp = search_between gi grp 0 (ngroups gi)"

section \<open>The list an array stands for\<close>

definition gi_wf :: "group_info \<Rightarrow> bool" where
  "gi_wf gi \<longleftrightarrow> (\<forall>i < ngroups gi. i div NGROUPS_PER_BLOCK < length (blocks gi) \<and>
     i mod NGROUPS_PER_BLOCK < length (blocks gi ! (i div NGROUPS_PER_BLOCK)))"

definition flat :: "group_info \<Rightarrow> u32 list" where
  "flat gi = map (GROUP_AT gi) [0..<ngroups gi]"

lemma length_flat [simp]: "length (flat gi) = ngroups gi"
  by (simp add: flat_def)

lemma flat_nth: "i < ngroups gi \<Longrightarrow> GROUP_AT gi i = flat gi ! i"
  by (simp add: flat_def)

lemma group_set_parts [simp]: "ngroups (GROUP_SET gi i v) = ngroups gi"
  by (simp add: GROUP_SET_def)

lemma block_length: "c < length bs \<Longrightarrow> length (bs[a := (bs ! a)[b := v]] ! c) = length (bs ! c)"
  by (cases "a = c") auto

lemma group_set_wf: "gi_wf gi \<Longrightarrow> gi_wf (GROUP_SET gi i v)"
  by (simp add: gi_wf_def GROUP_SET_def block_length)

lemma group_set_at:
  assumes "gi_wf gi" "i < ngroups gi" "j < ngroups gi"
  shows "GROUP_AT (GROUP_SET gi i v) j = (if j = i then v else GROUP_AT gi j)"
proof -
  have "j = i" if "j div NGROUPS_PER_BLOCK = i div NGROUPS_PER_BLOCK" "j mod NGROUPS_PER_BLOCK = i mod NGROUPS_PER_BLOCK"
    using that div_mult_mod_eq [of j NGROUPS_PER_BLOCK] div_mult_mod_eq [of i NGROUPS_PER_BLOCK] by metis
  moreover have "i div NGROUPS_PER_BLOCK < length (blocks gi)" "i mod NGROUPS_PER_BLOCK < length (blocks gi ! (i div NGROUPS_PER_BLOCK))"
    using assms by (simp_all add: gi_wf_def)
  ultimately show ?thesis
    by (cases "j div NGROUPS_PER_BLOCK = i div NGROUPS_PER_BLOCK"; cases "j mod NGROUPS_PER_BLOCK = i mod NGROUPS_PER_BLOCK")
      (auto simp: GROUP_AT_def GROUP_SET_def)
qed

lemma group_set_flat:
  assumes "gi_wf gi" "i < ngroups gi"
  shows "flat (GROUP_SET gi i v) = (flat gi)[i := v]"
  using group_set_at [OF assms] by (intro nth_equalityI) (simp_all add: flat_def nth_list_update)

section \<open>The sort\<close>

text \<open>Moving an element of a list into the hole at \<open>r\<close> and putting \<open>t\<close> in its place is a permutation.\<close>

lemma mset_hole:
  assumes "l < length xs" "r < length xs" "l \<noteq> r"
  shows "mset (xs[r := xs ! l, l := t]) = mset (xs[r := t])"
proof -
  have "xs[r := xs ! l, l := t] = (xs[r := t])[r := (xs[r := t]) ! l, l := (xs[r := t]) ! r]"
    using assms by (simp add: nth_list_update)
  then show ?thesis using assms mset_swap [of l "xs[r := t]" r] by simp
qed

lemma shift_right_perm:
  assumes "gi_wf gi" "left < int right" "right < ngroups gi"
  shows "gi_wf (shift_right s t gi left right) \<and> ngroups (shift_right s t gi left right) = ngroups gi \<and>
    mset (flat (shift_right s t gi left right)) = mset ((flat gi)[right := t])"
  using assms
proof (induction s t gi left right rule: shift_right.induct)
  case (1 s t gi left right)
  show ?case
  proof (cases "0 < s \<and> left \<ge> 0 \<and> GROUP_AT gi (nat left) > t")
    case False
    then have "shift_right s t gi left right = GROUP_SET gi right t" by (subst shift_right.simps) auto
    then show ?thesis using 1 by (simp add: group_set_wf group_set_flat)
  next
    case True
    let ?gi = "GROUP_SET gi right (GROUP_AT gi (nat left))"
    have l: "nat left < ngroups gi" "nat left \<noteq> right" using 1 True by auto
    have "gi_wf (shift_right s t ?gi (left - int s) (nat left)) \<and>
        ngroups (shift_right s t ?gi (left - int s) (nat left)) = ngroups ?gi \<and>
        mset (flat (shift_right s t ?gi (left - int s) (nat left))) = mset ((flat ?gi)[nat left := t])"
      using 1 True l by (intro "1.IH") (auto simp: group_set_wf)
    moreover have "mset ((flat ?gi)[nat left := t]) = mset ((flat gi)[right := t])"
      using 1 l mset_hole [of "nat left" "flat gi" right t] by (simp add: group_set_flat flat_nth)
    moreover have "shift_right s t gi left right = shift_right s t ?gi (left - int s) (nat left)"
      using True by (subst shift_right.simps) simp
    ultimately show ?thesis by simp
  qed
qed

definition gi_perm :: "group_info \<Rightarrow> group_info \<Rightarrow> bool" where
  "gi_perm gi gi' \<longleftrightarrow> gi_wf gi' \<and> ngroups gi' = ngroups gi \<and> mset (flat gi') = mset (flat gi)"

lemma insert_one_perm:
  assumes "gi_wf gi" "0 < s" "base + s < ngroups gi"
  shows "gi_perm gi (insert_one s gi base)"
  using shift_right_perm [OF assms(1), of "int base" "base + s" s "GROUP_AT gi (base + s)"] assms
  by (simp add: gi_perm_def insert_one_def flat_nth)

lemma sort_pass_perm:
  assumes "gi_wf gi" "0 < s"
  shows "gi_perm gi (sort_pass s gi)"
proof -
  have "gi_perm gi (foldl (insert_one s) gi [0..<k])" if "k \<le> ngroups gi - s" for k
    using that
  proof (induction k)
    case 0
    then show ?case using assms by (simp add: gi_perm_def)
  next
    case (Suc k)
    then have "gi_perm gi (foldl (insert_one s) gi [0..<k])" by simp
    then show ?case
      using insert_one_perm [of "foldl (insert_one s) gi [0..<k]" s k] Suc.prems assms(2) by (simp add: gi_perm_def)
  qed
  then show ?thesis by (simp add: sort_pass_def)
qed

text \<open>Stride 1: the elements up to \<open>R\<close> are in order, leaving out the hole at \<open>right\<close>, and those after the
  hole are greater than the element that is being moved.\<close>

definition hole_sorted :: "u32 list \<Rightarrow> nat \<Rightarrow> nat \<Rightarrow> u32 \<Rightarrow> bool" where
  "hole_sorted xs R right t \<longleftrightarrow> (\<forall>i j. i < j \<longrightarrow> j \<le> R \<longrightarrow> i \<noteq> right \<longrightarrow> j \<noteq> right \<longrightarrow> xs ! i \<le> xs ! j) \<and>
     (\<forall>j. right < j \<longrightarrow> j \<le> R \<longrightarrow> t < xs ! j)"

lemma hole_sortedD:
  assumes "hole_sorted xs R r t"
  shows "i < j \<Longrightarrow> j \<le> R \<Longrightarrow> i \<noteq> r \<Longrightarrow> j \<noteq> r \<Longrightarrow> xs ! i \<le> xs ! j" "r < j \<Longrightarrow> j \<le> R \<Longrightarrow> t < xs ! j"
  using assms by (simp_all add: hole_sorted_def)

lemma hole_step:
  assumes "hole_sorted xs R r t" "0 < r" "r \<le> R" "R < length xs" "xs ! (r - 1) > t"
  shows "hole_sorted (xs[r := xs ! (r - 1)]) R (r - 1) t"
proof -
  let ?ys = "xs[r := xs ! (r - 1)]"
  note h = hole_sortedD [OF assms(1)]
  have y: "?ys ! i = (if i = r then xs ! (r - 1) else xs ! i)" if "i \<le> R" for i
    using assms(3,4) that by (simp add: nth_list_update)
  have "?ys ! i \<le> ?ys ! j" if ij: "i < j" "j \<le> R" "i \<noteq> r - 1" "j \<noteq> r - 1" for i j
  proof -
    consider "i = r" | "j = r" "i \<noteq> r" | "i \<noteq> r" "j \<noteq> r" by blast
    then show ?thesis
    proof cases
      case 1
      have "xs ! (r - 1) \<le> xs ! j" using ij 1 assms(2) by (intro h(1)) linarith+
      then show ?thesis using ij 1 y [of i] y [of j] by simp
    next
      case 2
      have "xs ! i \<le> xs ! (r - 1)" using ij 2 assms(2) by (intro h(1)) linarith+
      then show ?thesis using ij 2 y [of i] y [of j] by simp
    next
      case 3
      have "xs ! i \<le> xs ! j" using ij 3 by (intro h(1))
      then show ?thesis using ij 3 y [of i] y [of j] by simp
    qed
  qed
  moreover have "t < ?ys ! j" if j: "r - 1 < j" "j \<le> R" for j
  proof (cases "j = r")
    case True
    then show ?thesis using y [of j] j assms(5) by simp
  next
    case False
    have "t < xs ! j" using j False by (intro h(2)) linarith+
    then show ?thesis using y [of j] j False by simp
  qed
  ultimately show ?thesis unfolding hole_sorted_def by blast
qed

lemma hole_fill:
  assumes "hole_sorted xs R r t" "r \<le> R" "R < length xs" "r = 0 \<or> xs ! (r - 1) \<le> t" "i < j" "j \<le> R"
  shows "(xs[r := t]) ! i \<le> (xs[r := t]) ! j"
proof -
  note h = hole_sortedD [OF assms(1)]
  have y: "(xs[r := t]) ! k = (if k = r then t else xs ! k)" if "k \<le> R" for k
    using assms(2,3) that by (simp add: nth_list_update)
  consider "i = r" | "j = r" "i \<noteq> r" | "i \<noteq> r" "j \<noteq> r" by blast
  then show ?thesis
  proof cases
    case 1
    have "t < xs ! j" using assms(5,6) 1 by (intro h(2)) linarith+
    then show ?thesis using assms(5,6) 1 y [of i] y [of j] by simp
  next
    case 2
    have r: "xs ! (r - 1) \<le> t" using assms(4,5) 2 by auto
    have "xs ! i \<le> xs ! (r - 1)"
    proof (cases "i = r - 1")
      case False
      then show ?thesis using assms(2,5) 2 by (intro h(1)) linarith+
    qed simp
    then show ?thesis using assms(5,6) r 2 y [of i] y [of j] by simp
  next
    case 3
    have "xs ! i \<le> xs ! j" using assms(5,6) 3 by (intro h(1))
    then show ?thesis using assms(5,6) 3 y [of i] y [of j] by simp
  qed
qed

lemma shift_right_sorted:
  assumes "gi_wf gi" "left = int right - 1" "right \<le> R" "R < ngroups gi" "hole_sorted (flat gi) R right t"
  shows "\<forall>i j. i < j \<longrightarrow> j \<le> R \<longrightarrow> flat (shift_right 1 t gi left right) ! i \<le> flat (shift_right 1 t gi left right) ! j"
  using assms
proof (induction right arbitrary: gi left)
  case 0
  then have "shift_right 1 t gi left 0 = GROUP_SET gi 0 t" by (subst shift_right.simps) auto
  then show ?case using hole_fill [OF 0(5)] 0 by (simp add: group_set_flat)
next
  case (Suc r)
  have l: "nat left = r" "left = int r" using Suc.prems(2) by auto
  show ?case
  proof (cases "GROUP_AT gi r > t")
    case False
    then have "shift_right 1 t gi left (Suc r) = GROUP_SET gi (Suc r) t" using l by (subst shift_right.simps) auto
    then show ?thesis
      using hole_fill [OF Suc.prems(5)] Suc.prems False by (simp add: group_set_flat flat_nth)
  next
    case True
    let ?gi = "GROUP_SET gi (Suc r) (GROUP_AT gi r)"
    have "hole_sorted (flat ?gi) R r t"
      using hole_step [OF Suc.prems(5)] Suc.prems True by (simp add: group_set_flat flat_nth)
    then have "\<forall>i j. i < j \<longrightarrow> j \<le> R \<longrightarrow> flat (shift_right 1 t ?gi (int r - 1) r) ! i \<le> flat (shift_right 1 t ?gi (int r - 1) r) ! j"
      using Suc.prems by (intro Suc.IH) (simp_all add: group_set_wf)
    moreover have "shift_right 1 t gi left (Suc r) = shift_right 1 t ?gi (int r - 1) r"
      using True l by (subst shift_right.simps) simp
    ultimately show ?thesis by simp
  qed
qed

definition prefix_sorted :: "u32 list \<Rightarrow> nat \<Rightarrow> bool" where
  "prefix_sorted xs R \<longleftrightarrow> (\<forall>i j. i < j \<longrightarrow> j \<le> R \<longrightarrow> xs ! i \<le> xs ! j)"

lemma insert_one_sorted:
  assumes "gi_wf gi" "k + 1 < ngroups gi" "prefix_sorted (flat gi) k"
  shows "prefix_sorted (flat (insert_one 1 gi k)) (k + 1)"
proof -
  have "hole_sorted (flat gi) (k + 1) (k + 1) (GROUP_AT gi (k + 1))"
    using assms(3) by (auto simp: hole_sorted_def prefix_sorted_def)
  then show ?thesis
    using shift_right_sorted [OF assms(1), of "int k" "k + 1" "k + 1"] assms(2)
    by (simp add: insert_one_def prefix_sorted_def)
qed

lemma sort_pass_sorted:
  assumes "gi_wf gi"
  shows "sorted (flat (sort_pass 1 gi))"
proof -
  have "gi_perm gi (foldl (insert_one 1) gi [0..<k]) \<and> prefix_sorted (flat (foldl (insert_one 1) gi [0..<k])) k"
    if "k \<le> ngroups gi - 1" for k
    using that
  proof (induction k)
    case 0
    then show ?case using assms by (simp add: gi_perm_def prefix_sorted_def)
  next
    case (Suc k)
    let ?g = "foldl (insert_one 1) gi [0..<k]"
    have p: "gi_perm gi ?g" "prefix_sorted (flat ?g) k" using Suc by simp_all
    then have "gi_perm ?g (insert_one 1 ?g k)" "prefix_sorted (flat (insert_one 1 ?g k)) (k + 1)"
      using Suc.prems insert_one_perm [of ?g 1 k] insert_one_sorted [of ?g k] by (simp_all add: gi_perm_def)
    with p show ?case by (simp add: gi_perm_def)
  qed
  from this [of "ngroups gi - 1"] show ?thesis
    unfolding sort_pass_def sorted_iff_nth_mono_less prefix_sorted_def gi_perm_def by auto
qed

text \<open>The strides: 1, 4, 13, and so on.\<close>

inductive stride_seq :: "nat \<Rightarrow> bool" where
  stride_1: "stride_seq 1"
| stride_next: "stride_seq s \<Longrightarrow> stride_seq (3 * s + 1)"

lemma find_stride_seq: "stride_seq s \<Longrightarrow> stride_seq (find_stride n s) \<and> (n \<le> find_stride n s)"
proof (induction n s rule: find_stride.induct)
  case (1 n s)
  show ?case
  proof (cases "s < n")
    case True
    then show ?thesis using 1 stride_next by (subst (1 2) find_stride.simps) simp
  next
    case False
    then show ?thesis using 1 by (subst (1 2) find_stride.simps) simp
  qed
qed

lemma div_stride: "(3 * s + 1) div 3 = (s :: nat)"
  by presburger

lemma sort_passes_sorted:
  assumes "stride_seq s" "gi_wf gi"
  shows "gi_perm gi (sort_passes s gi) \<and> sorted (flat (sort_passes s gi))"
  using assms
proof (induction arbitrary: gi rule: stride_seq.induct)
  case stride_1
  have "sort_passes 1 gi = sort_pass 1 gi" by (simp add: sort_passes.simps)
  then show ?case using sort_pass_perm [OF stride_1] sort_pass_sorted [OF stride_1] by simp
next
  case (stride_next s)
  have e: "sort_passes (3 * s + 1) gi = sort_passes s (sort_pass (3 * s + 1) gi)"
    by (subst sort_passes.simps) (simp only: div_stride, simp)
  have p: "gi_perm gi (sort_pass (3 * s + 1) gi)" using sort_pass_perm [OF stride_next.prems] by simp
  then show ?case unfolding e using stride_next.IH [of "sort_pass (3 * s + 1) gi"] by (simp add: gi_perm_def)
qed

lemma groups_sort_ok:
  assumes "gi_wf gi"
  shows "gi_perm gi (groups_sort gi)" "sorted (flat (groups_sort gi))"
proof -
  let ?s = "find_stride (ngroups gi) 1"
  have s: "stride_seq ?s" "ngroups gi \<le> ?s" using find_stride_seq [OF stride_1] by simp_all
  have "gi_perm gi (groups_sort gi) \<and> sorted (flat (groups_sort gi))"
    using s(1)
  proof cases
    case stride_1
    then have "groups_sort gi = gi" by (simp add: groups_sort_def sort_passes.simps)
    moreover have "ngroups gi \<le> 1" using s(2) stride_1 by simp
    then have "sorted (flat gi)" by (cases "flat gi" rule: remdups_adj.cases) (auto dest: arg_cong [of _ _ length])
    ultimately show ?thesis using assms by (simp add: gi_perm_def)
  next
    case (stride_next s')
    then show ?thesis
      using sort_passes_sorted [OF stride_next(2) assms] unfolding groups_sort_def stride_next(1) div_stride by blast
  qed
  then show "gi_perm gi (groups_sort gi)" "sorted (flat (groups_sort gi))" by simp_all
qed

section \<open>The search\<close>

lemma search_between_iff:
  assumes "sorted (flat gi)" "right \<le> ngroups gi"
  shows "search_between gi grp left right \<longleftrightarrow> (\<exists>i. left \<le> i \<and> i < right \<and> flat gi ! i = grp)"
  using assms
proof (induction gi grp left right rule: search_between.induct)
  case (1 gi grp left right)
  show ?case
  proof (cases "left < right")
    case False
    then show ?thesis by (subst search_between.simps) auto
  next
    case True
    define mid where "mid = (left + right) div 2"
    have m: "left \<le> mid" "mid < right" using True by (auto simp: mid_def)
    have at: "GROUP_AT gi mid = flat gi ! mid" using m 1(4) by (simp add: flat_nth)
    have mono: "i \<le> j \<Longrightarrow> j < ngroups gi \<Longrightarrow> flat gi ! i \<le> flat gi ! j" for i j
      using sorted_nth_mono [OF 1(3)] by simp
    have e: "search_between gi grp left right =
        (if grp > flat gi ! mid then search_between gi grp (mid + 1) right
         else if grp < flat gi ! mid then search_between gi grp left mid else True)"
      using True at by (subst search_between.simps) (simp add: Let_def mid_def [symmetric])
    consider (gt) "grp > flat gi ! mid" | (lt) "grp < flat gi ! mid" | (eq) "grp = flat gi ! mid" by fastforce
    then show ?thesis
    proof cases
      case gt
      have i: "mid < i" if "i < right" "flat gi ! i = grp" for i
        using mono [of i mid] gt that m 1(4) by (meson leD le_less_linear less_le_trans)
      have "search_between gi grp left right \<longleftrightarrow> (\<exists>i. mid + 1 \<le> i \<and> i < right \<and> flat gi ! i = grp)"
        using e gt 1(1) [OF True mid_def] 1(3,4) at by simp
      also have "\<dots> \<longleftrightarrow> (\<exists>i. left \<le> i \<and> i < right \<and> flat gi ! i = grp)"
        by (rule ex_cong1) (use m i in force)
      finally show ?thesis .
    next
      case lt
      have i: "i < mid" if "i < right" "flat gi ! i = grp" for i
        using mono [of mid i] lt that 1(4) by (meson leD le_less_linear less_le_trans)
      have "\<not> flat gi ! mid < grp" using lt by simp
      then have "search_between gi grp left right \<longleftrightarrow> (\<exists>i. left \<le> i \<and> i < mid \<and> flat gi ! i = grp)"
        using e lt 1(2) [OF True mid_def] 1(3,4) at m by simp
      also have "\<dots> \<longleftrightarrow> (\<exists>i. left \<le> i \<and> i < right \<and> flat gi ! i = grp)"
        by (rule ex_cong1) (use m i in force)
      finally show ?thesis .
    next
      case eq
      then show ?thesis using e m by auto
    qed
  qed
qed

lemma groups_search_iff: "sorted (flat gi) \<Longrightarrow> groups_search gi grp \<longleftrightarrow> grp \<in> set (flat gi)"
  using search_between_iff [of gi "ngroups gi" grp 0] by (auto simp: groups_search_def in_set_conv_nth)

section \<open>Copying\<close>

lemma per_block_pos: "0 < NGROUPS_PER_BLOCK"
  by (simp add: NGROUPS_PER_BLOCK_def)

text \<open>Every block is large enough for its share of the ids.\<close>

definition blocks_fit :: "nat \<Rightarrow> u32 list list \<Rightarrow> bool" where
  "blocks_fit cnt bs \<longleftrightarrow> cnt \<le> length bs * NGROUPS_PER_BLOCK \<and>
     (\<forall>k < length bs. min NGROUPS_PER_BLOCK (cnt - k * NGROUPS_PER_BLOCK) \<le> length (bs ! k))"

lemma rest_blocks: "cnt - min (n :: nat) cnt - k * n = cnt - Suc k * n"
  by (simp add: min_def)

lemma blocks_fit_Cons:
  assumes "blocks_fit cnt (b # bs)"
  shows "min NGROUPS_PER_BLOCK cnt \<le> length b" "blocks_fit (cnt - min NGROUPS_PER_BLOCK cnt) bs"
proof -
  show "min NGROUPS_PER_BLOCK cnt \<le> length b" using assms by (auto simp: blocks_fit_def)
  have "min NGROUPS_PER_BLOCK (cnt - min NGROUPS_PER_BLOCK cnt - k * NGROUPS_PER_BLOCK) \<le> length (bs ! k)"
    if "k < length bs" for k
  proof -
    have "min NGROUPS_PER_BLOCK (cnt - Suc k * NGROUPS_PER_BLOCK) \<le> length ((b # bs) ! Suc k)"
      using assms that unfolding blocks_fit_def by (metis Suc_less_eq length_Cons)
    then show ?thesis unfolding rest_blocks by simp
  qed
  then show "blocks_fit (cnt - min NGROUPS_PER_BLOCK cnt) bs"
    using assms by (auto simp: blocks_fit_def min_def)
qed

lemma fit_wf:
  assumes "blocks_fit (ngroups gi) (blocks gi)"
  shows "gi_wf gi"
  unfolding gi_wf_def
proof (intro allI impI)
  fix i assume i: "i < ngroups gi"
  let ?k = "i div NGROUPS_PER_BLOCK"
  have k: "?k < length (blocks gi)"
    using assms i per_block_pos by (simp add: blocks_fit_def div_less_iff_less_mult)
  then have "min NGROUPS_PER_BLOCK (ngroups gi - ?k * NGROUPS_PER_BLOCK) \<le> length (blocks gi ! ?k)"
    using assms by (simp add: blocks_fit_def)
  moreover have "i mod NGROUPS_PER_BLOCK < NGROUPS_PER_BLOCK" using per_block_pos by simp
  moreover have "i mod NGROUPS_PER_BLOCK < ngroups gi - ?k * NGROUPS_PER_BLOCK"
    using i div_mult_mod_eq [of i NGROUPS_PER_BLOCK] by linarith
  ultimately show "?k < length (blocks gi) \<and> i mod NGROUPS_PER_BLOCK < length (blocks gi ! ?k)" using k by simp
qed

lemma alloc_fit:
  assumes "groups_alloc mem junk n = Some gi"
  shows "ngroups gi = n" "blocks_fit n (blocks gi)"
proof -
  show n: "ngroups gi = n" using assms by (auto simp: groups_alloc_def Let_def split: if_splits)
  have "n \<le> (n + NGROUPS_PER_BLOCK - 1) div NGROUPS_PER_BLOCK * NGROUPS_PER_BLOCK"
    using per_block_pos mod_less_divisor [of NGROUPS_PER_BLOCK "n + NGROUPS_PER_BLOCK - 1"]
      div_mult_mod_eq [of "n + NGROUPS_PER_BLOCK - 1" NGROUPS_PER_BLOCK] by linarith
  then show "blocks_fit n (blocks gi)"
    using assms by (auto simp: groups_alloc_def Let_def blocks_fit_def NGROUPS_PER_BLOCK_def split: if_splits)
qed

lemma copy_from_ok:
  assumes "blocks_fit cnt bs" "copy_from_blocks g ok i cnt bs = (0, bs')"
  shows "length bs' = length bs \<and> blocks_fit cnt bs' \<and>
    (\<forall>k < length bs. \<forall>j < min NGROUPS_PER_BLOCK (cnt - k * NGROUPS_PER_BLOCK). bs' ! k ! j = g ((i + k) * NGROUPS_PER_BLOCK + j))"
  using assms
proof (induction bs arbitrary: i cnt bs')
  case Nil
  then show ?case by simp
next
  case (Cons b bs)
  let ?c = "min NGROUPS_PER_BLOCK cnt"
  note f = blocks_fit_Cons [OF Cons.prems(1)]
  obtain r1 bs1 where c: "copy_from_blocks g ok (i + 1) (cnt - ?c) bs = (r1, bs1)" by fastforce
  have bs': "r1 = 0" "bs' = (map (\<lambda>j. g (i * NGROUPS_PER_BLOCK + j)) [0..<?c] @ drop ?c b) # bs1"
    using Cons.prems(2) c by (auto simp: Let_def split: if_splits)
  note ih = Cons.IH [OF f(2) c [unfolded bs'(1)]]
  have at: "bs' ! k ! j = g ((i + k) * NGROUPS_PER_BLOCK + j)"
    if kj: "k < length (b # bs)" "j < min NGROUPS_PER_BLOCK (cnt - k * NGROUPS_PER_BLOCK)" for k j
  proof (cases k)
    case 0
    then show ?thesis using kj by (simp add: bs'(2) nth_append)
  next
    case (Suc k')
    have "j < min NGROUPS_PER_BLOCK (cnt - ?c - k' * NGROUPS_PER_BLOCK)" 
      using kj(2) Suc unfolding rest_blocks by simp
    then have "bs1 ! k' ! j = g ((i + 1 + k') * NGROUPS_PER_BLOCK + j)" using ih kj(1) Suc by simp
    then show ?thesis using Suc by (simp add: bs'(2))
  qed
  have "min NGROUPS_PER_BLOCK (cnt - k * NGROUPS_PER_BLOCK) \<le> length (bs' ! k)" if k: "k < length bs'" for k
  proof (cases k)
    case 0
    then show ?thesis using f(1) by (simp add: bs'(2))
  next
    case (Suc k')
    have "min NGROUPS_PER_BLOCK (cnt - ?c - k' * NGROUPS_PER_BLOCK) \<le> length (bs1 ! k')"
      using ih k Suc by (simp add: blocks_fit_def bs'(2))
    then show ?thesis using Suc unfolding rest_blocks by (simp add: bs'(2))
  qed
  moreover have "length bs' = length (b # bs)" using ih by (simp add: bs'(2))
  ultimately show ?case using at Cons.prems(1) by (simp add: blocks_fit_def)
qed

lemma copy_from_returns: "(\<And>k. ok k) \<Longrightarrow> fst (copy_from_blocks g ok i cnt bs) = 0"
  by (induction bs arbitrary: i cnt) (simp_all add: Let_def split: prod.splits, metis fst_conv)

lemma copy_to_returns: "(\<And>k. ok k) \<Longrightarrow> fst (copy_to_blocks ok i cnt bs) = 0"
  by (induction bs arbitrary: i cnt) (simp_all add: Let_def split: prod.splits, metis fst_conv)

lemma from_user_ok:
  assumes "blocks_fit (ngroups gi) (blocks gi)" "groups_from_user g ok gi = (0, gi')"
  shows "ngroups gi' = ngroups gi" "gi_wf gi'" "blocks_fit (ngroups gi') (blocks gi')" "flat gi' = map g [0..<ngroups gi]"
proof -
  obtain bs where bs: "copy_from_blocks g ok 0 (ngroups gi) (blocks gi) = (0, bs)" "gi' = gi\<lparr>blocks := bs\<rparr>"
    using assms(2) by (auto simp: groups_from_user_def split: prod.splits)
  note c = copy_from_ok [OF assms(1) bs(1)]
  show n: "ngroups gi' = ngroups gi" using bs(2) by simp
  show fit: "blocks_fit (ngroups gi') (blocks gi')" using c bs(2) by simp
  then show "gi_wf gi'" by (rule fit_wf)
  have "GROUP_AT gi' i = g i" if i: "i < ngroups gi" for i
  proof -
    let ?k = "i div NGROUPS_PER_BLOCK" and ?j = "i mod NGROUPS_PER_BLOCK"
    have "?k < length (blocks gi)" using fit_wf [OF assms(1)] i by (simp add: gi_wf_def)
    moreover have "?j < min NGROUPS_PER_BLOCK (ngroups gi - ?k * NGROUPS_PER_BLOCK)"
      using i div_mult_mod_eq [of i NGROUPS_PER_BLOCK] mod_less_divisor [OF per_block_pos, of i] by linarith
    ultimately have "bs ! ?k ! ?j = g ((0 + ?k) * NGROUPS_PER_BLOCK + ?j)" using c by blast
    then show ?thesis using bs(2) div_mult_mod_eq [of i NGROUPS_PER_BLOCK] by (simp add: GROUP_AT_def)
  qed
  then show "flat gi' = map g [0..<ngroups gi]" unfolding flat_def n by simp
qed

lemma wf_fit:
  assumes "gi_wf gi" "ngroups gi \<le> length (blocks gi) * NGROUPS_PER_BLOCK"
  shows "blocks_fit (ngroups gi) (blocks gi)"
  unfolding blocks_fit_def
proof (intro conjI allI impI)
  fix k assume k: "k < length (blocks gi)"
  let ?m = "min NGROUPS_PER_BLOCK (ngroups gi - k * NGROUPS_PER_BLOCK)"
  show "?m \<le> length (blocks gi ! k)"
  proof (cases "?m = 0")
    case False
    let ?i = "k * NGROUPS_PER_BLOCK + (?m - 1)"
    have "?i < ngroups gi" "?m - 1 < NGROUPS_PER_BLOCK" using False by auto
    moreover have "?i div NGROUPS_PER_BLOCK = k" "?i mod NGROUPS_PER_BLOCK = ?m - 1"
      using calculation(2) by (simp_all add: div_mult_self3)
    ultimately have "?m - 1 < length (blocks gi ! k)" using assms(1) unfolding gi_wf_def by metis
    then show ?thesis by linarith
  qed simp
qed (rule assms(2))

lemma copy_to_ok:
  assumes "blocks_fit cnt bs" "copy_to_blocks ok i cnt bs = (0, out)"
  shows "length out = cnt \<and> (\<forall>m < cnt. out ! m = bs ! (m div NGROUPS_PER_BLOCK) ! (m mod NGROUPS_PER_BLOCK))"
  using assms
proof (induction bs arbitrary: i cnt out)
  case Nil
  then show ?case by (simp add: blocks_fit_def)
next
  case (Cons b bs)
  let ?c = "min NGROUPS_PER_BLOCK cnt"
  note f = blocks_fit_Cons [OF Cons.prems(1)]
  obtain r1 out1 where c: "copy_to_blocks ok (i + 1) (cnt - ?c) bs = (r1, out1)" by fastforce
  have out: "r1 = 0" "out = take ?c b @ out1" using Cons.prems(2) c by (auto simp: Let_def split: if_splits)
  note ih = Cons.IH [OF f(2) c [unfolded out(1)]]
  have "out ! m = (b # bs) ! (m div NGROUPS_PER_BLOCK) ! (m mod NGROUPS_PER_BLOCK)" if m: "m < cnt" for m
  proof (cases "m < NGROUPS_PER_BLOCK")
    case True
    then show ?thesis using m f(1) by (simp add: out(2) nth_append)
  next
    case False
    then have d: "m div NGROUPS_PER_BLOCK = Suc ((m - NGROUPS_PER_BLOCK) div NGROUPS_PER_BLOCK)"
      "m mod NGROUPS_PER_BLOCK = (m - NGROUPS_PER_BLOCK) mod NGROUPS_PER_BLOCK"
      using per_block_pos by (simp_all add: le_div_geq le_mod_geq)
    have "?c = NGROUPS_PER_BLOCK" using False m by simp
    then show ?thesis using ih m False f(1) d by (simp add: out(2) nth_append)
  qed
  moreover have "length out = cnt" using ih f(1) by (simp add: out(2))
  ultimately show ?case by simp
qed

lemma to_user_ok:
  assumes "gi_wf gi" "ngroups gi \<le> length (blocks gi) * NGROUPS_PER_BLOCK" "groups_to_user ok gi = (0, out)"
  shows "out = flat gi"
  using copy_to_ok [OF wf_fit [OF assms(1,2)] assms(3) [unfolded groups_to_user_def]]
  by (intro nth_equalityI) (simp_all add: flat_def GROUP_AT_def)

text \<open>The sort keeps the number of blocks.\<close>

lemma group_set_blocks [simp]: "length (blocks (GROUP_SET gi i v)) = length (blocks gi)"
  by (simp add: GROUP_SET_def)

lemma shift_right_blocks: "length (blocks (shift_right s t gi left right)) = length (blocks gi)"
proof (induction s t gi left right rule: shift_right.induct)
  case (1 s t gi left right)
  then show ?case by (subst shift_right.simps) auto
qed

lemma sort_pass_blocks: "length (blocks (sort_pass s gi)) = length (blocks gi)"
proof -
  have "length (blocks (foldl (insert_one s) gi xs)) = length (blocks gi)" for xs
    by (induction xs arbitrary: gi) (simp_all add: insert_one_def shift_right_blocks)
  then show ?thesis by (simp add: sort_pass_def)
qed

lemma sort_passes_blocks: "length (blocks (sort_passes s gi)) = length (blocks gi)"
proof (induction s gi rule: sort_passes.induct)
  case (1 s gi)
  then show ?case by (subst sort_passes.simps) (simp add: sort_pass_blocks)
qed

lemma groups_sort_blocks: "length (blocks (groups_sort gi)) = length (blocks gi)"
  by (simp add: groups_sort_def sort_passes_blocks)

end
