(* ===== verification/Cred.thy ===== *)
theory Cred
  imports CapSet GroupInfo
begin

text \<open>
  Credentials: the capability module \<open>security/commoncap.c\<close>, the system calls of \<open>kernel/capability.c\<close>,
  the set-user-id family of \<open>kernel/sys.c\<close>, the credentials part of \<open>execve\<close> in \<open>fs/exec.c\<close>,
  \<open>commit_creds\<close> of \<open>kernel/cred.c\<close>, and the calls on supplementary groups of \<open>kernel/groups.c\<close>. The security
  hooks are those of the capability module, which is used when no other module is configured. A system call takes the task and returns the result and the
  task; the \<open>PF_SUPERPRIV\<close> accounting flag, keyrings and notifications are left out.
\<close>

section \<open>Data\<close>

record cred =
  uid :: u32
  gid :: u32
  suid :: u32
  sgid :: u32
  euid :: u32
  egid :: u32
  fsuid :: u32
  fsgid :: u32
  securebits :: u32
  cap_inheritable :: kernel_cap_t
  cap_permitted :: kernel_cap_t
  cap_effective :: kernel_cap_t
  cap_bset :: kernel_cap_t
  user :: u32
  groups :: group_info

text \<open>\<open>user\<close> names the \<open>user_struct\<close> by its user id. A task carries its credentials, the fields
  \<open>commit_creds\<close> changes, and the process count of each user.\<close>

record task =
  t_cred :: cred
  t_mm :: bool
  t_dumpable :: int
  t_pdeath_signal :: int
  t_processes :: "u32 \<Rightarrow> int"

abbreviation (input) SECURE_NOROOT :: nat where "SECURE_NOROOT \<equiv> 0"
abbreviation (input) SECURE_NO_SETUID_FIXUP :: nat where "SECURE_NO_SETUID_FIXUP \<equiv> 2"
abbreviation (input) SECURE_KEEP_CAPS :: nat where "SECURE_KEEP_CAPS \<equiv> 4"
abbreviation (input) SECURE_KEEP_CAPS_LOCKED :: nat where "SECURE_KEEP_CAPS_LOCKED \<equiv> 5"

definition issecure_mask :: "nat \<Rightarrow> u32" where
  "issecure_mask x = push_bit x 1"

definition issecure :: "cred \<Rightarrow> nat \<Rightarrow> bool" where
  "issecure current x \<longleftrightarrow> issecure_mask x AND securebits current \<noteq> 0"

definition SECURE_ALL_BITS :: u32 where
  "SECURE_ALL_BITS = issecure_mask SECURE_NOROOT OR issecure_mask SECURE_NO_SETUID_FIXUP OR issecure_mask SECURE_KEEP_CAPS"

definition SECURE_ALL_LOCKS :: u32 where
  "SECURE_ALL_LOCKS = push_bit 1 SECURE_ALL_BITS"

section \<open>Checks\<close>

definition cap_capable :: "cred \<Rightarrow> nat \<Rightarrow> int" where
  "cap_capable cred cap = (if cap_raised (cap_effective cred) cap then 0 else - EPERM)"

text \<open>\<open>capable\<close>: an invalid capability number is a \<open>BUG\<close>; the calls below all pass a valid one.\<close>

definition capable :: "cred \<Rightarrow> nat \<Rightarrow> bool" where
  "capable current cap \<longleftrightarrow> cap_capable current cap = 0"

definition cap_netlink_recv :: "kernel_cap_t \<Rightarrow> nat \<Rightarrow> int" where
  "cap_netlink_recv eff_cap cap = (if \<not> cap_raised eff_cap cap then - EPERM else 0)"

definition cap_settime :: "cred \<Rightarrow> int" where
  "cap_settime current = (if \<not> capable current CAP_SYS_TIME then - EPERM else 0)"

definition cap_ptrace_access_check :: "cred \<Rightarrow> cred \<Rightarrow> int" where
  "cap_ptrace_access_check current child =
    (if \<not> cap_issubset (cap_permitted child) (cap_permitted current) \<and> \<not> capable current CAP_SYS_PTRACE
     then - EPERM else 0)"

definition cap_ptrace_traceme :: "cred \<Rightarrow> cred \<Rightarrow> int" where
  "cap_ptrace_traceme current parent =
    (if \<not> cap_issubset (cap_permitted current) (cap_permitted parent) \<and> cap_capable parent CAP_SYS_PTRACE \<noteq> 0
     then - EPERM else 0)"

definition cap_safe_nice :: "cred \<Rightarrow> cred \<Rightarrow> int" where
  "cap_safe_nice current p =
    (if \<not> cap_issubset (cap_permitted p) (cap_permitted current) \<and> \<not> capable current CAP_SYS_NICE
     then - EPERM else 0)"

definition XATTR_SECURITY_PREFIX :: string where
  "XATTR_SECURITY_PREFIX = ''security.''"

definition XATTR_NAME_CAPS :: string where
  "XATTR_NAME_CAPS = ''security.capability''"

definition cap_inode_setxattr :: "cred \<Rightarrow> string \<Rightarrow> int" where
  "cap_inode_setxattr current name =
    (if name = XATTR_NAME_CAPS then (if \<not> capable current CAP_SETFCAP then - EPERM else 0)
     else if take (length XATTR_SECURITY_PREFIX) name = XATTR_SECURITY_PREFIX \<and> \<not> capable current CAP_SYS_ADMIN
     then - EPERM else 0)"

definition cap_inode_removexattr :: "cred \<Rightarrow> string \<Rightarrow> int" where
  "cap_inode_removexattr current name =
    (if name = XATTR_NAME_CAPS then (if \<not> capable current CAP_SETFCAP then - EPERM else 0)
     else if take (length XATTR_SECURITY_PREFIX) name = XATTR_SECURITY_PREFIX \<and> \<not> capable current CAP_SYS_ADMIN
     then - EPERM else 0)"

datatype syslog_action = SYSLOG_ACTION_OPEN | SYSLOG_ACTION_READ_ALL | SYSLOG_ACTION_SIZE_BUFFER | SYSLOG_ACTION_OTHER

definition cap_syslog :: "cred \<Rightarrow> syslog_action \<Rightarrow> bool \<Rightarrow> int" where
  "cap_syslog current type from_file =
    (if type \<noteq> SYSLOG_ACTION_OPEN \<and> from_file then 0
     else if (type \<noteq> SYSLOG_ACTION_READ_ALL \<and> type \<noteq> SYSLOG_ACTION_SIZE_BUFFER) \<and> \<not> capable current CAP_SYS_ADMIN
     then - EPERM else 0)"

definition cap_file_mmap :: "u32 \<Rightarrow> cred \<Rightarrow> u32 \<Rightarrow> int" where
  "cap_file_mmap dac_mmap_min_addr current addr =
    (if addr < dac_mmap_min_addr then cap_capable current CAP_SYS_RAWIO else 0)"

section \<open>Installing credentials\<close>

definition commit_creds :: "int \<Rightarrow> task \<Rightarrow> cred \<Rightarrow> task" where
  "commit_creds suid_dumpable t new =
    (let old = t_cred t;
         t1 = (if euid old \<noteq> euid new \<or> egid old \<noteq> egid new \<or> fsuid old \<noteq> fsuid new \<or> fsgid old \<noteq> fsgid new \<or>
                 \<not> cap_issubset (cap_permitted new) (cap_permitted old)
               then t\<lparr>t_dumpable := (if t_mm t then suid_dumpable else t_dumpable t), t_pdeath_signal := 0\<rparr>
               else t);
         procs = t_processes t1
     in t1\<lparr>t_cred := new, t_processes :=
         (if user new \<noteq> user old then (procs(user new := procs (user new) + 1))(user old := procs (user old) - 1) else procs)\<rparr>)"

section \<open>Supplementary groups\<close>

definition in_group_p :: "cred \<Rightarrow> u32 \<Rightarrow> bool" where
  "in_group_p cred grp \<longleftrightarrow> (if grp \<noteq> fsgid cred then groups_search (groups cred) grp else True)"

definition in_egroup_p :: "cred \<Rightarrow> u32 \<Rightarrow> bool" where
  "in_egroup_p cred grp \<longleftrightarrow> (if grp \<noteq> egid cred then groups_search (groups cred) grp else True)"

definition set_groups :: "cred \<Rightarrow> group_info \<Rightarrow> cred" where
  "set_groups new gi = new\<lparr>groups := groups_sort gi\<rparr>"

definition set_current_groups :: "int \<Rightarrow> bool \<Rightarrow> task \<Rightarrow> group_info \<Rightarrow> int \<times> task" where
  "set_current_groups suid_dumpable mem t gi =
    (if \<not> mem then (- ENOMEM, t) else (0, commit_creds suid_dumpable t (set_groups (t_cred t) gi)))"

text \<open>The number of groups and what is written to the user's array.\<close>

definition sys_getgroups :: "cred \<Rightarrow> int \<Rightarrow> (nat \<Rightarrow> bool) \<Rightarrow> int \<times> u32 list" where
  "sys_getgroups cred gidsetsize ok =
    (let i = int (ngroups (groups cred))
     in if gidsetsize < 0 then (- EINVAL, [])
        else if gidsetsize \<noteq> 0 then
          (if i > gidsetsize then (- EINVAL, [])
           else (case groups_to_user ok (groups cred) of (r, out) \<Rightarrow> if r \<noteq> 0 then (- EFAULT, out) else (i, out)))
        else (i, []))"

text \<open>\<open>amem\<close> tells whether the array can be allocated, \<open>cmem\<close> whether the credentials can.\<close>

definition sys_setgroups ::
  "int \<Rightarrow> bool \<Rightarrow> (nat \<Rightarrow> nat \<Rightarrow> u32) \<Rightarrow> bool \<Rightarrow> task \<Rightarrow> int \<Rightarrow> (nat \<Rightarrow> u32) \<Rightarrow> (nat \<Rightarrow> bool) \<Rightarrow> int \<times> task" where
  "sys_setgroups suid_dumpable amem junk cmem t gidsetsize grouplist ok =
    (if \<not> capable (t_cred t) CAP_SETGID then (- EPERM, t)
     else if gidsetsize < 0 \<or> gidsetsize > int NGROUPS_MAX then (- EINVAL, t)
     else (case groups_alloc amem junk (nat gidsetsize) of
         None \<Rightarrow> (- ENOMEM, t)
       | Some gi \<Rightarrow>
          (case groups_from_user grouplist ok gi of
             (retval, gi') \<Rightarrow> if retval \<noteq> 0 then (retval, t) else set_current_groups suid_dumpable cmem t gi')))"

section \<open>\<open>capget\<close> and \<open>capset\<close>\<close>

definition cap_inh_is_capped :: "cred \<Rightarrow> bool" where
  "cap_inh_is_capped current \<longleftrightarrow> \<not> cap_capable current CAP_SETPCAP = 0"

definition cap_capset :: "cred \<Rightarrow> cred \<Rightarrow> kernel_cap_t \<Rightarrow> kernel_cap_t \<Rightarrow> kernel_cap_t \<Rightarrow> int \<times> cred" where
  "cap_capset new old effective inheritable permitted =
    (if cap_inh_is_capped old \<and> \<not> cap_issubset inheritable (cap_combine (cap_inheritable old) (cap_permitted old))
     then (- EPERM, new)
     else if \<not> cap_issubset inheritable (cap_combine (cap_inheritable old) (cap_bset old)) then (- EPERM, new)
     else if \<not> cap_issubset permitted (cap_permitted old) then (- EPERM, new)
     else if \<not> cap_issubset effective permitted then (- EPERM, new)
     else (0, new\<lparr>cap_effective := effective, cap_inheritable := inheritable, cap_permitted := permitted\<rparr>))"

abbreviation (input) LINUX_CAPABILITY_VERSION_1 :: u32 where "LINUX_CAPABILITY_VERSION_1 \<equiv> 0x19980330"
abbreviation (input) LINUX_CAPABILITY_VERSION_2 :: u32 where "LINUX_CAPABILITY_VERSION_2 \<equiv> 0x20071026"
abbreviation (input) LINUX_CAPABILITY_VERSION_3 :: u32 where "LINUX_CAPABILITY_VERSION_3 \<equiv> 0x20080522"

text \<open>The user's header; \<open>None\<close> where it cannot be read. \<open>h_writable\<close> tells whether the version can be
  written back.\<close>

record cap_header =
  h_version :: "u32 option"
  h_pid :: "int option"
  h_writable :: bool

text \<open>The error, the number of words, and the header.\<close>

definition cap_validate_magic :: "cap_header \<Rightarrow> int \<times> nat \<times> cap_header" where
  "cap_validate_magic header =
    (case h_version header of
       None \<Rightarrow> (- EFAULT, 0, header)
     | Some version \<Rightarrow>
        if version = LINUX_CAPABILITY_VERSION_1 then (0, 1, header)
        else if version = LINUX_CAPABILITY_VERSION_2 \<or> version = LINUX_CAPABILITY_VERSION_3 then (0, 2, header)
        else if \<not> h_writable header then (- EFAULT, 0, header)
        else (- EINVAL, 0, header\<lparr>h_version := Some LINUX_CAPABILITY_VERSION_3\<rparr>))"

record user_cap_data =
  d_effective :: u32
  d_permitted :: u32
  d_inheritable :: u32

definition cap_get_target_pid :: "(int \<Rightarrow> cred option) \<Rightarrow> int \<Rightarrow> cred \<Rightarrow> int \<Rightarrow> int + cred" where
  "cap_get_target_pid find_task current_pid current pid =
    (if pid \<noteq> 0 \<and> pid \<noteq> current_pid
     then (case find_task pid of None \<Rightarrow> Inl (- ESRCH) | Some target \<Rightarrow> Inr target)
     else Inr current)"

definition cap_data_at :: "cred \<Rightarrow> nat \<Rightarrow> user_cap_data" where
  "cap_data_at c i = \<lparr>d_effective = cap_word (cap_effective c) i, d_permitted = cap_word (cap_permitted c) i,
     d_inheritable = cap_word (cap_inheritable c) i\<rparr>"

text \<open>\<open>dataptr\<close> is false for a null pointer, \<open>data_ok\<close> false where the data cannot be written.\<close>

definition sys_capget ::
  "(int \<Rightarrow> cred option) \<Rightarrow> int \<Rightarrow> cred \<Rightarrow> cap_header \<Rightarrow> bool \<Rightarrow> bool \<Rightarrow> int \<times> user_cap_data list \<times> cap_header" where
  "sys_capget find_task current_pid current header dataptr data_ok =
    (case cap_validate_magic header of (ret, tocopy, header') \<Rightarrow>
       if \<not> dataptr \<or> ret \<noteq> 0 then ((if \<not> dataptr \<and> ret = - EINVAL then 0 else ret), [], header')
       else (case h_pid header' of
           None \<Rightarrow> (- EFAULT, [], header')
         | Some pid \<Rightarrow>
            if pid < 0 then (- EINVAL, [], header')
            else (case cap_get_target_pid find_task current_pid current pid of
                Inl e \<Rightarrow> (e, [], header')
              | Inr c \<Rightarrow>
                 if \<not> data_ok then (- EFAULT, [], header')
                 else (0, map (cap_data_at c) [0..<tocopy], header'))))"

text \<open>Filling a set from \<open>tocopy\<close> words of the user's data, the rest with zero.\<close>

definition cap_from_words :: "nat \<Rightarrow> (nat \<Rightarrow> u32) \<Rightarrow> kernel_cap_t" where
  "cap_from_words tocopy w = Cap (if 0 < tocopy then w 0 else 0) (if 1 < tocopy then w 1 else 0)"

text \<open>The user's data is \<open>None\<close> where it cannot be read; \<open>mem\<close> tells whether \<open>prepare_creds\<close> finds memory.\<close>

definition sys_capset ::
  "int \<Rightarrow> bool \<Rightarrow> int \<Rightarrow> task \<Rightarrow> cap_header \<Rightarrow> (nat \<Rightarrow> user_cap_data) option \<Rightarrow> int \<times> task \<times> cap_header" where
  "sys_capset suid_dumpable mem current_pid t header data =
    (case cap_validate_magic header of (ret, tocopy, header') \<Rightarrow>
       if ret \<noteq> 0 then (ret, t, header')
       else (case h_pid header' of
           None \<Rightarrow> (- EFAULT, t, header')
         | Some pid \<Rightarrow>
            if pid \<noteq> 0 \<and> pid \<noteq> current_pid then (- EPERM, t, header')
            else (case data of
                None \<Rightarrow> (- EFAULT, t, header')
              | Some kdata \<Rightarrow>
                 if \<not> mem then (- ENOMEM, t, header')
                 else (case cap_capset (t_cred t) (t_cred t) (cap_from_words tocopy (\<lambda>i. d_effective (kdata i)))
                        (cap_from_words tocopy (\<lambda>i. d_inheritable (kdata i)))
                        (cap_from_words tocopy (\<lambda>i. d_permitted (kdata i))) of
                     (ret', new) \<Rightarrow> if ret' < 0 then (ret', t, header') else (0, commit_creds suid_dumpable t new, header')))))"

section \<open>Following a change of user ids\<close>

definition cap_emulate_setxuid :: "cred \<Rightarrow> cred \<Rightarrow> cred" where
  "cap_emulate_setxuid new old =
    (let n1 = (if (uid old = 0 \<or> euid old = 0 \<or> suid old = 0) \<and> (uid new \<noteq> 0 \<and> euid new \<noteq> 0 \<and> suid new \<noteq> 0) \<and>
                 \<not> issecure old SECURE_KEEP_CAPS
               then new\<lparr>cap_permitted := CAP_EMPTY_SET, cap_effective := CAP_EMPTY_SET\<rparr> else new);
         n2 = (if euid old = 0 \<and> euid n1 \<noteq> 0 then n1\<lparr>cap_effective := CAP_EMPTY_SET\<rparr> else n1)
     in if euid old \<noteq> 0 \<and> euid n2 = 0 then n2\<lparr>cap_effective := cap_permitted n2\<rparr> else n2)"

datatype setid_flags = LSM_SETID_ID | LSM_SETID_RE | LSM_SETID_RES | LSM_SETID_FS | LSM_SETID_OTHER

definition cap_task_fix_setuid :: "cred \<Rightarrow> cred \<Rightarrow> setid_flags \<Rightarrow> int \<times> cred" where
  "cap_task_fix_setuid new old flags =
    (if flags = LSM_SETID_RE \<or> flags = LSM_SETID_ID \<or> flags = LSM_SETID_RES then
       (0, if \<not> issecure old SECURE_NO_SETUID_FIXUP then cap_emulate_setxuid new old else new)
     else if flags = LSM_SETID_FS then
       (0, if \<not> issecure old SECURE_NO_SETUID_FIXUP then
             (let n1 = (if fsuid old = 0 \<and> fsuid new \<noteq> 0
                        then new\<lparr>cap_effective := cap_drop_fs_set (cap_effective new)\<rparr> else new)
              in if fsuid old \<noteq> 0 \<and> fsuid n1 = 0
                 then n1\<lparr>cap_effective := cap_raise_fs_set (cap_effective n1) (cap_permitted n1)\<rparr> else n1)
           else new)
     else (- EINVAL, new))"

section \<open>The set-user-id family\<close>

text \<open>What the calls find: whether \<open>prepare_creds\<close> and \<open>alloc_uid\<close> find memory, the limit on processes, and
  the configured \<open>suid_dumpable\<close>. A \<open>None\<close> argument is \<open>(uid_t) -1\<close>.\<close>

record cred_env =
  ce_mem :: bool
  ce_alloc_uid :: bool
  ce_nproc :: int
  ce_suid_dumpable :: int

definition set_user :: "cred_env \<Rightarrow> (u32 \<Rightarrow> int) \<Rightarrow> cred \<Rightarrow> int \<times> cred" where
  "set_user env processes new =
    (if \<not> ce_alloc_uid env then (- EAGAIN, new)
     else if processes (uid new) \<ge> ce_nproc env \<and> uid new \<noteq> 0 then (- EAGAIN, new)
     else (0, new\<lparr>user := uid new\<rparr>))"

text \<open>The end of the calls: fix up the capabilities and install the credentials.\<close>

definition fix_and_commit :: "cred_env \<Rightarrow> task \<Rightarrow> cred \<Rightarrow> setid_flags \<Rightarrow> int \<times> task" where
  "fix_and_commit env t new flags =
    (case cap_task_fix_setuid new (t_cred t) flags of
       (retval, new') \<Rightarrow> if retval < 0 then (retval, t) else (0, commit_creds (ce_suid_dumpable env) t new'))"

abbreviation (input) NO_ID :: u32 where "NO_ID \<equiv> 0xFFFFFFFF"

definition sys_setreuid :: "cred_env \<Rightarrow> task \<Rightarrow> u32 \<Rightarrow> u32 \<Rightarrow> int \<times> task" where
  "sys_setreuid env t ruid euid' =
    (let old = t_cred t
     in if \<not> ce_mem env then (- ENOMEM, t)
        else if ruid \<noteq> NO_ID \<and> uid old \<noteq> ruid \<and> euid old \<noteq> ruid \<and> \<not> capable old CAP_SETUID then (- EPERM, t)
        else (let n1 = (if ruid \<noteq> NO_ID then old\<lparr>uid := ruid\<rparr> else old)
          in if euid' \<noteq> NO_ID \<and> uid old \<noteq> euid' \<and> euid old \<noteq> euid' \<and> suid old \<noteq> euid' \<and> \<not> capable old CAP_SETUID
             then (- EPERM, t)
             else (let n2 = (if euid' \<noteq> NO_ID then n1\<lparr>euid := euid'\<rparr> else n1);
                       (retval, n3) = (if uid n2 \<noteq> uid old then set_user env (t_processes t) n2 else (0, n2))
               in if retval < 0 then (retval, t)
                  else (let n4 = (if ruid \<noteq> NO_ID \<or> (euid' \<noteq> NO_ID \<and> euid' \<noteq> uid old) then n3\<lparr>suid := euid n3\<rparr> else n3);
                            n5 = n4\<lparr>fsuid := euid n4\<rparr>
                    in fix_and_commit env t n5 LSM_SETID_RE))))"

definition sys_setuid :: "cred_env \<Rightarrow> task \<Rightarrow> u32 \<Rightarrow> int \<times> task" where
  "sys_setuid env t uid' =
    (let old = t_cred t
     in if \<not> ce_mem env then (- ENOMEM, t)
        else if capable old CAP_SETUID then
          (let n1 = old\<lparr>uid := uid', suid := uid'\<rparr>;
               (retval, n2) = (if uid' \<noteq> uid old then set_user env (t_processes t) n1 else (0, n1))
           in if retval < 0 then (retval, t)
              else fix_and_commit env t (n2\<lparr>euid := uid', fsuid := uid'\<rparr>) LSM_SETID_ID)
        else if uid' \<noteq> uid old \<and> uid' \<noteq> suid old then (- EPERM, t)
        else fix_and_commit env t (old\<lparr>euid := uid', fsuid := uid'\<rparr>) LSM_SETID_ID)"

definition id_allowed :: "u32 \<Rightarrow> u32 \<Rightarrow> u32 \<Rightarrow> u32 \<Rightarrow> bool" where
  "id_allowed i a b c \<longleftrightarrow> \<not> (i \<noteq> NO_ID \<and> i \<noteq> a \<and> i \<noteq> b \<and> i \<noteq> c)"

definition sys_setresuid :: "cred_env \<Rightarrow> task \<Rightarrow> u32 \<Rightarrow> u32 \<Rightarrow> u32 \<Rightarrow> int \<times> task" where
  "sys_setresuid env t ruid euid' suid' =
    (let old = t_cred t; ok = (\<lambda>i. id_allowed i (uid old) (euid old) (suid old))
     in if \<not> ce_mem env then (- ENOMEM, t)
        else if \<not> capable old CAP_SETUID \<and> (\<not> ok ruid \<or> \<not> ok euid' \<or> \<not> ok suid') then (- EPERM, t)
        else (let (retval, n1) =
                (if ruid \<noteq> NO_ID then
                   (let n0 = old\<lparr>uid := ruid\<rparr> in if ruid \<noteq> uid old then set_user env (t_processes t) n0 else (0, n0))
                 else (0, old))
          in if retval < 0 then (retval, t)
             else (let n2 = (if euid' \<noteq> NO_ID then n1\<lparr>euid := euid'\<rparr> else n1);
                       n3 = (if suid' \<noteq> NO_ID then n2\<lparr>suid := suid'\<rparr> else n2);
                       n4 = n3\<lparr>fsuid := euid n3\<rparr>
               in fix_and_commit env t n4 LSM_SETID_RES)))"

text \<open>\<open>setfsuid\<close> always returns the old value.\<close>

definition sys_setfsuid :: "cred_env \<Rightarrow> task \<Rightarrow> u32 \<Rightarrow> u32 \<times> task" where
  "sys_setfsuid env t uid' =
    (let old = t_cred t
     in if \<not> ce_mem env then (fsuid old, t)
        else if (uid' = uid old \<or> uid' = euid old \<or> uid' = suid old \<or> uid' = fsuid old \<or> capable old CAP_SETUID) \<and>
            uid' \<noteq> fsuid old
        then (case cap_task_fix_setuid (old\<lparr>fsuid := uid'\<rparr>) old LSM_SETID_FS of
                (retval, new) \<Rightarrow> if retval = 0 then (fsuid old, commit_creds (ce_suid_dumpable env) t new) else (fsuid old, t))
        else (fsuid old, t))"

definition sys_setregid :: "cred_env \<Rightarrow> task \<Rightarrow> u32 \<Rightarrow> u32 \<Rightarrow> int \<times> task" where
  "sys_setregid env t rgid egid' =
    (let old = t_cred t
     in if \<not> ce_mem env then (- ENOMEM, t)
        else if rgid \<noteq> NO_ID \<and> \<not> (gid old = rgid \<or> egid old = rgid \<or> capable old CAP_SETGID) then (- EPERM, t)
        else (let n1 = (if rgid \<noteq> NO_ID then old\<lparr>gid := rgid\<rparr> else old)
          in if egid' \<noteq> NO_ID \<and> \<not> (gid old = egid' \<or> egid old = egid' \<or> sgid old = egid' \<or> capable old CAP_SETGID)
             then (- EPERM, t)
             else (let n2 = (if egid' \<noteq> NO_ID then n1\<lparr>egid := egid'\<rparr> else n1);
                       n3 = (if rgid \<noteq> NO_ID \<or> (egid' \<noteq> NO_ID \<and> egid' \<noteq> gid old) then n2\<lparr>sgid := egid n2\<rparr> else n2)
               in (0, commit_creds (ce_suid_dumpable env) t (n3\<lparr>fsgid := egid n3\<rparr>)))))"

definition sys_setgid :: "cred_env \<Rightarrow> task \<Rightarrow> u32 \<Rightarrow> int \<times> task" where
  "sys_setgid env t gid' =
    (let old = t_cred t
     in if \<not> ce_mem env then (- ENOMEM, t)
        else if capable old CAP_SETGID then
          (0, commit_creds (ce_suid_dumpable env) t (old\<lparr>gid := gid', egid := gid', sgid := gid', fsgid := gid'\<rparr>))
        else if gid' = gid old \<or> gid' = sgid old then
          (0, commit_creds (ce_suid_dumpable env) t (old\<lparr>egid := gid', fsgid := gid'\<rparr>))
        else (- EPERM, t))"

definition sys_setresgid :: "cred_env \<Rightarrow> task \<Rightarrow> u32 \<Rightarrow> u32 \<Rightarrow> u32 \<Rightarrow> int \<times> task" where
  "sys_setresgid env t rgid egid' sgid' =
    (let old = t_cred t; ok = (\<lambda>i. id_allowed i (gid old) (egid old) (sgid old))
     in if \<not> ce_mem env then (- ENOMEM, t)
        else if \<not> capable old CAP_SETGID \<and> (\<not> ok rgid \<or> \<not> ok egid' \<or> \<not> ok sgid') then (- EPERM, t)
        else (let n1 = (if rgid \<noteq> NO_ID then old\<lparr>gid := rgid\<rparr> else old);
                  n2 = (if egid' \<noteq> NO_ID then n1\<lparr>egid := egid'\<rparr> else n1);
                  n3 = (if sgid' \<noteq> NO_ID then n2\<lparr>sgid := sgid'\<rparr> else n2)
          in (0, commit_creds (ce_suid_dumpable env) t (n3\<lparr>fsgid := egid n3\<rparr>))))"

definition sys_setfsgid :: "cred_env \<Rightarrow> task \<Rightarrow> u32 \<Rightarrow> u32 \<times> task" where
  "sys_setfsgid env t gid' =
    (let old = t_cred t
     in if \<not> ce_mem env then (fsgid old, t)
        else if (gid' = gid old \<or> gid' = egid old \<or> gid' = sgid old \<or> gid' = fsgid old \<or> capable old CAP_SETGID) \<and>
            gid' \<noteq> fsgid old
        then (fsgid old, commit_creds (ce_suid_dumpable env) t (old\<lparr>fsgid := gid'\<rparr>))
        else (fsgid old, t))"

section \<open>\<open>prctl\<close>\<close>

datatype prctl_option = PR_CAPBSET_READ | PR_CAPBSET_DROP | PR_SET_SECUREBITS | PR_GET_SECUREBITS
  | PR_GET_KEEPCAPS | PR_SET_KEEPCAPS | PR_OTHER

definition cap_prctl_drop :: "cred \<Rightarrow> cred \<Rightarrow> u32 \<Rightarrow> int \<times> cred" where
  "cap_prctl_drop current new cap =
    (if \<not> capable current CAP_SETPCAP then (- EPERM, new)
     else if \<not> cap_valid (unat cap) then (- EINVAL, new)
     else (0, new\<lparr>cap_bset := cap_lower (cap_bset new) (unat cap)\<rparr>))"

definition cap_task_prctl :: "cred_env \<Rightarrow> task \<Rightarrow> prctl_option \<Rightarrow> u32 \<Rightarrow> int \<times> task" where
  "cap_task_prctl env t option arg2 =
    (let new = t_cred t; commit = commit_creds (ce_suid_dumpable env) t
     in if \<not> ce_mem env then (- ENOMEM, t)
        else (case option of
          PR_CAPBSET_READ \<Rightarrow>
            if \<not> cap_valid (unat arg2) then (- EINVAL, t)
            else ((if cap_raised (cap_bset new) (unat arg2) then 1 else 0), t)
        | PR_CAPBSET_DROP \<Rightarrow>
            (case cap_prctl_drop (t_cred t) new arg2 of (error, new') \<Rightarrow> if error < 0 then (error, t) else (0, commit new'))
        | PR_SET_SECUREBITS \<Rightarrow>
            if drop_bit 1 (securebits new AND SECURE_ALL_LOCKS) AND (securebits new XOR arg2) \<noteq> 0 \<or>
               securebits new AND SECURE_ALL_LOCKS AND NOT arg2 \<noteq> 0 \<or>
               arg2 AND NOT (SECURE_ALL_LOCKS OR SECURE_ALL_BITS) \<noteq> 0 \<or>
               cap_capable (t_cred t) CAP_SETPCAP \<noteq> 0
            then (- EPERM, t)
            else (0, commit (new\<lparr>securebits := arg2\<rparr>))
        | PR_GET_SECUREBITS \<Rightarrow> (sint (securebits new), t)
        | PR_GET_KEEPCAPS \<Rightarrow> ((if issecure (t_cred t) SECURE_KEEP_CAPS then 1 else 0), t)
        | PR_SET_KEEPCAPS \<Rightarrow>
            if arg2 > 1 then (- EINVAL, t)
            else if issecure (t_cred t) SECURE_KEEP_CAPS_LOCKED then (- EPERM, t)
            else (0, commit (new\<lparr>securebits :=
               (if arg2 \<noteq> 0 then securebits new OR issecure_mask SECURE_KEEP_CAPS
                else securebits new AND NOT (issecure_mask SECURE_KEEP_CAPS))\<rparr>))
        | PR_OTHER \<Rightarrow> (- ENOSYS, t)))"

section \<open>\<open>execve\<close>\<close>

text \<open>The program file: mode, owner, group, whether it is on a \<open>nosuid\<close> mount, whether it has file operations
  and a \<open>getxattr\<close> operation, and what that operation answers for the capability attribute: an error
  (negative) or the bytes, at most \<open>XATTR_CAPS_SZ\<close> of them.\<close>

record exec_file =
  ef_mode :: u16
  ef_uid :: u32
  ef_gid :: u32
  ef_nosuid :: bool
  ef_fop :: bool
  ef_has_getxattr :: bool
  ef_getxattr :: "int + u8 list"

abbreviation (input) S_ISUID :: u16 where "S_ISUID \<equiv> 0x800"
abbreviation (input) S_ISGID :: u16 where "S_ISGID \<equiv> 0x400"
abbreviation (input) S_IXGRP :: u16 where "S_IXGRP \<equiv> 8"

record linux_binprm =
  b_cred :: cred
  b_cap_effective :: bool
  b_unsafe :: u32
  b_setid :: bool
  b_cred_prepared :: bool

record cpu_vfs_cap_data =
  magic_etc :: u32
  v_permitted :: kernel_cap_t
  v_inheritable :: kernel_cap_t

definition bprm_clear_caps :: "linux_binprm \<Rightarrow> linux_binprm" where
  "bprm_clear_caps bprm = bprm\<lparr>b_cred := (b_cred bprm)\<lparr>cap_permitted := CAP_EMPTY_SET\<rparr>, b_cap_effective := False\<rparr>"

abbreviation (input) VFS_CAP_REVISION_MASK :: u32 where "VFS_CAP_REVISION_MASK \<equiv> 0xFF000000"
abbreviation (input) VFS_CAP_FLAGS_EFFECTIVE :: u32 where "VFS_CAP_FLAGS_EFFECTIVE \<equiv> 1"
abbreviation (input) VFS_CAP_REVISION_1 :: u32 where "VFS_CAP_REVISION_1 \<equiv> 0x01000000"
abbreviation (input) VFS_CAP_REVISION_2 :: u32 where "VFS_CAP_REVISION_2 \<equiv> 0x02000000"

text \<open>The word at byte offset \<open>off\<close> of the attribute.\<close>

definition xattr_word :: "u8 list \<Rightarrow> nat \<Rightarrow> u32" where
  "xattr_word bs off = le32 (take 4 (drop off bs))"

definition vfs_caps :: "u32 \<Rightarrow> u8 list \<Rightarrow> nat \<Rightarrow> cpu_vfs_cap_data" where
  "vfs_caps magic bs tocopy = \<lparr>magic_etc = magic,
     v_permitted = cap_from_words tocopy (\<lambda>i. xattr_word bs (4 + 8 * i)),
     v_inheritable = cap_from_words tocopy (\<lambda>i. xattr_word bs (8 + 8 * i))\<rparr>"

definition get_vfs_caps_from_disk :: "exec_file \<Rightarrow> int + cpu_vfs_cap_data" where
  "get_vfs_caps_from_disk f =
    (if \<not> ef_has_getxattr f then Inl (- ENODATA)
     else (case ef_getxattr f of
         Inl sz \<Rightarrow> if sz = - ENODATA \<or> sz = - EOPNOTSUPP then Inl (- ENODATA) else Inl sz
       | Inr bs \<Rightarrow>
          if length bs < 4 then Inl (- EINVAL)
          else (let magic = xattr_word bs 0; revision = magic AND VFS_CAP_REVISION_MASK
            in if revision = VFS_CAP_REVISION_1 then
                 (if length bs \<noteq> 12 then Inl (- EINVAL) else Inr (vfs_caps magic bs 1))
               else if revision = VFS_CAP_REVISION_2 then
                 (if length bs \<noteq> 20 then Inl (- EINVAL) else Inr (vfs_caps magic bs 2))
               else Inl (- EINVAL))))"

text \<open>\<open>pP' = (X & fP) | (pI & fI)\<close>, and the error for a file with the effective flag that does not get all it
  asks for. The result is the error, whether the file's effective flag is set, and the new structure.\<close>

definition bprm_caps_from_vfs_caps :: "cpu_vfs_cap_data \<Rightarrow> linux_binprm \<Rightarrow> int \<times> bool \<times> linux_binprm" where
  "bprm_caps_from_vfs_caps vcaps bprm =
    (let new = b_cred bprm;
         effective = (magic_etc vcaps AND VFS_CAP_FLAGS_EFFECTIVE \<noteq> 0);
         word = (\<lambda>i. cap_word (cap_bset new) i AND cap_word (v_permitted vcaps) i OR
                     cap_word (cap_inheritable new) i AND cap_word (v_inheritable vcaps) i);
         permitted = Cap (word 0) (word 1);
         missing = (\<exists>i \<in> set [0..<2]. cap_word (v_permitted vcaps) i AND NOT (cap_word permitted i) \<noteq> 0)
     in ((if effective \<and> missing then - EPERM else 0), effective, bprm\<lparr>b_cred := new\<lparr>cap_permitted := permitted\<rparr>\<rparr>))"

definition get_file_caps :: "bool \<Rightarrow> exec_file \<Rightarrow> linux_binprm \<Rightarrow> int \<times> bool \<times> linux_binprm" where
  "get_file_caps file_caps_enabled f bprm =
    (let b1 = bprm_clear_caps bprm
     in if \<not> file_caps_enabled then (0, False, b1)
        else if ef_nosuid f then (0, False, b1)
        else (case get_vfs_caps_from_disk f of
            Inl rc \<Rightarrow> if rc = - ENODATA then (0, False, b1) else (rc, False, bprm_clear_caps b1)
          | Inr vcaps \<Rightarrow>
             (case bprm_caps_from_vfs_caps vcaps b1 of
                (rc, effective, b2) \<Rightarrow> (rc, effective, if rc \<noteq> 0 then bprm_clear_caps b2 else b2))))"

abbreviation (input) LSM_UNSAFE_PTRACE_CAP :: u32 where "LSM_UNSAFE_PTRACE_CAP \<equiv> 4"

text \<open>What \<open>execve\<close> finds: the kernel parameter, whether the task is init, the answer of the audit system.\<close>

record exec_env =
  xe_file_caps_enabled :: bool
  xe_is_init :: bool
  xe_audit :: int
  xe_mem :: bool
  xe_suid_dumpable :: int

text \<open>The parts of \<open>cap_bprm_set_creds\<close>: the special treatment of root, the downgrade of a traced or shared
  process, the saved and file system ids, and the effective set.\<close>

definition root_caps :: "cred \<Rightarrow> bool \<Rightarrow> cred \<Rightarrow> bool \<times> cred" where
  "root_caps old effective new =
    (if \<not> issecure old SECURE_NOROOT then
       (if effective \<and> uid new \<noteq> 0 \<and> euid new = 0 then (effective, new)
        else ((if euid new = 0 then True else effective),
              if euid new = 0 \<or> uid new = 0
              then new\<lparr>cap_permitted := cap_combine (cap_bset old) (cap_inheritable old)\<rparr> else new))
     else (effective, new))"

definition exec_downgrade :: "cred \<Rightarrow> u32 \<Rightarrow> cred \<Rightarrow> cred" where
  "exec_downgrade old unsafe new =
    (if (euid new \<noteq> uid old \<or> egid new \<noteq> gid old \<or> \<not> cap_issubset (cap_permitted new) (cap_permitted old)) \<and>
        unsafe AND NOT LSM_UNSAFE_PTRACE_CAP \<noteq> 0
     then (let n1 = (if \<not> capable old CAP_SETUID then new\<lparr>euid := uid new, egid := gid new\<rparr> else new)
           in n1\<lparr>cap_permitted := cap_intersect (cap_permitted n1) (cap_permitted old)\<rparr>)
     else new)"

definition exec_effective :: "bool \<Rightarrow> bool \<Rightarrow> cred \<Rightarrow> cred" where
  "exec_effective is_init effective new =
    (if is_init then new
     else if effective then new\<lparr>cap_effective := cap_permitted new\<rparr> else new\<lparr>cap_effective := CAP_EMPTY_SET\<rparr>)"

definition cap_bprm_set_creds :: "exec_env \<Rightarrow> cred \<Rightarrow> exec_file \<Rightarrow> linux_binprm \<Rightarrow> int \<times> linux_binprm" where
  "cap_bprm_set_creds env old f bprm =
    (case get_file_caps (xe_file_caps_enabled env) f bprm of
       (ret, effective0, b1) \<Rightarrow>
         if ret < 0 then (ret, b1)
         else (let (effective, n1) = root_caps old effective0 (b_cred b1);
                   n2 = exec_downgrade old (b_unsafe b1) n1;
                   n3 = n2\<lparr>suid := euid n2, fsuid := euid n2, sgid := egid n2, fsgid := egid n2\<rparr>;
                   n4 = exec_effective (xe_is_init env) effective n3;
                   b2 = b1\<lparr>b_cred := n4, b_cap_effective := effective\<rparr>;
                   audit = \<not> cap_isclear (cap_effective n4) \<and>
                     (\<not> cap_issubset CAP_FULL_SET (cap_effective n4) \<or> euid n4 \<noteq> 0 \<or> uid n4 \<noteq> 0 \<or> issecure old SECURE_NOROOT)
           in if audit \<and> xe_audit env < 0 then (xe_audit env, b2)
              else (0, b2\<lparr>b_cred := n4\<lparr>securebits := securebits n4 AND NOT (issecure_mask SECURE_KEEP_CAPS)\<rparr>\<rparr>)))"

definition cap_bprm_secureexec :: "cred \<Rightarrow> linux_binprm \<Rightarrow> bool" where
  "cap_bprm_secureexec cred bprm \<longleftrightarrow>
    (uid cred \<noteq> 0 \<and> (b_cap_effective bprm \<or> \<not> cap_isclear (cap_permitted cred))) \<or>
    euid cred \<noteq> uid cred \<or> egid cred \<noteq> gid cred"

text \<open>The ids a set-user-id or set-group-id program gives.\<close>

definition exec_setid :: "cred \<Rightarrow> exec_file \<Rightarrow> linux_binprm \<Rightarrow> linux_binprm" where
  "exec_setid current f bprm =
    (let mode = ef_mode f;
         n0 = (b_cred bprm)\<lparr>euid := euid current, egid := egid current\<rparr>;
         set_uid = (\<not> ef_nosuid f \<and> mode AND S_ISUID \<noteq> 0);
         set_gid = (\<not> ef_nosuid f \<and> mode AND (S_ISGID OR S_IXGRP) = (S_ISGID OR S_IXGRP));
         n1 = (if set_uid then n0\<lparr>euid := ef_uid f\<rparr> else n0);
         n2 = (if set_gid then n1\<lparr>egid := ef_gid f\<rparr> else n1)
     in bprm\<lparr>b_cred := n2, b_setid := b_setid bprm \<or> set_uid \<or> set_gid\<rparr>)"

text \<open>\<open>prepare_binprm\<close>, up to the reading of the first page.\<close>

definition prepare_binprm :: "exec_env \<Rightarrow> cred \<Rightarrow> exec_file \<Rightarrow> linux_binprm \<Rightarrow> int \<times> linux_binprm" where
  "prepare_binprm env current f bprm =
    (if \<not> ef_fop f then (- EACCES, bprm)
     else (case cap_bprm_set_creds env current f (exec_setid current f bprm) of
             (retval, b2) \<Rightarrow> if retval \<noteq> 0 then (retval, b2) else (0, b2\<lparr>b_cred_prepared := True\<rparr>)))"

text \<open>A chain of programs (a script and its interpreters) prepares the credentials once for each file.\<close>

fun prepare_chain :: "exec_env \<Rightarrow> cred \<Rightarrow> exec_file list \<Rightarrow> linux_binprm \<Rightarrow> int \<times> linux_binprm" where
  "prepare_chain env current [] bprm = (0, bprm)"
| "prepare_chain env current (f # fs) bprm =
    (case prepare_binprm env current f bprm of
       (retval, b1) \<Rightarrow> if retval < 0 then (retval, b1) else prepare_chain env current fs b1)"

text \<open>The credentials of \<open>execve\<close>: a copy of the current ones, prepared for the files and installed by
  \<open>install_exec_creds\<close>.\<close>

definition exec_creds :: "exec_env \<Rightarrow> task \<Rightarrow> u32 \<Rightarrow> exec_file \<Rightarrow> exec_file list \<Rightarrow> int \<times> task" where
  "exec_creds env t unsafe f fs =
    (if \<not> xe_mem env then (- ENOMEM, t)
     else (case prepare_chain env (t_cred t) (f # fs)
              \<lparr>b_cred = t_cred t, b_cap_effective = False, b_unsafe = unsafe, b_setid = False, b_cred_prepared = False\<rparr> of
             (retval, bprm) \<Rightarrow>
               if retval < 0 then (retval, t) else (0, commit_creds (xe_suid_dumpable env) t (b_cred bprm))))"

end
