(* ===== verification/CredStep.thy ===== *)
theory CredStep
  imports Cred
begin

text \<open>
  What one system call can do to the credentials of a task. \<open>call_ok\<close> holds between the credentials before
  and after every call that does not execute a program, \<open>exec_ok\<close> for \<open>execve\<close>.
\<close>

definition ids :: "cred \<Rightarrow> u32 set" where
  "ids c = {uid c, euid c, suid c, fsuid c}"

lemma commit_cred [simp]: "t_cred (commit_creds d t n) = n"
  by (simp add: commit_creds_def Let_def)

lemma capable_iff: "n < 64 \<Longrightarrow> capable c n \<longleftrightarrow> n \<in> caps (cap_effective c)"
  by (simp add: capable_def cap_capable_def cap_sets)

text \<open>A locked setting: the lock stays, and so does the setting.\<close>

definition locks_kept :: "u32 \<Rightarrow> u32 \<Rightarrow> bool" where
  "locks_kept a b \<longleftrightarrow> (\<forall>l \<in> {1, 3, 5}. bit a l \<longrightarrow> bit b l \<and> bit b (l - 1) = bit a (l - 1))"

definition call_ok :: "cred \<Rightarrow> cred \<Rightarrow> bool" where
  "call_ok c d \<longleftrightarrow>
     caps (cap_permitted d) \<subseteq> caps (cap_permitted c) \<and> caps (cap_bset d) \<subseteq> caps (cap_bset c) \<and>
     caps (cap_inheritable d) \<subseteq> caps (cap_inheritable c) \<union> caps (cap_bset c) \<and>
     (caps (cap_effective c) \<subseteq> caps (cap_permitted c) \<longrightarrow> caps (cap_effective d) \<subseteq> caps (cap_permitted d)) \<and>
     (user c = uid c \<longrightarrow> user d = uid d) \<and>
     (CAP_SETUID \<notin> caps (cap_effective c) \<longrightarrow> ids d \<subseteq> ids c) \<and> locks_kept (securebits c) (securebits d)"

lemma call_ok_refl [simp]: "call_ok c c"
  by (simp add: call_ok_def locks_kept_def)

text \<open>Credentials in which only ids have changed.\<close>

definition ids_only :: "cred \<Rightarrow> cred \<Rightarrow> bool" where
  "ids_only c d \<longleftrightarrow> cap_permitted d = cap_permitted c \<and> cap_effective d = cap_effective c \<and>
     cap_inheritable d = cap_inheritable c \<and> cap_bset d = cap_bset c \<and> securebits d = securebits c"

definition ids_ok :: "cred \<Rightarrow> cred \<Rightarrow> bool" where
  "ids_ok c d \<longleftrightarrow> ids_only c d \<and> (user c = uid c \<longrightarrow> user d = uid d) \<and> (CAP_SETUID \<notin> caps (cap_effective c) \<longrightarrow> ids d \<subseteq> ids c)"

lemma emulate_setxuid:
  "cap_permitted (cap_emulate_setxuid n c) = cap_permitted n \<or> cap_permitted (cap_emulate_setxuid n c) = CAP_EMPTY_SET"
  "cap_effective (cap_emulate_setxuid n c) = cap_effective n \<and> cap_permitted (cap_emulate_setxuid n c) = cap_permitted n \<or>
   cap_effective (cap_emulate_setxuid n c) = CAP_EMPTY_SET \<or>
   cap_effective (cap_emulate_setxuid n c) = cap_permitted (cap_emulate_setxuid n c)"
  "cap_inheritable (cap_emulate_setxuid n c) = cap_inheritable n" "cap_bset (cap_emulate_setxuid n c) = cap_bset n"
  "securebits (cap_emulate_setxuid n c) = securebits n" "ids (cap_emulate_setxuid n c) = ids n"
  "user (cap_emulate_setxuid n c) = user n" "uid (cap_emulate_setxuid n c) = uid n"
  by (simp_all add: cap_emulate_setxuid_def Let_def ids_def)

lemma fix_setuid_cases:
  assumes "P n" "P (cap_emulate_setxuid n c)" "P (n\<lparr>cap_effective := cap_drop_fs_set (cap_effective n)\<rparr>)"
    "P (n\<lparr>cap_effective := cap_raise_fs_set (cap_effective n) (cap_permitted n)\<rparr>)"
  shows "P (snd (cap_task_fix_setuid n c fl))"
  using assms by (cases fl) (simp_all add: cap_task_fix_setuid_def Let_def)

lemma emulate_setxuid_effective:
  "caps (cap_effective n) \<subseteq> caps (cap_permitted n) \<Longrightarrow>
   caps (cap_effective (cap_emulate_setxuid n c)) \<subseteq> caps (cap_permitted (cap_emulate_setxuid n c))"
  using emulate_setxuid(2) [of n c] by (metis caps_empty empty_subsetI order_refl)

lemma emulate_setxuid_permitted: "caps (cap_permitted (cap_emulate_setxuid n c)) \<subseteq> caps (cap_permitted n)"
  using emulate_setxuid(1) [of n c] by (metis caps_empty empty_subsetI order_refl)

lemma fix_setuid_ok:
  assumes "ids_ok c n" "cap_task_fix_setuid n c fl = (r, d)"
  shows "call_ok c d"
proof -
  have n: "cap_permitted n = cap_permitted c" "cap_effective n = cap_effective c" "cap_inheritable n = cap_inheritable c"
    "cap_bset n = cap_bset c" "securebits n = securebits c" "user c = uid c \<longrightarrow> user n = uid n"
    "CAP_SETUID \<notin> caps (cap_effective c) \<longrightarrow> ids n \<subseteq> ids c"
    using assms(1) by (simp_all add: ids_ok_def ids_only_def)
  have "call_ok c n" using n by (simp add: call_ok_def locks_kept_def)
  moreover have "call_ok c (cap_emulate_setxuid n c)"
    unfolding call_ok_def emulate_setxuid(3-8)
    using emulate_setxuid_effective [of n c] emulate_setxuid_permitted [of n c] n by (simp add: locks_kept_def)
  moreover have "call_ok c (n\<lparr>cap_effective := cap_drop_fs_set (cap_effective n)\<rparr>)"
    "call_ok c (n\<lparr>cap_effective := cap_raise_fs_set (cap_effective n) (cap_permitted n)\<rparr>)"
    using n unfolding call_ok_def locks_kept_def ids_def by (simp_all add: cap_sets) blast+
  ultimately have "call_ok c (snd (cap_task_fix_setuid n c fl))" by (rule fix_setuid_cases)
  then show ?thesis using assms(2) by simp
qed

lemma fix_and_commit_ok:
  assumes "ids_ok (t_cred t) n" "fix_and_commit env t n fl = (r, t')"
  shows "call_ok (t_cred t) (t_cred t')"
proof -
  obtain r1 d where d: "cap_task_fix_setuid n (t_cred t) fl = (r1, d)" by fastforce
  then show ?thesis
    using fix_setuid_ok [OF assms(1) d] assms(2) by (auto simp: fix_and_commit_def split: if_splits)
qed

lemma set_user_cases: "set_user env p n = (r, m) \<Longrightarrow> r \<ge> 0 \<Longrightarrow> m = n\<lparr>user := uid n\<rparr>"
  by (auto simp: set_user_def split: if_splits)

section \<open>The calls\<close>

text \<open>The rules by which a call is taken apart: it fails, or it installs credentials that are in order.\<close>

definition ends_ok :: "task \<Rightarrow> 'a \<times> task \<Rightarrow> bool" where
  "ends_ok t x \<longleftrightarrow> call_ok (t_cred t) (t_cred (snd x))"

lemma ends_fail: "ends_ok t (r, t)"
  by (simp add: ends_ok_def)

lemma ends_if: "(b \<Longrightarrow> ends_ok t x) \<Longrightarrow> (\<not> b \<Longrightarrow> ends_ok t y) \<Longrightarrow> ends_ok t (if b then x else y)"
  by simp

lemma ends_case: "(\<And>a b. p = (a, b) \<Longrightarrow> ends_ok t (f a b)) \<Longrightarrow> ends_ok t (case p of (a, b) \<Rightarrow> f a b)"
  by (cases p) simp

lemma ends_fix: "ids_ok (t_cred t) n \<Longrightarrow> ends_ok t (fix_and_commit env t n fl)"
  using fix_and_commit_ok [of t n env fl] by (cases "fix_and_commit env t n fl") (simp add: ends_ok_def)

lemma ends_commit: "call_ok (t_cred t) n \<Longrightarrow> ends_ok t (r, commit_creds d t n)"
  by (simp add: ends_ok_def)

lemmas ends_intros = ends_if ends_case ends_fix ends_commit ends_fail

lemma setuser_if:
  assumes "(if b then set_user env p n else (0, n)) = (r, m)" "\<not> r < 0"
  shows "m = (if b then n\<lparr>user := uid n\<rparr> else n)"
proof (cases b)
  case True
  from assms(1) have "set_user env p n = (r, m)" unfolding if_P [OF True] .
  moreover have "0 \<le> r" using assms(2) by linarith
  ultimately show ?thesis using set_user_cases True by metis
next
  case False
  with assms(1) show ?thesis by simp
qed

lemma same_call_ok:
  assumes "ids_only c d" "ids d = ids c" "uid d = uid c" "user d = user c"
  shows "call_ok c d"
  using assms unfolding ids_only_def call_ok_def locks_kept_def by simp

text \<open>Selecting from a record chosen by a condition.\<close>

lemmas cred_if = if_distrib [of uid] if_distrib [of gid] if_distrib [of suid] if_distrib [of sgid] if_distrib [of euid] if_distrib [of egid] if_distrib [of fsuid] if_distrib [of fsgid] if_distrib [of securebits] if_distrib [of cap_inheritable] if_distrib [of cap_permitted] if_distrib [of cap_effective] if_distrib [of cap_bset] if_distrib [of user]

lemmas ids_simps = ids_ok_def ids_only_def ids_def capable_iff [of CAP_SETUID, simplified]

lemma setreuid_ok: "ends_ok t (sys_setreuid env t ru eu)"
  unfolding sys_setreuid_def Let_def
  by (intro ends_intros) (drule (1) setuser_if, simp only: ids_simps cred_if cred.simps, simp add: cred_if cong: if_cong, auto)

lemma setuid_ok: "ends_ok t (sys_setuid env t u)"
  unfolding sys_setuid_def Let_def
  by (intro ends_intros; (drule (1) setuser_if)?) (auto simp: ids_simps cred_if)

lemma setres_user:
  assumes "(if a then if b then set_user env p n else (0, n) else (0, c)) = (r, m)" "\<not> r < 0"
  shows "m = (if a then if b then n\<lparr>user := uid n\<rparr> else n else c)"
proof (cases a)
  case True
  from assms(1) show ?thesis unfolding if_P [OF True] using setuser_if [OF _ assms(2)] by blast
next
  case False
  from assms(1) show ?thesis unfolding if_not_P [OF False] by simp
qed

lemma setresuid_ok: "ends_ok t (sys_setresuid env t ru eu su)"
  unfolding sys_setresuid_def Let_def
  by (intro ends_intros) (drule (1) setres_user, simp only: ids_simps id_allowed_def cred_if cred.simps, simp add: cred_if cong: if_cong, auto)

lemma setfsuid_ok: "ends_ok t (sys_setfsuid env t u)"
proof -
  have "call_ok (t_cred t) n"
    if "(u = uid (t_cred t) \<or> u = euid (t_cred t) \<or> u = suid (t_cred t) \<or> u = fsuid (t_cred t) \<or> capable (t_cred t) CAP_SETUID) \<and>
        u \<noteq> fsuid (t_cred t)" "cap_task_fix_setuid ((t_cred t)\<lparr>fsuid := u\<rparr>) (t_cred t) LSM_SETID_FS = (r, n)" for r n
    using that(1) by (intro fix_setuid_ok [OF _ that(2)]) (auto simp: ids_simps)
  then show ?thesis unfolding sys_setfsuid_def Let_def by (intro ends_intros)
qed

lemma setregid_ok: "ends_ok t (sys_setregid env t rg eg)"
  unfolding sys_setregid_def Let_def
  by (intro ends_intros same_call_ok) (simp_all add: ids_simps cred_if)

lemma setgid_ok: "ends_ok t (sys_setgid env t g)"
  unfolding sys_setgid_def Let_def
  by (intro ends_intros same_call_ok) (simp_all add: ids_simps)

lemma setresgid_ok: "ends_ok t (sys_setresgid env t rg eg sg)"
  unfolding sys_setresgid_def Let_def
  by (intro ends_intros same_call_ok) (simp_all add: ids_simps cred_if)

lemma setfsgid_ok: "ends_ok t (sys_setfsgid env t g)"
  unfolding sys_setfsgid_def Let_def
  by (intro ends_intros same_call_ok) (simp_all add: ids_simps)

lemma setgroups_ok: "ends_ok t (sys_setgroups d amem junk cmem t n g ok)"
  unfolding sys_setgroups_def set_current_groups_def set_groups_def option.case_eq_if
  by (intro ends_intros same_call_ok) (simp_all add: ids_simps)

section \<open>\<open>prctl\<close> and \<open>capset\<close>\<close>

lemma all_locks: "SECURE_ALL_LOCKS = 0x2A"
  by (simp add: SECURE_ALL_LOCKS_def SECURE_ALL_BITS_def issecure_mask_def)

lemma locks_bits: "l \<in> {1, 3, 5} \<Longrightarrow> bit (0x2A :: u32) l"
  by auto

lemma set_securebits_locks:
  assumes "drop_bit 1 (s AND SECURE_ALL_LOCKS) AND (s XOR a) = 0" "s AND SECURE_ALL_LOCKS AND NOT a = (0 :: u32)"
  shows "locks_kept s a"
  unfolding locks_kept_def
proof (intro ballI impI conjI)
  fix l :: nat assume l: "l \<in> {1, 3, 5}" "bit s l"
  have "\<not> bit (s AND SECURE_ALL_LOCKS AND NOT a) l" by (simp add: assms(2))
  then show "bit a l" using l locks_bits [OF l(1)] by (auto simp: all_locks bit_simps)
  have "\<not> bit (drop_bit 1 (s AND SECURE_ALL_LOCKS) AND (s XOR a)) (l - 1)" unfolding assms(1) by simp
  then show "bit a (l - 1) = bit s (l - 1)" using l locks_bits [OF l(1)] by (auto simp: all_locks bit_simps)
qed

lemma mask_bit_secure: "bit (issecure_mask x) n \<longleftrightarrow> n = x \<and> n < 32"
  by (auto simp: issecure_mask_def bit_simps)

lemma keepcaps_bits:
  "bit (s OR issecure_mask SECURE_KEEP_CAPS) n \<longleftrightarrow> bit s n \<or> n = 4"
  "bit (s AND NOT (issecure_mask SECURE_KEEP_CAPS)) n \<longleftrightarrow> bit s n \<and> n \<noteq> 4"
  by (auto simp: mask_bit_secure bit_or_iff bit_and_iff bit_not_iff_eq dest: bit_imp_le_length)

lemma issecure_iff: "n < 32 \<Longrightarrow> issecure c n \<longleftrightarrow> bit (securebits c) n"
proof -
  assume n: "n < 32"
  have "issecure_mask n AND securebits c = (if bit (securebits c) n then issecure_mask n else 0)"
    by (rule bit_word_eqI) (auto simp: issecure_mask_def bit_simps)
  moreover have "bit (issecure_mask n) n" using n by (simp add: issecure_mask_def bit_simps)
  then have "issecure_mask n \<noteq> 0" by auto
  ultimately show ?thesis by (simp add: issecure_def)
qed

lemma keepcaps_locks:
  assumes "\<not> bit s 5"
  shows "locks_kept s (if b then s OR issecure_mask SECURE_KEEP_CAPS else s AND NOT (issecure_mask SECURE_KEEP_CAPS))"
  using assms by (auto simp: locks_kept_def keepcaps_bits)

lemma securebits_call_ok: "locks_kept (securebits c) s \<Longrightarrow> call_ok c (c\<lparr>securebits := s\<rparr>)"
  by (simp add: call_ok_def ids_def)

lemma bset_call_ok: "caps b \<subseteq> caps (cap_bset c) \<Longrightarrow> call_ok c (c\<lparr>cap_bset := b\<rparr>)"
  by (simp add: call_ok_def ids_def locks_kept_def)

lemma prctl_ok: "ends_ok t (cap_task_prctl env t opt arg)"
proof (cases opt)
  case PR_CAPBSET_DROP
  have "call_ok (t_cred t) n" if "cap_prctl_drop (t_cred t) (t_cred t) arg = (e, n)" "\<not> e < 0" for e n
  proof -
    have v: "unat arg < 64" "n = (t_cred t)\<lparr>cap_bset := cap_lower (cap_bset (t_cred t)) (unat arg)\<rparr>"
      using that by (auto simp: cap_prctl_drop_def cap_valid_def split: if_splits)
    show ?thesis unfolding v(2) using caps_lower [OF v(1)] by (intro bset_call_ok) auto
  qed
  then show ?thesis unfolding cap_task_prctl_def Let_def PR_CAPBSET_DROP prctl_option.case
    by (intro ends_intros)
next
  case PR_SET_SECUREBITS
  show ?thesis unfolding cap_task_prctl_def Let_def PR_SET_SECUREBITS prctl_option.case
    by (intro ends_intros securebits_call_ok set_securebits_locks) simp_all
next
  case PR_SET_KEEPCAPS
  show ?thesis unfolding cap_task_prctl_def Let_def PR_SET_KEEPCAPS prctl_option.case
    by (intro ends_intros securebits_call_ok keepcaps_locks) (simp_all add: issecure_iff)
qed (simp_all add: cap_task_prctl_def Let_def ends_ok_def)

lemma capset_call_ok:
  assumes "cap_capset c c e i p = (r, n)"
  shows "call_ok c n" "r \<ge> 0 \<Longrightarrow> r = 0 \<and> n = c\<lparr>cap_effective := e, cap_inheritable := i, cap_permitted := p\<rparr>"
proof -
  have "call_ok c (c\<lparr>cap_effective := e, cap_inheritable := i, cap_permitted := p\<rparr>)"
    if "cap_issubset i (cap_combine (cap_inheritable c) (cap_bset c))" "cap_issubset p (cap_permitted c)" "cap_issubset e p"
    using that by (simp add: call_ok_def ids_def locks_kept_def cap_sets)
  then show "call_ok c n" using assms unfolding cap_capset_def by (elim if_eqE) simp_all
  show "r = 0 \<and> n = c\<lparr>cap_effective := e, cap_inheritable := i, cap_permitted := p\<rparr>" if "r \<ge> 0"
    using assms that unfolding cap_capset_def by (elim if_eqE) simp_all
qed

lemma sys_capset_ok: "call_ok (t_cred t) (t_cred (fst (snd (sys_capset d mem pid t h data))))"
  using capset_call_ok(1)
  by (auto simp: sys_capset_def split: prod.splits option.splits)

section \<open>\<open>execve\<close>\<close>

text \<open>What the preparation of a program leaves alone.\<close>

definition exec_pre :: "cred \<Rightarrow> cred \<Rightarrow> bool" where
  "exec_pre c n \<longleftrightarrow> cap_inheritable n = cap_inheritable c \<and> cap_bset n = cap_bset c \<and> uid n = uid c \<and> gid n = gid c \<and>
     user n = user c \<and> (\<forall>i. i \<noteq> SECURE_KEEP_CAPS \<longrightarrow> bit (securebits n) i = bit (securebits c) i) \<and>
     (bit (securebits n) SECURE_KEEP_CAPS \<longrightarrow> bit (securebits c) SECURE_KEEP_CAPS)"

definition exec_ok :: "bool \<Rightarrow> cred \<Rightarrow> cred \<Rightarrow> bool" where
  "exec_ok is_init c d \<longleftrightarrow> exec_pre c d \<and> \<not> bit (securebits d) SECURE_KEEP_CAPS \<and>
     caps (cap_permitted d) \<subseteq> caps (cap_bset c) \<union> caps (cap_inheritable c) \<and>
     (\<not> is_init \<longrightarrow> caps (cap_effective d) \<subseteq> caps (cap_permitted d)) \<and>
     suid d = euid d \<and> fsuid d = euid d \<and> sgid d = egid d \<and> fsgid d = egid d"

lemma vfs_permitted:
  assumes "bprm_caps_from_vfs_caps v b = (rc, eff, b')"
  shows "b_cred b' = (b_cred b)\<lparr>cap_permitted :=
      cap_combine (cap_intersect (cap_bset (b_cred b)) (v_permitted v)) (cap_intersect (cap_inheritable (b_cred b)) (v_inheritable v))\<rparr>"
    "b_unsafe b' = b_unsafe b" "eff \<longleftrightarrow> magic_etc v AND VFS_CAP_FLAGS_EFFECTIVE \<noteq> 0"
    "rc = (if eff \<and> \<not> caps (v_permitted v) \<subseteq> caps (cap_permitted (b_cred b')) then - EPERM else 0)"
proof -
  obtain p0 p1 i0 i1 b0 b1 j0 j1 where v: "v_permitted v = Cap p0 p1" "v_inheritable v = Cap i0 i1"
    "cap_bset (b_cred b) = Cap b0 b1" "cap_inheritable (b_cred b) = Cap j0 j1"
    by (metis kernel_cap_t.exhaust)
  show c: "b_cred b' = (b_cred b)\<lparr>cap_permitted :=
      cap_combine (cap_intersect (cap_bset (b_cred b)) (v_permitted v)) (cap_intersect (cap_inheritable (b_cred b)) (v_inheritable v))\<rparr>"
    using assms v by (auto simp: bprm_caps_from_vfs_caps_def Let_def cap_combine_def cap_intersect_def)
  show "b_unsafe b' = b_unsafe b" "eff \<longleftrightarrow> magic_etc v AND VFS_CAP_FLAGS_EFFECTIVE \<noteq> 0"
    using assms by (auto simp: bprm_caps_from_vfs_caps_def Let_def)
  have "caps (v_permitted v) \<subseteq> caps (cap_permitted (b_cred b')) \<longleftrightarrow> cap_issubset (v_permitted v) (cap_permitted (b_cred b'))"
    by (simp add: caps_issubset)
  also have "\<dots> \<longleftrightarrow> \<not> (\<exists>i \<in> set [0..<2]. cap_word (v_permitted v) i AND NOT (cap_word (cap_permitted (b_cred b')) i) \<noteq> 0)"
    unfolding c by (auto simp: v cap_issubset_def cap_drop_def cap_combine_def cap_intersect_def upt_rec)
  finally have sub: "caps (v_permitted v) \<subseteq> caps (cap_permitted (b_cred b')) \<longleftrightarrow>
      \<not> (\<exists>i \<in> set [0..<2]. cap_word (v_permitted v) i AND NOT (cap_word (cap_permitted (b_cred b')) i) \<noteq> 0)" .
  have x: "rc = fst (bprm_caps_from_vfs_caps v b)" "eff = fst (snd (bprm_caps_from_vfs_caps v b))"
    "b' = snd (snd (bprm_caps_from_vfs_caps v b))" using assms by simp_all
  show "rc = (if eff \<and> \<not> caps (v_permitted v) \<subseteq> caps (cap_permitted (b_cred b')) then - EPERM else 0)"
    unfolding sub not_not unfolding x bprm_caps_from_vfs_caps_def Let_def fst_conv snd_conv by simp
qed

lemma clear_caps_cred [simp]: "b_cred (bprm_clear_caps b) = (b_cred b)\<lparr>cap_permitted := CAP_EMPTY_SET\<rparr>"
  "b_unsafe (bprm_clear_caps b) = b_unsafe b"
  by (simp_all add: bprm_clear_caps_def)

lemma get_file_caps_pre:
  assumes "get_file_caps en f b = (rc, eff, b')" "exec_pre c (b_cred b)"
  shows "exec_pre c (b_cred b')" "caps (cap_permitted (b_cred b')) \<subseteq> caps (cap_bset c) \<union> caps (cap_inheritable c)"
    "b_unsafe b' = b_unsafe b"
proof -
  have upd: "exec_pre c ((b_cred b)\<lparr>cap_permitted := x\<rparr>)" for x using assms(2) by (simp add: exec_pre_def)
  have "\<exists>x. b_cred b' = (b_cred b)\<lparr>cap_permitted := x\<rparr> \<and> caps x \<subseteq> caps (cap_bset c) \<union> caps (cap_inheritable c) \<and> b_unsafe b' = b_unsafe b"
  proof (cases "\<not> en \<or> ef_nosuid f \<or> isl (get_vfs_caps_from_disk f)")
    case True
    then show ?thesis
      using assms(1)
      by (intro exI [of _ CAP_EMPTY_SET]) (auto simp: get_file_caps_def Let_def caps_empty split: sum.splits if_splits)
  next
    case False
    then obtain v where v: "get_vfs_caps_from_disk f = Inr v" by (cases "get_vfs_caps_from_disk f") auto
    obtain rc2 eff2 b2 where b2: "bprm_caps_from_vfs_caps v (bprm_clear_caps b) = (rc2, eff2, b2)" by (metis prod_cases3)
    have "snd (snd (get_file_caps en f b)) = (if rc2 \<noteq> 0 then bprm_clear_caps b2 else b2)"
      using False v b2 by (simp add: get_file_caps_def Let_def)
    then have b': "b' = (if rc2 \<noteq> 0 then bprm_clear_caps b2 else b2)" unfolding assms(1) snd_conv .
    note p = vfs_permitted(1,2) [OF b2]
    let ?x = "if rc2 \<noteq> 0 then CAP_EMPTY_SET else cap_combine (cap_intersect (cap_bset (b_cred b)) (v_permitted v))
        (cap_intersect (cap_inheritable (b_cred b)) (v_inheritable v))"
    have "caps ?x \<subseteq> caps (cap_bset c) \<union> caps (cap_inheritable c)"
      using assms(2) by (auto simp: cap_sets exec_pre_def)
    moreover have "b_cred b' = (b_cred b)\<lparr>cap_permitted := ?x\<rparr>" "b_unsafe b' = b_unsafe b"
      using p by (simp_all add: b')
    ultimately show ?thesis by blast
  qed
  then show "exec_pre c (b_cred b')" "caps (cap_permitted (b_cred b')) \<subseteq> caps (cap_bset c) \<union> caps (cap_inheritable c)"
    "b_unsafe b' = b_unsafe b"
    using upd by (metis cred.select_convs(11) cred.update_convs(11) cred.surjective)+
qed

lemma root_caps_pre:
  assumes "root_caps c eff n = (eff', n')" "exec_pre c n" "caps (cap_permitted n) \<subseteq> caps (cap_bset c) \<union> caps (cap_inheritable c)"
  shows "exec_pre c n'" "caps (cap_permitted n') \<subseteq> caps (cap_bset c) \<union> caps (cap_inheritable c)"
proof -
  have "n' = n \<or> n' = n\<lparr>cap_permitted := cap_combine (cap_bset c) (cap_inheritable c)\<rparr>"
    using assms(1) unfolding root_caps_def by (auto split: if_splits)
  then show "exec_pre c n'" "caps (cap_permitted n') \<subseteq> caps (cap_bset c) \<union> caps (cap_inheritable c)"
    using assms(2,3) by (auto simp: exec_pre_def caps_combine)
qed

lemma downgrade_pre:
  assumes "exec_pre c n" "caps (cap_permitted n) \<subseteq> caps (cap_bset c) \<union> caps (cap_inheritable c)"
  shows "exec_pre c (exec_downgrade c u n)"
    "caps (cap_permitted (exec_downgrade c u n)) \<subseteq> caps (cap_bset c) \<union> caps (cap_inheritable c)"
  using assms by (auto simp: exec_downgrade_def Let_def exec_pre_def caps_intersect)

lemma effective_pre:
  "exec_pre c n \<Longrightarrow> exec_pre c (exec_effective i e n)" "cap_permitted (exec_effective i e n) = cap_permitted n"
  "\<not> i \<Longrightarrow> caps (cap_effective (exec_effective i e n)) \<subseteq> caps (cap_permitted n)"
  by (auto simp: exec_effective_def exec_pre_def caps_empty)

text \<open>The credentials in the middle of \<open>cap_bprm_set_creds\<close>, before the effective set is computed.\<close>

definition exec_ids :: "cred \<Rightarrow> cred" where
  "exec_ids n = n\<lparr>suid := euid n, fsuid := euid n, sgid := egid n, fsgid := egid n\<rparr>"

lemma set_creds_result:
  assumes "cap_bprm_set_creds env c f b = (r, b')" "r = 0" "get_file_caps (xe_file_caps_enabled env) f b = (rc, eff0, b1)"
    "root_caps c eff0 (b_cred b1) = (eff, n1)"
  shows "rc \<ge> 0"
    "b_cred b' = (let n4 = exec_effective (xe_is_init env) eff (exec_ids (exec_downgrade c (b_unsafe b1) n1))
       in n4\<lparr>securebits := securebits n4 AND NOT (issecure_mask SECURE_KEEP_CAPS)\<rparr>)" "b_unsafe b' = b_unsafe b1"
  using assms unfolding cap_bprm_set_creds_def Let_def exec_ids_def
  by (auto split: if_splits)

lemma set_creds_ok:
  assumes "cap_bprm_set_creds env c f b = (0, b')" "exec_pre c (b_cred b)"
  shows "exec_ok (xe_is_init env) c (b_cred b')"
proof -
  obtain rc eff0 b1 where g: "get_file_caps (xe_file_caps_enabled env) f b = (rc, eff0, b1)" by (metis prod_cases3)
  obtain eff n1 where r: "root_caps c eff0 (b_cred b1) = (eff, n1)" by fastforce
  let ?n2 = "exec_downgrade c (b_unsafe b1) n1"
  let ?n4 = "exec_effective (xe_is_init env) eff (exec_ids ?n2)"
  have b': "b_cred b' = ?n4\<lparr>securebits := securebits ?n4 AND NOT (issecure_mask SECURE_KEEP_CAPS)\<rparr>"
    using set_creds_result(2) [OF assms(1) refl g r] by (simp add: Let_def)
  note n1 = root_caps_pre [OF r get_file_caps_pre(1,2) [OF g assms(2)]]
  have "exec_pre c (exec_ids ?n2)" "cap_permitted (exec_ids ?n2) = cap_permitted ?n2"
    using downgrade_pre(1) [OF n1] by (simp_all add: exec_ids_def exec_pre_def)
  then have n4: "exec_pre c ?n4" "caps (cap_permitted ?n4) \<subseteq> caps (cap_bset c) \<union> caps (cap_inheritable c)"
    "\<not> xe_is_init env \<Longrightarrow> caps (cap_effective ?n4) \<subseteq> caps (cap_permitted ?n4)"
    using downgrade_pre(2) [OF n1] effective_pre(1) effective_pre(3) [of "xe_is_init env" eff "exec_ids ?n2"]
    by (simp_all add: effective_pre(2))
  have "suid ?n4 = euid ?n4 \<and> fsuid ?n4 = euid ?n4 \<and> sgid ?n4 = egid ?n4 \<and> fsgid ?n4 = egid ?n4"
    by (simp add: exec_effective_def exec_ids_def)
  with n4 show ?thesis unfolding b' exec_ok_def by (simp add: exec_pre_def keepcaps_bits)
qed

lemma set_creds_le: "fst (cap_bprm_set_creds env c f b) \<le> 0"
  by (auto simp: cap_bprm_set_creds_def Let_def split: prod.split)

lemma prepare_ok:
  assumes "prepare_binprm env c f b = (r, b')" "\<not> r < 0" "exec_pre c (b_cred b)"
  shows "exec_ok (xe_is_init env) c (b_cred b')"
proof -
  let ?b1 = "exec_setid c f b"
  obtain r1 b2 where c: "cap_bprm_set_creds env c f ?b1 = (r1, b2)" by fastforce
  have pre: "exec_pre c (b_cred ?b1)" using assms(3) by (simp add: exec_pre_def exec_setid_def Let_def)
  have r: "(r, b') = (if r1 \<noteq> 0 then (r1, b2) else (0, b2\<lparr>b_cred_prepared := True\<rparr>))"
    using assms(1,2) c unfolding prepare_binprm_def by (auto split: if_splits)
  have "r1 \<le> 0" using set_creds_le [of env c f ?b1] c by simp
  then have "r1 = 0" "b_cred b' = b_cred b2" using r assms(2) by (auto split: if_splits)
  then show ?thesis using set_creds_ok [OF _ pre] c by simp
qed

lemma chain_ok:
  assumes "prepare_chain env c (f # fs) b = (r, b')" "\<not> r < 0" "exec_pre c (b_cred b)"
  shows "exec_ok (xe_is_init env) c (b_cred b')"
  using assms
proof (induction fs arbitrary: f b)
  case Nil
  then show ?case using prepare_ok by (auto split: prod.splits if_splits)
next
  case (Cons f' fs)
  obtain r1 b1 where b1: "prepare_binprm env c f b = (r1, b1)" by fastforce
  with Cons.prems(1,2) have r1: "\<not> r1 < 0" "prepare_chain env c (f' # fs) b1 = (r, b')" by (auto split: if_splits)
  have "exec_pre c (b_cred b1)" using prepare_ok [OF b1 r1(1) Cons.prems(3)] by (simp add: exec_ok_def)
  then show ?case using Cons.IH [OF r1(2) Cons.prems(2)] by simp
qed

lemma exec_creds_ok:
  assumes "exec_creds env t u f fs = (r, t')"
  shows "t' = t \<or> r = 0 \<and> exec_ok (xe_is_init env) (t_cred t) (t_cred t')"
proof -
  let ?b = "\<lparr>b_cred = t_cred t, b_cap_effective = False, b_unsafe = u, b_setid = False, b_cred_prepared = False\<rparr>"
  obtain r1 b1 where c: "prepare_chain env (t_cred t) (f # fs) ?b = (r1, b1)" by fastforce
  have "exec_pre (t_cred t) (b_cred ?b)" by (simp add: exec_pre_def)
  from chain_ok [OF c _ this] show ?thesis
    using assms c unfolding exec_creds_def by (auto split: if_splits)
qed

end
