(* ===== verification/CredProps.thy ===== *)
theory CredProps
  imports CredStep
begin

text \<open>
  The properties of credentials: over any sequence of system calls and program executions the effective
  set stays within the permitted set (init apart), no capability appears from outside the permitted, inheritable and
  bounding sets, locked settings stay locked; without executing a program no capability and no user id is
  gained; what \<open>execve\<close> computes; and the round trip of \<open>capget\<close> and \<open>capset\<close>.
\<close>

section \<open>Sequences of calls\<close>

inductive cred_call :: "task \<Rightarrow> task \<Rightarrow> bool" where
  call_setreuid: "sys_setreuid env t a b = (r, t') \<Longrightarrow> cred_call t t'"
| call_setuid: "sys_setuid env t a = (r, t') \<Longrightarrow> cred_call t t'"
| call_setresuid: "sys_setresuid env t a b c = (r, t') \<Longrightarrow> cred_call t t'"
| call_setfsuid: "sys_setfsuid env t a = (r', t') \<Longrightarrow> cred_call t t'"
| call_setregid: "sys_setregid env t a b = (r, t') \<Longrightarrow> cred_call t t'"
| call_setgid: "sys_setgid env t a = (r, t') \<Longrightarrow> cred_call t t'"
| call_setresgid: "sys_setresgid env t a b c = (r, t') \<Longrightarrow> cred_call t t'"
| call_setfsgid: "sys_setfsgid env t a = (r', t') \<Longrightarrow> cred_call t t'"
| call_setgroups: "sys_setgroups d amem junk cmem t n g ok = (r, t') \<Longrightarrow> cred_call t t'"
| call_prctl: "cap_task_prctl env t opt a = (r, t') \<Longrightarrow> cred_call t t'"
| call_capset: "sys_capset d mem pid t h data = (r, t', h') \<Longrightarrow> cred_call t t'"

text \<open>A call or an execution by a task that is init, the first process, or not: \<open>cap_bprm_set_creds\<close> leaves the effective
  set of init as it is.\<close>

inductive cred_step :: "bool \<Rightarrow> task \<Rightarrow> task \<Rightarrow> bool" for is_init where
  step_call: "cred_call t t' \<Longrightarrow> cred_step is_init t t'"
| step_exec: "xe_is_init env = is_init \<Longrightarrow> exec_creds env t unsafe f fs = (r, t') \<Longrightarrow> cred_step is_init t t'"

lemma cred_call_ok: "cred_call t t' \<Longrightarrow> call_ok (t_cred t) (t_cred t')"
proof (induction rule: cred_call.induct)
  case (call_capset d mem pid t h data r t' h')
  then show ?case using sys_capset_ok [of t d mem pid h data] by simp
qed (metis ends_ok_def snd_conv setreuid_ok setuid_ok setresuid_ok setfsuid_ok setregid_ok setgid_ok setresgid_ok setfsgid_ok setgroups_ok prctl_ok)+

lemma cred_step_cases:
  assumes "cred_step is_init t t'"
  shows "call_ok (t_cred t) (t_cred t') \<or> exec_ok is_init (t_cred t) (t_cred t') \<or> t' = t"
  using assms
proof cases
  case step_call
  then show ?thesis using cred_call_ok by blast
next
  case (step_exec env unsafe f fs r)
  then show ?thesis using exec_creds_ok [of env t unsafe f fs r t'] by auto
qed

definition cred_inv :: "task \<Rightarrow> bool" where
  "cred_inv t \<longleftrightarrow> caps (cap_effective (t_cred t)) \<subseteq> caps (cap_permitted (t_cred t)) \<and> user (t_cred t) = uid (t_cred t)"

text \<open>What executions by init keep of it.\<close>

definition init_inv :: "bool \<Rightarrow> task \<Rightarrow> bool" where
  "init_inv is_init t \<longleftrightarrow> (\<not> is_init \<longrightarrow> caps (cap_effective (t_cred t)) \<subseteq> caps (cap_permitted (t_cred t))) \<and> user (t_cred t) = uid (t_cred t)"

lemma cred_step_inv: "init_inv is_init t \<Longrightarrow> cred_step is_init t t' \<Longrightarrow> init_inv is_init t'"
  using cred_step_cases [of is_init t t'] by (auto simp: init_inv_def call_ok_def exec_ok_def exec_pre_def)

interpretation cred_sys: invariant_system cred_inv "cred_step is_init" "init_inv is_init" for is_init
  by unfold_locales (simp add: cred_inv_def init_inv_def, rule cred_step_inv)

text \<open>A task of user 1000 with no capabilities but \<open>CAP_SETPCAP\<close>, and an environment in which nothing fails.\<close>

definition ex_cred :: cred where
  "ex_cred = \<lparr>uid = 1000, gid = 100, suid = 1000, sgid = 100, euid = 1000, egid = 100, fsuid = 1000, fsgid = 100,
     securebits = 0, cap_inheritable = CAP_EMPTY_SET, cap_permitted = Cap 0x100 0, cap_effective = Cap 0x100 0,
     cap_bset = CAP_FULL_SET, user = 1000, groups = \<lparr>ngroups = 0, blocks = [[]]\<rparr>\<rparr>"

definition ex_task :: task where
  "ex_task = \<lparr>t_cred = ex_cred, t_mm = True, t_dumpable = 1, t_pdeath_signal = 0, t_processes = (\<lambda>_. 1)\<rparr>"

definition ex_cred_env :: cred_env where
  "ex_cred_env = \<lparr>ce_mem = True, ce_alloc_uid = True, ce_nproc = 100, ce_suid_dumpable = 0\<rparr>"

lemma ex_task_inv: "cred_inv ex_task"
  by (simp add: cred_inv_def ex_task_def ex_cred_def)

lemma ex_drop_step: "cred_step is_init ex_task (snd (cap_task_prctl ex_cred_env ex_task PR_CAPBSET_DROP 7))"
  by (rule step_call, rule call_prctl [OF prod.collapse [symmetric]])

section \<open>Bounds on what a task can have\<close>

text \<open>C13. Whatever system calls a task makes and whatever programs it executes, init included, its permitted and inheritable
  capabilities stay within the union of its old permitted, inheritable and bounding sets, and its bounding
  set only shrinks: a capability that is in none of the three sets can never be obtained.\<close>

theorem capabilities_bounded:
  assumes "(cred_step is_init)\<^sup>*\<^sup>* t t'"
  shows "caps (cap_permitted (t_cred t')) \<union> caps (cap_inheritable (t_cred t')) \<subseteq>
      caps (cap_permitted (t_cred t)) \<union> caps (cap_inheritable (t_cred t)) \<union> caps (cap_bset (t_cred t)) \<and>
    caps (cap_bset (t_cred t')) \<subseteq> caps (cap_bset (t_cred t))"
  using assms
proof (induction rule: rtranclp_induct)
  case (step t1 t2)
  then show ?case using cred_step_cases [OF step.hyps(2)] by (auto simp: call_ok_def exec_ok_def exec_pre_def; blast)
qed auto

theorem capabilities_bounded_witness:
  "caps (cap_bset (t_cred (snd (cap_task_prctl ex_cred_env ex_task PR_CAPBSET_DROP 7)))) \<subseteq> caps (cap_bset ex_cred)"
  using capabilities_bounded [OF r_into_rtranclp [where r = "cred_step False", OF ex_drop_step]] by (simp add: ex_task_def)

text \<open>C25. Starting from credentials whose effective set lies within the permitted set and whose user structure
  is that of the real user id, the user structure is that of the real user id after every sequence of system calls and
  program executions, and for a task that is not init the effective set lies within the permitted set. (An execution
  by init keeps the effective set whatever becomes of the permitted set.)\<close>

theorem credentials_invariant:
  assumes "cred_inv t" "(cred_step is_init)\<^sup>*\<^sup>* t t'"
  shows "(\<not> is_init \<longrightarrow> cap_issubset (cap_effective (t_cred t')) (cap_permitted (t_cred t'))) \<and> user (t_cred t') = uid (t_cred t')"
  using cred_sys.reachable_inv [OF assms] by (simp add: init_inv_def caps_issubset)

theorem credentials_invariant_witness:
  "cap_issubset (cap_effective (t_cred (snd (cap_task_prctl ex_cred_env ex_task PR_CAPBSET_DROP 7))))
     (cap_permitted (t_cred (snd (cap_task_prctl ex_cred_env ex_task PR_CAPBSET_DROP 7))))"
  using credentials_invariant [OF ex_task_inv r_into_rtranclp [where r = "cred_step False", OF ex_drop_step]] by simp

text \<open>C18. Without executing a program a task never gains a permitted capability, and if \<open>CAP_SETUID\<close> is not
  among its permitted capabilities it never gets a user id that is not already its real, effective, saved
  or file system user id.\<close>

theorem calls_gain_nothing:
  assumes "cred_inv t" "cred_call\<^sup>*\<^sup>* t t'"
  shows "caps (cap_permitted (t_cred t')) \<subseteq> caps (cap_permitted (t_cred t)) \<and>
    (CAP_SETUID \<notin> caps (cap_permitted (t_cred t)) \<longrightarrow>
       {uid (t_cred t'), euid (t_cred t'), suid (t_cred t'), fsuid (t_cred t')} \<subseteq>
       {uid (t_cred t), euid (t_cred t), suid (t_cred t), fsuid (t_cred t)})"
proof -
  have "cred_inv t' \<and> caps (cap_permitted (t_cred t')) \<subseteq> caps (cap_permitted (t_cred t)) \<and>
      (CAP_SETUID \<notin> caps (cap_permitted (t_cred t)) \<longrightarrow> ids (t_cred t') \<subseteq> ids (t_cred t))"
    using assms(2,1)
  proof (induction rule: rtranclp_induct)
    case (step t1 t2)
    have inv: "cred_inv t1" using step by blast
    have "call_ok (t_cred t1) (t_cred t2)" using cred_call_ok step.hyps(2) .
    with step inv show ?case by (auto simp: call_ok_def cred_inv_def)
  qed simp
  then show ?thesis by (simp add: ids_def)
qed

theorem calls_gain_nothing_witness:
  "uid (t_cred (snd (sys_setuid ex_cred_env ex_task 0))) = 1000"
  using calls_gain_nothing [OF ex_task_inv r_into_rtranclp [where r = cred_call, OF call_setuid [OF prod.collapse [symmetric]]], of ex_cred_env 0]
  by (simp add: ex_task_def ex_cred_def)

section \<open>Locked settings\<close>

abbreviation (input) SECURE_NOROOT_LOCKED :: nat where "SECURE_NOROOT_LOCKED \<equiv> 1"

lemma exec_locks: "exec_ok i c d \<Longrightarrow> l \<in> {1, 3} \<Longrightarrow> bit (securebits c) l \<Longrightarrow>
    bit (securebits d) l \<and> bit (securebits d) (l - 1) = bit (securebits c) (l - 1)"
  by (auto simp: exec_ok_def exec_pre_def)

lemma call_locks: "call_ok c d \<Longrightarrow> l \<in> {1, 3} \<Longrightarrow> bit (securebits c) l \<Longrightarrow>
    bit (securebits d) l \<and> bit (securebits d) (l - 1) = bit (securebits c) (l - 1)"
  by (auto simp: call_ok_def locks_kept_def)

lemma locked_forever:
  assumes "(cred_step is_init)\<^sup>*\<^sup>* t t'" "l \<in> {1, 3}" "bit (securebits (t_cred t)) l"
  shows "bit (securebits (t_cred t')) l \<and> bit (securebits (t_cred t')) (l - 1) = bit (securebits (t_cred t)) (l - 1)"
  using assms
proof (induction rule: rtranclp_induct)
  case (step t1 t2)
  then show ?case using cred_step_cases [OF step.hyps(2)] exec_locks [OF _ assms(2)] call_locks [OF _ assms(2)] by metis
qed simp

text \<open>A program file without a capability attribute.\<close>

definition no_file_caps :: "exec_file \<Rightarrow> bool" where
  "no_file_caps f \<longleftrightarrow> get_vfs_caps_from_disk f = Inl (- ENODATA)"

lemma plain_file_caps: "no_file_caps f \<Longrightarrow> get_file_caps en f b = (0, False, bprm_clear_caps b)"
  by (simp add: get_file_caps_def Let_def no_file_caps_def)

lemma noroot_set_creds:
  assumes "issecure c SECURE_NOROOT" "no_file_caps f" "cap_bprm_set_creds env c f b = (0, b')"
  shows "cap_permitted (b_cred b') = CAP_EMPTY_SET" "\<not> xe_is_init env \<Longrightarrow> cap_effective (b_cred b') = CAP_EMPTY_SET"
proof -
  have g: "get_file_caps (xe_file_caps_enabled env) f b = (0, False, bprm_clear_caps b)" using plain_file_caps assms(2) .
  have r: "root_caps c False (b_cred (bprm_clear_caps b)) = (False, b_cred (bprm_clear_caps b))"
    using assms(1) by (simp add: root_caps_def)
  have "cap_intersect CAP_EMPTY_SET x = CAP_EMPTY_SET" for x by (simp add: cap_sets)
  then have "cap_permitted (exec_ids (exec_downgrade c u (b_cred (bprm_clear_caps b)))) = CAP_EMPTY_SET" for u
    by (simp add: exec_ids_def exec_downgrade_def Let_def)
  then show "cap_permitted (b_cred b') = CAP_EMPTY_SET" "\<not> xe_is_init env \<Longrightarrow> cap_effective (b_cred b') = CAP_EMPTY_SET"
    using set_creds_result(2) [OF assms(3) refl g r] by (simp_all add: Let_def exec_effective_def)
qed

text \<open>The last file of a chain, the interpreter that is loaded in the end, decides.\<close>

lemma noroot_chain:
  assumes "issecure c SECURE_NOROOT" "no_file_caps (last (f # fs))" "prepare_chain env c (f # fs) b = (r, b')" "\<not> r < 0"
  shows "cap_permitted (b_cred b') = CAP_EMPTY_SET \<and> (\<not> xe_is_init env \<longrightarrow> cap_effective (b_cred b') = CAP_EMPTY_SET)"
  using assms
proof (induction fs arbitrary: f b)
  case Nil
  obtain r1 b2 where c: "cap_bprm_set_creds env c f (exec_setid c f b) = (r1, b2)" by fastforce
  have "r1 \<le> 0" using set_creds_le [of env c f "exec_setid c f b"] c by simp
  then have "r1 = 0" "b_cred b' = b_cred b2" using Nil.prems(3,4) c by (auto simp: prepare_binprm_def split: if_splits)
  then show ?case using noroot_set_creds [OF Nil.prems(1), of f] Nil.prems(2) c by simp
next
  case (Cons f' fs)
  obtain r1 b1 where "prepare_binprm env c f b = (r1, b1)" by fastforce
  then have "prepare_chain env c (f' # fs) b1 = (r, b')" using Cons.prems(3,4) by (auto split: if_splits)
  then show ?case using Cons.IH [OF Cons.prems(1)] Cons.prems(2,4) by simp
qed

text \<open>C24. The environment the comment over \<open>PR_SET_SECUREBITS\<close> promises: once \<open>SECURE_NOROOT\<close> is set and
  locked, user id 0 means nothing, for this task and whatever it becomes. In every later state the setting is
  still on and locked, and executing a program, directly or through a chain of interpreters, set-user-id root or not,
  whose last file has no capability attribute leaves no permitted capability and, unless the task is init, no
  effective capability; it leaves the setting on and locked too.\<close>

theorem noroot_forever:
  assumes "(cred_step is_init)\<^sup>*\<^sup>* t t'" "bit (securebits (t_cred t)) SECURE_NOROOT" "bit (securebits (t_cred t)) SECURE_NOROOT_LOCKED"
    and "no_file_caps (last (f # fs))" "xe_is_init env = is_init" "exec_creds env t' unsafe f fs = (0, t2)"
  shows "bit (securebits (t_cred t')) SECURE_NOROOT \<and> bit (securebits (t_cred t')) SECURE_NOROOT_LOCKED \<and>
    bit (securebits (t_cred t2)) SECURE_NOROOT \<and> bit (securebits (t_cred t2)) SECURE_NOROOT_LOCKED \<and>
    caps (cap_permitted (t_cred t2)) = {} \<and> (\<not> is_init \<longrightarrow> caps (cap_effective (t_cred t2)) = {})"
proof -
  let ?c = "t_cred t'"
  let ?b = "\<lparr>b_cred = ?c, b_cap_effective = False, b_unsafe = unsafe, b_setid = False, b_cred_prepared = False\<rparr>"
  have l: "bit (securebits ?c) 1" "bit (securebits ?c) 0"
    using locked_forever [OF assms(1), of 1] assms(2,3) by simp_all
  have "(cred_step is_init)\<^sup>*\<^sup>* t t2" using assms(1) step_exec [OF assms(5,6)] by (rule rtranclp.rtrancl_into_rtrancl)
  from locked_forever [OF this, of 1] have l2: "bit (securebits (t_cred t2)) 1" "bit (securebits (t_cred t2)) 0"
    using assms(2,3) by simp_all
  obtain r b' where c: "prepare_chain env ?c (f # fs) ?b = (r, b')" by fastforce
  with assms(6) have r: "\<not> r < 0" "t_cred t2 = b_cred b'" by (auto simp: exec_creds_def split: if_splits)
  show ?thesis
    using noroot_chain [OF _ assms(4) c r(1)] l l2 r(2) assms(5) by (simp add: issecure_iff caps_empty)
qed

definition ex_noroot :: task where
  "ex_noroot = ex_task\<lparr>t_cred := ex_cred\<lparr>securebits := 3\<rparr>\<rparr>"

definition ex_suid_file :: exec_file where
  "ex_suid_file = \<lparr>ef_mode = 0x9ED, ef_uid = 0, ef_gid = 0, ef_nosuid = False, ef_fop = True, ef_has_getxattr = True,
     ef_getxattr = Inl (- ENODATA)\<rparr>"

definition ex_exec_env :: exec_env where
  "ex_exec_env = \<lparr>xe_file_caps_enabled = True, xe_is_init = False, xe_audit = 0, xe_mem = True, xe_suid_dumpable = 0\<rparr>"

theorem noroot_forever_witness:
  "caps (cap_permitted (t_cred (snd (exec_creds ex_exec_env ex_noroot 0 ex_suid_file [])))) = {} \<and>
   euid (t_cred (snd (exec_creds ex_exec_env ex_noroot 0 ex_suid_file []))) = 0"
proof -
  have "fst (exec_creds ex_exec_env ex_noroot 0 ex_suid_file []) = 0"
    "euid (t_cred (snd (exec_creds ex_exec_env ex_noroot 0 ex_suid_file []))) = 0" by code_simp+
  moreover have "exec_creds ex_exec_env ex_noroot 0 ex_suid_file [] = (0, snd (exec_creds ex_exec_env ex_noroot 0 ex_suid_file []))"
    using calculation(1) by (metis prod.collapse)
  moreover have "bit (securebits (t_cred ex_noroot)) SECURE_NOROOT" "bit (securebits (t_cred ex_noroot)) SECURE_NOROOT_LOCKED"
    "no_file_caps (last [ex_suid_file])" "xe_is_init ex_exec_env = False"
    by (simp_all add: ex_noroot_def no_file_caps_def get_vfs_caps_from_disk_def ex_suid_file_def ex_exec_env_def)
  ultimately show ?thesis using noroot_forever [of False ex_noroot ex_noroot ex_suid_file "[]" ex_exec_env 0] by blast
qed

section \<open>What \<open>execve\<close> computes\<close>

text \<open>C22. The formula of the capability module for a program with a capability attribute, run by and as a user
  other than root and not traced or shared: the new permitted set is (bounding and file permitted) or
  (inheritable and file inheritable), the effective set is that set or empty as the file's effective flag
  says, and a file with the flag that would not get all of its permitted set is not executed.\<close>

theorem exec_file_caps:
  assumes "xe_mem env" "ef_fop f" "xe_file_caps_enabled env" "\<not> ef_nosuid f" "\<not> xe_is_init env" "0 \<le> xe_audit env"
    and "get_vfs_caps_from_disk f = Inr v" "uid (t_cred t) \<noteq> 0" "euid (t_cred t) \<noteq> 0"
    and "ef_mode f AND S_ISUID = 0"
    and "exec_creds env t 0 f [] = (r, t')"
  shows "let P = caps (cap_bset (t_cred t)) \<inter> caps (v_permitted v) \<union> caps (cap_inheritable (t_cred t)) \<inter> caps (v_inheritable v);
      eff = (magic_etc v AND VFS_CAP_FLAGS_EFFECTIVE \<noteq> 0)
    in if eff \<and> \<not> caps (v_permitted v) \<subseteq> P then r = - EPERM \<and> t' = t
       else r = 0 \<and> caps (cap_permitted (t_cred t')) = P \<and> caps (cap_effective (t_cred t')) = (if eff then P else {}) \<and>
         cap_inheritable (t_cred t') = cap_inheritable (t_cred t)"
proof -
  let ?c = "t_cred t"
  let ?b = "exec_setid ?c f \<lparr>b_cred = ?c, b_cap_effective = False, b_unsafe = 0, b_setid = False, b_cred_prepared = False\<rparr>"
  have b: "uid (b_cred ?b) = uid ?c" "euid (b_cred ?b) = euid ?c" "cap_bset (b_cred ?b) = cap_bset ?c"
    "cap_inheritable (b_cred ?b) = cap_inheritable ?c" "b_unsafe ?b = 0"
    using assms(10) by (simp_all add: exec_setid_def Let_def)
  obtain rc eff b2 where v: "bprm_caps_from_vfs_caps v (bprm_clear_caps ?b) = (rc, eff, b2)" by (metis prod_cases3)
  note vp = vfs_permitted [OF v]
  let ?P = "caps (cap_bset ?c) \<inter> caps (v_permitted v) \<union> caps (cap_inheritable ?c) \<inter> caps (v_inheritable v)"
  have P: "caps (cap_permitted (b_cred b2)) = ?P" "uid (b_cred b2) = uid ?c" "euid (b_cred b2) = euid ?c"
    "cap_inheritable (b_cred b2) = cap_inheritable ?c" "b_unsafe b2 = 0"
    using vp(1,2) b by (simp_all add: cap_sets)
  have g: "get_file_caps (xe_file_caps_enabled env) f ?b = (rc, eff, if rc \<noteq> 0 then bprm_clear_caps b2 else b2)"
    using assms(3,4,7) v by (simp add: get_file_caps_def Let_def)
  have set_creds: "(r, t') = (if fst (cap_bprm_set_creds env ?c f ?b) \<noteq> 0 then (fst (cap_bprm_set_creds env ?c f ?b), t)
      else (0, commit_creds (xe_suid_dumpable env) t (b_cred (snd (cap_bprm_set_creds env ?c f ?b)))))"
    using assms(1,2,11) set_creds_le [of env ?c f ?b] by (auto simp: exec_creds_def prepare_binprm_def split: prod.splits if_splits)
  show ?thesis
  proof (cases "eff \<and> \<not> caps (v_permitted v) \<subseteq> ?P")
    case True
    then have "rc = - EPERM" using vp(4) P(1) by simp
    then have "fst (cap_bprm_set_creds env ?c f ?b) = - EPERM" using g by (simp add: cap_bprm_set_creds_def)
    then show ?thesis using set_creds True vp(3) by (simp add: Let_def)
  next
    case False
    then have rc: "rc = 0" using vp(4) P(1) by auto
    have root: "root_caps ?c eff (b_cred b2) = (eff, b_cred b2)" using P(2,3) assms(8,9) by (simp add: root_caps_def)
    have down: "exec_downgrade ?c (b_unsafe b2) (b_cred b2) = b_cred b2" by (simp add: exec_downgrade_def P(5))
    have ok: "fst (cap_bprm_set_creds env ?c f ?b) = 0"
      using g rc root assms(6) by (auto simp: cap_bprm_set_creds_def Let_def)
    have "b_cred (snd (cap_bprm_set_creds env ?c f ?b)) = (let n4 = exec_effective False eff (exec_ids (b_cred b2))
        in n4\<lparr>securebits := securebits n4 AND NOT (issecure_mask SECURE_KEEP_CAPS)\<rparr>)"
      using set_creds_result(2) [OF prod.collapse [symmetric] ok g] rc root down assms(5) by simp
    then show ?thesis
      using set_creds ok False vp(3) P assms(5)
      by (auto simp: Let_def exec_effective_def exec_ids_def caps_empty)
  qed
qed

lemma cap_ping: "caps (Cap 0x2000 0) = {13}"
proof -
  have "Cap 0x2000 0 = cap_raise CAP_EMPTY_SET 13"
    by (simp add: cap_raise_def CAP_EMPTY_SET_def CAP_TO_INDEX_def CAP_TO_MASK_def drop_bit_eq_div)
  then show ?thesis by (simp add: caps_raise caps_empty)
qed

text \<open>\<open>ping\<close> with \<open>CAP_NET_RAW\<close> in its permitted set and the effective flag.\<close>

definition ex_ping :: exec_file where
  "ex_ping = \<lparr>ef_mode = 0x1ED, ef_uid = 0, ef_gid = 0, ef_nosuid = False, ef_fop = True, ef_has_getxattr = True,
     ef_getxattr = Inr [1, 0, 0, 2, 0, 0x20, 0, 0, 0, 0, 0, 0, 0, 0, 0, 0, 0, 0, 0, 0]\<rparr>"

theorem exec_file_caps_witness:
  "13 \<in> caps (cap_effective (t_cred (snd (exec_creds ex_exec_env ex_task 0 ex_ping []))))"
proof -
  have v: "get_vfs_caps_from_disk ex_ping = Inr \<lparr>magic_etc = 0x2000001, v_permitted = Cap 0x2000 0, v_inheritable = Cap 0 0\<rparr>"
    by code_simp
  show ?thesis
    using exec_file_caps [OF _ _ _ _ _ _ v _ _ _ prod.collapse [symmetric], of ex_exec_env ex_task]
    by (simp add: ex_exec_env_def ex_ping_def ex_task_def ex_cred_def Let_def cap_ping caps_full del: caps.simps)
qed

section \<open>\<open>capget\<close> and \<open>capset\<close>\<close>

text \<open>C26. Reading one's own capability sets with \<open>capget\<close> in the 64-bit format and writing them back with
  \<open>capset\<close> succeeds and changes nothing, for every task whose effective set lies within its permitted set.\<close>

theorem capget_capset_roundtrip:
  assumes "cred_inv t" "h_version h \<in> {Some LINUX_CAPABILITY_VERSION_2, Some LINUX_CAPABILITY_VERSION_3}" "h_pid h = Some 0"
    and "sys_capget find_task pid (t_cred t) h True True = (r, data, h1)"
    and "sys_capset d True pid t h (Some (\<lambda>i. data ! i)) = (r', t', h')"
  shows "r = 0 \<and> r' = 0 \<and> t' = t"
proof -
  let ?c = "t_cred t"
  have m: "cap_validate_magic h = (0, 2, h)" using assms(2) by (auto simp: cap_validate_magic_def)
  have g: "r = 0" "data = map (cap_data_at ?c) [0..<2]"
    using assms(4) m assms(3) by (simp_all add: sys_capget_def cap_get_target_pid_def)
  have w: "cap_from_words 2 (cap_word s) = s" for s by (cases s) (simp add: cap_from_words_def)
  have d: "data ! 0 = cap_data_at ?c 0" "data ! 1 = cap_data_at ?c 1" unfolding g(2) by simp_all
  have words: "cap_from_words 2 (\<lambda>i. d_effective (data ! i)) = cap_effective ?c"
    "cap_from_words 2 (\<lambda>i. d_inheritable (data ! i)) = cap_inheritable ?c"
    "cap_from_words 2 (\<lambda>i. d_permitted (data ! i)) = cap_permitted ?c"
    using w [of "cap_effective ?c"] w [of "cap_inheritable ?c"] w [of "cap_permitted ?c"]
    by (simp_all add: cap_from_words_def d [simplified] cap_data_at_def)
  have "cap_capset ?c ?c (cap_effective ?c) (cap_inheritable ?c) (cap_permitted ?c) = (0, ?c)"
    using assms(1) by (auto simp: cap_capset_def cred_inv_def caps_issubset caps_combine)
  moreover have "commit_creds d t ?c = t" by (simp add: commit_creds_def Let_def caps_issubset)
  ultimately have "r' = 0 \<and> t' = t" using assms(3,5) m by (simp add: sys_capset_def words)
  with g(1) show ?thesis by simp
qed

definition ex_header :: cap_header where
  "ex_header = \<lparr>h_version = Some LINUX_CAPABILITY_VERSION_3, h_pid = Some 0, h_writable = True\<rparr>"

theorem capget_capset_roundtrip_witness:
  "fst (sys_capset 0 True 42 ex_task ex_header (Some (\<lambda>i. fst (snd (sys_capget (\<lambda>_. None) 42 ex_cred ex_header True True)) ! i))) = 0"
  using capget_capset_roundtrip [OF ex_task_inv, of ex_header, where find_task = "\<lambda>_. None" and pid = 42 and d = 0]
  by (metis (no_types, lifting) ex_header_def ex_task_def cap_header.select_convs(1,2) insertI1 insertI2 prod.collapse task.select_convs(1))

section \<open>Supplementary groups\<close>

text \<open>C27. After a successful \<open>setgroups\<close>, with any number of groups in any order and with repetitions,
  \<open>in_group_p\<close> answers exactly whether the group is the file system group or one of those given, and
  \<open>getgroups\<close> returns them in ascending order. This covers the copying into blocks of a page, the Shell sort
  on the blocks and the binary search.\<close>

theorem setgroups_membership:
  assumes "sys_setgroups d amem junk cmem t n g ok = (0, t')" "sys_getgroups (t_cred t') size' ok' = (r, out)" "0 \<le> r" "size' \<noteq> 0"
  shows "(\<forall>grp. in_group_p (t_cred t') grp \<longleftrightarrow> grp = fsgid (t_cred t) \<or> grp \<in> g ` {..<nat n}) \<and>
    r = n \<and> sorted out \<and> mset out = mset (map g [0..<nat n])"
proof -
  obtain gi gi' where a: "0 \<le> n" "groups_alloc amem junk (nat n) = Some gi" "groups_from_user g ok gi = (0, gi')"
    "t_cred t' = (t_cred t)\<lparr>groups := groups_sort gi'\<rparr>"
    using assms(1)
    by (auto simp: sys_setgroups_def set_current_groups_def set_groups_def split: if_splits option.splits prod.splits)
  note al = alloc_fit [OF a(2)]
  note f = from_user_ok [OF al(2) [folded al(1)] a(3)]
  note s = groups_sort_ok [OF f(2)]
  have p: "mset (flat (groups_sort gi')) = mset (map g [0..<nat n])" "ngroups (groups_sort gi') = nat n" "gi_wf (groups_sort gi')"
    using s(1) f(1,4) al(1) by (simp_all add: gi_perm_def)
  have "set (flat (groups_sort gi')) = g ` {..<nat n}" using arg_cong [OF p(1), of set_mset] by (simp add: lessThan_atLeast0)
  then have "\<forall>grp. in_group_p (t_cred t') grp \<longleftrightarrow> grp = fsgid (t_cred t) \<or> grp \<in> g ` {..<nat n}"
    by (simp add: in_group_p_def a(4) groups_search_iff [OF s(2)])
  moreover have "ngroups (groups_sort gi') \<le> length (blocks (groups_sort gi')) * NGROUPS_PER_BLOCK"
    using f(1,3) al p(2) by (simp add: groups_sort_blocks blocks_fit_def)
  then have "r = n \<and> out = flat (groups_sort gi')"
    using assms(2-4) a(1) p(2) to_user_ok [OF p(3)]
    by (auto simp: sys_getgroups_def a(4) Let_def split: if_splits prod.splits)
  ultimately show ?thesis using p(1) s(2) by simp
qed

definition ex_gid_task :: task where
  "ex_gid_task = ex_task\<lparr>t_cred := ex_cred\<lparr>cap_effective := Cap 0x40 0\<rparr>\<rparr>"

lemma setgroups_returns:
  assumes "capable (t_cred t) CAP_SETGID" "0 \<le> n" "n \<le> int NGROUPS_MAX" "\<And>i. ok i"
  shows "fst (sys_setgroups d True junk True t n g ok) = 0"
proof -
  obtain gi where gi: "groups_alloc True junk (nat n) = Some gi" by (simp add: groups_alloc_def Let_def del: upt_rec_numeral)
  have "fst (groups_from_user g ok gi) = 0"
    using copy_from_returns [OF assms(4)] by (simp add: groups_from_user_def split_beta)
  then show ?thesis using assms gi by (simp add: sys_setgroups_def set_current_groups_def split_beta)
qed

lemma getgroups_returns: "int (ngroups (groups c)) \<le> n \<Longrightarrow> 0 < n \<Longrightarrow> (\<And>i. ok i) \<Longrightarrow>
    fst (sys_getgroups c n ok) = int (ngroups (groups c))"
  using copy_to_returns [of ok] by (auto simp: sys_getgroups_def groups_to_user_def Let_def split: prod.splits) (metis fst_conv)

theorem setgroups_membership_witness:
  "\<exists>t'. \<not> in_group_p (t_cred t') 8 \<and> sys_setgroups 0 True (\<lambda>_ _. 0) True ex_gid_task 3 (\<lambda>i. if i = 1 then 7 else 9) (\<lambda>_. True) = (0, t')"
proof -
  let ?c = "sys_setgroups 0 True (\<lambda>_ _. 0) True ex_gid_task 3 (\<lambda>i. if i = 1 then 7 else 9) (\<lambda>_. True)"
  have "capable (t_cred ex_gid_task) CAP_SETGID" by code_simp
  then have "fst ?c = 0" by (rule setgroups_returns) simp_all
  then obtain t' where c: "?c = (0, t')" by (metis prod.collapse)
  let ?n = "int (ngroups (groups (t_cred t'))) + 1"
  have "fst (sys_getgroups (t_cred t') ?n (\<lambda>_. True)) = int (ngroups (groups (t_cred t')))" by (rule getgroups_returns) simp_all
  then obtain out where g: "sys_getgroups (t_cred t') ?n (\<lambda>_. True) = (int (ngroups (groups (t_cred t'))), out)"
    by (metis prod.collapse)
  have "(8 :: u32) \<notin> (\<lambda>i. if i = 1 then 7 else 9) ` {..<nat 3}" "(8 :: u32) \<noteq> fsgid (t_cred ex_gid_task)"
    by (auto simp: ex_gid_task_def ex_task_def ex_cred_def)
  moreover have "0 \<le> int (ngroups (groups (t_cred t')))" "?n \<noteq> 0" by simp_all
  note m = setgroups_membership [OF c g this, THEN conjunct1, rule_format, of 8]
  ultimately have "\<not> in_group_p (t_cred t') 8" using m by blast
  with c show ?thesis by blast
qed

section \<open>Comments the code does not keep\<close>

text \<open>C34. The comment over \<open>cap_emulate_setxuid\<close> says that a process which elected to keep its capabilities
  retains both its permitted and its effective set when it switches away from user id 0. The code keeps the
  permitted set, but the effective set is cleared whenever the effective user id changes from 0 to another.\<close>

theorem keepcaps_clears_effective:
  assumes "issecure old SECURE_KEEP_CAPS" "euid old = 0" "uid new \<noteq> 0" "euid new \<noteq> 0" "suid new \<noteq> 0"
  shows "cap_permitted (cap_emulate_setxuid new old) = cap_permitted new \<and> caps (cap_effective (cap_emulate_setxuid new old)) = {}"
  using assms by (simp add: cap_emulate_setxuid_def Let_def caps_empty)

theorem keepcaps_clears_effective_witness:
  "caps (cap_effective (cap_emulate_setxuid (ex_cred\<lparr>securebits := 0x10\<rparr>) (ex_cred\<lparr>uid := 0, euid := 0, suid := 0, securebits := 0x10\<rparr>))) = {} \<and>
   caps (cap_effective ex_cred) \<noteq> {}"
proof -
  have "issecure (ex_cred\<lparr>uid := 0, euid := 0, suid := 0, securebits := 0x10\<rparr>) SECURE_KEEP_CAPS" by code_simp
  moreover have "cap_raised (cap_effective ex_cred) 8" by code_simp
  then have "caps (cap_effective ex_cred) \<noteq> {}" using caps_raised [of 8 "cap_effective ex_cred"] by auto
  moreover have "uid (ex_cred\<lparr>securebits := 0x10\<rparr>) \<noteq> 0" "euid (ex_cred\<lparr>securebits := 0x10\<rparr>) \<noteq> 0"
    "suid (ex_cred\<lparr>securebits := 0x10\<rparr>) \<noteq> 0" by (simp_all add: ex_cred_def)
  ultimately show ?thesis
    using keepcaps_clears_effective [of "ex_cred\<lparr>uid := 0, euid := 0, suid := 0, securebits := 0x10\<rparr>" "ex_cred\<lparr>securebits := 0x10\<rparr>"]
    by simp
qed

text \<open>C35. The comment over \<open>sys_capset\<close> says that raised inheritable capabilities must be a subset of the old
  permitted set. A task with \<open>CAP_SETPCAP\<close> can raise any inheritable capability of its bounding set.\<close>

theorem capset_raises_inheritable:
  assumes "cap_raised (cap_effective c) CAP_SETPCAP" "caps (cap_effective c) \<subseteq> caps (cap_permitted c)"
    and "caps i \<subseteq> caps (cap_bset c)"
  shows "cap_capset c c (cap_effective c) i (cap_permitted c) = (0, c\<lparr>cap_inheritable := i\<rparr>)"
  using assms by (auto simp: cap_capset_def cap_inh_is_capped_def cap_capable_def caps_issubset caps_combine)

theorem capset_raises_inheritable_witness:
  "cap_capset ex_cred ex_cred (cap_effective ex_cred) (Cap 0x20 0) (cap_permitted ex_cred) = (0, ex_cred\<lparr>cap_inheritable := Cap 0x20 0\<rparr>) \<and>
   \<not> cap_issubset (Cap 0x20 0) (cap_permitted ex_cred)"
proof -
  have "cap_raised (cap_effective ex_cred) CAP_SETPCAP" "\<not> cap_issubset (Cap 0x20 0) (cap_permitted ex_cred)"
    "cap_issubset (cap_effective ex_cred) (cap_permitted ex_cred)" "cap_issubset (Cap 0x20 0) (cap_bset ex_cred)"
    by code_simp+
  then show ?thesis using capset_raises_inheritable [of ex_cred "Cap 0x20 0"] caps_issubset by blast
qed

end
