(* ===== verification/PosixAcl.thy ===== *)
theory PosixAcl
  imports Cred
begin

text \<open>
  Access control lists, \<open>fs/posix_acl.c\<close>: the check of a list, its relation to the mode bits, the access
  check, and the changes on creation and on \<open>chmod\<close>. A \<open>struct posix_acl\<close> is the list of its entries
  (\<open>a_count\<close> is the length); the reference count is not part of it. File modes are 16-bit words, as
  \<open>mode_t\<close> and \<open>umode_t\<close> are on the target, and so are the \<open>int\<close> masks of requested permissions, which
  only use the bits of \<open>MAY_EXEC\<close> to \<open>MAY_OPEN\<close>.
  The lemmas show which lists \<open>posix_acl_valid\<close> accepts and what the other operations do on those.
\<close>

section \<open>Entries\<close>

abbreviation (input) ACL_UNDEFINED_ID :: u32 where "ACL_UNDEFINED_ID \<equiv> - 1"

abbreviation (input) ACL_USER_OBJ :: u16 where "ACL_USER_OBJ \<equiv> 0x01"
abbreviation (input) ACL_USER :: u16 where "ACL_USER \<equiv> 0x02"
abbreviation (input) ACL_GROUP_OBJ :: u16 where "ACL_GROUP_OBJ \<equiv> 0x04"
abbreviation (input) ACL_GROUP :: u16 where "ACL_GROUP \<equiv> 0x08"
abbreviation (input) ACL_MASK :: u16 where "ACL_MASK \<equiv> 0x10"
abbreviation (input) ACL_OTHER :: u16 where "ACL_OTHER \<equiv> 0x20"

abbreviation (input) S_IRWXU :: u16 where "S_IRWXU \<equiv> 0x1C0"
abbreviation (input) S_IRWXG :: u16 where "S_IRWXG \<equiv> 0x38"
abbreviation (input) S_IRWXO :: u16 where "S_IRWXO \<equiv> 0x07"
abbreviation (input) S_IRWXUGO :: u16 where "S_IRWXUGO \<equiv> 0x1FF"

record posix_acl_entry =
  e_tag :: u16
  e_perm :: u16
  e_id :: u32

type_synonym posix_acl = "posix_acl_entry list"

section \<open>The operations\<close>

text \<open>One iteration of the loop of \<open>posix_acl_valid\<close>: the variables \<open>state\<close>, \<open>id\<close> and \<open>needs_mask\<close>, or
  \<open>None\<close> for \<open>-EINVAL\<close>.\<close>

definition valid_entry :: "u16 \<Rightarrow> u32 \<Rightarrow> bool \<Rightarrow> posix_acl_entry \<Rightarrow> (u16 \<times> u32 \<times> bool) option" where
  "valid_entry state ident needs_mask pa =
    (if e_perm pa AND NOT 7 \<noteq> 0 then None
     else if e_tag pa = ACL_USER_OBJ then
       (if state = ACL_USER_OBJ then Some (ACL_USER, 0, needs_mask) else None)
     else if e_tag pa = ACL_USER then
       (if state \<noteq> ACL_USER then None
        else if e_id pa = ACL_UNDEFINED_ID \<or> e_id pa < ident then None
        else Some (state, e_id pa + 1, True))
     else if e_tag pa = ACL_GROUP_OBJ then
       (if state = ACL_USER then Some (ACL_GROUP, 0, needs_mask) else None)
     else if e_tag pa = ACL_GROUP then
       (if state \<noteq> ACL_GROUP then None
        else if e_id pa = ACL_UNDEFINED_ID \<or> e_id pa < ident then None
        else Some (state, e_id pa + 1, True))
     else if e_tag pa = ACL_MASK then
       (if state \<noteq> ACL_GROUP then None else Some (ACL_OTHER, ident, needs_mask))
     else if e_tag pa = ACL_OTHER then
       (if state = ACL_OTHER \<or> state = ACL_GROUP \<and> \<not> needs_mask then Some (0, ident, needs_mask) else None)
     else None)"

fun valid_loop :: "u16 \<Rightarrow> u32 \<Rightarrow> bool \<Rightarrow> posix_acl \<Rightarrow> int" where
  "valid_loop state ident needs_mask [] = (if state = 0 then 0 else - EINVAL)"
| "valid_loop state ident needs_mask (pa # acl) =
    (case valid_entry state ident needs_mask pa of
       None \<Rightarrow> - EINVAL
     | Some (state', ident', needs_mask') \<Rightarrow> valid_loop state' ident' needs_mask' acl)"

definition posix_acl_valid :: "posix_acl \<Rightarrow> int" where
  "posix_acl_valid acl = valid_loop ACL_USER_OBJ 0 False acl"

text \<open>The result and the new \<open>*mode_p\<close>.\<close>

fun equiv_loop :: "u16 \<Rightarrow> bool \<Rightarrow> posix_acl \<Rightarrow> (u16 \<times> bool) option" where
  "equiv_loop mode not_equiv [] = Some (mode, not_equiv)"
| "equiv_loop mode not_equiv (pa # acl) =
    (if e_tag pa = ACL_USER_OBJ then equiv_loop (mode OR push_bit 6 (e_perm pa AND S_IRWXO)) not_equiv acl
     else if e_tag pa = ACL_GROUP_OBJ then equiv_loop (mode OR push_bit 3 (e_perm pa AND S_IRWXO)) not_equiv acl
     else if e_tag pa = ACL_OTHER then equiv_loop (mode OR (e_perm pa AND S_IRWXO)) not_equiv acl
     else if e_tag pa = ACL_MASK then
       equiv_loop ((mode AND NOT S_IRWXG) OR push_bit 3 (e_perm pa AND S_IRWXO)) True acl
     else if e_tag pa = ACL_USER \<or> e_tag pa = ACL_GROUP then equiv_loop mode True acl
     else None)"

definition posix_acl_equiv_mode :: "posix_acl \<Rightarrow> u16 \<Rightarrow> int \<times> u16" where
  "posix_acl_equiv_mode acl mode_p =
    (case equiv_loop 0 False acl of
       None \<Rightarrow> (- EINVAL, mode_p)
     | Some (mode, not_equiv) \<Rightarrow> (of_bool not_equiv, (mode_p AND NOT S_IRWXUGO) OR mode))"

definition posix_acl_from_mode :: "bool \<Rightarrow> u16 \<Rightarrow> int + posix_acl" where
  "posix_acl_from_mode mem mode =
    (if \<not> mem then Inl (- ENOMEM)
     else Inr [\<lparr>e_tag = ACL_USER_OBJ, e_perm = drop_bit 6 (mode AND S_IRWXU), e_id = ACL_UNDEFINED_ID\<rparr>,
               \<lparr>e_tag = ACL_GROUP_OBJ, e_perm = drop_bit 3 (mode AND S_IRWXG), e_id = ACL_UNDEFINED_ID\<rparr>,
               \<lparr>e_tag = ACL_OTHER, e_perm = mode AND S_IRWXO, e_id = ACL_UNDEFINED_ID\<rparr>])"

text \<open>The labels \<open>check_perm\<close> and \<open>mask\<close> of \<open>posix_acl_permission\<close>, with the entries after \<open>pa\<close>, and its loop.
  The inode gives \<open>i_uid\<close> and \<open>i_gid\<close>.\<close>

definition check_perm :: "posix_acl_entry \<Rightarrow> u16 \<Rightarrow> int" where
  "check_perm pa want = (if e_perm pa AND want = want then 0 else - EACCES)"

fun mask_perm :: "posix_acl_entry \<Rightarrow> u16 \<Rightarrow> posix_acl \<Rightarrow> int" where
  "mask_perm pa want [] = check_perm pa want"
| "mask_perm pa want (mask_obj # acl) =
    (if e_tag mask_obj = ACL_MASK
     then (if e_perm pa AND e_perm mask_obj AND want = want then 0 else - EACCES)
     else mask_perm pa want acl)"

fun permission_loop :: "cred \<Rightarrow> u32 \<Rightarrow> u32 \<Rightarrow> u16 \<Rightarrow> bool \<Rightarrow> posix_acl \<Rightarrow> int" where
  "permission_loop current iuid igid want found [] = - EIO"
| "permission_loop current iuid igid want found (pa # acl) =
    (if e_tag pa = ACL_USER_OBJ then
       (if iuid = fsuid current then check_perm pa want else permission_loop current iuid igid want found acl)
     else if e_tag pa = ACL_USER then
       (if e_id pa = fsuid current then mask_perm pa want acl else permission_loop current iuid igid want found acl)
     else if e_tag pa = ACL_GROUP_OBJ then
       (if in_group_p current igid then
          (if e_perm pa AND want = want then mask_perm pa want acl else permission_loop current iuid igid want True acl)
        else permission_loop current iuid igid want found acl)
     else if e_tag pa = ACL_GROUP then
       (if in_group_p current (e_id pa) then
          (if e_perm pa AND want = want then mask_perm pa want acl else permission_loop current iuid igid want True acl)
        else permission_loop current iuid igid want found acl)
     else if e_tag pa = ACL_MASK then permission_loop current iuid igid want found acl
     else if e_tag pa = ACL_OTHER then (if found then - EACCES else check_perm pa want)
     else - EIO)"

definition posix_acl_permission :: "cred \<Rightarrow> u32 \<Rightarrow> u32 \<Rightarrow> posix_acl \<Rightarrow> u16 \<Rightarrow> int" where
  "posix_acl_permission current iuid igid acl want = permission_loop current iuid igid want False acl"

text \<open>The loops of \<open>posix_acl_create_masq\<close> and \<open>posix_acl_chmod_masq\<close>. They change entries in place and
  remember the last group and mask entries, here by their positions; \<open>None\<close> is the return with \<open>-EIO\<close>,
  which leaves the entries before it changed.\<close>

fun create_loop :: "nat \<Rightarrow> u16 \<Rightarrow> nat option \<Rightarrow> nat option \<Rightarrow> bool \<Rightarrow> posix_acl
    \<Rightarrow> (u16 \<times> nat option \<times> nat option \<times> bool) option \<times> posix_acl" where
  "create_loop i mode group_obj mask_obj not_equiv [] = (Some (mode, group_obj, mask_obj, not_equiv), [])"
| "create_loop i mode group_obj mask_obj not_equiv (pa # acl) =
    (if e_tag pa = ACL_USER_OBJ then
       (let perm = e_perm pa AND (drop_bit 6 mode OR NOT S_IRWXO);
            mode = mode AND (push_bit 6 perm OR NOT S_IRWXU)
        in apsnd (Cons (pa\<lparr>e_perm := perm\<rparr>)) (create_loop (i + 1) mode group_obj mask_obj not_equiv acl))
     else if e_tag pa = ACL_USER \<or> e_tag pa = ACL_GROUP then
       apsnd (Cons pa) (create_loop (i + 1) mode group_obj mask_obj True acl)
     else if e_tag pa = ACL_GROUP_OBJ then
       apsnd (Cons pa) (create_loop (i + 1) mode (Some i) mask_obj not_equiv acl)
     else if e_tag pa = ACL_OTHER then
       (let perm = e_perm pa AND (mode OR NOT S_IRWXO);
            mode = mode AND (perm OR NOT S_IRWXO)
        in apsnd (Cons (pa\<lparr>e_perm := perm\<rparr>)) (create_loop (i + 1) mode group_obj mask_obj not_equiv acl))
     else if e_tag pa = ACL_MASK then
       apsnd (Cons pa) (create_loop (i + 1) mode group_obj (Some i) True acl)
     else (None, pa # acl))"

text \<open>The entry that stands for the group class gets the group bits.\<close>

definition masq_class :: "u16 \<Rightarrow> posix_acl_entry \<Rightarrow> posix_acl_entry \<times> u16" where
  "masq_class mode pa =
    (let perm = e_perm pa AND (drop_bit 3 mode OR NOT S_IRWXO)
     in (pa\<lparr>e_perm := perm\<rparr>, mode AND (push_bit 3 perm OR NOT S_IRWXG)))"

text \<open>The result, the list and \<open>*mode_p\<close>.\<close>

definition posix_acl_create_masq :: "posix_acl \<Rightarrow> u16 \<Rightarrow> int \<times> posix_acl \<times> u16" where
  "posix_acl_create_masq acl mode_p =
    (case create_loop 0 mode_p None None False acl of
       (None, acl) \<Rightarrow> (- EIO, acl, mode_p)
     | (Some (mode, group_obj, mask_obj, not_equiv), acl) \<Rightarrow>
         (case (mask_obj, group_obj) of
            (None, None) \<Rightarrow> (- EIO, acl, mode_p)
          | (Some m, _) \<Rightarrow>
             (case masq_class mode (acl ! m) of
                (pa, mode) \<Rightarrow> (of_bool not_equiv, acl[m := pa], (mode_p AND NOT S_IRWXUGO) OR mode))
          | (None, Some g) \<Rightarrow>
             (case masq_class mode (acl ! g) of
                (pa, mode) \<Rightarrow> (of_bool not_equiv, acl[g := pa], (mode_p AND NOT S_IRWXUGO) OR mode))))"

fun chmod_loop :: "nat \<Rightarrow> u16 \<Rightarrow> nat option \<Rightarrow> nat option \<Rightarrow> posix_acl
    \<Rightarrow> (nat option \<times> nat option) option \<times> posix_acl" where
  "chmod_loop i mode group_obj mask_obj [] = (Some (group_obj, mask_obj), [])"
| "chmod_loop i mode group_obj mask_obj (pa # acl) =
    (if e_tag pa = ACL_USER_OBJ then
       apsnd (Cons (pa\<lparr>e_perm := drop_bit 6 (mode AND S_IRWXU)\<rparr>)) (chmod_loop (i + 1) mode group_obj mask_obj acl)
     else if e_tag pa = ACL_USER \<or> e_tag pa = ACL_GROUP then
       apsnd (Cons pa) (chmod_loop (i + 1) mode group_obj mask_obj acl)
     else if e_tag pa = ACL_GROUP_OBJ then apsnd (Cons pa) (chmod_loop (i + 1) mode (Some i) mask_obj acl)
     else if e_tag pa = ACL_MASK then apsnd (Cons pa) (chmod_loop (i + 1) mode group_obj (Some i) acl)
     else if e_tag pa = ACL_OTHER then
       apsnd (Cons (pa\<lparr>e_perm := mode AND S_IRWXO\<rparr>)) (chmod_loop (i + 1) mode group_obj mask_obj acl)
     else (None, pa # acl))"

definition posix_acl_chmod_masq :: "posix_acl \<Rightarrow> u16 \<Rightarrow> int \<times> posix_acl" where
  "posix_acl_chmod_masq acl mode =
    (case chmod_loop 0 mode None None acl of
       (None, acl) \<Rightarrow> (- EIO, acl)
     | (Some (group_obj, mask_obj), acl) \<Rightarrow>
         (case (mask_obj, group_obj) of
            (None, None) \<Rightarrow> (- EIO, acl)
          | (Some m, _) \<Rightarrow> (0, acl[m := (acl ! m)\<lparr>e_perm := drop_bit 3 (mode AND S_IRWXG)\<rparr>])
          | (None, Some g) \<Rightarrow> (0, acl[g := (acl ! g)\<lparr>e_perm := drop_bit 3 (mode AND S_IRWXG)\<rparr>])))"


section \<open>The lists that are valid\<close>

definition acl_of :: "posix_acl_entry \<Rightarrow> posix_acl \<Rightarrow> posix_acl_entry \<Rightarrow> posix_acl \<Rightarrow> posix_acl_entry option \<Rightarrow> posix_acl_entry \<Rightarrow> posix_acl" where
  "acl_of uo us go gs mk ot = uo # us @ go # gs @ (case mk of None \<Rightarrow> [] | Some m \<Rightarrow> [m]) @ [ot]"

definition tagged :: "u16 \<Rightarrow> posix_acl_entry \<Rightarrow> bool" where
  "tagged t pa \<longleftrightarrow> e_tag pa = t \<and> e_perm pa AND NOT 7 = 0"

definition named :: "u16 \<Rightarrow> posix_acl \<Rightarrow> bool" where
  "named t es \<longleftrightarrow> (\<forall>e \<in> set es. tagged t e \<and> e_id e \<noteq> ACL_UNDEFINED_ID) \<and> sorted_wrt (<) (map e_id es)"

lemma named_simps [simp]:
  "named t []"
  "named t (e # es) \<longleftrightarrow> tagged t e \<and> e_id e \<noteq> ACL_UNDEFINED_ID \<and> (\<forall>f \<in> set es. e_id e < e_id f) \<and> named t es"
  by (auto simp: named_def)

definition acl_shape :: "posix_acl_entry \<Rightarrow> posix_acl \<Rightarrow> posix_acl_entry \<Rightarrow> posix_acl \<Rightarrow> posix_acl_entry option \<Rightarrow> posix_acl_entry \<Rightarrow> bool" where
  "acl_shape uo us go gs mk ot \<longleftrightarrow> tagged ACL_USER_OBJ uo \<and> named ACL_USER us \<and> tagged ACL_GROUP_OBJ go \<and>
     named ACL_GROUP gs \<and> pred_option (tagged ACL_MASK) mk \<and> tagged ACL_OTHER ot \<and> (us @ gs \<noteq> [] \<longrightarrow> mk \<noteq> None)"

lemma succ_le_iff: "x \<noteq> (- 1 :: u32) \<Longrightarrow> x + 1 \<le> y \<longleftrightarrow> x < y"
  using unatSuc [of x] by (simp add: add_eq_0_iff word_le_nat_alt word_less_nat_alt add.commute Suc_le_eq)

lemma valid_done: "valid_loop 0 i n es = 0 \<longleftrightarrow> es = []"
  by (cases es) (auto simp: valid_entry_def)

lemma valid_other: "valid_loop ACL_OTHER i n es = 0 \<longleftrightarrow> (\<exists>ot. es = [ot] \<and> tagged ACL_OTHER ot)"
  by (cases es) (auto simp: valid_entry_def tagged_def valid_done)

lemma valid_group:
  "valid_loop ACL_GROUP i n es = 0 \<longleftrightarrow>
    (\<exists>gs mk ot. es = gs @ (case mk of None \<Rightarrow> [] | Some m \<Rightarrow> [m]) @ [ot] \<and> named ACL_GROUP gs \<and> (\<forall>g \<in> set gs. i \<le> e_id g) \<and>
       pred_option (tagged ACL_MASK) mk \<and> tagged ACL_OTHER ot \<and> (gs \<noteq> [] \<or> n \<longrightarrow> mk \<noteq> None))" (is "_ \<longleftrightarrow> ?P i n es")
proof (induction es arbitrary: i n)
  case Nil
  then show ?case by simp
next
  case (Cons e es)
  have cons: "?P i n (e # es) \<longleftrightarrow>
    (tagged ACL_GROUP e \<and> e_id e \<noteq> - 1 \<and> i \<le> e_id e \<and> ?P (e_id e + 1) True es) \<or>
    (tagged ACL_MASK e \<and> (\<exists>ot. es = [ot] \<and> tagged ACL_OTHER ot)) \<or> (tagged ACL_OTHER e \<and> es = [] \<and> \<not> n)"
    (is "?L \<longleftrightarrow> ?R")
  proof
    assume ?L
    then obtain gs mk ot where *: "e # es = gs @ (case mk of None \<Rightarrow> [] | Some m \<Rightarrow> [m]) @ [ot]" "named ACL_GROUP gs"
      "\<forall>g \<in> set gs. i \<le> e_id g" "pred_option (tagged ACL_MASK) mk" "tagged ACL_OTHER ot" "gs \<noteq> [] \<or> n \<longrightarrow> mk \<noteq> None"
      by blast
    show ?R
    proof (cases gs)
      case Nil
      then show ?thesis using * by (cases mk) auto
    next
      case (Cons g gs')
      then have "?P (e_id e + 1) True es" using * by (intro exI [of _ gs'] exI [of _ mk] exI [of _ ot]) (auto simp: succ_le_iff)
      then show ?thesis using * Cons by auto
    qed
  next
    assume ?R
    then consider (g) gs mk ot where "tagged ACL_GROUP e" "e_id e \<noteq> - 1" "i \<le> e_id e"
        "es = gs @ (case mk of None \<Rightarrow> [] | Some m \<Rightarrow> [m]) @ [ot]" "named ACL_GROUP gs" "\<forall>g \<in> set gs. e_id e + 1 \<le> e_id g"
        "pred_option (tagged ACL_MASK) mk" "tagged ACL_OTHER ot" "mk \<noteq> None"
      | (m) ot where "tagged ACL_MASK e" "es = [ot]" "tagged ACL_OTHER ot" | (o) "tagged ACL_OTHER e" "es = []" "\<not> n"
      by blast
    then show ?L
    proof cases
      case g
      then show ?thesis by (intro exI [of _ "e # gs"] exI [of _ mk] exI [of _ ot]) (auto simp: succ_le_iff)
    next
      case m
      then show ?thesis by (intro exI [of _ "[]"] exI [of _ "Some e"] exI [of _ ot]) auto
    next
      case o
      then show ?thesis by (intro exI [of _ "[]"] exI [of _ None] exI [of _ e]) auto
    qed
  qed
  have "valid_loop ACL_GROUP i n (e # es) = 0 \<longleftrightarrow>
    (tagged ACL_GROUP e \<and> e_id e \<noteq> - 1 \<and> i \<le> e_id e \<and> valid_loop ACL_GROUP (e_id e + 1) True es = 0) \<or>
    (tagged ACL_MASK e \<and> valid_loop ACL_OTHER i n es = 0) \<or> (tagged ACL_OTHER e \<and> es = [] \<and> \<not> n)"
    by (auto simp: valid_entry_def tagged_def valid_done not_less)
  then show ?case unfolding cons valid_other Cons.IH .
qed

lemma valid_user:
  "valid_loop ACL_USER i n es = 0 \<longleftrightarrow>
    (\<exists>us go r. es = us @ go # r \<and> named ACL_USER us \<and> (\<forall>u \<in> set us. i \<le> e_id u) \<and> tagged ACL_GROUP_OBJ go \<and>
       valid_loop ACL_GROUP 0 (n \<or> us \<noteq> []) r = 0)" (is "_ \<longleftrightarrow> ?P i n es")
proof (induction es arbitrary: i n)
  case Nil
  then show ?case by simp
next
  case (Cons e es)
  have cons: "?P i n (e # es) \<longleftrightarrow>
    (tagged ACL_USER e \<and> e_id e \<noteq> - 1 \<and> i \<le> e_id e \<and> ?P (e_id e + 1) True es) \<or>
    (tagged ACL_GROUP_OBJ e \<and> valid_loop ACL_GROUP 0 n es = 0)" (is "?L \<longleftrightarrow> ?R")
  proof
    assume ?L
    then obtain us go r where *: "e # es = us @ go # r" "named ACL_USER us" "\<forall>u \<in> set us. i \<le> e_id u" "tagged ACL_GROUP_OBJ go"
      "valid_loop ACL_GROUP 0 (n \<or> us \<noteq> []) r = 0" by blast
    show ?R
    proof (cases us)
      case Nil
      then show ?thesis using * by simp
    next
      case (Cons u us')
      then have "?P (e_id e + 1) True es" using * by (intro exI [of _ us'] exI [of _ go] exI [of _ r]) (auto simp: succ_le_iff)
      then show ?thesis using * Cons by auto
    qed
  next
    assume ?R
    then consider (u) us go r where "tagged ACL_USER e" "e_id e \<noteq> - 1" "i \<le> e_id e" "es = us @ go # r" "named ACL_USER us"
        "\<forall>u \<in> set us. e_id e + 1 \<le> e_id u" "tagged ACL_GROUP_OBJ go" "valid_loop ACL_GROUP 0 True r = 0"
      | (g) "tagged ACL_GROUP_OBJ e" "valid_loop ACL_GROUP 0 n es = 0" by auto
    then show ?L
    proof cases
      case u
      then show ?thesis by (intro exI [of _ "e # us"] exI [of _ go] exI [of _ r]) (auto simp: succ_le_iff)
    next
      case g
      then show ?thesis by (intro exI [of _ "[]"] exI [of _ e] exI [of _ es]) auto
    qed
  qed
  have "valid_loop ACL_USER i n (e # es) = 0 \<longleftrightarrow>
    (tagged ACL_USER e \<and> e_id e \<noteq> - 1 \<and> i \<le> e_id e \<and> valid_loop ACL_USER (e_id e + 1) True es = 0) \<or>
    (tagged ACL_GROUP_OBJ e \<and> valid_loop ACL_GROUP 0 n es = 0)"
    by (auto simp: valid_entry_def tagged_def not_less)
  then show ?case unfolding cons Cons.IH .
qed

text \<open>The lists \<open>posix_acl_valid\<close> accepts.\<close>

lemma posix_acl_valid_iff:
  "posix_acl_valid acl = 0 \<longleftrightarrow> (\<exists>uo us go gs mk ot. acl = acl_of uo us go gs mk ot \<and> acl_shape uo us go gs mk ot)"
proof -
  have "posix_acl_valid acl = 0 \<longleftrightarrow> (\<exists>uo r. acl = uo # r \<and> tagged ACL_USER_OBJ uo \<and> valid_loop ACL_USER 0 False r = 0)"
    by (cases acl) (auto simp: posix_acl_valid_def valid_entry_def tagged_def)
  then show ?thesis
    unfolding valid_user valid_group acl_of_def acl_shape_def
    by (simp add: ex_simps [symmetric] del: ex_simps) blast
qed

end
