(* ===== verification/AclCheck.thy ===== *)
theory AclCheck
  imports PosixAcl
begin

text \<open>
  What \<open>posix_acl_permission\<close> answers on the lists that \<open>posix_acl_valid\<close> accepts: the access check
  algorithm of POSIX 1003.1e, stated over the set of entries.
\<close>

section \<open>The access check\<close>

text \<open>The access check algorithm of POSIX 1003.1e, without reference to the order of the entries: the owner
  entry decides for the owner, else a named user entry if there is one for the user, else the group entries
  that match, of which one has to grant all that is wanted, else the other entry. The mask limits all
  entries but the first and the last.\<close>

definition masked_grant :: "posix_acl \<Rightarrow> u16 \<Rightarrow> posix_acl_entry \<Rightarrow> bool" where
  "masked_grant acl want e \<longleftrightarrow> e_perm e AND want = want \<and> (\<forall>m \<in> set acl. e_tag m = ACL_MASK \<longrightarrow> e_perm m AND want = want)"

definition group_match :: "cred \<Rightarrow> u32 \<Rightarrow> posix_acl_entry \<Rightarrow> bool" where
  "group_match current igid e \<longleftrightarrow>
    e_tag e = ACL_GROUP_OBJ \<and> in_group_p current igid \<or> e_tag e = ACL_GROUP \<and> in_group_p current (e_id e)"

definition acl_grants :: "cred \<Rightarrow> u32 \<Rightarrow> u32 \<Rightarrow> posix_acl \<Rightarrow> u16 \<Rightarrow> bool" where
  "acl_grants current iuid igid acl want \<longleftrightarrow>
    (let named_user = (\<lambda>e. e_tag e = ACL_USER \<and> e_id e = fsuid current)
     in if iuid = fsuid current then \<exists>e \<in> set acl. e_tag e = ACL_USER_OBJ \<and> e_perm e AND want = want
        else if \<exists>e \<in> set acl. named_user e then \<exists>e \<in> set acl. named_user e \<and> masked_grant acl want e
        else if \<exists>e \<in> set acl. group_match current igid e
        then \<exists>e \<in> set acl. group_match current igid e \<and> masked_grant acl want e
        else \<exists>e \<in> set acl. e_tag e = ACL_OTHER \<and> e_perm e AND want = want)"

lemma and_and_eq: "a AND b AND w = w \<longleftrightarrow> a AND w = w \<and> b AND w = (w :: u16)"
  by (auto simp: bit_eq_iff bit_simps)

lemma mask_perm_skip: "(\<forall>e \<in> set xs. e_tag e \<noteq> ACL_MASK) \<Longrightarrow> mask_perm pa want (xs @ r) = mask_perm pa want r"
  by (induction xs) auto

abbreviation opt_list :: "'a option \<Rightarrow> 'a list" where
  "opt_list mk \<equiv> (case mk of None \<Rightarrow> [] | Some m \<Rightarrow> [m])"

lemma mask_perm_end:
  assumes "pred_option (tagged ACL_MASK) mk" "tagged ACL_OTHER ot"
  shows "mask_perm pa want (opt_list mk @ [ot]) =
    (if e_perm pa AND want = want \<and> pred_option (\<lambda>m. e_perm m AND want = want) mk then 0 else - EACCES)"
  using assms by (cases mk) (auto simp: tagged_def check_perm_def and_and_eq)

lemma permission_users:
  assumes "named ACL_USER us" "\<And>pa xs. set xs \<subseteq> set us \<Longrightarrow> mask_perm pa want (xs @ r) = (if M pa then 0 else - EACCES)"
  shows "permission_loop c iuid igid want found (us @ r) =
    (if \<exists>u \<in> set us. e_id u = fsuid c then (if \<exists>u \<in> set us. e_id u = fsuid c \<and> M u then 0 else - EACCES)
     else permission_loop c iuid igid want found r)"
  using assms
proof (induction us)
  case Nil
  then show ?case by simp
next
  case (Cons u us)
  have t: "e_tag u = ACL_USER" using Cons.prems(1) by (simp add: tagged_def)
  have ih: "permission_loop c iuid igid want found (us @ r) =
    (if \<exists>u \<in> set us. e_id u = fsuid c then (if \<exists>u \<in> set us. e_id u = fsuid c \<and> M u then 0 else - EACCES)
     else permission_loop c iuid igid want found r)"
    by (rule Cons.IH) (use Cons.prems(1) in simp, rule Cons.prems(2), auto)
  show ?case
  proof (cases "e_id u = fsuid c")
    case True
    then have "\<forall>v \<in> set us. e_id v \<noteq> fsuid c" using Cons.prems(1) by auto
    moreover have "mask_perm u want (us @ r) = (if M u then 0 else - EACCES)" by (rule Cons.prems(2)) auto
    ultimately show ?thesis using True t by auto
  next
    case False
    then show ?thesis using t ih by simp
  qed
qed

lemma permission_groups:
  assumes "\<forall>g \<in> set gs. e_tag g = ACL_GROUP" "pred_option (tagged ACL_MASK) mk" "tagged ACL_OTHER ot"
  shows "permission_loop c iuid igid want found (gs @ opt_list mk @ [ot]) =
    (if \<exists>g \<in> set gs. in_group_p c (e_id g) \<and> e_perm g AND want = want
     then (if pred_option (\<lambda>m. e_perm m AND want = want) mk then 0 else - EACCES)
     else if found \<or> (\<exists>g \<in> set gs. in_group_p c (e_id g)) then - EACCES else check_perm ot want)"
  using assms
proof (induction gs arbitrary: found)
  case Nil
  then show ?case by (cases mk) (auto simp: tagged_def)
next
  case (Cons g gs)
  have "mask_perm g want (gs @ opt_list mk @ [ot]) = mask_perm g want (opt_list mk @ [ot])"
    using Cons.prems(1) by (intro mask_perm_skip) auto
  then show ?case using Cons by (auto simp: mask_perm_end)
qed

lemma shape_tags:
  assumes "acl_shape uo us go gs mk ot"
  shows "e_tag uo = ACL_USER_OBJ" "e_tag go = ACL_GROUP_OBJ" "e_tag ot = ACL_OTHER"
    "\<And>u. u \<in> set us \<Longrightarrow> e_tag u = ACL_USER" "\<And>g. g \<in> set gs \<Longrightarrow> e_tag g = ACL_GROUP" "\<And>m. mk = Some m \<Longrightarrow> e_tag m = ACL_MASK"
  using assms by (auto simp: acl_shape_def tagged_def named_def)

lemma shape_ex:
  assumes "acl_shape uo us go gs mk ot"
  shows "(\<exists>e \<in> set (acl_of uo us go gs mk ot). e_tag e = ACL_USER_OBJ \<and> P e) \<longleftrightarrow> P uo"
    "(\<exists>e \<in> set (acl_of uo us go gs mk ot). e_tag e = ACL_USER \<and> P e) \<longleftrightarrow> (\<exists>u \<in> set us. P u)"
    "(\<exists>e \<in> set (acl_of uo us go gs mk ot). e_tag e = ACL_GROUP_OBJ \<and> P e) \<longleftrightarrow> P go"
    "(\<exists>e \<in> set (acl_of uo us go gs mk ot). e_tag e = ACL_GROUP \<and> P e) \<longleftrightarrow> (\<exists>g \<in> set gs. P g)"
    "(\<exists>e \<in> set (acl_of uo us go gs mk ot). e_tag e = ACL_OTHER \<and> P e) \<longleftrightarrow> P ot"
    "(\<forall>e \<in> set (acl_of uo us go gs mk ot). e_tag e = ACL_MASK \<longrightarrow> P e) \<longleftrightarrow> pred_option P mk"
proof -
  have t: "e_tag uo = ACL_USER_OBJ" "e_tag go = ACL_GROUP_OBJ" "e_tag ot = ACL_OTHER"
    "\<forall>u \<in> set us. e_tag u = ACL_USER" "\<forall>g \<in> set gs. e_tag g = ACL_GROUP" "\<forall>m \<in> set_option mk. e_tag m = ACL_MASK"
    using shape_tags [OF assms] by auto
  have s: "set (acl_of uo us go gs mk ot) = insert uo (set us) \<union> insert go (set gs) \<union> set_option mk \<union> {ot}"
    by (auto simp: acl_of_def split: option.splits)
  note bx = s bex_Un ball_Un bex_simps(5) ball_simps(7) bex_triv_one_point1
  have no: "(\<exists>e \<in> A. e_tag e = k \<and> P e) \<longleftrightarrow> False" "(\<exists>e \<in> A. e_tag e = n \<and> P e) \<longleftrightarrow> (\<exists>e \<in> A. P e)"
    if "\<forall>e \<in> A. e_tag e = n" "n \<noteq> k" for A n k using that by auto
  have na: "(\<forall>e \<in> A. e_tag e = k \<longrightarrow> P e) \<longleftrightarrow> True" if "\<forall>e \<in> A. e_tag e = n" "n \<noteq> k" for A n k using that by auto
  show "(\<exists>e \<in> set (acl_of uo us go gs mk ot). e_tag e = ACL_USER_OBJ \<and> P e) \<longleftrightarrow> P uo"
    "(\<exists>e \<in> set (acl_of uo us go gs mk ot). e_tag e = ACL_USER \<and> P e) \<longleftrightarrow> (\<exists>u \<in> set us. P u)"
    "(\<exists>e \<in> set (acl_of uo us go gs mk ot). e_tag e = ACL_GROUP_OBJ \<and> P e) \<longleftrightarrow> P go"
    "(\<exists>e \<in> set (acl_of uo us go gs mk ot). e_tag e = ACL_GROUP \<and> P e) \<longleftrightarrow> (\<exists>g \<in> set gs. P g)"
    "(\<exists>e \<in> set (acl_of uo us go gs mk ot). e_tag e = ACL_OTHER \<and> P e) \<longleftrightarrow> P ot"
    unfolding bx using t(1-3) by (simp_all add: no [OF t(4)] no [OF t(5)] no [OF t(6)] no(2) [OF t(4), of 1] no(2) [OF t(5), of 1])
  show "(\<forall>e \<in> set (acl_of uo us go gs mk ot). e_tag e = ACL_MASK \<longrightarrow> P e) \<longleftrightarrow> pred_option P mk"
    unfolding bx option.pred_set using t(1-3,6) by (simp add: na [OF t(4)] na [OF t(5)])
qed

lemma shape_group_match:
  assumes "acl_shape uo us go gs mk ot"
  shows "(\<exists>e \<in> set (acl_of uo us go gs mk ot). group_match c igid e \<and> P e) \<longleftrightarrow>
    in_group_p c igid \<and> P go \<or> (\<exists>g \<in> set gs. in_group_p c (e_id g) \<and> P g)"
proof -
  have "(\<exists>e \<in> set (acl_of uo us go gs mk ot). group_match c igid e \<and> P e) \<longleftrightarrow>
    (\<exists>e \<in> set (acl_of uo us go gs mk ot). e_tag e = ACL_GROUP_OBJ \<and> (in_group_p c igid \<and> P e)) \<or>
    (\<exists>e \<in> set (acl_of uo us go gs mk ot). e_tag e = ACL_GROUP \<and> (in_group_p c (e_id e) \<and> P e))"
    unfolding group_match_def by blast
  then show ?thesis unfolding shape_ex [OF assms] .
qed

lemma grants_shape:
  assumes "acl_shape uo us go gs mk ot"
  defines "M \<equiv> (\<lambda>pa want. e_perm pa AND want = want \<and> pred_option (\<lambda>m. e_perm m AND want = want) mk)"
  shows "acl_grants c iuid igid (acl_of uo us go gs mk ot) want \<longleftrightarrow>
    (if iuid = fsuid c then e_perm uo AND want = want
     else if \<exists>u \<in> set us. e_id u = fsuid c then \<exists>u \<in> set us. e_id u = fsuid c \<and> M u want
     else if in_group_p c igid \<or> (\<exists>g \<in> set gs. in_group_p c (e_id g))
     then in_group_p c igid \<and> M go want \<or> (\<exists>g \<in> set gs. in_group_p c (e_id g) \<and> M g want)
     else e_perm ot AND want = want)"
proof -
  have ex: "(\<exists>e \<in> set (acl_of uo us go gs mk ot). e_tag e = ACL_USER \<and> e_id e = fsuid c \<and> P e) \<longleftrightarrow> (\<exists>u \<in> set us. e_id u = fsuid c \<and> P u)" for P
    by (rule shape_ex(2) [OF assms(1)])
  show ?thesis
    unfolding M_def acl_grants_def masked_grant_def Let_def conj_assoc shape_ex [OF assms(1)] ex
      shape_group_match [OF assms(1)] shape_ex(2) [OF assms(1)]
      shape_group_match [OF assms(1), of _ _ "\<lambda>_. True", simplified] by (rule refl)
qed

lemma permission_shape:
  assumes "acl_shape uo us go gs mk ot"
  shows "posix_acl_permission c iuid igid (acl_of uo us go gs mk ot) want =
    (if acl_grants c iuid igid (acl_of uo us go gs mk ot) want then 0 else - EACCES)"
proof -
  note t = shape_tags [OF assms]
  have s: "named ACL_USER us" "pred_option (tagged ACL_MASK) mk" "tagged ACL_OTHER ot" using assms by (simp_all add: acl_shape_def)
  let ?M = "\<lambda>pa. e_perm pa AND want = want \<and> pred_option (\<lambda>m. e_perm m AND want = want) mk"
  have skip: "mask_perm pa want (xs @ opt_list mk @ [ot]) = (if ?M pa then 0 else - EACCES)"
    if "\<forall>e \<in> set xs. e_tag e \<noteq> ACL_MASK" for pa xs
    unfolding mask_perm_skip [OF that] by (rule mask_perm_end [OF s(2,3)])
  have u: "permission_loop c iuid igid want False (us @ go # gs @ opt_list mk @ [ot]) =
    (if \<exists>u \<in> set us. e_id u = fsuid c then (if \<exists>u \<in> set us. e_id u = fsuid c \<and> ?M u then 0 else - EACCES)
     else permission_loop c iuid igid want False (go # gs @ opt_list mk @ [ot]))"
  proof (rule permission_users [OF s(1)])
    fix pa xs assume "set xs \<subseteq> set us"
    then have "\<forall>e \<in> set (xs @ go # gs). e_tag e \<noteq> ACL_MASK" using t by auto
    from skip [OF this] show "mask_perm pa want (xs @ go # gs @ opt_list mk @ [ot]) = (if ?M pa then 0 else - EACCES)" by simp
  qed
  have "\<forall>g \<in> set gs. e_tag g = ACL_GROUP" "\<forall>g \<in> set gs. e_tag g \<noteq> ACL_MASK" using t(5) by simp_all
  note g = permission_groups [OF this(1) s(2,3)] and gm = skip [OF this(2)]
  have p: "posix_acl_permission c iuid igid (acl_of uo us go gs mk ot) want =
    (if iuid = fsuid c then check_perm uo want
     else permission_loop c iuid igid want False (us @ go # gs @ opt_list mk @ [ot]))"
    by (simp add: posix_acl_permission_def acl_of_def t)
  note gr = grants_shape [OF assms]
  show ?thesis
    unfolding p u gr
    by (cases "in_group_p c igid"; cases "e_perm go AND want = want"; cases "pred_option (\<lambda>m. e_perm m AND want = want) mk")
      (simp_all add: t g gm check_perm_def, blast?)
qed

text \<open>A valid list never leads to \<open>-EIO\<close>, and the answer is that of the algorithm above.\<close>

lemma permission_valid:
  "posix_acl_valid acl = 0 \<Longrightarrow> posix_acl_permission c iuid igid acl want = (if acl_grants c iuid igid acl want then 0 else - EACCES)"
  unfolding posix_acl_valid_iff by (elim exE conjE) (simp only: permission_shape)

end
