(* ===== verification/AclMode.thy ===== *)
theory AclMode
  imports AclCheck
begin

text \<open>
  The relation of a valid list to the nine permission bits of the mode, and the effect of
  \<open>posix_acl_chmod_masq\<close> and \<open>posix_acl_create_masq\<close> on a valid list, in closed form.
\<close>

section \<open>The mode bits\<close>

lemma mode_masks:
  "(7 :: u16) = mask 3" "(0x38 :: u16) = push_bit 3 (mask 3)" "(0x1C0 :: u16) = push_bit 6 (mask 3)" "(0x1FF :: u16) = mask 9"
  by (simp_all add: mask_eq_exp_minus_1 push_bit_eq_mult)

definition small :: "u16 \<Rightarrow> bool" where
  "small p \<longleftrightarrow> (\<forall>n. bit p n \<longrightarrow> n < 3)"

lemma small_iff: "p AND NOT 7 = 0 \<longleftrightarrow> small p"
proof -
  have "p AND NOT (mask 3) = 0 \<longleftrightarrow> small p"
    unfolding small_def bit_eq_iff using bit_imp_le_length [of p] by (auto simp: bit_simps)
  then show ?thesis unfolding mode_masks(1) .
qed

definition mode_bits :: "u16 \<Rightarrow> u16 \<Rightarrow> u16 \<Rightarrow> u16" where
  "mode_bits u g r = push_bit 6 u OR push_bit 3 g OR r"

definition group_class :: "posix_acl_entry option \<Rightarrow> posix_acl_entry \<Rightarrow> posix_acl_entry" where
  "group_class mk go = (case mk of None \<Rightarrow> go | Some m \<Rightarrow> m)"

lemma small_and: "small p \<Longrightarrow> small (p AND q)" "small p \<Longrightarrow> small (q AND p)" "small (p AND 7)"
  "small (drop_bit 6 (p AND 0x1C0))" "small (drop_bit 3 (p AND 0x38))"
  unfolding mode_masks by (auto simp: small_def bit_simps)

lemma small_and_7: "small p \<Longrightarrow> p AND 7 = p"
  unfolding mode_masks by (rule bit_word_eqI) (auto simp: bit_simps small_def)

lemma group_bits_replace:
  "small u \<Longrightarrow> (push_bit 6 u OR push_bit 3 g) AND NOT 0x38 OR push_bit 3 m = push_bit 6 u OR push_bit 3 (m :: u16)" if "small g"
  unfolding mode_masks by (rule bit_word_eqI) (use that in \<open>auto simp: bit_simps small_def\<close>)

lemma mode_bits_or: "small r \<Longrightarrow> push_bit 6 u OR push_bit 3 g OR r = mode_bits u g r"
  by (simp add: mode_bits_def)

lemma equiv_named: "(\<forall>e \<in> set es. e_tag e = ACL_USER \<or> e_tag e = ACL_GROUP) \<Longrightarrow>
    equiv_loop mode ne (es @ r) = equiv_loop mode (ne \<or> es \<noteq> []) r"
  by (induction es arbitrary: ne) auto

lemma shape_small:
  assumes "acl_shape uo us go gs mk ot"
  shows "small (e_perm uo)" "small (e_perm go)" "small (e_perm ot)" "small (e_perm (group_class mk go))"
  using assms unfolding acl_shape_def tagged_def small_iff group_class_def by (auto split: option.splits)

lemma shape_named:
  assumes "acl_shape uo us go gs mk ot"
  shows "\<forall>e \<in> set us. e_tag e = ACL_USER \<or> e_tag e = ACL_GROUP" "\<forall>e \<in> set gs. e_tag e = ACL_USER \<or> e_tag e = ACL_GROUP"
  using assms by (auto simp: acl_shape_def tagged_def named_def)

lemma equiv_shape:
  assumes "acl_shape uo us go gs mk ot"
  shows "equiv_loop 0 False (acl_of uo us go gs mk ot) =
    Some (mode_bits (e_perm uo) (e_perm (group_class mk go)) (e_perm ot), mk \<noteq> None)"
proof -
  note t = shape_tags(1-3) [OF assms] and s = shape_small [OF assms]
  have n: "us \<noteq> [] \<or> gs \<noteq> [] \<longrightarrow> mk \<noteq> None" using assms by (auto simp: acl_shape_def)
  show ?thesis
  proof (cases mk)
    case None
    then show ?thesis using n t s
      by (simp add: acl_of_def small_and_7 group_class_def mode_bits_def or.assoc)
  next
    case (Some m)
    then have "e_tag m = ACL_MASK" "small (e_perm m)" using shape_tags(6) [OF assms] s(4) by (simp_all add: group_class_def)
    then show ?thesis
      unfolding acl_of_def using Some t s
      by (simp add: equiv_named [OF shape_named(1) [OF assms]] equiv_named [OF shape_named(2) [OF assms]] small_and_7
        group_class_def mode_bits_def group_bits_replace [simplified] or.assoc)
  qed
qed

lemma equiv_mode_shape:
  assumes "acl_shape uo us go gs mk ot"
  shows "posix_acl_equiv_mode (acl_of uo us go gs mk ot) mode_p =
    (of_bool (mk \<noteq> None), (mode_p AND NOT 0x1FF) OR mode_bits (e_perm uo) (e_perm (group_class mk go)) (e_perm ot))"
  by (simp add: posix_acl_equiv_mode_def equiv_shape [OF assms])

section \<open>Changing the mode\<close>

lemma chmod_named: "(\<forall>e \<in> set es. e_tag e = ACL_USER \<or> e_tag e = ACL_GROUP) \<Longrightarrow>
    chmod_loop i mode g m (es @ r) = apsnd ((@) es) (chmod_loop (i + length es) mode g m r)"
  by (induction es arbitrary: i) (auto simp: prod_eq_iff)

lemma chmod_shape:
  assumes "acl_shape uo us go gs mk ot"
  shows "posix_acl_chmod_masq (acl_of uo us go gs mk ot) mode =
    (0, acl_of (uo\<lparr>e_perm := drop_bit 6 (mode AND S_IRWXU)\<rparr>) us
          (if mk = None then go\<lparr>e_perm := drop_bit 3 (mode AND S_IRWXG)\<rparr> else go) gs
          (map_option (\<lambda>m. m\<lparr>e_perm := drop_bit 3 (mode AND S_IRWXG)\<rparr>) mk) (ot\<lparr>e_perm := mode AND S_IRWXO\<rparr>))"
  using shape_tags [OF assms] unfolding acl_of_def posix_acl_chmod_masq_def
  by (cases mk) (simp_all add: chmod_named [OF shape_named(1) [OF assms]] chmod_named [OF shape_named(2) [OF assms]]
    nth_append list_update_append)

lemma create_named: "(\<forall>e \<in> set es. e_tag e = ACL_USER \<or> e_tag e = ACL_GROUP) \<Longrightarrow>
    create_loop i mode g m ne (es @ r) = apsnd ((@) es) (create_loop (i + length es) mode g m (ne \<or> es \<noteq> []) r)"
  by (induction es arbitrary: i ne) (auto simp: prod_eq_iff)

text \<open>The complements of the masks, as the simplifier writes them.\<close>

lemma neg_masks:
  "(- 8 :: u16) = NOT (mask 3)" "(- 57 :: u16) = NOT (push_bit 3 (mask 3))" "(- 449 :: u16) = NOT (push_bit 6 (mask 3))"
  "(- 512 :: u16) = NOT (mask 9)"
  unfolding mode_masks [symmetric] by simp_all

text \<open>The permission a class keeps when the mode is applied to it.\<close>

lemma create_perm_bits:
  assumes "small p"
  shows "p AND (drop_bit 6 mode OR - 8) = p AND drop_bit 6 mode"
    "p AND (drop_bit 3 mode OR - 8) = p AND drop_bit 3 mode"
    "p AND (mode OR - 8) = p AND mode"
  unfolding neg_masks by (rule bit_word_eqI; use assms in \<open>auto simp: bit_simps small_def\<close>)+

lemma create_other_bits:
  assumes "small r" "small u"
  shows "r AND (mode AND (push_bit 6 u OR - 449)) = r AND (mode :: u16)"
  unfolding neg_masks by (rule bit_word_eqI) (use assms in \<open>auto simp: bit_simps small_def\<close>)

lemma masq_class_created:
  assumes "small (e_perm pa)" "small u" "small r"
  shows "masq_class (mode AND (push_bit 6 u OR - 449) AND (r OR - 8)) pa =
    (pa\<lparr>e_perm := e_perm pa AND drop_bit 3 mode\<rparr>,
     (mode AND (push_bit 6 u OR - 449) AND (r OR - 8)) AND (push_bit 3 (e_perm pa AND drop_bit 3 mode) OR - 57))"
proof -
  have e: "e_perm pa AND (drop_bit 3 (mode AND (push_bit 6 u OR - 449) AND (r OR - 8)) OR NOT 7) = e_perm pa AND drop_bit 3 mode"
    unfolding neg_masks mode_masks by (rule bit_word_eqI) (use assms in \<open>auto simp: bit_simps small_def\<close>)
  have m: "(- 57 :: u16) = NOT 0x38" by simp
  show ?thesis unfolding masq_class_def Let_def e m by (rule refl)
qed

lemma create_mode_bits:
  assumes "small u" "small g" "small r"
  shows "(mode AND - 512) OR (mode AND (push_bit 6 (u AND drop_bit 6 mode) OR - 449) AND (r AND mode OR - 8) AND
      (push_bit 3 (g AND drop_bit 3 mode) OR - 57)) =
    (mode AND - 512) OR mode_bits (u AND drop_bit 6 mode) (g AND drop_bit 3 mode) (r AND (mode :: u16))"
  unfolding neg_masks mode_bits_def
  by (rule bit_word_eqI) (use assms in \<open>auto simp: bit_simps small_def\<close>)

lemma create_loop_shape:
  assumes "acl_shape uo us go gs mk ot"
  shows "create_loop 0 mode None None False (acl_of uo us go gs mk ot) =
    (Some (mode AND (push_bit 6 (e_perm uo AND drop_bit 6 mode) OR - 449) AND (e_perm ot AND mode OR - 8), Some (1 + length us),
       map_option (\<lambda>_. 2 + length us + length gs) mk, mk \<noteq> None),
     acl_of (uo\<lparr>e_perm := e_perm uo AND drop_bit 6 mode\<rparr>) us go gs mk (ot\<lparr>e_perm := e_perm ot AND mode\<rparr>))"
proof -
  note t = shape_tags(1-3) [OF assms] and s = shape_small [OF assms]
  have n: "us \<noteq> [] \<or> gs \<noteq> [] \<longrightarrow> mk \<noteq> None" using assms by (auto simp: acl_shape_def)
  note loop = create_named [OF shape_named(1) [OF assms]] create_named [OF shape_named(2) [OF assms]]
  note bits = create_perm_bits create_other_bits small_and s
  show ?thesis
    using t n shape_tags(6) [OF assms] unfolding acl_of_def
    by (cases mk) (auto simp: loop bits Let_def and.assoc simp del: push_bit_and drop_bit_and)
qed

lemma create_shape:
  assumes "acl_shape uo us go gs mk ot"
  shows "posix_acl_create_masq (acl_of uo us go gs mk ot) mode =
    (of_bool (mk \<noteq> None),
     acl_of (uo\<lparr>e_perm := e_perm uo AND drop_bit 6 mode\<rparr>) us
       (if mk = None then go\<lparr>e_perm := e_perm go AND drop_bit 3 mode\<rparr> else go) gs
       (map_option (\<lambda>m. m\<lparr>e_perm := e_perm m AND drop_bit 3 mode\<rparr>) mk) (ot\<lparr>e_perm := e_perm ot AND mode\<rparr>),
     (mode AND NOT 0x1FF) OR mode_bits (e_perm uo AND drop_bit 6 mode) (e_perm (group_class mk go) AND drop_bit 3 mode) (e_perm ot AND mode))"
proof -
  note s = shape_small [OF assms]
  note bits = masq_class_created [OF s(4) small_and(1) [OF s(1)] small_and(1) [OF s(3)]] create_mode_bits [OF s(1,4,3)]
  have "(case mk of None \<Rightarrow> go | Some m \<Rightarrow> m) = group_class mk go" by (simp add: group_class_def)
  show ?thesis
    unfolding posix_acl_create_masq_def create_loop_shape [OF assms]
    using bits by (cases mk) (simp_all add: group_class_def acl_of_def nth_append list_update_append and.assoc del: push_bit_and drop_bit_and)
qed

end
