(* ===== verification/AclXattr.thy ===== *)
theory AclXattr
  imports PosixAcl
begin

text \<open>
  The extended attribute that holds an access control list, \<open>fs/xattr_acl.c\<close> and
  \<open>include/linux/posix_acl_xattr.h\<close>: a version word and eight bytes for each entry. Sizes are 32-bit words,
  as \<open>size_t\<close> is on the target. The lemmas give the round trip for lists of fewer than \<open>2 ^ 28\<close> entries,
  for which the size does not wrap around.
\<close>

section \<open>Conversion\<close>

definition xattr_entry :: "u8 list \<Rightarrow> posix_acl_entry" where
  "xattr_entry bs = \<lparr>e_tag = le16 (take 2 bs), e_perm = le16 (take 2 (drop 2 bs)), e_id = le32 (take 4 (drop 4 bs))\<rparr>"

definition xattr_of_entry :: "posix_acl_entry \<Rightarrow> u8 list" where
  "xattr_of_entry pa = to_le16 (e_tag pa) @ to_le16 (e_perm pa) @ to_le32 (e_id pa)"

interpretation acl_entry: fixed_codec xattr_of_entry xattr_entry 8
  by unfold_locales (simp_all add: xattr_entry_def xattr_of_entry_def)

definition posix_acl_xattr_size :: "u32 \<Rightarrow> u32" where
  "posix_acl_xattr_size cnt = 4 + cnt * 8"

definition posix_acl_xattr_count :: "u32 \<Rightarrow> int" where
  "posix_acl_xattr_count sz =
    (if sz < 4 then - 1
     else let sz = sz - 4 in if sz mod 8 \<noteq> 0 then - 1 else uint (sz div 8))"

fun from_entries :: "nat \<Rightarrow> u8 list \<Rightarrow> posix_acl option" where
  "from_entries 0 bs = Some []"
| "from_entries (Suc n) bs =
    (let e = xattr_entry (take 8 bs)
     in if e_tag e = ACL_USER_OBJ \<or> e_tag e = ACL_GROUP_OBJ \<or> e_tag e = ACL_MASK \<or> e_tag e = ACL_OTHER
        then map_option (Cons (e\<lparr>e_id := ACL_UNDEFINED_ID\<rparr>)) (from_entries n (drop 8 bs))
        else if e_tag e = ACL_USER \<or> e_tag e = ACL_GROUP then map_option (Cons e) (from_entries n (drop 8 bs))
        else None)"

definition posix_acl_from_xattr :: "bool \<Rightarrow> u8 list option \<Rightarrow> int + posix_acl option" where
  "posix_acl_from_xattr mem value =
    (case value of
       None \<Rightarrow> Inr None
     | Some bs \<Rightarrow>
        (let sz = of_nat (length bs)
         in if sz < 4 then Inl (- EINVAL)
            else if le32 (take 4 bs) \<noteq> 2 then Inl (- EOPNOTSUPP)
            else let cnt = posix_acl_xattr_count sz
              in if cnt < 0 then Inl (- EINVAL)
                 else if cnt = 0 then Inr None
                 else if \<not> mem then Inl (- ENOMEM)
                 else (case from_entries (nat cnt) (drop 4 bs) of
                     None \<Rightarrow> Inl (- EINVAL) | Some acl \<Rightarrow> Inr (Some acl))))"

text \<open>The result and what is written to the buffer, if there is one (of the given size).\<close>

definition posix_acl_to_xattr :: "posix_acl \<Rightarrow> u32 option \<Rightarrow> int \<times> u8 list" where
  "posix_acl_to_xattr acl buffer =
    (let real_size = posix_acl_xattr_size (of_nat (length acl))
     in case buffer of
          None \<Rightarrow> (sint real_size, [])
        | Some sz \<Rightarrow>
           if real_size > sz then (- ERANGE, [])
           else (sint real_size, to_le32 2 @ concat (map xattr_of_entry acl)))"

definition known_tags :: "u16 set" where
  "known_tags = {ACL_USER_OBJ, ACL_USER, ACL_GROUP_OBJ, ACL_GROUP, ACL_MASK, ACL_OTHER}"

definition strip_id :: "posix_acl_entry \<Rightarrow> posix_acl_entry" where
  "strip_id e = (if e_tag e = ACL_USER \<or> e_tag e = ACL_GROUP then e else e\<lparr>e_id := ACL_UNDEFINED_ID\<rparr>)"

lemma from_entries_encs:
  "e_tag ` set acl \<subseteq> known_tags \<Longrightarrow> from_entries (length acl) (concat (map xattr_of_entry acl) @ r) = Some (map strip_id acl)"
proof (induction acl)
  case (Cons e acl)
  have "concat (map xattr_of_entry (e # acl)) @ r = xattr_of_entry e @ concat (map xattr_of_entry acl) @ r" by simp
  then show ?case using Cons
    by (auto simp: Let_def acl_entry.dec_first strip_id_def known_tags_def simp del: take_append drop_append)
qed simp

lemma xattr_count_size:
  assumes "n < 2 ^ 28"
  shows "posix_acl_xattr_count (of_nat (4 + n * 8)) = int n" "\<not> of_nat (4 + n * 8) < (4 :: u32)"
    "unat (posix_acl_xattr_size (of_nat n)) = 4 + n * 8"
proof -
  have u: "unat (of_nat (4 + n * 8) :: u32) = 4 + n * 8" "unat (of_nat (n * 8) :: u32) = n * 8"
    using assms by (simp_all add: unat_of_nat_u32 del: of_nat_add of_nat_mult)
  show l: "\<not> of_nat (4 + n * 8) < (4 :: u32)" unfolding word_less_nat_alt u by simp
  have d: "of_nat (4 + n * 8) - (4 :: u32) = of_nat (n * 8)" by simp
  have "unat (of_nat (n * 8) mod 8 :: u32) = 0" "unat (of_nat (n * 8) div 8 :: u32) = n"
    unfolding unat_mod unat_div u by simp_all
  then have "of_nat (n * 8) mod (8 :: u32) = 0" "uint (of_nat (n * 8) div (8 :: u32)) = int n"
    by (metis unat_eq_0, metis uint_nat)
  then show "posix_acl_xattr_count (of_nat (4 + n * 8)) = int n"
    unfolding posix_acl_xattr_count_def Let_def if_not_P [OF l] d by simp
  have "posix_acl_xattr_size (of_nat n) = of_nat (4 + n * 8)" by (simp add: posix_acl_xattr_size_def)
  then show "unat (posix_acl_xattr_size (of_nat n)) = 4 + n * 8" using u(1) by simp
qed

lemma xattr_round_trip:
  assumes "e_tag ` set acl \<subseteq> known_tags" "acl \<noteq> []" "length acl < 2 ^ 28" "4 + length acl * 8 \<le> unat sz"
  shows "\<exists>bs. posix_acl_to_xattr acl (Some sz) = (4 + 8 * int (length acl), bs) \<and>
    posix_acl_from_xattr True (Some bs) = Inr (Some (map strip_id acl))"
proof -
  let ?bs = "to_le32 2 @ concat (map xattr_of_entry acl)"
  note c = xattr_count_size [OF assms(3)]
  have len: "length ?bs = 4 + length acl * 8" by (simp add: acl_entry.length_encs)
  have "sint (posix_acl_xattr_size (of_nat (length acl))) = 4 + 8 * int (length acl)"
    using assms(3) c(3) by (subst sint_eq_unat) simp_all
  moreover have "\<not> posix_acl_xattr_size (of_nat (length acl)) > sz" using assms(4) c(3) by (simp add: word_less_nat_alt)
  ultimately have "posix_acl_to_xattr acl (Some sz) = (4 + 8 * int (length acl), ?bs)" by (simp add: posix_acl_to_xattr_def)
  moreover have "posix_acl_from_xattr True (Some ?bs) = Inr (Some (map strip_id acl))"
    using from_entries_encs [OF assms(1), of "[]"] assms(2) c(1,2)
    unfolding posix_acl_from_xattr_def option.case Let_def len by simp
  ultimately show ?thesis by blast
qed

end
