(* ===== verification/Inode.thy ===== *)
theory Inode
  imports AclMode AclXattr
begin

text \<open>
  Inodes and who may use them: the permission checks of \<open>fs/namei.c\<close>, the attribute changes of \<open>fs/attr.c\<close>,
  the access control lists of in-memory file systems in \<open>fs/generic_acl.c\<close>, and creation and attribute
  changes of tmpfs in \<open>mm/shmem.c\<close>. An inode holds the fields these functions read or write; page contents,
  link counts, locks and notifications are left out. An access control list pointer is an option: tmpfs
  inodes are created by \<open>cache_no_acl\<close>, so that \<open>ACL_NOT_CACHED\<close> does not occur. The security module is the
  capability module, whose hooks for inodes that are not below return 0.
\<close>

section \<open>Inodes\<close>

record timespec =
  tv_sec :: u32
  tv_nsec :: u32

record super_block =
  s_flags :: u32
  s_time_gran :: u32
  s_maxbytes :: int

record inode =
  i_mode :: u16
  i_uid :: u32
  i_gid :: u32
  i_flags :: u32
  i_size :: int
  i_atime :: timespec
  i_mtime :: timespec
  i_ctime :: timespec
  i_acl :: "posix_acl option"
  i_default_acl :: "posix_acl option"
  i_sb :: super_block

record iattr =
  ia_valid :: u32
  ia_mode :: u16
  ia_uid :: u32
  ia_gid :: u32
  ia_size :: int
  ia_atime :: timespec
  ia_mtime :: timespec
  ia_ctime :: timespec

text \<open>What a call finds around it: the credentials of the caller, which of the allocations of the call succeed and whether a new inode can be had,
  the umask, the time and the length of a tick in nanoseconds, the limit on file sizes, what the hooks for
  file capabilities and the device controller answer.\<close>

record vfs_env =
  current :: cred
  ve_mem :: "nat \<Rightarrow> bool"
  ve_inode :: bool
  ve_umask :: u16
  ve_now :: timespec
  ve_tick :: u32
  ve_fsize :: u32
  ve_need_killpriv :: int
  ve_killpriv :: int
  ve_devcgroup :: int

definition flag :: "'a :: len word \<Rightarrow> 'a word \<Rightarrow> bool" where
  "flag v f \<longleftrightarrow> v AND f \<noteq> 0"

abbreviation (input) S_IFMT :: u16 where "S_IFMT \<equiv> 0xF000"
abbreviation (input) S_IFSOCK :: u16 where "S_IFSOCK \<equiv> 0xC000"
abbreviation (input) S_IFLNK :: u16 where "S_IFLNK \<equiv> 0xA000"
abbreviation (input) S_IFREG :: u16 where "S_IFREG \<equiv> 0x8000"
abbreviation (input) S_IFBLK :: u16 where "S_IFBLK \<equiv> 0x6000"
abbreviation (input) S_IFDIR :: u16 where "S_IFDIR \<equiv> 0x4000"
abbreviation (input) S_IFCHR :: u16 where "S_IFCHR \<equiv> 0x2000"
abbreviation (input) S_IFIFO :: u16 where "S_IFIFO \<equiv> 0x1000"
abbreviation (input) S_ISVTX :: u16 where "S_ISVTX \<equiv> 0x200"
abbreviation (input) S_IALLUGO :: u16 where "S_IALLUGO \<equiv> 0xFFF"
abbreviation (input) S_IXUGO :: u16 where "S_IXUGO \<equiv> 0x49"

definition S_ISLNK :: "u16 \<Rightarrow> bool" where "S_ISLNK m \<longleftrightarrow> m AND S_IFMT = S_IFLNK"
definition S_ISREG :: "u16 \<Rightarrow> bool" where "S_ISREG m \<longleftrightarrow> m AND S_IFMT = S_IFREG"
definition S_ISDIR :: "u16 \<Rightarrow> bool" where "S_ISDIR m \<longleftrightarrow> m AND S_IFMT = S_IFDIR"
definition S_ISCHR :: "u16 \<Rightarrow> bool" where "S_ISCHR m \<longleftrightarrow> m AND S_IFMT = S_IFCHR"
definition S_ISBLK :: "u16 \<Rightarrow> bool" where "S_ISBLK m \<longleftrightarrow> m AND S_IFMT = S_IFBLK"
definition S_ISFIFO :: "u16 \<Rightarrow> bool" where "S_ISFIFO m \<longleftrightarrow> m AND S_IFMT = S_IFIFO"
definition S_ISSOCK :: "u16 \<Rightarrow> bool" where "S_ISSOCK m \<longleftrightarrow> m AND S_IFMT = S_IFSOCK"

definition special_file :: "u16 \<Rightarrow> bool" where
  "special_file m \<longleftrightarrow> S_ISCHR m \<or> S_ISBLK m \<or> S_ISFIFO m \<or> S_ISSOCK m"

definition IS_RDONLY :: "inode \<Rightarrow> bool" where "IS_RDONLY inode \<longleftrightarrow> flag (s_flags (i_sb inode)) 1"
definition IS_POSIXACL :: "inode \<Rightarrow> bool" where "IS_POSIXACL inode \<longleftrightarrow> flag (s_flags (i_sb inode)) 0x10000"
definition IS_APPEND :: "inode \<Rightarrow> bool" where "IS_APPEND inode \<longleftrightarrow> flag (i_flags inode) 4"
definition IS_IMMUTABLE :: "inode \<Rightarrow> bool" where "IS_IMMUTABLE inode \<longleftrightarrow> flag (i_flags inode) 8"
definition IS_DEADDIR :: "inode \<Rightarrow> bool" where "IS_DEADDIR inode \<longleftrightarrow> flag (i_flags inode) 16"
definition IS_SWAPFILE :: "inode \<Rightarrow> bool" where "IS_SWAPFILE inode \<longleftrightarrow> flag (i_flags inode) 256"

definition is_owner_or_cap :: "cred \<Rightarrow> inode \<Rightarrow> bool" where
  "is_owner_or_cap c inode \<longleftrightarrow> fsuid c = i_uid inode \<or> capable c CAP_FOWNER"

definition execute_ok :: "inode \<Rightarrow> bool" where
  "execute_ok inode \<longleftrightarrow> flag (i_mode inode) S_IXUGO \<or> S_ISDIR (i_mode inode)"

section \<open>The lists of an inode\<close>

datatype acl_type = ACL_TYPE_ACCESS | ACL_TYPE_DEFAULT

definition get_cached_acl :: "inode \<Rightarrow> acl_type \<Rightarrow> posix_acl option" where
  "get_cached_acl inode type = (case type of ACL_TYPE_ACCESS \<Rightarrow> i_acl inode | ACL_TYPE_DEFAULT \<Rightarrow> i_default_acl inode)"

definition set_cached_acl :: "inode \<Rightarrow> acl_type \<Rightarrow> posix_acl option \<Rightarrow> inode" where
  "set_cached_acl inode type acl =
    (case type of ACL_TYPE_ACCESS \<Rightarrow> inode\<lparr>i_acl := acl\<rparr> | ACL_TYPE_DEFAULT \<Rightarrow> inode\<lparr>i_default_acl := acl\<rparr>)"

definition cache_no_acl :: "inode \<Rightarrow> inode" where
  "cache_no_acl inode = inode\<lparr>i_acl := None, i_default_acl := None\<rparr>"

definition generic_acl_get :: "inode \<Rightarrow> string \<Rightarrow> u32 option \<Rightarrow> acl_type \<Rightarrow> int \<times> u8 list" where
  "generic_acl_get inode name buffer type =
    (if name \<noteq> [] then (- EINVAL, [])
     else case get_cached_acl inode type of None \<Rightarrow> (- ENODATA, []) | Some acl \<Rightarrow> posix_acl_to_xattr acl buffer)"

text \<open>The switch over the type in \<open>generic_acl_set\<close>: the inode and list to store, or the error.\<close>

definition acl_set_type :: "inode \<Rightarrow> acl_type \<Rightarrow> posix_acl \<Rightarrow> int + inode \<times> posix_acl option" where
  "acl_set_type inode type acl =
    (case type of
       ACL_TYPE_ACCESS \<Rightarrow>
        (case posix_acl_equiv_mode acl (i_mode inode) of
           (error, mode) \<Rightarrow> if error < 0 then Inl error
             else Inr (inode\<lparr>i_mode := mode\<rparr>, if error = 0 then None else Some acl))
     | ACL_TYPE_DEFAULT \<Rightarrow> if \<not> S_ISDIR (i_mode inode) then Inl (- EINVAL) else Inr (inode, Some acl))"

definition generic_acl_set :: "vfs_env \<Rightarrow> inode \<Rightarrow> string \<Rightarrow> u8 list option \<Rightarrow> acl_type \<Rightarrow> int \<times> inode" where
  "generic_acl_set env inode name value type =
    (if name \<noteq> [] then (- EINVAL, inode)
     else if S_ISLNK (i_mode inode) then (- EOPNOTSUPP, inode)
     else if \<not> is_owner_or_cap (current env) inode then (- EPERM, inode)
     else case posix_acl_from_xattr (ve_mem env 0) value of
            Inl error \<Rightarrow> (error, inode)
          | Inr None \<Rightarrow> (0, set_cached_acl inode type None)
          | Inr (Some acl) \<Rightarrow>
             if posix_acl_valid acl \<noteq> 0 then (posix_acl_valid acl, inode)
             else case acl_set_type inode type acl of
                    Inl error \<Rightarrow> (error, inode)
                  | Inr (inode, acl) \<Rightarrow> (0, set_cached_acl inode type acl))"

text \<open>\<open>posix_acl_clone\<close> copies the list; it fails without memory.\<close>

definition posix_acl_clone :: "bool \<Rightarrow> posix_acl \<Rightarrow> posix_acl option" where
  "posix_acl_clone mem acl = (if mem then Some acl else None)"

definition generic_acl_init :: "vfs_env \<Rightarrow> inode \<Rightarrow> inode \<Rightarrow> int \<times> inode" where
  "generic_acl_init env inode dir =
    (let mode = i_mode inode;
         inode = inode\<lparr>i_mode := mode AND NOT (ve_umask env)\<rparr>
     in case (if \<not> S_ISLNK (i_mode inode) then get_cached_acl dir ACL_TYPE_DEFAULT else None) of
          None \<Rightarrow> (0, inode)
        | Some acl \<Rightarrow>
           (case (if S_ISDIR (i_mode inode)
                  then map_option (\<lambda>clone. set_cached_acl inode ACL_TYPE_DEFAULT (Some clone)) (posix_acl_clone (ve_mem env 0) acl)
                  else Some inode) of
              None \<Rightarrow> (- ENOMEM, inode)
            | Some inode \<Rightarrow>
               (case posix_acl_clone (ve_mem env 1) acl of
                  None \<Rightarrow> (- ENOMEM, inode)
                | Some clone \<Rightarrow>
                   (case posix_acl_create_masq clone mode of
                      (error, clone, mode) \<Rightarrow>
                        (0, if error < 0 then inode
                            else if error > 0 then set_cached_acl (inode\<lparr>i_mode := mode\<rparr>) ACL_TYPE_ACCESS (Some clone)
                            else inode\<lparr>i_mode := mode\<rparr>)))))"

definition generic_acl_chmod :: "vfs_env \<Rightarrow> inode \<Rightarrow> int \<times> inode" where
  "generic_acl_chmod env inode =
    (if S_ISLNK (i_mode inode) then (- EOPNOTSUPP, inode)
     else case get_cached_acl inode ACL_TYPE_ACCESS of
            None \<Rightarrow> (0, inode)
          | Some acl \<Rightarrow>
             (case posix_acl_clone (ve_mem env 0) acl of
                None \<Rightarrow> (- ENOMEM, inode)
              | Some clone \<Rightarrow>
                 (case posix_acl_chmod_masq clone (i_mode inode) of
                    (error, clone) \<Rightarrow>
                      (error, if error = 0 then set_cached_acl inode ACL_TYPE_ACCESS (Some clone) else inode))))"

definition generic_check_acl :: "cred \<Rightarrow> inode \<Rightarrow> u16 \<Rightarrow> int" where
  "generic_check_acl c inode want =
    (case get_cached_acl inode ACL_TYPE_ACCESS of
       Some acl \<Rightarrow> posix_acl_permission c (i_uid inode) (i_gid inode) acl want
     | None \<Rightarrow> - EAGAIN)"

section \<open>Permission\<close>

abbreviation (input) MAY_EXEC :: u16 where "MAY_EXEC \<equiv> 1"
abbreviation (input) MAY_WRITE :: u16 where "MAY_WRITE \<equiv> 2"
abbreviation (input) MAY_READ :: u16 where "MAY_READ \<equiv> 4"
abbreviation (input) MAY_ACCESS :: u16 where "MAY_ACCESS \<equiv> 16"

definition acl_permission_check :: "cred \<Rightarrow> inode \<Rightarrow> u16 \<Rightarrow> (inode \<Rightarrow> u16 \<Rightarrow> int) option \<Rightarrow> int" where
  "acl_permission_check c inode want check_acl =
    (let want = want AND 7;
         mode = i_mode inode;
         verdict = (\<lambda>mode. if want AND NOT mode = 0 then 0 else - EACCES)
     in if fsuid c = i_uid inode then verdict (drop_bit 6 mode)
        else let error = (if IS_POSIXACL inode \<and> flag mode S_IRWXG
                          then (case check_acl of Some f \<Rightarrow> f inode want | None \<Rightarrow> - EAGAIN)
                          else - EAGAIN)
          in if error \<noteq> - EAGAIN then error
             else verdict (if in_group_p c (i_gid inode) then drop_bit 3 mode else mode))"

definition generic_permission :: "cred \<Rightarrow> inode \<Rightarrow> u16 \<Rightarrow> (inode \<Rightarrow> u16 \<Rightarrow> int) option \<Rightarrow> int" where
  "generic_permission c inode want check_acl =
    (let ret = acl_permission_check c inode want check_acl
     in if ret \<noteq> - EACCES then ret
        else if (\<not> flag want MAY_EXEC \<or> execute_ok inode) \<and> capable c CAP_DAC_OVERRIDE then 0
        else let want = want AND 7
          in if (want = MAY_READ \<or> S_ISDIR (i_mode inode) \<and> \<not> flag want MAY_WRITE) \<and> capable c CAP_DAC_READ_SEARCH
             then 0 else - EACCES)"

text \<open>The operations of an inode that the checks and \<open>notify_change\<close> call.\<close>

record inode_operations =
  op_permission :: "(inode \<Rightarrow> u16 \<Rightarrow> int) option"
  op_check_acl :: "(inode \<Rightarrow> u16 \<Rightarrow> int) option"
  op_setattr :: "(inode \<Rightarrow> iattr \<Rightarrow> int \<times> inode) option"

definition inode_permission :: "vfs_env \<Rightarrow> inode_operations \<Rightarrow> inode \<Rightarrow> u16 \<Rightarrow> int" where
  "inode_permission env i_op inode want =
    (if flag want MAY_WRITE \<and> IS_RDONLY inode \<and> (S_ISREG (i_mode inode) \<or> S_ISDIR (i_mode inode) \<or> S_ISLNK (i_mode inode))
     then - EROFS
     else if flag want MAY_WRITE \<and> IS_IMMUTABLE inode then - EACCES
     else let retval = (case op_permission i_op of
                Some f \<Rightarrow> f inode want
              | None \<Rightarrow> generic_permission (current env) inode want (op_check_acl i_op))
       in if retval \<noteq> 0 then retval else ve_devcgroup env)"

definition check_sticky :: "cred \<Rightarrow> inode \<Rightarrow> inode \<Rightarrow> bool" where
  "check_sticky c dir inode \<longleftrightarrow>
    (if \<not> flag (i_mode dir) S_ISVTX then False
     else if i_uid inode = fsuid c then False
     else if i_uid dir = fsuid c then False
     else \<not> capable c CAP_FOWNER)"

text \<open>A directory entry: its inode, whether it is a root, whether NFS has renamed it.\<close>

record dentry =
  d_inode :: "inode option"
  d_root :: bool
  d_renamed :: bool

definition may_delete :: "vfs_env \<Rightarrow> inode_operations \<Rightarrow> inode \<Rightarrow> dentry \<Rightarrow> bool \<Rightarrow> int" where
  "may_delete env i_op dir victim isdir =
    (case d_inode victim of
       None \<Rightarrow> - ENOENT
     | Some inode \<Rightarrow>
        (let error = inode_permission env i_op dir (MAY_WRITE OR MAY_EXEC)
         in if error \<noteq> 0 then error
            else if IS_APPEND dir then - EPERM
            else if check_sticky (current env) dir inode \<or> IS_APPEND inode \<or> IS_IMMUTABLE inode \<or> IS_SWAPFILE inode then - EPERM
            else if isdir \<and> \<not> S_ISDIR (i_mode inode) then - ENOTDIR
            else if isdir \<and> d_root victim then - EBUSY
            else if \<not> isdir \<and> S_ISDIR (i_mode inode) then - EISDIR
            else if IS_DEADDIR dir then - ENOENT
            else if d_renamed victim then - EBUSY
            else 0))"

definition may_create :: "vfs_env \<Rightarrow> inode_operations \<Rightarrow> inode \<Rightarrow> dentry \<Rightarrow> int" where
  "may_create env i_op dir child =
    (if d_inode child \<noteq> None then - EEXIST
     else if IS_DEADDIR dir then - ENOENT
     else inode_permission env i_op dir (MAY_WRITE OR MAY_EXEC))"

text \<open>\<open>nodev\<close> is the flag of the mount, \<open>lease\<close> what \<open>break_lease\<close> answers for the flags.\<close>

definition may_open :: "vfs_env \<Rightarrow> inode_operations \<Rightarrow> inode option \<Rightarrow> bool \<Rightarrow> (u32 \<Rightarrow> int) \<Rightarrow> u16 \<Rightarrow> u32 \<Rightarrow> int" where
  "may_open env i_op d nodev lease acc_mode fl =
    (case d of
       None \<Rightarrow> - ENOENT
     | Some inode \<Rightarrow>
        if S_ISLNK (i_mode inode) then - ELOOP
        else if S_ISDIR (i_mode inode) \<and> flag acc_mode MAY_WRITE then - EISDIR
        else if (S_ISBLK (i_mode inode) \<or> S_ISCHR (i_mode inode)) \<and> nodev then - EACCES
        else let fl = (if special_file (i_mode inode) then fl AND NOT 0x200 else fl);
                 error = inode_permission env i_op inode acc_mode
          in if error \<noteq> 0 then error
             else if IS_APPEND inode \<and> fl AND 3 \<noteq> 0 \<and> \<not> flag fl 0x400 then - EPERM
             else if IS_APPEND inode \<and> flag fl 0x200 then - EPERM
             else if flag fl 0x40000 \<and> \<not> is_owner_or_cap (current env) inode then - EPERM
             else lease fl)"

end
