(* ===== verification/InodeAttr.thy ===== *)
theory InodeAttr
  imports Inode
begin

text \<open>
  Changes to inodes: \<open>fs/attr.c\<close>, the attribute changes and creation of tmpfs in \<open>mm/shmem.c\<close>, and the
  calls of \<open>fs/namei.c\<close> that create inodes. Path lookups and mount write counts are parameters: the error or
  the inode found.
\<close>

section \<open>Times and sizes\<close>

definition timespec_trunc :: "u32 \<Rightarrow> timespec \<Rightarrow> u32 \<Rightarrow> timespec" where
  "timespec_trunc tick t gran =
    (if gran \<le> tick then t
     else if gran = 1000000000 then t\<lparr>tv_nsec := 0\<rparr>
     else t\<lparr>tv_nsec := tv_nsec t - tv_nsec t mod gran\<rparr>)"

definition current_fs_time :: "vfs_env \<Rightarrow> super_block \<Rightarrow> timespec" where
  "current_fs_time env sb = timespec_trunc (ve_tick env) (ve_now env) (s_time_gran sb)"

definition inode_newsize_ok :: "vfs_env \<Rightarrow> inode \<Rightarrow> int \<Rightarrow> int" where
  "inode_newsize_ok env inode offset =
    (if i_size inode < offset then
       (if ve_fsize env \<noteq> - 1 \<and> offset > uint (ve_fsize env) then - EFBIG
        else if offset > s_maxbytes (i_sb inode) then - EFBIG
        else 0)
     else if IS_SWAPFILE inode then - ETXTBSY
     else 0)"

definition simple_setsize :: "vfs_env \<Rightarrow> inode \<Rightarrow> int \<Rightarrow> int \<times> inode" where
  "simple_setsize env inode newsize =
    (let error = inode_newsize_ok env inode newsize
     in if error \<noteq> 0 then (error, inode) else (0, inode\<lparr>i_size := newsize\<rparr>))"

section \<open>Attributes\<close>

abbreviation (input) ATTR_MODE :: u32 where "ATTR_MODE \<equiv> 0x1"
abbreviation (input) ATTR_UID :: u32 where "ATTR_UID \<equiv> 0x2"
abbreviation (input) ATTR_GID :: u32 where "ATTR_GID \<equiv> 0x4"
abbreviation (input) ATTR_SIZE :: u32 where "ATTR_SIZE \<equiv> 0x8"
abbreviation (input) ATTR_ATIME :: u32 where "ATTR_ATIME \<equiv> 0x10"
abbreviation (input) ATTR_MTIME :: u32 where "ATTR_MTIME \<equiv> 0x20"
abbreviation (input) ATTR_CTIME :: u32 where "ATTR_CTIME \<equiv> 0x40"
abbreviation (input) ATTR_ATIME_SET :: u32 where "ATTR_ATIME_SET \<equiv> 0x80"
abbreviation (input) ATTR_MTIME_SET :: u32 where "ATTR_MTIME_SET \<equiv> 0x100"
abbreviation (input) ATTR_FORCE :: u32 where "ATTR_FORCE \<equiv> 0x200"
abbreviation (input) ATTR_KILL_SUID :: u32 where "ATTR_KILL_SUID \<equiv> 0x800"
abbreviation (input) ATTR_KILL_SGID :: u32 where "ATTR_KILL_SGID \<equiv> 0x1000"
abbreviation (input) ATTR_FILE :: u32 where "ATTR_FILE \<equiv> 0x2000"
abbreviation (input) ATTR_KILL_PRIV :: u32 where "ATTR_KILL_PRIV \<equiv> 0x4000"
abbreviation (input) ATTR_TIMES_SET :: u32 where "ATTR_TIMES_SET \<equiv> 0x10000"

text \<open>The result and the attributes, whose mode the check may change.\<close>

definition inode_change_ok :: "cred \<Rightarrow> inode \<Rightarrow> iattr \<Rightarrow> int \<times> iattr" where
  "inode_change_ok c inode attr =
    (let v = ia_valid attr
     in if flag v ATTR_FORCE then (0, attr)
        else if flag v ATTR_UID \<and> (fsuid c \<noteq> i_uid inode \<or> ia_uid attr \<noteq> i_uid inode) \<and> \<not> capable c CAP_CHOWN
        then (- EPERM, attr)
        else if flag v ATTR_GID \<and>
          (fsuid c \<noteq> i_uid inode \<or> \<not> in_group_p c (ia_gid attr) \<and> ia_gid attr \<noteq> i_gid inode) \<and> \<not> capable c CAP_CHOWN
        then (- EPERM, attr)
        else if flag v ATTR_MODE \<and> \<not> is_owner_or_cap c inode then (- EPERM, attr)
        else let attr = (if flag v ATTR_MODE \<and>
                   \<not> in_group_p c (if flag v ATTR_GID then ia_gid attr else i_gid inode) \<and> \<not> capable c CAP_FSETID
                 then attr\<lparr>ia_mode := ia_mode attr AND NOT S_ISGID\<rparr> else attr)
          in if flag v (ATTR_MTIME_SET OR ATTR_ATIME_SET OR ATTR_TIMES_SET) \<and> \<not> is_owner_or_cap c inode then (- EPERM, attr)
             else (0, attr))"

definition generic_setattr :: "vfs_env \<Rightarrow> inode \<Rightarrow> iattr \<Rightarrow> inode" where
  "generic_setattr env inode attr =
    (let v = ia_valid attr;
         trunc = (\<lambda>t. timespec_trunc (ve_tick env) t (s_time_gran (i_sb inode)));
         inode = (if flag v ATTR_UID then inode\<lparr>i_uid := ia_uid attr\<rparr> else inode);
         inode = (if flag v ATTR_GID then inode\<lparr>i_gid := ia_gid attr\<rparr> else inode);
         inode = (if flag v ATTR_ATIME then inode\<lparr>i_atime := trunc (ia_atime attr)\<rparr> else inode);
         inode = (if flag v ATTR_MTIME then inode\<lparr>i_mtime := trunc (ia_mtime attr)\<rparr> else inode);
         inode = (if flag v ATTR_CTIME then inode\<lparr>i_ctime := trunc (ia_ctime attr)\<rparr> else inode)
     in if flag v ATTR_MODE then
          inode\<lparr>i_mode := (if \<not> in_group_p (current env) (i_gid inode) \<and> \<not> capable (current env) CAP_FSETID
            then ia_mode attr AND NOT S_ISGID else ia_mode attr)\<rparr>
        else inode)"

text \<open>\<open>inode_setattr\<close> with \<open>vmtruncate\<close>, whose call of the \<open>truncate\<close> operation changes no field of the model.\<close>

definition inode_setattr :: "vfs_env \<Rightarrow> inode \<Rightarrow> iattr \<Rightarrow> int \<times> inode" where
  "inode_setattr env inode attr =
    (case (if flag (ia_valid attr) ATTR_SIZE \<and> ia_size attr \<noteq> i_size inode
           then simple_setsize env inode (ia_size attr) else (0, inode)) of
       (error, inode) \<Rightarrow> if error \<noteq> 0 then (error, inode) else (0, generic_setattr env inode attr))"

definition simple_setattr :: "vfs_env \<Rightarrow> inode \<Rightarrow> iattr \<Rightarrow> int \<times> inode" where
  "simple_setattr env inode attr =
    (case inode_change_ok (current env) inode attr of
       (error, attr) \<Rightarrow>
         if error \<noteq> 0 then (error, inode)
         else case (if flag (ia_valid attr) ATTR_SIZE then simple_setsize env inode (ia_size attr) else (0, inode)) of
                (error, inode) \<Rightarrow> if error \<noteq> 0 then (error, inode) else (0, generic_setattr env inode attr))"

text \<open>The parts of \<open>notify_change\<close> that translate the requests to drop privileges into a mode.\<close>

definition kill_priv :: "vfs_env \<Rightarrow> iattr \<Rightarrow> int + iattr" where
  "kill_priv env attr =
    (if flag (ia_valid attr) ATTR_KILL_PRIV then
       (let attr = attr\<lparr>ia_valid := ia_valid attr AND NOT ATTR_KILL_PRIV\<rparr>;
            error = (if ve_need_killpriv env > 0 then ve_killpriv env else ve_need_killpriv env)
        in if error \<noteq> 0 then Inl error else Inr attr)
     else Inr attr)"

definition kill_suid :: "inode \<Rightarrow> iattr \<Rightarrow> iattr" where
  "kill_suid inode attr =
    (if flag (ia_valid attr) ATTR_KILL_SUID \<and> flag (i_mode inode) S_ISUID
     then attr\<lparr>ia_valid := ia_valid attr OR ATTR_MODE, ia_mode := i_mode inode AND NOT S_ISUID\<rparr>
     else attr)"

definition kill_sgid :: "inode \<Rightarrow> iattr \<Rightarrow> iattr" where
  "kill_sgid inode attr =
    (if flag (ia_valid attr) ATTR_KILL_SGID \<and> i_mode inode AND (S_ISGID OR S_IXGRP) = S_ISGID OR S_IXGRP
     then let attr = (if \<not> flag (ia_valid attr) ATTR_MODE
                then attr\<lparr>ia_valid := ia_valid attr OR ATTR_MODE, ia_mode := i_mode inode\<rparr> else attr)
       in attr\<lparr>ia_mode := ia_mode attr AND NOT S_ISGID\<rparr>
     else attr)"

text \<open>\<open>Fault\<close> is the \<open>BUG\<close> for a request to set the mode and to drop bits of it at once.\<close>

definition notify_change :: "vfs_env \<Rightarrow> inode_operations \<Rightarrow> inode \<Rightarrow> iattr \<Rightarrow> (int \<times> inode) outcome" where
  "notify_change env i_op inode attr =
    (let v = ia_valid attr; now = current_fs_time env (i_sb inode)
     in if flag v (ATTR_MODE OR ATTR_UID OR ATTR_GID OR ATTR_TIMES_SET) \<and> (IS_IMMUTABLE inode \<or> IS_APPEND inode)
        then Ok (- EPERM, inode)
        else case kill_priv env (attr\<lparr>ia_ctime := now,
               ia_atime := (if flag v ATTR_ATIME_SET then ia_atime attr else now),
               ia_mtime := (if flag v ATTR_MTIME_SET then ia_mtime attr else now)\<rparr>) of
          Inl error \<Rightarrow> Ok (error, inode)
        | Inr attr \<Rightarrow>
           if flag (ia_valid attr) (ATTR_KILL_SUID OR ATTR_KILL_SGID) \<and> flag (ia_valid attr) ATTR_MODE then Fault
           else let attr = kill_sgid inode (kill_suid inode attr)
             in if ia_valid attr AND NOT (ATTR_KILL_SUID OR ATTR_KILL_SGID) = 0 then Ok (0, inode)
                else Ok (case op_setattr i_op of
                       Some f \<Rightarrow> f inode attr
                     | None \<Rightarrow>
                        (case inode_change_ok (current env) inode attr of
                           (error, attr) \<Rightarrow> if error \<noteq> 0 then (error, inode) else inode_setattr env inode attr)))"

section \<open>tmpfs\<close>

definition shmem_notify_change :: "vfs_env \<Rightarrow> inode \<Rightarrow> iattr \<Rightarrow> int \<times> inode" where
  "shmem_notify_change env inode attr =
    (case (if S_ISREG (i_mode inode) \<and> flag (ia_valid attr) ATTR_SIZE \<and> ia_size attr \<noteq> i_size inode
           then simple_setsize env inode (ia_size attr) else (0, inode)) of
       (error, inode) \<Rightarrow>
         if error \<noteq> 0 then (error, inode)
         else case inode_change_ok (current env) inode attr of
           (error, attr) \<Rightarrow>
             if error \<noteq> 0 then (error, inode)
             else let inode = generic_setattr env inode attr
               in if flag (ia_valid attr) ATTR_MODE then generic_acl_chmod env inode else (0, inode))"

text \<open>The operation tables of tmpfs: symbolic links have neither a check nor \<open>setattr\<close>.\<close>

definition shmem_operations :: "vfs_env \<Rightarrow> inode \<Rightarrow> inode_operations" where
  "shmem_operations env inode =
    (if S_ISLNK (i_mode inode)
     then \<lparr>op_permission = None, op_check_acl = None, op_setattr = None\<rparr>
     else \<lparr>op_permission = None, op_check_acl = Some (generic_check_acl (current env)),
           op_setattr = Some (shmem_notify_change env)\<rparr>)"

definition inode_init_owner :: "vfs_env \<Rightarrow> inode \<Rightarrow> inode \<Rightarrow> u16 \<Rightarrow> inode" where
  "inode_init_owner env inode dir mode =
    (let inode = inode\<lparr>i_uid := fsuid (current env)\<rparr>
     in if flag (i_mode dir) S_ISGID
        then inode\<lparr>i_gid := i_gid dir, i_mode := (if S_ISDIR mode then mode OR S_ISGID else mode)\<rparr>
        else inode\<lparr>i_gid := fsgid (current env), i_mode := mode\<rparr>)"

text \<open>\<open>new\<close> is the inode that \<open>new_inode\<close> returns.\<close>

definition shmem_get_inode :: "vfs_env \<Rightarrow> inode \<Rightarrow> inode \<Rightarrow> u16 \<Rightarrow> inode option" where
  "shmem_get_inode env new dir mode =
    (if \<not> ve_inode env then None
     else let inode = cache_no_acl ((inode_init_owner env (new\<lparr>i_sb := i_sb dir\<rparr>) dir mode)\<lparr>i_atime := ve_now env, i_mtime := ve_now env, i_ctime := ve_now env\<rparr>)
       in Some (if S_ISDIR mode then inode\<lparr>i_size := 40\<rparr> else inode))"

text \<open>The result, the directory and the new inode.\<close>

definition shmem_mknod :: "vfs_env \<Rightarrow> inode \<Rightarrow> inode \<Rightarrow> u16 \<Rightarrow> int \<times> inode \<times> inode option" where
  "shmem_mknod env new dir mode =
    (case shmem_get_inode env new dir mode of
       None \<Rightarrow> (- ENOSPC, dir, None)
     | Some inode \<Rightarrow>
        (case generic_acl_init env inode dir of
           (error, inode) \<Rightarrow>
             if error \<noteq> 0 then (error, dir, None)
             else (0, dir\<lparr>i_size := i_size dir + 20, i_ctime := ve_now env, i_mtime := ve_now env\<rparr>, Some inode)))"

definition shmem_mkdir :: "vfs_env \<Rightarrow> inode \<Rightarrow> inode \<Rightarrow> u16 \<Rightarrow> int \<times> inode \<times> inode option" where
  "shmem_mkdir env new dir mode = shmem_mknod env new dir (mode OR S_IFDIR)"

definition shmem_create :: "vfs_env \<Rightarrow> inode \<Rightarrow> inode \<Rightarrow> u16 \<Rightarrow> int \<times> inode \<times> inode option" where
  "shmem_create env new dir mode = shmem_mknod env new dir (mode OR S_IFREG)"

section \<open>Creation\<close>

definition vfs_create :: "vfs_env \<Rightarrow> inode \<Rightarrow> inode \<Rightarrow> dentry \<Rightarrow> u16 \<Rightarrow> int \<times> inode \<times> inode option" where
  "vfs_create env new dir dentry mode =
    (let error = may_create env (shmem_operations env dir) dir dentry
     in if error \<noteq> 0 then (error, dir, None)
        else shmem_create env new dir ((mode AND S_IALLUGO) OR S_IFREG))"

text \<open>\<open>devs\<close> is what the device controller answers.\<close>

definition vfs_mknod :: "vfs_env \<Rightarrow> inode \<Rightarrow> inode \<Rightarrow> dentry \<Rightarrow> u16 \<Rightarrow> int \<Rightarrow> int \<times> inode \<times> inode option" where
  "vfs_mknod env new dir dentry mode devs =
    (let error = may_create env (shmem_operations env dir) dir dentry
     in if error \<noteq> 0 then (error, dir, None)
        else if (S_ISCHR mode \<or> S_ISBLK mode) \<and> \<not> capable (current env) CAP_MKNOD then (- EPERM, dir, None)
        else if devs \<noteq> 0 then (devs, dir, None)
        else shmem_mknod env new dir mode)"

definition vfs_mkdir :: "vfs_env \<Rightarrow> inode \<Rightarrow> inode \<Rightarrow> dentry \<Rightarrow> u16 \<Rightarrow> int \<times> inode \<times> inode option" where
  "vfs_mkdir env new dir dentry mode =
    (let error = may_create env (shmem_operations env dir) dir dentry
     in if error \<noteq> 0 then (error, dir, None)
        else shmem_mkdir env new dir (mode AND (S_IRWXUGO OR S_ISVTX)))"

definition may_mknod :: "u16 \<Rightarrow> int" where
  "may_mknod mode =
    (if S_ISREG mode \<or> special_file mode \<or> mode AND S_IFMT = 0 then 0
     else if S_ISDIR mode then - EPERM else - EINVAL)"

text \<open>\<open>mknod\<close> after the lookup of the parent and the new entry; \<open>want_write\<close> is the answer of the mount.\<close>

definition sys_mknodat :: "vfs_env \<Rightarrow> inode \<Rightarrow> inode \<Rightarrow> dentry \<Rightarrow> u16 \<Rightarrow> int \<Rightarrow> int \<Rightarrow> int \<times> inode \<times> inode option" where
  "sys_mknodat env new dir dentry mode want_write devs =
    (if S_ISDIR mode then (- EPERM, dir, None)
     else let mode = (if \<not> IS_POSIXACL dir then mode AND NOT (ve_umask env) else mode)
       in if may_mknod mode \<noteq> 0 then (may_mknod mode, dir, None)
          else if want_write \<noteq> 0 then (want_write, dir, None)
          else if mode AND S_IFMT = 0 \<or> S_ISREG mode then vfs_create env new dir dentry mode
          else vfs_mknod env new dir dentry mode devs)"

definition sys_mkdirat :: "vfs_env \<Rightarrow> inode \<Rightarrow> inode \<Rightarrow> dentry \<Rightarrow> u16 \<Rightarrow> int \<Rightarrow> int \<times> inode \<times> inode option" where
  "sys_mkdirat env new dir dentry mode want_write =
    (let mode = (if \<not> IS_POSIXACL dir then mode AND NOT (ve_umask env) else mode)
     in if want_write \<noteq> 0 then (want_write, dir, None) else vfs_mkdir env new dir dentry mode)"

end
