(* ===== verification/InodeSys.thy ===== *)
theory InodeSys
  imports InodeAttr
begin

text \<open>
  The calls that use and change inodes of tmpfs: extended attributes (\<open>fs/xattr.c\<close>), \<open>chmod\<close>, \<open>chown\<close>, \<open>access\<close>
  and truncation (\<open>fs/open.c\<close>), removal of set-user-id bits (\<open>mm/filemap.c\<close>), symbolic links (\<open>mm/shmem.c\<close>).
\<close>

section \<open>Extended attributes\<close>

abbreviation (input) has_prefix :: "string \<Rightarrow> string \<Rightarrow> bool" where
  "has_prefix pre name \<equiv> take (length pre) name = pre"

definition xattr_permission :: "vfs_env \<Rightarrow> inode \<Rightarrow> string \<Rightarrow> u16 \<Rightarrow> int" where
  "xattr_permission env inode name want =
    (if flag want MAY_WRITE \<and> (IS_IMMUTABLE inode \<or> IS_APPEND inode) then - EPERM
     else if has_prefix ''security.'' name \<or> has_prefix ''system.'' name then 0
     else if has_prefix ''trusted.'' name then (if capable (current env) CAP_SYS_ADMIN then 0 else - EPERM)
     else if has_prefix ''user.'' name \<and> \<not> S_ISREG (i_mode inode) \<and> \<not> S_ISDIR (i_mode inode) then - EPERM
     else if has_prefix ''user.'' name \<and> S_ISDIR (i_mode inode) \<and> flag (i_mode inode) S_ISVTX \<and> flag want MAY_WRITE \<and>
       \<not> is_owner_or_cap (current env) inode then - EPERM
     else inode_permission env (shmem_operations env inode) inode want)"

fun strcmp_prefix :: "string \<Rightarrow> string \<Rightarrow> string option" where
  "strcmp_prefix a [] = Some a"
| "strcmp_prefix [] (p # ps) = None"
| "strcmp_prefix (a # as) (p # ps) = (if a = p then strcmp_prefix as ps else None)"

text \<open>The handlers of tmpfs, with their prefixes. The attributes of the security module are not supported by the
  capability module.\<close>

datatype xattr_handler = Acl_handler acl_type | Security_handler

definition shmem_xattr_handlers :: "(string \<times> xattr_handler) list" where
  "shmem_xattr_handlers =
    [(''system.posix_acl_access'', Acl_handler ACL_TYPE_ACCESS), (''system.posix_acl_default'', Acl_handler ACL_TYPE_DEFAULT),
     (XATTR_SECURITY_PREFIX, Security_handler)]"

definition shmem_xattr_security_get :: "string \<Rightarrow> int" where
  "shmem_xattr_security_get name = (if name = [] then - EINVAL else - EOPNOTSUPP)"

definition shmem_xattr_security_set :: "string \<Rightarrow> int" where
  "shmem_xattr_security_set name = (if name = [] then - EINVAL else - EOPNOTSUPP)"

fun xattr_resolve_name :: "(string \<times> xattr_handler) list \<Rightarrow> string \<Rightarrow> (xattr_handler \<times> string) option" where
  "xattr_resolve_name [] name = None"
| "xattr_resolve_name ((prefix, handler) # handlers) name =
    (case strcmp_prefix name prefix of Some n \<Rightarrow> Some (handler, n) | None \<Rightarrow> xattr_resolve_name handlers name)"

definition generic_getxattr :: "inode \<Rightarrow> string \<Rightarrow> u32 option \<Rightarrow> int \<times> u8 list" where
  "generic_getxattr inode name buffer =
    (case xattr_resolve_name shmem_xattr_handlers name of
       None \<Rightarrow> (- EOPNOTSUPP, [])
     | Some (Acl_handler type, name) \<Rightarrow> generic_acl_get inode name buffer type
     | Some (Security_handler, name) \<Rightarrow> (shmem_xattr_security_get name, []))"

definition generic_setxattr :: "vfs_env \<Rightarrow> inode \<Rightarrow> string \<Rightarrow> u8 list \<Rightarrow> int \<times> inode" where
  "generic_setxattr env inode name value =
    (case xattr_resolve_name shmem_xattr_handlers name of
       None \<Rightarrow> (- EOPNOTSUPP, inode)
     | Some (Acl_handler type, name) \<Rightarrow> generic_acl_set env inode name (Some value) type
     | Some (Security_handler, name) \<Rightarrow> (shmem_xattr_security_set name, inode))"

definition generic_removexattr :: "vfs_env \<Rightarrow> inode \<Rightarrow> string \<Rightarrow> int \<times> inode" where
  "generic_removexattr env inode name =
    (case xattr_resolve_name shmem_xattr_handlers name of
       None \<Rightarrow> (- EOPNOTSUPP, inode)
     | Some (Acl_handler type, name) \<Rightarrow> generic_acl_set env inode name None type
     | Some (Security_handler, name) \<Rightarrow> (shmem_xattr_security_set name, inode))"

text \<open>On tmpfs; symbolic links have no operations for extended attributes, and setting those of the security
  module on them is not supported.\<close>

definition vfs_setxattr :: "vfs_env \<Rightarrow> inode \<Rightarrow> string \<Rightarrow> u8 list \<Rightarrow> int \<times> inode" where
  "vfs_setxattr env inode name value =
    (let error = xattr_permission env inode name MAY_WRITE
     in if error \<noteq> 0 then (error, inode)
        else let error = cap_inode_setxattr (current env) name
          in if error \<noteq> 0 then (error, inode)
             else if S_ISLNK (i_mode inode) then (- EOPNOTSUPP, inode)
             else generic_setxattr env inode name value)"

definition vfs_removexattr :: "vfs_env \<Rightarrow> inode \<Rightarrow> string \<Rightarrow> int \<times> inode" where
  "vfs_removexattr env inode name =
    (if S_ISLNK (i_mode inode) then (- EOPNOTSUPP, inode)
     else let error = xattr_permission env inode name MAY_WRITE
       in if error \<noteq> 0 then (error, inode)
          else let error = cap_inode_removexattr (current env) name
            in if error \<noteq> 0 then (error, inode) else generic_removexattr env inode name)"

section \<open>chmod and chown\<close>

definition change :: "vfs_env \<Rightarrow> inode \<Rightarrow> iattr \<Rightarrow> (int \<times> inode) outcome" where
  "change env inode attr = notify_change env (shmem_operations env inode) inode attr"

text \<open>The part of \<open>fchmod\<close> and \<open>fchmodat\<close> under the mutex; \<open>attr\<close> is the uninitialised attribute structure.\<close>

definition chmod_inode :: "vfs_env \<Rightarrow> iattr \<Rightarrow> inode \<Rightarrow> u16 \<Rightarrow> (int \<times> inode) outcome" where
  "chmod_inode env attr inode mode =
    (let mode = (if mode = - 1 then i_mode inode else mode)
     in change env inode (attr\<lparr>ia_mode := (mode AND S_IALLUGO) OR (i_mode inode AND NOT S_IALLUGO),
          ia_valid := ATTR_MODE OR ATTR_CTIME\<rparr>))"

definition sys_fchmodat :: "vfs_env \<Rightarrow> iattr \<Rightarrow> int + inode \<Rightarrow> int \<Rightarrow> u16 \<Rightarrow> (int \<times> inode option) outcome" where
  "sys_fchmodat env attr path want_write mode =
    (case path of
       Inl error \<Rightarrow> Ok (error, None)
     | Inr inode \<Rightarrow>
        if want_write \<noteq> 0 then Ok (want_write, Some inode)
        else case chmod_inode env attr inode mode of Fault \<Rightarrow> Fault | Ok (error, inode) \<Rightarrow> Ok (error, Some inode))"

text \<open>The attributes \<open>chown_common\<close> asks for.\<close>

definition chown_attr :: "iattr \<Rightarrow> inode \<Rightarrow> u32 \<Rightarrow> u32 \<Rightarrow> iattr" where
  "chown_attr attr inode usr grp =
    (let attr = attr\<lparr>ia_valid := ATTR_CTIME\<rparr>;
         attr = (if usr \<noteq> - 1 then attr\<lparr>ia_valid := ia_valid attr OR ATTR_UID, ia_uid := usr\<rparr> else attr);
         attr = (if grp \<noteq> - 1 then attr\<lparr>ia_valid := ia_valid attr OR ATTR_GID, ia_gid := grp\<rparr> else attr)
     in if \<not> S_ISDIR (i_mode inode)
        then attr\<lparr>ia_valid := ia_valid attr OR (ATTR_KILL_SUID OR ATTR_KILL_SGID OR ATTR_KILL_PRIV)\<rparr> else attr)"

definition chown_common :: "vfs_env \<Rightarrow> iattr \<Rightarrow> inode \<Rightarrow> u32 \<Rightarrow> u32 \<Rightarrow> (int \<times> inode) outcome" where
  "chown_common env attr inode usr grp = change env inode (chown_attr attr inode usr grp)"

definition sys_fchownat :: "vfs_env \<Rightarrow> iattr \<Rightarrow> (bool \<Rightarrow> int + inode) \<Rightarrow> int \<Rightarrow> u32 \<Rightarrow> u32 \<Rightarrow> u32 \<Rightarrow> (int \<times> inode option) outcome" where
  "sys_fchownat env attr lookup want_write usr grp fl =
    (if fl AND NOT 0x100 \<noteq> 0 then Ok (- EINVAL, None)
     else case lookup (\<not> flag fl 0x100) of
            Inl error \<Rightarrow> Ok (error, None)
          | Inr inode \<Rightarrow>
             if want_write \<noteq> 0 then Ok (want_write, Some inode)
             else case chown_common env attr inode usr grp of Fault \<Rightarrow> Fault | Ok (error, inode) \<Rightarrow> Ok (error, Some inode))"

section \<open>Writing and truncation\<close>

definition should_remove_suid :: "cred \<Rightarrow> inode \<Rightarrow> u32" where
  "should_remove_suid c inode =
    (let mode = i_mode inode;
         kill = (if flag mode S_ISUID then ATTR_KILL_SUID else 0);
         kill = (if flag mode S_ISGID \<and> flag mode S_IXGRP then kill OR ATTR_KILL_SGID else kill)
     in if kill \<noteq> 0 \<and> \<not> capable c CAP_FSETID \<and> S_ISREG mode then kill else 0)"

definition file_remove_suid :: "vfs_env \<Rightarrow> iattr \<Rightarrow> inode \<Rightarrow> (int \<times> inode) outcome" where
  "file_remove_suid env attr inode =
    (let killsuid = should_remove_suid (current env) inode;
         killpriv = ve_need_killpriv env
     in if killpriv < 0 then Ok (killpriv, inode)
        else let error = (if killpriv \<noteq> 0 then ve_killpriv env else 0)
          in if error = 0 \<and> killsuid \<noteq> 0 then change env inode (attr\<lparr>ia_valid := ATTR_FORCE OR killsuid\<rparr>)
             else Ok (error, inode))"

definition do_truncate :: "vfs_env \<Rightarrow> iattr \<Rightarrow> inode \<Rightarrow> int \<Rightarrow> u32 \<Rightarrow> bool \<Rightarrow> (int \<times> inode) outcome" where
  "do_truncate env attr inode len time_attrs filp =
    (if len < 0 then Ok (- EINVAL, inode)
     else let v = ATTR_SIZE OR time_attrs;
              v = (if filp then v OR ATTR_FILE else v);
              ret = should_remove_suid (current env) inode;
              v = (if ret \<noteq> 0 then v OR (ret OR ATTR_FORCE) else v)
       in change env inode (attr\<lparr>ia_size := len, ia_valid := v\<rparr>))"

section \<open>access\<close>

text \<open>The credentials \<open>access\<close> uses, and the call: \<open>lookup\<close> gives for credentials the inode found and whether
  the mount is \<open>noexec\<close> and read-only.\<close>

definition access_creds :: "cred \<Rightarrow> cred" where
  "access_creds c =
    (let oc = c\<lparr>fsuid := uid c, fsgid := gid c\<rparr>
     in if \<not> issecure c SECURE_NO_SETUID_FIXUP
        then (if uid oc \<noteq> 0 then oc\<lparr>cap_effective := CAP_EMPTY_SET\<rparr> else oc\<lparr>cap_effective := cap_permitted oc\<rparr>)
        else oc)"

definition sys_faccessat :: "vfs_env \<Rightarrow> bool \<Rightarrow> (cred \<Rightarrow> int + inode \<times> bool \<times> bool) \<Rightarrow> u16 \<Rightarrow> int" where
  "sys_faccessat env mem lookup mode =
    (if mode AND NOT S_IRWXO \<noteq> 0 then - EINVAL
     else if \<not> mem then - ENOMEM
     else let env = env\<lparr>current := access_creds (current env)\<rparr>
       in case lookup (current env) of
            Inl res \<Rightarrow> res
          | Inr (inode, noexec, readonly) \<Rightarrow>
             if flag mode MAY_EXEC \<and> S_ISREG (i_mode inode) \<and> noexec then - EACCES
             else let res = inode_permission env (shmem_operations env inode) inode (mode OR MAY_ACCESS)
               in if res \<noteq> 0 \<or> \<not> flag mode MAY_WRITE \<or> special_file (i_mode inode) then res
                  else if readonly then - EROFS else res)"

section \<open>Symbolic links\<close>

text \<open>\<open>room\<close> is the number of bytes that fit into the inode, \<open>getpage\<close> the answer of \<open>shmem_getpage\<close>.\<close>

definition shmem_symlink :: "vfs_env \<Rightarrow> inode \<Rightarrow> inode \<Rightarrow> string \<Rightarrow> int \<Rightarrow> int \<Rightarrow> int \<times> inode \<times> inode option" where
  "shmem_symlink env new dir symname room getpage =
    (let len = int (length symname) + 1
     in if len > 4096 then (- ENAMETOOLONG, dir, None)
        else case shmem_get_inode env new dir (S_IFLNK OR S_IRWXUGO) of
               None \<Rightarrow> (- ENOSPC, dir, None)
             | Some inode \<Rightarrow>
                if len > room \<and> getpage \<noteq> 0 then (getpage, dir, None)
                else (0, dir\<lparr>i_size := i_size dir + 20, i_ctime := ve_now env, i_mtime := ve_now env\<rparr>,
                      Some (inode\<lparr>i_size := len - 1\<rparr>)))"

end
