(* ===== verification/InodeInv.thy ===== *)
theory InodeInv
  imports InodeSys
begin

text \<open>
  The invariant of an inode of tmpfs, that its lists are valid and agree with its mode, and that every change
  of attributes, mode, owner and lists keeps it.
\<close>

section \<open>Mode words\<close>

lemma mode_bits_of_mode: "mode_bits (drop_bit 6 (m AND 0x1C0)) (drop_bit 3 (m AND 0x38)) (m AND 7) = m AND 0x1FF"
  unfolding mode_masks mode_bits_def
proof (rule bit_word_eqI)
  fix n assume "n < LENGTH(16)"
  consider "n < 3" | "3 \<le> n" "n < 6" | "6 \<le> n" by linarith
  then show "bit (push_bit 6 (drop_bit 6 (m AND push_bit 6 (mask 3))) OR push_bit 3 (drop_bit 3 (m AND push_bit 3 (mask 3))) OR m AND mask 3) n \<longleftrightarrow>
    bit (m AND mask 9) n" by cases (auto simp: bit_simps)
qed

lemma split_mode: "(m AND NOT 0x1FF) OR (m AND 0x1FF) = (m :: u16)"
  unfolding mode_masks by (rule bit_word_eqI) (auto simp: bit_simps)

lemma mode_bits_low:
  assumes "small u" "small g" "small r"
  shows "(m AND NOT 0x1FF OR mode_bits u g r) AND NOT 0x1FF = m AND NOT 0x1FF"
    "((m AND NOT 0x1FF) OR mode_bits u g r) AND 0x1FF = mode_bits u g r"
  unfolding mode_masks mode_bits_def by (rule bit_word_eqI; use assms in \<open>auto simp: bit_simps small_def\<close>)+

lemma mode_bits_classes:
  assumes "small u" "small g" "small r"
  shows "drop_bit 6 (m AND NOT 0x1FF OR mode_bits u g r) AND 7 = u" "drop_bit 3 (m AND NOT 0x1FF OR mode_bits u g r) AND 7 = g"
    "(m AND NOT 0x1FF OR mode_bits u g r) AND 7 = r"
  unfolding mode_masks mode_bits_def by (rule bit_word_eqI; use assms in \<open>auto simp: bit_simps small_def\<close>)+

text \<open>The type of a file does not depend on the low bits.\<close>

lemma type_masks: "(0xF000 :: u16) = push_bit 12 (mask 4)" "(0xFFF :: u16) = mask 12" "(0x400 :: u16) = push_bit 10 1"  "(0x800 :: u16) = push_bit 11 1"
  by (simp_all add: mask_eq_exp_minus_1 push_bit_eq_mult)

lemma type_of_high: "(m AND NOT 0x1FF) = (k AND NOT 0x1FF) \<Longrightarrow> m AND 0xF000 = k AND (0xF000 :: u16)"
proof -
  have e: "x AND 0xF000 = (x AND NOT 0x1FF) AND (0xF000 :: u16)" for x
    unfolding mode_masks type_masks by (rule bit_word_eqI) (auto simp: bit_simps)
  assume "(m AND NOT 0x1FF) = (k AND NOT 0x1FF)"
  then show ?thesis unfolding e [of m] e [of k] by simp
qed

section \<open>Valid lists under the operations\<close>

lemma equiv_mode_valid:
  assumes "posix_acl_valid a = 0" "posix_acl_equiv_mode a m = (r, m')"
  shows "r = 0 \<or> r = 1" "posix_acl_equiv_mode a m' = (r, m')" "m' AND NOT 0x1FF = m AND NOT 0x1FF"
proof -
  obtain uo us go gs mk ot where a: "a = acl_of uo us go gs mk ot" "acl_shape uo us go gs mk ot"
    using assms(1) unfolding posix_acl_valid_iff by blast
  note s = shape_small [OF a(2)]
  note e = equiv_mode_shape [OF a(2)]
  have "r = of_bool (mk \<noteq> None)" and m': "m' = (m AND NOT 0x1FF) OR mode_bits (e_perm uo) (e_perm (group_class mk go)) (e_perm ot)"
    using assms(2) unfolding a(1) e by simp_all
  then show "r = 0 \<or> r = 1" "posix_acl_equiv_mode a m' = (r, m')" "m' AND NOT 0x1FF = m AND NOT 0x1FF"
    unfolding a(1) e m' mode_bits_low(1) [OF s(1,4,3)] by (cases mk; simp)+
qed

lemma shape_perms:
  assumes "acl_shape uo us go gs mk ot" "small u" "small g" "small r"
  shows "acl_shape (uo\<lparr>e_perm := u\<rparr>) us (if mk = None then go\<lparr>e_perm := g\<rparr> else go) gs (map_option (\<lambda>m. m\<lparr>e_perm := g\<rparr>) mk) (ot\<lparr>e_perm := r\<rparr>)"
    "e_perm (group_class (map_option (\<lambda>m. m\<lparr>e_perm := g\<rparr>) mk) (if mk = None then go\<lparr>e_perm := g\<rparr> else go)) = g"
proof -
  note sm = assms(2-4) [folded small_iff]
  show "acl_shape (uo\<lparr>e_perm := u\<rparr>) us (if mk = None then go\<lparr>e_perm := g\<rparr> else go) gs (map_option (\<lambda>m. m\<lparr>e_perm := g\<rparr>) mk) (ot\<lparr>e_perm := r\<rparr>)"
    using assms(1) sm by (cases mk) (auto simp: acl_shape_def tagged_def)
  show "e_perm (group_class (map_option (\<lambda>m. m\<lparr>e_perm := g\<rparr>) mk) (if mk = None then go\<lparr>e_perm := g\<rparr> else go)) = g"
    by (cases mk) (simp_all add: group_class_def)
qed

lemma e_perm_upd: "e_perm (e\<lparr>e_perm := p\<rparr>) = p"
  by simp

lemma chmod_valid:
  assumes "posix_acl_valid a = 0"
  obtains a' where "posix_acl_chmod_masq a m = (0, a')" "posix_acl_valid a' = 0"
    "\<And>k. posix_acl_equiv_mode a' m = (fst (posix_acl_equiv_mode a k), m)"
proof -
  obtain uo us go gs mk ot where a: "a = acl_of uo us go gs mk ot" "acl_shape uo us go gs mk ot"
    using assms unfolding posix_acl_valid_iff by blast
  note p = shape_perms [OF a(2) small_and(4) small_and(5) small_and(3)]
  have "posix_acl_valid (snd (posix_acl_chmod_masq a m)) = 0"
    unfolding posix_acl_valid_iff a(1) chmod_shape [OF a(2)] snd_conv using p(1) by blast
  moreover have "posix_acl_equiv_mode (snd (posix_acl_chmod_masq a m)) m = (fst (posix_acl_equiv_mode a k), m)" for k
    unfolding a(1) chmod_shape [OF a(2)] snd_conv equiv_mode_shape [OF p(1)] p(2) equiv_mode_shape [OF a(2)]
    by (simp only: e_perm_upd mode_bits_of_mode split_mode fst_conv option.map_disc_iff)
  ultimately show ?thesis using that [of "snd (posix_acl_chmod_masq a m)"] unfolding a(1) chmod_shape [OF a(2)] by simp
qed

lemma create_valid:
  assumes "posix_acl_valid a = 0"
  obtains r a' m' where "posix_acl_create_masq a m = (r, a', m')" "r = 0 \<or> r = 1" "posix_acl_valid a' = 0"
    "posix_acl_equiv_mode a' m' = (r, m')" "m' AND NOT 0x1FF = m AND NOT 0x1FF"
    "m' AND m = m'"
proof -
  obtain uo us go gs mk ot where a: "a = acl_of uo us go gs mk ot" "acl_shape uo us go gs mk ot"
    using assms unfolding posix_acl_valid_iff by blast
  note s = shape_small [OF a(2)]
  define u g r where "u = e_perm uo AND drop_bit 6 m" and "g = e_perm (group_class mk go) AND drop_bit 3 m" and "r = e_perm ot AND m"
  have sm: "small u" "small g" "small r" unfolding u_def g_def r_def using s small_and(1) by blast+
  note p = shape_perms [OF a(2) sm]
  let ?a = "acl_of (uo\<lparr>e_perm := u\<rparr>) us (if mk = None then go\<lparr>e_perm := g\<rparr> else go) gs (map_option (\<lambda>m. m\<lparr>e_perm := g\<rparr>) mk) (ot\<lparr>e_perm := r\<rparr>)"
  have g: "go\<lparr>e_perm := e_perm go AND drop_bit 3 m\<rparr> = go\<lparr>e_perm := g\<rparr>" if "mk = None"
    using that by (simp add: g_def group_class_def)
  have mk: "map_option (\<lambda>e. e\<lparr>e_perm := e_perm e AND drop_bit 3 m\<rparr>) mk = map_option (\<lambda>m. m\<lparr>e_perm := g\<rparr>) mk"
    by (cases mk) (simp_all add: g_def group_class_def)
  have c: "posix_acl_create_masq a m = (of_bool (mk \<noteq> None), ?a, (m AND NOT 0x1FF) OR mode_bits u g r)"
    unfolding a(1) create_shape [OF a(2)] mk u_def [symmetric] g_def [symmetric] r_def [symmetric] using g by (cases mk) simp_all
  show ?thesis
  proof (rule that [OF c])
    show "posix_acl_valid ?a = 0" unfolding posix_acl_valid_iff using p(1) by blast
    show "posix_acl_equiv_mode ?a ((m AND NOT 0x1FF) OR mode_bits u g r) = (of_bool (mk \<noteq> None), (m AND NOT 0x1FF) OR mode_bits u g r)"
      unfolding equiv_mode_shape [OF p(1)] p(2) e_perm_upd mode_bits_low(1) [OF sm] by simp
    show "((m AND NOT 0x1FF) OR mode_bits u g r) AND m = (m AND NOT 0x1FF) OR mode_bits u g r"
      unfolding u_def g_def r_def mode_bits_def mode_masks by (rule bit_word_eqI) (use s in \<open>auto simp: bit_simps small_def\<close>)
  qed (cases mk, simp, simp, rule mode_bits_low(1) [OF sm])
qed

section \<open>The invariant of an inode\<close>

text \<open>The lists of an inode are valid; an access list is not one that the mode could express, and its owner,
  group class and other permissions are those of the mode; only directories have a default list, and symbolic
  links have none.\<close>

definition acl_ok :: "inode \<Rightarrow> bool" where
  "acl_ok inode \<longleftrightarrow>
    (\<forall>a. i_acl inode = Some a \<longrightarrow> \<not> S_ISLNK (i_mode inode) \<and> posix_acl_valid a = 0 \<and>
       posix_acl_equiv_mode a (i_mode inode) = (1, i_mode inode)) \<and>
    (\<forall>a. i_default_acl inode = Some a \<longrightarrow> S_ISDIR (i_mode inode) \<and> posix_acl_valid a = 0)"

lemma type_tests:
  assumes "m AND S_IFMT = k AND S_IFMT"
  shows "S_ISLNK m = S_ISLNK k" "S_ISDIR m = S_ISDIR k"
  unfolding S_ISLNK_def S_ISDIR_def assms by simp_all

text \<open>The part of the invariant that does not depend on the permission bits of the mode: valid lists of the right
  inodes. It survives a change of mode that could not copy the list.\<close>

definition acl_valid :: "inode \<Rightarrow> bool" where
  "acl_valid inode \<longleftrightarrow>
    (\<forall>a. i_acl inode = Some a \<longrightarrow> \<not> S_ISLNK (i_mode inode) \<and> posix_acl_valid a = 0 \<and> fst (posix_acl_equiv_mode a (i_mode inode)) = 1) \<and>
    (\<forall>a. i_default_acl inode = Some a \<longrightarrow> S_ISDIR (i_mode inode) \<and> posix_acl_valid a = 0)"

lemma acl_ok_iff:
  "acl_ok inode \<longleftrightarrow> acl_valid inode \<and> (\<forall>a. i_acl inode = Some a \<longrightarrow> snd (posix_acl_equiv_mode a (i_mode inode)) = i_mode inode)"
  by (auto simp: acl_ok_def acl_valid_def prod_eq_iff)

lemma acl_ok_valid: "acl_ok inode \<Longrightarrow> acl_valid inode"
  by (simp add: acl_ok_iff)

lemma equiv_mode_fst: "posix_acl_valid a = 0 \<Longrightarrow> fst (posix_acl_equiv_mode a k) = fst (posix_acl_equiv_mode a m)"
  using chmod_valid [of a 0] by (metis prod.inject)

lemma acl_valid_mode:
  assumes "acl_valid inode" "i_acl i = i_acl inode" "i_default_acl i = i_default_acl inode" "i_mode i AND S_IFMT = i_mode inode AND S_IFMT"
  shows "acl_valid i"
  using assms(1) type_tests [OF assms(4)] equiv_mode_fst [of _ "i_mode i" "i_mode inode"] unfolding acl_valid_def assms(2,3) by auto

lemma acl_valid_lnk: "acl_valid inode \<Longrightarrow> S_ISLNK (i_mode inode) \<Longrightarrow> i_acl inode = None \<and> i_default_acl inode = None"
  by (cases "i_acl inode"; cases "i_default_acl inode") (auto simp: acl_valid_def S_ISLNK_def S_ISDIR_def)

lemma acl_valid_default: "acl_valid dir \<Longrightarrow> get_cached_acl dir ACL_TYPE_DEFAULT = Some a \<Longrightarrow> posix_acl_valid a = 0"
  by (auto simp: acl_valid_def get_cached_acl_def)

lemma acl_set_keeps:
  assumes "acl_valid inode"
  shows "acl_valid (snd (generic_acl_set env inode name value type))" "acl_ok inode \<Longrightarrow> acl_ok (snd (generic_acl_set env inode name value type))"
proof -
  let ?keeps = "\<lambda>i. acl_valid i \<and> (acl_ok inode \<longrightarrow> acl_ok i)"
  have d: "?keeps (set_cached_acl inode type None)"
    using assms by (cases type) (auto simp: acl_ok_def acl_valid_def set_cached_acl_def)
  have s: "?keeps (set_cached_acl i type a')"
    if v: "posix_acl_valid a = 0" and l: "\<not> S_ISLNK (i_mode inode)" and t: "acl_set_type inode type a = Inr (i, a')" for a i a'
  proof (cases type)
    case ACL_TYPE_ACCESS
    obtain r m where e: "posix_acl_equiv_mode a (i_mode inode) = (r, m)" by fastforce
    note q = equiv_mode_valid [OF v e]
    have "i = inode\<lparr>i_mode := m\<rparr>" "a' = (if r = 0 then None else Some a)"
      using t ACL_TYPE_ACCESS q(1) by (auto simp: acl_set_type_def e split: if_splits)
    moreover have "S_ISLNK m = S_ISLNK (i_mode inode)" "S_ISDIR m = S_ISDIR (i_mode inode)"
      by (rule type_tests [OF type_of_high [OF q(3)]])+
    ultimately have "acl_ok (set_cached_acl i type a')"
      using assms l v q(1,2) ACL_TYPE_ACCESS by (auto simp: acl_ok_def acl_valid_def set_cached_acl_def)
    then show ?thesis using acl_ok_valid by blast
  next
    case ACL_TYPE_DEFAULT
    then show ?thesis using t assms v by (auto simp: acl_set_type_def acl_ok_def acl_valid_def set_cached_acl_def split: if_splits)
  qed
  have "?keeps (snd (generic_acl_set env inode name value type))"
    unfolding generic_acl_set_def using assms d s by (auto split: sum.splits option.splits)
  then show "acl_valid (snd (generic_acl_set env inode name value type))" "acl_ok inode \<Longrightarrow> acl_ok (snd (generic_acl_set env inode name value type))"
    by blast+
qed

text \<open>Copying the mode into the list makes the two agree, unless there is no memory for the copy.\<close>

lemma acl_chmod_result:
  assumes "acl_valid inode" "generic_acl_chmod env inode = (r, inode')"
  shows "acl_valid inode'" "r \<noteq> - ENOMEM \<Longrightarrow> acl_ok inode'"
proof -
  have "acl_valid inode' \<and> (r \<noteq> - ENOMEM \<longrightarrow> acl_ok inode')"
  proof (cases "i_acl inode")
    case None
    then have "acl_ok inode" using assms(1) by (simp add: acl_ok_iff)
    then show ?thesis using assms None by (auto simp: generic_acl_chmod_def get_cached_acl_def split: if_splits)
  next
    case (Some a)
    then have v: "posix_acl_valid a = 0" "fst (posix_acl_equiv_mode a (i_mode inode)) = 1" "\<not> S_ISLNK (i_mode inode)"
      using assms(1) by (simp_all add: acl_valid_def)
    obtain a' where a': "posix_acl_chmod_masq a (i_mode inode) = (0, a')" "posix_acl_valid a' = 0"
      "\<And>k. posix_acl_equiv_mode a' (i_mode inode) = (fst (posix_acl_equiv_mode a k), i_mode inode)"
      using chmod_valid [OF v(1), of "i_mode inode"] by metis
    have ok: "acl_ok (inode\<lparr>i_acl := Some a'\<rparr>)"
      using a'(2) a'(3) [of "i_mode inode"] v assms(1) by (simp add: acl_ok_def acl_valid_def)
    have "(r, inode') = (if ve_mem env 0 then (0, inode\<lparr>i_acl := Some a'\<rparr>) else (- ENOMEM, inode))"
      using assms(2) Some v(3) a'(1)
      by (cases "ve_mem env 0") (simp_all add: generic_acl_chmod_def get_cached_acl_def set_cached_acl_def posix_acl_clone_def)
    then show ?thesis using ok acl_ok_valid [OF ok] assms(1) by (auto split: if_splits)
  qed
  then show "acl_valid inode'" "r \<noteq> - ENOMEM \<Longrightarrow> acl_ok inode'" by blast+
qed

section \<open>Attribute changes\<close>

lemma generic_setattr_keeps:
  "i_acl (generic_setattr env inode attr) = i_acl inode" "i_default_acl (generic_setattr env inode attr) = i_default_acl inode"
  by (simp_all add: generic_setattr_def Let_def)

lemma sgid_type: "(m AND NOT S_ISGID) AND S_IFMT = m AND S_IFMT" "(m AND NOT S_ISUID) AND S_IFMT = m AND (S_IFMT :: u16)"
  by (simp_all add: and.assoc)

lemma generic_setattr_type:
  "(flag (ia_valid attr) ATTR_MODE \<Longrightarrow> ia_mode attr AND S_IFMT = i_mode inode AND S_IFMT) \<Longrightarrow>
    i_mode (generic_setattr env inode attr) AND S_IFMT = i_mode inode AND S_IFMT"
  "\<not> flag (ia_valid attr) ATTR_MODE \<Longrightarrow> i_mode (generic_setattr env inode attr) = i_mode inode"
  by (auto simp: generic_setattr_def Let_def sgid_type [simplified])

lemma simple_setsize_keeps:
  "acl_valid (snd (simple_setsize env inode n)) = acl_valid inode" "acl_ok (snd (simple_setsize env inode n)) = acl_ok inode"
  "i_mode (snd (simple_setsize env inode n)) = i_mode inode"
  by (simp_all add: simple_setsize_def Let_def acl_ok_def acl_valid_def)

lemma change_ok_attr:
  assumes "inode_change_ok c inode attr = (r, attr')"
  shows "ia_valid attr' = ia_valid attr" "ia_mode attr' AND S_IFMT = ia_mode attr AND S_IFMT"
    "attr' = attr \<or> attr' = attr\<lparr>ia_mode := ia_mode attr AND NOT S_ISGID\<rparr>"
  using assms by (auto simp: inode_change_ok_def Let_def sgid_type [simplified] split: if_splits)

text \<open>What a change of attributes that returns \<open>r\<close> keeps: valid lists stay valid; lists that agree with the mode still do,
  unless the call failed with \<open>-ENOMEM\<close>; and a call that sets the mode and succeeds makes them agree.\<close>

definition acl_kept :: "bool \<Rightarrow> int \<Rightarrow> inode \<Rightarrow> inode \<Rightarrow> bool" where
  "acl_kept sets_mode r inode inode' \<longleftrightarrow>
    acl_valid inode' \<and> (acl_ok inode \<and> r \<noteq> - ENOMEM \<longrightarrow> acl_ok inode') \<and> (sets_mode \<and> r = 0 \<longrightarrow> acl_ok inode')"

lemma acl_kept_fail: "acl_valid inode \<Longrightarrow> r \<noteq> 0 \<or> \<not> m \<Longrightarrow> acl_kept m r inode inode"
  by (auto simp: acl_kept_def)

lemma acl_kept_setattr:
  assumes "acl_valid inode" "flag (ia_valid attr) ATTR_MODE \<Longrightarrow> ia_mode attr AND S_IFMT = i_mode inode AND S_IFMT"
    "(let i = generic_setattr env inode attr in if flag (ia_valid attr) ATTR_MODE then generic_acl_chmod env i else (0, i)) = (r, inode')"
  shows "acl_kept (flag (ia_valid attr) ATTR_MODE) r inode inode'"
proof -
  let ?i = "generic_setattr env inode attr"
  have v: "acl_valid ?i" by (rule acl_valid_mode [OF assms(1) generic_setattr_keeps generic_setattr_type(1) [OF assms(2)]])
  show ?thesis
  proof (cases "flag (ia_valid attr) ATTR_MODE")
    case True
    then have "generic_acl_chmod env ?i = (r, inode')" using assms(3) by simp
    from acl_chmod_result [OF v this] show ?thesis by (auto simp: acl_kept_def)
  next
    case False
    then have "r = 0" "inode' = ?i" using assms(3) by simp_all
    then show ?thesis using v False generic_setattr_type(2) [OF False]
      by (auto simp: acl_kept_def acl_ok_def generic_setattr_keeps)
  qed
qed

lemma flag_or: "flag (v OR w) f \<longleftrightarrow> flag v f \<or> flag w f" for v :: "'a :: len word"
  unfolding flag_def by (auto simp: bit_eq_iff bit_simps)

lemma flag_0 [simp]: "\<not> flag 0 f"
  by (simp add: flag_def)

lemma flag_and_not:
  fixes v :: "'a :: len word"
  assumes "k AND f = 0"
  shows "flag (v AND NOT k) f \<longleftrightarrow> flag v f"
proof -
  have "v AND NOT k AND f = v AND f"
  proof (rule bit_word_eqI)
    fix n
    have "\<not> bit (k AND f) n" using assms by simp
    then show "n < LENGTH('a) \<Longrightarrow> bit (v AND NOT k AND f) n \<longleftrightarrow> bit (v AND f) n" by (auto simp: bit_simps)
  qed
  then show ?thesis by (simp add: flag_def and.assoc)
qed

lemma flag_clear: "\<not> flag (v AND NOT f) f" for v :: "'a :: len word"
  by (simp add: flag_def and.assoc)

text \<open>A mode that is to be set has the type of the file.\<close>

definition mode_req :: "inode \<Rightarrow> iattr \<Rightarrow> bool" where
  "mode_req inode attr \<longleftrightarrow> (flag (ia_valid attr) ATTR_MODE \<longrightarrow> ia_mode attr AND S_IFMT = i_mode inode AND S_IFMT)"

lemma mode_req_kill: "mode_req inode attr \<Longrightarrow> mode_req inode (kill_suid inode attr)"
    "mode_req inode attr \<Longrightarrow> mode_req inode (kill_sgid inode attr)"
    "mode_req inode attr \<Longrightarrow> kill_priv env attr = Inr attr' \<Longrightarrow> mode_req inode attr'"
proof -
  show "mode_req inode attr \<Longrightarrow> mode_req inode (kill_suid inode attr)"
    by (simp add: kill_suid_def mode_req_def sgid_type [simplified])
  show "mode_req inode attr \<Longrightarrow> mode_req inode (kill_sgid inode attr)"
    by (simp add: kill_sgid_def mode_req_def Let_def sgid_type [simplified])
  have f: "flag (v AND NOT ATTR_KILL_PRIV) ATTR_MODE \<longleftrightarrow> flag v ATTR_MODE" for v by (rule flag_and_not) simp
  assume m: "mode_req inode attr" and k: "kill_priv env attr = Inr attr'"
  from k have "attr' = attr \<or> attr' = attr\<lparr>ia_valid := ia_valid attr AND NOT ATTR_KILL_PRIV\<rparr>"
    unfolding kill_priv_def Let_def by (elim if_eqE) simp_all
  then show "mode_req inode attr'" using m unfolding mode_req_def by (elim disjE) (simp_all add: f [simplified])
qed

lemma acl_kept_shmem:
  assumes "acl_valid inode" "mode_req inode attr" "shmem_notify_change env inode attr = (r, inode')"
  shows "acl_kept (flag (ia_valid attr) ATTR_MODE) r inode inode'"
proof -
  obtain e i where i: "(if S_ISREG (i_mode inode) \<and> flag (ia_valid attr) ATTR_SIZE \<and> ia_size attr \<noteq> i_size inode
      then simple_setsize env inode (ia_size attr) else (0, inode)) = (e, i)" by fastforce
  have ok: "acl_valid i = acl_valid inode" "acl_ok i = acl_ok inode" "i_mode i = i_mode inode"
    using simple_setsize_keeps [of env inode "ia_size attr"] i by (auto split: if_splits)
  obtain r1 attr' where c: "inode_change_ok (current env) i attr = (r1, attr')" by fastforce
  note a = change_ok_attr [OF c]
  consider "r \<noteq> 0" "inode' = i"
    | "(let i = generic_setattr env i attr' in if flag (ia_valid attr') ATTR_MODE then generic_acl_chmod env i else (0, i)) = (r, inode')"
    using assms(3) unfolding shmem_notify_change_def i by (auto simp: Let_def c split: if_splits)
  then show ?thesis
  proof cases
    case 1
    then show ?thesis using assms(1) ok by (simp add: acl_kept_def)
  next
    case 2
    have "acl_kept (flag (ia_valid attr') ATTR_MODE) r i inode'"
      by (rule acl_kept_setattr [OF _ _ 2]) (use ok assms a in \<open>auto simp: mode_req_def\<close>)
    then show ?thesis using a(1) ok by (simp add: acl_kept_def)
  qed
qed

lemma acl_ok_inode_setattr:
  assumes "i_acl inode = None" "i_default_acl inode = None"
  shows "acl_ok (snd (inode_setattr env inode attr))"
  using assms by (auto simp: inode_setattr_def simple_setsize_def Let_def acl_ok_def generic_setattr_keeps)

text \<open>The way \<open>notify_change\<close> sets attributes in the end.\<close>

definition set_attributes :: "vfs_env \<Rightarrow> inode \<Rightarrow> iattr \<Rightarrow> int \<times> inode" where
  "set_attributes env inode attr =
    (case op_setattr (shmem_operations env inode) of
       Some f \<Rightarrow> f inode attr
     | None \<Rightarrow> (case inode_change_ok (current env) inode attr of
         (error, attr) \<Rightarrow> if error \<noteq> 0 then (error, inode) else inode_setattr env inode attr))"

lemma acl_kept_set:
  assumes "acl_valid inode" "mode_req inode attr" "set_attributes env inode attr = (r, inode')"
  shows "acl_kept (flag (ia_valid attr) ATTR_MODE) r inode inode'"
proof (cases "S_ISLNK (i_mode inode)")
  case True
  then have "acl_ok inode" using acl_valid_lnk [OF assms(1)] assms(1) by (simp add: acl_ok_iff)
  then have "acl_ok inode'"
    using assms(3) acl_valid_lnk [OF assms(1) True] acl_ok_inode_setattr True
    by (auto simp: set_attributes_def shmem_operations_def split: prod.splits if_splits) (metis snd_conv)+
  then show ?thesis by (simp add: acl_kept_def acl_ok_valid)
next
  case False
  then show ?thesis using acl_kept_shmem [OF assms(1,2)] assms(3) by (simp add: set_attributes_def shmem_operations_def)
qed

lemma kill_keeps_mode:
  "flag (ia_valid attr) ATTR_MODE \<Longrightarrow> flag (ia_valid (kill_sgid inode (kill_suid inode attr))) ATTR_MODE"
  "kill_priv env attr = Inr attr' \<Longrightarrow> flag (ia_valid attr') ATTR_MODE = flag (ia_valid attr) ATTR_MODE"
proof -
  show "flag (ia_valid attr) ATTR_MODE \<Longrightarrow> flag (ia_valid (kill_sgid inode (kill_suid inode attr))) ATTR_MODE"
    by (simp add: kill_sgid_def kill_suid_def Let_def flag_or)
  have f: "flag (v AND NOT ATTR_KILL_PRIV) ATTR_MODE \<longleftrightarrow> flag v ATTR_MODE" for v by (rule flag_and_not) simp
  assume "kill_priv env attr = Inr attr'"
  then have "attr' = attr \<or> attr' = attr\<lparr>ia_valid := ia_valid attr AND NOT ATTR_KILL_PRIV\<rparr>"
    unfolding kill_priv_def Let_def by (elim if_eqE) simp_all
  then show "flag (ia_valid attr') ATTR_MODE = flag (ia_valid attr) ATTR_MODE" by (elim disjE) (simp_all add: f [simplified])
qed

lemma acl_kept_change:
  assumes "acl_valid inode" "mode_req inode attr" "change env inode attr = Ok (r, inode')"
  shows "acl_kept (flag (ia_valid attr) ATTR_MODE) r inode inode'"
proof -
  let ?attr = "attr\<lparr>ia_ctime := current_fs_time env (i_sb inode),
     ia_atime := (if flag (ia_valid attr) ATTR_ATIME_SET then ia_atime attr else current_fs_time env (i_sb inode)),
     ia_mtime := (if flag (ia_valid attr) ATTR_MTIME_SET then ia_mtime attr else current_fs_time env (i_sb inode))\<rparr>"
  have q: "mode_req inode ?attr" using assms(2) by (simp add: mode_req_def)
  show ?thesis
  proof (cases "kill_priv env ?attr")
    case (Inl e)
    then have "e \<noteq> 0" unfolding kill_priv_def Let_def by (elim if_eqE) auto
    then have "r \<noteq> 0" "inode' = inode" using assms(3) Inl by (auto simp: change_def notify_change_def Let_def split: if_splits)
    then show ?thesis using acl_kept_fail [OF assms(1)] by blast
  next
    case (Inr a)
    let ?k = "kill_sgid inode (kill_suid inode a)"
    have m: "mode_req inode ?k" by (rule mode_req_kill(2), rule mode_req_kill(1), rule mode_req_kill(3) [OF q Inr])
    have f: "flag (ia_valid attr) ATTR_MODE \<Longrightarrow> flag (ia_valid ?k) ATTR_MODE" using kill_keeps_mode(1) [of a] kill_keeps_mode(2) [OF Inr] by simp
    have z: "ia_valid ?k AND NOT (ATTR_KILL_SUID OR ATTR_KILL_SGID) = 0 \<Longrightarrow> \<not> flag (ia_valid ?k) ATTR_MODE"
      using flag_and_not [of "ATTR_KILL_SUID OR ATTR_KILL_SGID" ATTR_MODE "ia_valid ?k"] by simp
    have "(r \<noteq> 0 \<or> \<not> flag (ia_valid attr) ATTR_MODE) \<and> inode' = inode \<or> set_attributes env inode ?k = (r, inode')"
      using assms(3) f z unfolding change_def notify_change_def Let_def Inr sum.case set_attributes_def [symmetric]
      by (elim if_eqE) auto
    then show ?thesis
    proof
      assume "set_attributes env inode ?k = (r, inode')"
      from acl_kept_set [OF assms(1) m this] show ?thesis using f by (auto simp: acl_kept_def)
    qed (use acl_kept_fail [OF assms(1)] in blast)
  qed
qed
end
