(* ===== verification/TmpfsSys.thy ===== *)
theory TmpfsSys
  imports InodeInv
begin

text \<open>
  The calls on inodes of tmpfs as a transition system: extended attributes, \<open>chmod\<close>, \<open>chown\<close>, truncation,
  writing and creation, by tasks with any credentials, in any order, with allocations that may fail. Beside the file
  system a state has the set of torn inodes, those on which a call has failed with \<open>-ENOMEM\<close> since the last \<open>chmod\<close> that
  succeeded: \<open>shmem_notify_change\<close> has then changed the mode and not the list. Lists are valid on all inodes of every
  reachable file system, and agree with the mode on those that are not torn.
\<close>

section \<open>Calls\<close>

lemma chmod_type: "((mode AND S_IALLUGO) OR (m AND NOT S_IALLUGO)) AND S_IFMT = m AND (S_IFMT :: u16)"
  unfolding type_masks by (rule bit_word_eqI) (auto simp: bit_simps)

lemma chmod_req: "mode_req inode (attr\<lparr>ia_mode := (mode AND S_IALLUGO) OR (i_mode inode AND NOT S_IALLUGO), ia_valid := v\<rparr>)"
  using chmod_type [of mode "i_mode inode"] by (simp add: mode_req_def)

lemma acl_kept_chmod_inode:
  assumes "acl_valid inode" "chmod_inode env attr inode mode = Ok (r, inode')"
  shows "acl_kept True r inode inode'"
proof -
  have "flag (ATTR_MODE OR ATTR_CTIME) ATTR_MODE" by (simp add: flag_def)
  then show ?thesis using acl_kept_change [OF assms(1) chmod_req] assms(2) unfolding chmod_inode_def Let_def by fastforce
qed

lemma chown_flags:
  "\<not> flag (ia_valid (chown_attr attr inode usr grp)) ATTR_MODE"
  "\<not> flag (ia_valid (chown_attr attr inode usr grp)) ATTR_FORCE"
  "\<not> flag (ia_valid (chown_attr attr inode usr grp)) ATTR_SIZE"
  "flag (ia_valid (chown_attr attr inode usr grp)) ATTR_UID \<longleftrightarrow> usr \<noteq> - 1"
  "flag (ia_valid (chown_attr attr inode usr grp)) ATTR_GID \<longleftrightarrow> grp \<noteq> - 1"
  "flag (ia_valid (chown_attr attr inode usr grp)) ATTR_KILL_SUID \<longleftrightarrow> \<not> S_ISDIR (i_mode inode)"
  "flag (ia_valid (chown_attr attr inode usr grp)) ATTR_KILL_SGID \<longleftrightarrow> \<not> S_ISDIR (i_mode inode)"
  "flag (ia_valid (chown_attr attr inode usr grp)) ATTR_CTIME"
  by (simp_all add: chown_attr_def Let_def flag_def)

lemma acl_kept_chown:
  "acl_valid inode \<Longrightarrow> chown_common env attr inode usr grp = Ok (r, inode') \<Longrightarrow> acl_kept False r inode inode'"
  using acl_kept_change [of inode "chown_attr attr inode usr grp" env r inode'] chown_flags(1) [of attr inode usr grp]
  by (simp add: chown_common_def mode_req_def)

lemma remove_suid_flags: "\<not> flag (should_remove_suid c inode) ATTR_MODE"
  by (simp add: should_remove_suid_def Let_def flag_def)

lemma acl_kept_remove_suid:
  assumes "acl_valid inode" "file_remove_suid env attr inode = Ok (r, inode')"
  shows "acl_kept False r inode inode'"
proof -
  let ?attr = "attr\<lparr>ia_valid := ATTR_FORCE OR should_remove_suid (current env) inode\<rparr>"
  have "\<not> flag (ia_valid ?attr) ATTR_MODE"
    using remove_suid_flags [of "current env" inode] by (simp add: flag_or) (simp add: flag_def)
  then have "change env inode ?attr = Ok (r, inode') \<Longrightarrow> acl_kept False r inode inode'"
    using acl_kept_change [OF assms(1), of ?attr] by (simp add: mode_req_def)
  then show ?thesis
    using assms(2) acl_kept_fail [OF assms(1)] unfolding file_remove_suid_def Let_def by (elim if_eqE) auto
qed

lemma acl_kept_truncate:
  assumes "acl_valid inode" "\<not> flag time_attrs ATTR_MODE" "do_truncate env attr inode len time_attrs filp = Ok (r, inode')"
  shows "acl_kept False r inode inode'"
proof -
  have f: "\<not> flag ATTR_SIZE ATTR_MODE" "\<not> flag ATTR_FILE ATTR_MODE" "\<not> flag ATTR_FORCE ATTR_MODE" by (simp_all add: flag_def)
  define v where "v = (let v = ATTR_SIZE OR time_attrs; v = (if filp then v OR ATTR_FILE else v); ret = should_remove_suid (current env) inode
    in if ret \<noteq> 0 then v OR (ret OR ATTR_FORCE) else v)"
  have "\<not> flag v ATTR_MODE" by (simp add: v_def Let_def flag_or f assms(2) remove_suid_flags)
  then have "acl_kept False r inode inode'" if "change env inode (attr\<lparr>ia_size := len, ia_valid := v\<rparr>) = Ok (r, inode')"
    using acl_kept_change [OF assms(1) _ that] by (simp add: mode_req_def)
  then show ?thesis using assms(3) acl_kept_fail [OF assms(1)] unfolding do_truncate_def v_def Let_def by (elim if_eqE) auto
qed

section \<open>Creation\<close>

lemma umask_type:
  assumes "u AND NOT 0x1FF = 0"
  shows "m AND NOT u AND NOT 0x1FF = m AND NOT (0x1FF :: u16)"
proof (rule bit_word_eqI)
  fix n
  have "\<not> bit (u AND NOT 0x1FF) n" using assms by simp
  then show "n < LENGTH(16) \<Longrightarrow> bit (m AND NOT u AND NOT 0x1FF) n \<longleftrightarrow> bit (m AND NOT 0x1FF) n"
    unfolding mode_masks by (auto simp: bit_simps)
qed

lemma acl_ok_init:
  assumes "i_acl inode = None" "i_default_acl inode = None" "acl_valid dir" "ve_umask env AND NOT 0x1FF = 0"
  shows "acl_ok (snd (generic_acl_init env inode dir))"
proof -
  define m where "m = i_mode inode"
  have t: "S_ISLNK (m AND NOT (ve_umask env)) = S_ISLNK m" "S_ISDIR (m AND NOT (ve_umask env)) = S_ISDIR m"
    by (rule type_tests [OF type_of_high [OF umask_type [OF assms(4), unfolded and.assoc [symmetric]]]])+
  show ?thesis
  proof (cases "S_ISLNK m \<or> get_cached_acl dir ACL_TYPE_DEFAULT = None")
    case True
    then show ?thesis using assms(1,2) t by (auto simp: generic_acl_init_def Let_def acl_ok_def m_def)
  next
    case False
    then obtain a where a: "get_cached_acl dir ACL_TYPE_DEFAULT = Some a" and l: "\<not> S_ISLNK m" by auto
    note v = acl_valid_default [OF assms(3) a]
    obtain r a' m' where c: "posix_acl_create_masq a m = (r, a', m')" "r = 0 \<or> r = 1" "posix_acl_valid a' = 0"
        "posix_acl_equiv_mode a' m' = (r, m')" "m' AND NOT 0x1FF = m AND NOT 0x1FF"
      using create_valid [OF v, of m] by metis
    note t' = type_tests [OF type_of_high [OF c(5)]]
    show ?thesis
      using assms(1,2) a l v c(1-4) t t'
      by (auto simp: generic_acl_init_def Let_def m_def [symmetric] posix_acl_clone_def set_cached_acl_def acl_ok_def)
  qed
qed

lemma acl_ok_get_inode:
  assumes "shmem_get_inode env new dir mode = Some inode"
  shows "i_acl inode = None" "i_default_acl inode = None"
  using assms by (auto simp: shmem_get_inode_def cache_no_acl_def Let_def split: if_splits)

text \<open>What a creation leaves: the directory with its lists and mode, and the new inode, if there is one.\<close>

definition created_ok :: "inode \<Rightarrow> int \<times> inode \<times> inode option \<Rightarrow> bool" where
  "created_ok dir res \<longleftrightarrow> (case res of (r, dir', node) \<Rightarrow>
     i_acl dir' = i_acl dir \<and> i_default_acl dir' = i_default_acl dir \<and> i_mode dir' = i_mode dir \<and> pred_option acl_ok node)"

lemma created_same: "created_ok dir (r, dir, None)"
  by (simp add: created_ok_def)

lemma created_if: "(c \<Longrightarrow> created_ok dir x) \<Longrightarrow> (\<not> c \<Longrightarrow> created_ok dir y) \<Longrightarrow> created_ok dir (if c then x else y)"
  by simp

lemma created_dir: "created_ok dir (r, dir', node) \<Longrightarrow> acl_ok dir' = acl_ok dir \<and> acl_valid dir' = acl_valid dir"
  by (simp add: created_ok_def acl_ok_def acl_valid_def)

lemma created_mknod:
  assumes "acl_valid dir" "ve_umask env AND NOT 0x1FF = 0"
  shows "created_ok dir (shmem_mknod env new dir mode)"
proof (cases "shmem_get_inode env new dir mode")
  case None
  then show ?thesis by (simp add: shmem_mknod_def created_ok_def)
next
  case (Some inode)
  obtain r i where i: "generic_acl_init env inode dir = (r, i)" by fastforce
  have "acl_ok i" using acl_ok_init [OF acl_ok_get_inode [OF Some] assms] i by simp
  then show ?thesis using Some i by (simp add: shmem_mknod_def created_ok_def)
qed

lemma created_calls:
  assumes "acl_valid dir" "ve_umask env AND NOT 0x1FF = 0"
  shows "created_ok dir (sys_mknodat env new dir dentry mode w devs)" "created_ok dir (sys_mkdirat env new dir dentry mode w)"
  unfolding sys_mknodat_def sys_mkdirat_def vfs_create_def vfs_mknod_def vfs_mkdir_def shmem_create_def shmem_mkdir_def Let_def
  by (intro created_if created_same created_mknod assms)+

lemma created_symlink: "created_ok dir (shmem_symlink env new dir symname room getpage)"
proof -
  have "acl_ok (inode\<lparr>i_size := s\<rparr>)" if "shmem_get_inode env new dir m = Some inode" for inode s m
    using acl_ok_get_inode [OF that] by (simp add: acl_ok_def)
  then show ?thesis
    unfolding shmem_symlink_def Let_def by (auto simp: created_ok_def split: option.splits)
qed

section \<open>tmpfs as a transition system\<close>

type_synonym tmpfs = "nat \<Rightarrow> inode option"

abbreviation (input) ATTR_OPEN :: u32 where "ATTR_OPEN \<equiv> 0x8000"

text \<open>A call by any task on any inode. Beside the inodes, a state has the set of those on which a call has failed with
  \<open>-ENOMEM\<close> since the last \<open>chmod\<close> that succeeded: without memory for a copy of the list, \<open>shmem_notify_change\<close> has already
  set the mode when it fails. \<open>sys_umask\<close> keeps the umask within the permission bits.\<close>

definition torn_by :: "bool \<Rightarrow> nat \<Rightarrow> int \<Rightarrow> nat set \<Rightarrow> nat set" where
  "torn_by sets_mode i r torn = (if r = - ENOMEM then insert i torn else if sets_mode \<and> r = 0 then torn - {i} else torn)"

inductive tmpfs_step :: "tmpfs \<times> nat set \<Rightarrow> tmpfs \<times> nat set \<Rightarrow> bool" where
  fs_setxattr: "fs i = Some inode \<Longrightarrow> vfs_setxattr env inode name val = (r, inode') \<Longrightarrow> tmpfs_step (fs, torn) (fs(i \<mapsto> inode'), torn)"
| fs_removexattr: "fs i = Some inode \<Longrightarrow> vfs_removexattr env inode name = (r, inode') \<Longrightarrow> tmpfs_step (fs, torn) (fs(i \<mapsto> inode'), torn)"
| fs_chmod: "fs i = Some inode \<Longrightarrow> sys_fchmodat env attr (Inr inode) w mode = Ok (r, Some inode') \<Longrightarrow>
    tmpfs_step (fs, torn) (fs(i \<mapsto> inode'), torn_by True i r torn)"
| fs_chown: "fs i = Some inode \<Longrightarrow> sys_fchownat env attr (\<lambda>_. Inr inode) w usr grp fl = Ok (r, Some inode') \<Longrightarrow>
    tmpfs_step (fs, torn) (fs(i \<mapsto> inode'), torn_by False i r torn)"
| fs_truncate: "fs i = Some inode \<Longrightarrow>
    time_attrs \<in> {0, ATTR_MTIME OR ATTR_CTIME, ATTR_MTIME OR ATTR_CTIME OR ATTR_OPEN} \<Longrightarrow>
    do_truncate env attr inode len time_attrs filp = Ok (r, inode') \<Longrightarrow> tmpfs_step (fs, torn) (fs(i \<mapsto> inode'), torn_by False i r torn)"
| fs_write: "fs i = Some inode \<Longrightarrow> file_remove_suid env attr inode = Ok (r, inode') \<Longrightarrow>
    tmpfs_step (fs, torn) (fs(i \<mapsto> inode'), torn_by False i r torn)"
| fs_mknod: "fs d = Some dir \<Longrightarrow> fs n = None \<Longrightarrow> ve_umask env AND NOT S_IRWXUGO = 0 \<Longrightarrow>
    sys_mknodat env new dir dentry mode w devs = (r, dir', node) \<Longrightarrow> tmpfs_step (fs, torn) (fs(d \<mapsto> dir', n := node), torn - {n})"
| fs_mkdir: "fs d = Some dir \<Longrightarrow> fs n = None \<Longrightarrow> ve_umask env AND NOT S_IRWXUGO = 0 \<Longrightarrow>
    sys_mkdirat env new dir dentry mode w = (r, dir', node) \<Longrightarrow> tmpfs_step (fs, torn) (fs(d \<mapsto> dir', n := node), torn - {n})"
| fs_symlink: "fs d = Some dir \<Longrightarrow> fs n = None \<Longrightarrow>
    shmem_symlink env new dir symname room getpage = (r, dir', node) \<Longrightarrow> tmpfs_step (fs, torn) (fs(d \<mapsto> dir', n := node), torn - {n})"

text \<open>A new file system has a root directory without lists.\<close>

definition tmpfs_init :: "tmpfs \<times> nat set \<Rightarrow> bool" where
  "tmpfs_init s \<longleftrightarrow> (\<exists>root. i_acl root = None \<and> i_default_acl root = None \<and> s = ([0 \<mapsto> root], {}))"

definition tmpfs_inv :: "tmpfs \<times> nat set \<Rightarrow> bool" where
  "tmpfs_inv s \<longleftrightarrow> (\<forall>i inode. fst s i = Some inode \<longrightarrow> acl_valid inode \<and> (i \<notin> snd s \<longrightarrow> acl_ok inode))"

lemma tmpfs_inv_kept:
  assumes "tmpfs_inv (fs, torn)" "fs i = Some inode" "acl_kept m r inode inode'"
  shows "tmpfs_inv (fs(i \<mapsto> inode'), torn_by m i r torn)"
  using assms by (auto simp: tmpfs_inv_def acl_kept_def torn_by_def split: if_splits)

lemma tmpfs_inv_new:
  assumes "tmpfs_inv (fs, torn)" "fs d = Some dir" "fs n = None" "created_ok dir (r, dir', node)"
  shows "tmpfs_inv (fs(d \<mapsto> dir', n := node), torn - {n})"
proof -
  have "acl_valid i \<and> acl_ok i" if "node = Some i" for i using assms(4) that acl_ok_valid by (auto simp: created_ok_def)
  then show ?thesis using assms(1,2,3) created_dir [OF assms(4)] by (auto simp: tmpfs_inv_def)
qed

lemma xattr_keeps:
  assumes "acl_valid inode" "vfs_setxattr env inode name val = (r, inode') \<or> vfs_removexattr env inode name = (r, inode')"
  shows "acl_valid inode' \<and> (acl_ok inode \<longrightarrow> acl_ok inode')"
proof -
  have g: "generic_acl_set env inode n v t = (r, inode') \<Longrightarrow> acl_valid inode' \<and> (acl_ok inode \<longrightarrow> acl_ok inode')" for n v t r
    using acl_set_keeps [OF assms(1), of env n v t] by simp
  show ?thesis
    using assms unfolding vfs_setxattr_def vfs_removexattr_def generic_setxattr_def generic_removexattr_def Let_def
    by (auto dest: g split: if_splits option.splits prod.splits xattr_handler.splits)
qed

lemma tmpfs_inv_xattr:
  assumes "tmpfs_inv (fs, torn)" "fs i = Some inode" "vfs_setxattr env inode name val = (r, inode') \<or> vfs_removexattr env inode name = (r, inode')"
  shows "tmpfs_inv (fs(i \<mapsto> inode'), torn)"
  using xattr_keeps [OF _ assms(3)] assms(1,2) by (auto simp: tmpfs_inv_def)

lemma tmpfs_step_inv:
  assumes "tmpfs_inv s" "tmpfs_step s s'"
  shows "tmpfs_inv s'"
  using assms(2,1)
proof (induction rule: tmpfs_step.induct)
  case (fs_setxattr fs i inode env name val r inode' torn)
  then show ?case using tmpfs_inv_xattr by blast
next
  case (fs_removexattr fs i inode env name r inode' torn)
  then show ?case using tmpfs_inv_xattr by blast
next
  case (fs_chmod fs i inode env attr w mode r inode' torn)
  then have v: "acl_valid inode" by (simp add: tmpfs_inv_def)
  have "acl_kept True r inode inode'" using fs_chmod(2) acl_kept_chmod_inode [OF v, of env attr mode] acl_kept_fail [OF v]
    by (auto simp: sys_fchmodat_def split: if_splits outcome.splits prod.splits)
  then show ?case using tmpfs_inv_kept fs_chmod by blast
next
  case (fs_chown fs i inode env attr w usr grp fl r inode' torn)
  then have v: "acl_valid inode" by (simp add: tmpfs_inv_def)
  have "acl_kept False r inode inode'" using fs_chown(2) acl_kept_chown [OF v, of env attr usr grp] acl_kept_fail [OF v]
    by (auto simp: sys_fchownat_def split: if_splits outcome.splits prod.splits)
  then show ?case using tmpfs_inv_kept fs_chown by blast
next
  case (fs_truncate fs i inode time_attrs env attr len filp r inode' torn)
  then have v: "acl_valid inode" by (simp add: tmpfs_inv_def)
  have "\<not> flag time_attrs ATTR_MODE" using fs_truncate(2) by (auto simp: flag_def)
  then show ?case using tmpfs_inv_kept acl_kept_truncate [OF v] fs_truncate by blast
next
  case (fs_write fs i inode env attr r inode' torn)
  then have v: "acl_valid inode" by (simp add: tmpfs_inv_def)
  show ?case using tmpfs_inv_kept acl_kept_remove_suid [OF v] fs_write by blast
next
  case (fs_mknod fs d dir n env new dentry mode w devs r dir' node torn)
  then have "acl_valid dir" by (simp add: tmpfs_inv_def)
  from created_calls(1) [OF this, of env new dentry mode w devs] show ?case using tmpfs_inv_new fs_mknod by simp
next
  case (fs_mkdir fs d dir n env new dentry mode w r dir' node torn)
  then have "acl_valid dir" by (simp add: tmpfs_inv_def)
  from created_calls(2) [OF this, of env new dentry mode w] show ?case using tmpfs_inv_new fs_mkdir by simp
next
  case (fs_symlink fs d dir n env new symname room getpage r dir' node torn)
  from created_symlink [of dir env new symname room getpage] show ?case using tmpfs_inv_new fs_symlink by simp
qed

interpretation tmpfs_sys: invariant_system tmpfs_init tmpfs_step tmpfs_inv
proof
  fix s assume "tmpfs_init s"
  then show "tmpfs_inv s" by (auto simp: tmpfs_init_def tmpfs_inv_def acl_ok_def acl_valid_def split: if_splits)
next
  fix s s' assume "tmpfs_inv s" "tmpfs_step s s'"
  then show "tmpfs_inv s'" by (rule tmpfs_step_inv)
qed

end
