(* ===== verification/InodeEffect.thy ===== *)
theory InodeEffect
  imports TmpfsSys
begin

text \<open>
  What the calls of the transition system leave in an inode: when the permission check is the algorithm of the
  access control list, what a successful change of attributes means for mode and owners, what the extended
  attribute stores, and the mode of a new inode.
\<close>

section \<open>Permission\<close>

text \<open>The list that describes an inode: its own, or the one its mode stands for.\<close>

definition effective_acl :: "inode \<Rightarrow> posix_acl" where
  "effective_acl inode =
    (case i_acl inode of Some a \<Rightarrow> a | None \<Rightarrow> (case posix_acl_from_mode True (i_mode inode) of Inr a \<Rightarrow> a | Inl e \<Rightarrow> []))"

definition dac_override :: "cred \<Rightarrow> inode \<Rightarrow> u16 \<Rightarrow> bool" where
  "dac_override c inode want \<longleftrightarrow>
    (\<not> flag want MAY_EXEC \<or> execute_ok inode) \<and> capable c CAP_DAC_OVERRIDE \<or>
    (want AND 7 = MAY_READ \<or> S_ISDIR (i_mode inode) \<and> \<not> flag (want AND 7) MAY_WRITE) \<and> capable c CAP_DAC_READ_SEARCH"

lemma verdict_iff: "(w AND 7) AND NOT m = 0 \<longleftrightarrow> (m AND 7) AND (w AND 7) = w AND (7 :: u16)"
  by (auto simp: bit_eq_iff bit_simps)

lemma mode_acl_shape:
  "\<exists>uo go ot. effective_acl inode = acl_of uo [] go [] None ot \<and> acl_shape uo [] go [] None ot \<and>
    e_perm uo = drop_bit 6 (i_mode inode) AND 7 \<and> e_perm go = drop_bit 3 (i_mode inode) AND 7 \<and> e_perm ot = i_mode inode AND 7"
  if "i_acl inode = None"
proof -
  have d: "drop_bit 6 (m AND 0x1C0) = drop_bit 6 m AND 7" "drop_bit 3 (m AND 0x38) = drop_bit 3 m AND (7 :: u16)" for m
    unfolding mode_masks by (rule bit_word_eqI; auto simp: bit_simps)+
  have t: "tagged k \<lparr>e_tag = k, e_perm = p AND 7, e_id = i\<rparr>" for k p i
    unfolding tagged_def small_iff using small_and(3) [of p] by simp
  show ?thesis
    unfolding effective_acl_def posix_acl_from_mode_def that d
    by (intro exI conjI) (auto simp: acl_of_def acl_shape_def t)
qed

lemma coherent_classes:
  assumes "acl_shape uo us go gs mk ot" "posix_acl_equiv_mode (acl_of uo us go gs mk ot) m = (1, m)"
  shows "drop_bit 6 m AND 7 = e_perm uo" "drop_bit 3 m AND 7 = e_perm (group_class mk go)" "m AND 7 = e_perm ot" "mk \<noteq> None"
proof -
  note s = shape_small [OF assms(1)]
  have m: "(m AND NOT 0x1FF) OR mode_bits (e_perm uo) (e_perm (group_class mk go)) (e_perm ot) = m" and "of_bool (mk \<noteq> None) = (1 :: int)"
    using assms(2) unfolding equiv_mode_shape [OF assms(1)] by (simp_all del: of_bool_eq_1_iff)
  then show "mk \<noteq> None" by (cases mk) simp_all
  show "drop_bit 6 m AND 7 = e_perm uo" "drop_bit 3 m AND 7 = e_perm (group_class mk go)" "m AND 7 = e_perm ot"
    using mode_bits_classes [OF s(1,4,3), of m] unfolding m by simp_all
qed

lemma check_agrees:
  assumes "acl_valid inode" "IS_POSIXACL inode" "i_acl inode = None \<or> flag (i_mode inode) S_IRWXG \<or> fsuid c = i_uid inode"
    "acl_ok inode \<or> fsuid c \<noteq> i_uid inode"
  shows "acl_permission_check c inode want (Some (generic_check_acl c)) =
    (if acl_grants c (i_uid inode) (i_gid inode) (effective_acl inode) (want AND 7) then 0 else - EACCES)"
proof (cases "i_acl inode")
  case None
  then obtain uo go ot where a: "effective_acl inode = acl_of uo [] go [] None ot" "acl_shape uo [] go [] None ot"
    "e_perm uo = drop_bit 6 (i_mode inode) AND 7" "e_perm go = drop_bit 3 (i_mode inode) AND 7" "e_perm ot = i_mode inode AND 7"
    using mode_acl_shape by blast
  show ?thesis
    unfolding acl_permission_check_def Let_def verdict_iff a(1) grants_shape [OF a(2)] a(3-5) generic_check_acl_def get_cached_acl_def
    using None by simp
next
  case (Some a)
  then have v: "posix_acl_valid a = 0" using assms(1) by (simp add: acl_valid_def)
  have e: "effective_acl inode = a" using Some by (simp add: effective_acl_def)
  show ?thesis
  proof (cases "fsuid c = i_uid inode")
    case True
    obtain uo us go gs mk ot where a: "a = acl_of uo us go gs mk ot" "acl_shape uo us go gs mk ot"
      using v unfolding posix_acl_valid_iff by blast
    have m: "posix_acl_equiv_mode a (i_mode inode) = (1, i_mode inode)" using assms(4) True Some by (simp add: acl_ok_def)
    show ?thesis
      unfolding e a(1) grants_shape [OF a(2)] acl_permission_check_def Let_def verdict_iff
        coherent_classes(1) [OF a(2) m [unfolded a(1)]] using True by simp
  next
    case False
    then have "acl_permission_check c inode want (Some (generic_check_acl c)) = posix_acl_permission c (i_uid inode) (i_gid inode) a (want AND 7)"
      using assms(2,3) Some permission_valid [OF v, of c "i_uid inode" "i_gid inode" "want AND 7"]
      by (simp add: acl_permission_check_def Let_def generic_check_acl_def get_cached_acl_def)
    then show ?thesis unfolding e permission_valid [OF v] .
  qed
qed

section \<open>chown\<close>

lemma kill_suid_flags:
  "flag (ia_valid (kill_suid inode attr)) ATTR_MODE \<longleftrightarrow> flag (ia_valid attr) ATTR_MODE \<or> flag (ia_valid attr) ATTR_KILL_SUID \<and> flag (i_mode inode) S_ISUID"
  "f AND ATTR_MODE = 0 \<Longrightarrow> flag (ia_valid (kill_suid inode attr)) f = flag (ia_valid attr) f"
  by (auto simp: kill_suid_def flag_or) (simp_all add: flag_def and.commute)

lemma kill_sgid_flags:
  "flag (ia_valid (kill_sgid inode attr)) ATTR_MODE \<longleftrightarrow> flag (ia_valid attr) ATTR_MODE \<or>
     flag (ia_valid attr) ATTR_KILL_SGID \<and> i_mode inode AND (S_ISGID OR S_IXGRP) = S_ISGID OR S_IXGRP"
  "f AND ATTR_MODE = 0 \<Longrightarrow> flag (ia_valid (kill_sgid inode attr)) f = flag (ia_valid attr) f"
  by (auto simp: kill_sgid_def flag_or Let_def) (simp_all add: flag_def and.commute)

lemma kill_ids: "ia_uid (kill_sgid inode (kill_suid inode attr)) = ia_uid attr" "ia_gid (kill_sgid inode (kill_suid inode attr)) = ia_gid attr"
  by (simp_all add: kill_sgid_def kill_suid_def Let_def)

text \<open>The mode that a change with both requests sets, or leaves.\<close>

definition no_setid :: "u16 \<Rightarrow> bool" where
  "no_setid m \<longleftrightarrow> \<not> flag m S_ISUID \<and> \<not> (flag m S_ISGID \<and> flag m S_IXGRP)"

lemma flag_bits: "flag m S_ISUID \<longleftrightarrow> bit m 11" "flag m S_ISGID \<longleftrightarrow> bit m 10" "flag m S_IXGRP \<longleftrightarrow> bit (m :: u16) 3"
proof -
  have e: "flag m (push_bit k 1) \<longleftrightarrow> bit m k" if "k < 16" for k
    using that unfolding flag_def bit_eq_iff by (auto simp: bit_simps)
  show "flag m S_ISUID \<longleftrightarrow> bit m 11" "flag m S_ISGID \<longleftrightarrow> bit m 10" "flag m S_IXGRP \<longleftrightarrow> bit m 3"
    using e [of 11] e [of 10] e [of 3] by simp_all
qed

lemma sgid_exec: "m AND (S_ISGID OR S_IXGRP) = S_ISGID OR S_IXGRP \<longleftrightarrow> bit m 10 \<and> bit (m :: u16) 3"
proof -
  have "S_ISGID OR S_IXGRP = push_bit 10 1 OR push_bit 3 (1 :: u16)" by simp
  then show ?thesis unfolding bit_eq_iff
    by (auto simp: bit_simps simp del: push_bit_of_1 dest: spec [of _ 10] spec [of _ 3])
qed

lemma kill_mode:
  assumes "flag (ia_valid attr) ATTR_KILL_SUID" "flag (ia_valid attr) ATTR_KILL_SGID" "\<not> flag (ia_valid attr) ATTR_MODE"
    "attr' = kill_sgid inode (kill_suid inode attr)"
  shows "if flag (ia_valid attr') ATTR_MODE then no_setid (ia_mode attr') else no_setid (i_mode inode)"
proof -
  have k: "flag (ia_valid (kill_suid inode attr)) ATTR_KILL_SGID" by (subst kill_suid_flags(2)) (simp_all add: assms(2))
  have b: "bit (m AND NOT S_ISUID) n \<longleftrightarrow> bit m n \<and> n \<noteq> 11" "bit (m AND NOT S_ISGID) n \<longleftrightarrow> bit m n \<and> n \<noteq> 10"
    if "n < 16" for m :: u16 and n
  proof -
    have "S_ISUID = push_bit 11 1" "S_ISGID = push_bit 10 (1 :: u16)" by simp_all
    then show "bit (m AND NOT S_ISUID) n \<longleftrightarrow> bit m n \<and> n \<noteq> 11" "bit (m AND NOT S_ISGID) n \<longleftrightarrow> bit m n \<and> n \<noteq> 10"
      using that by (auto simp only: bit_simps) (auto simp: bit_simps simp del: push_bit_of_1)
  qed
  have "flag (1 :: u32) 1" by (simp add: flag_def)
  then show ?thesis
    unfolding assms(4) kill_sgid_flags(1) kill_suid_flags(1) no_setid_def flag_bits
    using assms(1-3) k by (auto simp: kill_sgid_def kill_suid_def Let_def sgid_exec [simplified] flag_bits b [simplified] flag_or)
qed

lemma change_ok_mode: "inode_change_ok c inode attr = (r, attr') \<Longrightarrow> no_setid (ia_mode attr) \<Longrightarrow> no_setid (ia_mode attr')"
  using change_ok_attr(3) [of c inode attr r attr'] by (auto simp: no_setid_def flag_def and.assoc)

lemma setattr_mode: "i_mode (generic_setattr env inode attr) =
    (if flag (ia_valid attr) ATTR_MODE
     then (if \<not> in_group_p (current env) (i_gid (generic_setattr env inode attr)) \<and> \<not> capable (current env) CAP_FSETID
           then ia_mode attr AND NOT S_ISGID else ia_mode attr)
     else i_mode inode)"
  "i_uid (generic_setattr env inode attr) = (if flag (ia_valid attr) ATTR_UID then ia_uid attr else i_uid inode)"
  "i_gid (generic_setattr env inode attr) = (if flag (ia_valid attr) ATTR_GID then ia_gid attr else i_gid inode)"
  by (simp_all add: generic_setattr_def Let_def)

lemma no_setid_clear: "no_setid m \<Longrightarrow> no_setid (m AND NOT S_ISGID)"
  by (auto simp: no_setid_def flag_def and.assoc)

lemma acl_chmod_keeps: "i_mode (snd (generic_acl_chmod env inode)) = i_mode inode" "i_uid (snd (generic_acl_chmod env inode)) = i_uid inode"
  "i_gid (snd (generic_acl_chmod env inode)) = i_gid inode"
  by (simp_all add: generic_acl_chmod_def set_cached_acl_def split: option.splits prod.splits)

text \<open>A successful change of attributes other than the size: the check has passed, and mode and owners are those
  of \<open>generic_setattr\<close>.\<close>

lemma set_attributes_ok:
  assumes "\<not> flag (ia_valid attr) ATTR_SIZE" "set_attributes env inode attr = (0, inode')"
  obtains attr' where "inode_change_ok (current env) inode attr = (0, attr')"
    "i_mode inode' = i_mode (generic_setattr env inode attr')" "i_uid inode' = i_uid (generic_setattr env inode attr')"
    "i_gid inode' = i_gid (generic_setattr env inode attr')"
proof -
  obtain r attr' where c: "inode_change_ok (current env) inode attr = (r, attr')" by fastforce
  have z: "\<not> flag (ia_valid attr') ATTR_SIZE" using change_ok_attr(1) [OF c] assms(1) by simp
  have "r = 0 \<and> (inode' = generic_setattr env inode attr' \<or> inode' = snd (generic_acl_chmod env (generic_setattr env inode attr')))"
  proof (cases "S_ISLNK (i_mode inode)")
    case True
    then show ?thesis using assms c z
      by (auto simp: set_attributes_def shmem_operations_def inode_setattr_def split: if_splits)
  next
    case False
    then show ?thesis using assms c z
      by (auto simp: set_attributes_def shmem_operations_def shmem_notify_change_def Let_def split: if_splits)
  qed
  then show ?thesis using that [of attr'] c acl_chmod_keeps by auto
qed

lemma change_set:
  assumes "\<not> flag (ia_valid attr) ATTR_MODE" "flag (ia_valid attr) ATTR_CTIME"
  obtains r where "r \<noteq> 0" "change env inode attr = Ok (r, inode)"
  | attr' where "change env inode attr = Ok (set_attributes env inode (kill_sgid inode (kill_suid inode attr')))"
      "\<And>f. ATTR_KILL_PRIV AND f = 0 \<Longrightarrow> flag (ia_valid attr') f = flag (ia_valid attr) f"
      "ia_uid attr' = ia_uid attr" "ia_gid attr' = ia_gid attr"
proof -
  let ?now = "current_fs_time env (i_sb inode)"
  let ?attr = "attr\<lparr>ia_ctime := ?now, ia_atime := (if flag (ia_valid attr) ATTR_ATIME_SET then ia_atime attr else ?now),
     ia_mtime := (if flag (ia_valid attr) ATTR_MTIME_SET then ia_mtime attr else ?now)\<rparr>"
  show ?thesis
  proof (cases "flag (ia_valid attr) (ATTR_MODE OR ATTR_UID OR ATTR_GID OR ATTR_TIMES_SET) \<and> (IS_IMMUTABLE inode \<or> IS_APPEND inode)")
    case True
    then show ?thesis using that(1) [of "- EPERM"] unfolding change_def notify_change_def Let_def if_P [OF True] by simp
  next
    case False
    note n = if_not_P [OF False]
    show ?thesis
    proof (cases "kill_priv env ?attr")
      case (Inl e)
      then have "e \<noteq> 0" unfolding kill_priv_def Let_def by (elim if_eqE) auto
      then show ?thesis using that(1) [of e] unfolding change_def notify_change_def Let_def n Inl by simp
    next
      case (Inr a)
      from Inr have a: "a = ?attr \<or> a = ?attr\<lparr>ia_valid := ia_valid attr AND NOT ATTR_KILL_PRIV\<rparr>"
        unfolding kill_priv_def Let_def by (elim if_eqE) simp_all
      then have fl: "flag (ia_valid a) f = flag (ia_valid attr) f" if "ATTR_KILL_PRIV AND f = 0" for f
        using flag_and_not [OF that, of "ia_valid attr"] by (elim disjE) simp_all
      have m: "\<not> flag (ia_valid a) ATTR_MODE" using fl [of ATTR_MODE] assms(1) by simp
      let ?k = "kill_sgid inode (kill_suid inode a)"
      have "flag (ia_valid ?k) ATTR_CTIME"
        using fl [of ATTR_CTIME] assms(2) kill_sgid_flags(2) [of ATTR_CTIME] kill_suid_flags(2) [of ATTR_CTIME] by simp
      then have "\<not> ia_valid ?k AND NOT (ATTR_KILL_SUID OR ATTR_KILL_SGID) = 0"
        using flag_and_not [of "ATTR_KILL_SUID OR ATTR_KILL_SGID" ATTR_CTIME "ia_valid ?k"] by (auto simp: flag_def)
      then have "change env inode attr = Ok (set_attributes env inode ?k)"
        unfolding change_def notify_change_def Let_def n Inr sum.case set_attributes_def using m by simp
      then show ?thesis using that(2) [of a] fl a by auto
    qed
  qed
qed

lemma change_ok_owner:
  assumes "inode_change_ok c inode attr = (0, attr')" "\<not> flag (ia_valid attr) ATTR_FORCE" "\<not> capable c CAP_CHOWN"
  shows "flag (ia_valid attr) ATTR_UID \<Longrightarrow> ia_uid attr' = i_uid inode"
    "flag (ia_valid attr) ATTR_GID \<Longrightarrow> ia_gid attr' = i_gid inode \<or> fsuid c = i_uid inode \<and> in_group_p c (ia_gid attr')"
  using assms by (auto simp: inode_change_ok_def Let_def split: if_splits)

section \<open>chmod\<close>

lemma low_type: "((mode AND S_IALLUGO) OR (m AND NOT S_IALLUGO)) AND 0x1FF = mode AND (0x1FF :: u16)"
  "((m AND NOT S_ISGID) AND 0x1FF) = m AND (0x1FF :: u16)"
proof -
  show "((mode AND S_IALLUGO) OR (m AND NOT S_IALLUGO)) AND 0x1FF = mode AND (0x1FF :: u16)"
    unfolding type_masks mode_masks by (rule bit_word_eqI) (auto simp: bit_simps)
qed (simp add: and.assoc)

lemma equiv_mode_unique:
  assumes "posix_acl_valid a = 0" "posix_acl_equiv_mode a m = (1, m)" "posix_acl_equiv_mode a k = (1, k)"
  shows "m AND 0x1FF = k AND 0x1FF"
proof -
  obtain uo us go gs mk ot where a: "a = acl_of uo us go gs mk ot" "acl_shape uo us go gs mk ot"
    using assms(1) unfolding posix_acl_valid_iff by blast
  note s = shape_small [OF a(2)]
  have e: "x AND 0x1FF = mode_bits (e_perm uo) (e_perm (group_class mk go)) (e_perm ot)" if "posix_acl_equiv_mode a x = (1, x)" for x
    using mode_bits_low(2) [OF s(1,4,3), of x] that unfolding a(1) equiv_mode_shape [OF a(2)] by simp
  show ?thesis using e [OF assms(2)] e [OF assms(3)] by simp
qed

section \<open>Lists as extended attributes\<close>

lemma valid_tags:
  assumes "posix_acl_valid a = 0"
  shows "e_tag ` set a \<subseteq> known_tags" "a \<noteq> []"
proof -
  obtain uo us go gs mk ot where a: "a = acl_of uo us go gs mk ot" "acl_shape uo us go gs mk ot"
    using assms unfolding posix_acl_valid_iff by blast
  show "e_tag ` set a \<subseteq> known_tags"
    using shape_tags [OF a(2)] unfolding a(1) acl_of_def known_tags_def by (cases mk) auto
  show "a \<noteq> []" unfolding a(1) acl_of_def by simp
qed

lemma resolve_access: "xattr_resolve_name shmem_xattr_handlers ''system.posix_acl_access'' = Some (Acl_handler ACL_TYPE_ACCESS, [])"
  by (simp add: shmem_xattr_handlers_def)

lemma mode_bits_entry:
  assumes "small u" "small g" "small r"
  shows "drop_bit 6 ((m AND NOT 0x1FF OR mode_bits u g r) AND S_IRWXU) = u" "drop_bit 3 ((m AND NOT 0x1FF OR mode_bits u g r) AND S_IRWXG) = g"
    "(m AND NOT 0x1FF OR mode_bits u g r) AND S_IRWXO = r"
  unfolding mode_masks mode_bits_def by (rule bit_word_eqI; use assms in \<open>auto simp: bit_simps small_def\<close>)+

lemma minimal_effective:
  assumes "posix_acl_valid a = 0" "map strip_id a = a" "posix_acl_equiv_mode a m = (0, m')" "i_acl inode = None" "i_mode inode = m'"
  shows "effective_acl inode = a"
proof -
  obtain uo us go gs mk ot where a: "a = acl_of uo us go gs mk ot" "acl_shape uo us go gs mk ot"
    using assms(1) unfolding posix_acl_valid_iff by blast
  note s = shape_small [OF a(2)] and t = shape_tags [OF a(2)]
  have mk: "mk = None" and m': "m' = (m AND NOT 0x1FF) OR mode_bits (e_perm uo) (e_perm (group_class mk go)) (e_perm ot)"
    using assms(3) unfolding a(1) equiv_mode_shape [OF a(2)] by (cases mk; simp)+
  have n: "us = []" "gs = []" using a(2) mk by (simp_all add: acl_shape_def)
  have "e_id uo = - 1" "e_id go = - 1" "e_id ot = - 1"
    using assms(2) t(1-3) unfolding a(1) by (auto simp: acl_of_def mk n strip_id_def dest: arg_cong [of _ _ e_id])
  moreover have "group_class mk go = go" by (simp add: mk group_class_def)
  ultimately show ?thesis
    using t(1-3) unfolding effective_acl_def assms(4,5) option.case posix_acl_from_mode_def m' a(1)
    using mode_bits_entry [OF s(1,2,3), of m] by (simp add: acl_of_def mk n)
qed

section \<open>Creation\<close>

lemma init_owner:
  "i_uid (inode_init_owner env new dir mode) = fsuid (current env)"
  "i_mode (inode_init_owner env new dir mode) AND 0x1FF = mode AND 0x1FF"
  "i_mode (inode_init_owner env new dir mode) AND S_IFMT = mode AND S_IFMT"
proof -
  have "(m OR S_ISGID) AND 0x1FF = m AND 0x1FF" "(m OR S_ISGID) AND S_IFMT = m AND (S_IFMT :: u16)" for m
    by (simp_all add: bit.conj_disj_distrib2)
  then show "i_uid (inode_init_owner env new dir mode) = fsuid (current env)"
    "i_mode (inode_init_owner env new dir mode) AND 0x1FF = mode AND 0x1FF"
    "i_mode (inode_init_owner env new dir mode) AND S_IFMT = mode AND S_IFMT"
    by (simp_all add: inode_init_owner_def Let_def)
qed

lemma acl_init_bounded:
  assumes "acl_valid dir" "ve_umask env AND NOT 0x1FF = 0" "generic_acl_init env inode dir = (0, node)"
  shows "i_uid node = i_uid inode" "i_mode node AND i_mode inode = i_mode node" "i_mode node AND NOT 0x1FF = i_mode inode AND NOT 0x1FF"
    "get_cached_acl dir ACL_TYPE_DEFAULT = None \<Longrightarrow> i_mode node AND ve_umask env = 0"
proof -
  let ?u = "i_mode inode AND NOT (ve_umask env)"
  have u: "?u AND i_mode inode = ?u" "?u AND NOT 0x1FF = i_mode inode AND NOT 0x1FF" "?u AND ve_umask env = 0"
    using umask_type [OF assms(2), of "i_mode inode"] by (auto simp: bit_eq_iff bit_simps)
  have c: "m' AND i_mode inode = m' \<and> m' AND NOT 0x1FF = i_mode inode AND NOT 0x1FF"
    if "get_cached_acl dir ACL_TYPE_DEFAULT = Some a" "posix_acl_create_masq a (i_mode inode) = (r, a', m')" for a r a' m'
    using create_valid [OF acl_valid_default [OF assms(1) that(1)], of "i_mode inode"] that(2) by (metis prod.inject)
  have "i_uid node = i_uid inode \<and> i_mode node AND i_mode inode = i_mode node \<and> i_mode node AND NOT 0x1FF = i_mode inode AND NOT 0x1FF \<and>
    (get_cached_acl dir ACL_TYPE_DEFAULT = None \<longrightarrow> i_mode node AND ve_umask env = 0)"
    using assms(3) u c unfolding generic_acl_init_def Let_def set_cached_acl_def
    by (auto split: if_splits option.splits prod.splits simp: posix_acl_clone_def)
  then show "i_uid node = i_uid inode" "i_mode node AND i_mode inode = i_mode node" "i_mode node AND NOT 0x1FF = i_mode inode AND NOT 0x1FF"
    "get_cached_acl dir ACL_TYPE_DEFAULT = None \<Longrightarrow> i_mode node AND ve_umask env = 0" by simp_all
qed

lemma and_low_mono:
  assumes "a AND b = a" "b AND k = m AND k"
  shows "(a AND k) AND m = a AND (k :: u16)"
proof (rule bit_word_eqI)
  fix n
  have "bit (a AND b) n = bit a n" "bit (b AND k) n = bit (m AND k) n" using assms by simp_all
  then show "bit ((a AND k) AND m) n \<longleftrightarrow> bit (a AND k) n" by (auto simp: bit_simps)
qed

end
