(* ===== verification/InodeProps.thy ===== *)
theory InodeProps
  imports InodeEffect
begin

text \<open>
  The properties of inodes and their access control lists, with an example: a directory of user 1000 whose list has
  an entry for user 1001.
\<close>

section \<open>An example\<close>

definition ex_user :: "u32 \<Rightarrow> cred" where
  "ex_user n = \<lparr>uid = n, gid = n, suid = n, sgid = n, euid = n, egid = n, fsuid = n, fsgid = n, securebits = 0,
     cap_inheritable = CAP_EMPTY_SET, cap_permitted = CAP_EMPTY_SET, cap_effective = CAP_EMPTY_SET, cap_bset = CAP_FULL_SET,
     user = n, groups = \<lparr>ngroups = 0, blocks = [[]]\<rparr>\<rparr>"

definition ex_time :: timespec where
  "ex_time = \<lparr>tv_sec = 5, tv_nsec = 0\<rparr>"

definition ex_fs_env :: "u32 \<Rightarrow> bool \<Rightarrow> vfs_env" where
  "ex_fs_env n mem = \<lparr>current = ex_user n, ve_mem = (\<lambda>_. mem), ve_inode = True, ve_umask = 0x12, ve_now = ex_time, ve_tick = 10000000,
     ve_fsize = - 1, ve_need_killpriv = 0, ve_killpriv = 0, ve_devcgroup = 0\<rparr>"

definition ex_node :: "u16 \<Rightarrow> posix_acl option \<Rightarrow> inode" where
  "ex_node m a = \<lparr>i_mode = m, i_uid = 1000, i_gid = 1000, i_flags = 0, i_size = 0, i_atime = ex_time, i_mtime = ex_time, i_ctime = ex_time,
     i_acl = a, i_default_acl = None, i_sb = \<lparr>s_flags = 0x10000, s_time_gran = 1, s_maxbytes = 1000000\<rparr>\<rparr>"

definition ex_list :: "u16 \<Rightarrow> posix_acl" where
  "ex_list m = [\<lparr>e_tag = 1, e_perm = 7, e_id = - 1\<rparr>, \<lparr>e_tag = 2, e_perm = 4, e_id = 1001\<rparr>, \<lparr>e_tag = 4, e_perm = 5, e_id = - 1\<rparr>,
     \<lparr>e_tag = 0x10, e_perm = m, e_id = - 1\<rparr>, \<lparr>e_tag = 0x20, e_perm = 4, e_id = - 1\<rparr>]"

definition ex_attr :: iattr where
  "ex_attr = \<lparr>ia_valid = 0, ia_mode = 0, ia_uid = 0, ia_gid = 0, ia_size = 0, ia_atime = ex_time, ia_mtime = ex_time, ia_ctime = ex_time\<rparr>"

definition ex_set :: "int \<times> inode" where
  "ex_set = vfs_setxattr (ex_fs_env 1000 True) (ex_node 0x41ED None) ''system.posix_acl_access'' (snd (posix_acl_to_xattr (ex_list 5) (Some 100)))"

lemma ex_list_ok: "acl_ok (ex_node 0x81C4 (Some (ex_list 0)))"
proof -
  have "posix_acl_valid (ex_list 0) = 0" "posix_acl_equiv_mode (ex_list 0) 0x81C4 = (1, 0x81C4)" "\<not> S_ISLNK 0x81C4" by code_simp+
  then show ?thesis by (simp add: acl_ok_def ex_node_def)
qed

lemma ex_step: "tmpfs_step ([0 \<mapsto> ex_node 0x41ED None], {}) ([0 \<mapsto> snd ex_set], {})"
  using fs_setxattr [of "[0 \<mapsto> ex_node 0x41ED None]" 0 "ex_node 0x41ED None", OF _ prod.collapse [symmetric]]
  unfolding ex_set_def by fastforce

lemma ex_init: "tmpfs_init ([0 \<mapsto> ex_node 0x41ED None], {})"
  unfolding tmpfs_init_def by (rule exI [of _ "ex_node 0x41ED None"]) (simp add: ex_node_def)

section \<open>Well-formed inodes\<close>

text \<open>C17. Every inode of a reachable tmpfs is well formed, after any sequence of calls by tasks with any credentials
  and whatever allocations fail: its lists are valid, an access list is not one the mode could express, and only
  directories have a default list. The access list also has the owner, group class and other permissions of the mode,
  unless a call on the inode has failed with \<open>-ENOMEM\<close> since the last \<open>chmod\<close> of it that succeeded.\<close>

theorem tmpfs_inodes_ok:
  assumes "tmpfs_init s" "tmpfs_step\<^sup>*\<^sup>* s (fs, torn)" "fs i = Some inode"
  shows "acl_valid inode \<and> (i \<notin> torn \<longrightarrow> acl_ok inode)"
  using tmpfs_sys.reachable_inv [OF assms(1,2)] assms(3) by (simp add: tmpfs_inv_def)

theorem tmpfs_inodes_ok_witness: "acl_ok (snd ex_set) \<and> i_acl (snd ex_set) \<noteq> None"
proof -
  have "tmpfs_step\<^sup>*\<^sup>* ([0 \<mapsto> ex_node 0x41ED None], {}) ([0 \<mapsto> snd ex_set], {})" by (rule r_into_rtranclp) (rule ex_step)
  then have "acl_ok (snd ex_set)" using tmpfs_inodes_ok [OF ex_init, of "[0 \<mapsto> snd ex_set]" "{}" 0 "snd ex_set"] by simp
  moreover have "i_acl (snd ex_set) \<noteq> None" by code_simp
  ultimately show ?thesis ..
qed

section \<open>Permission\<close>

text \<open>C15. On every inode of a reachable tmpfs, with the option for lists, the check of the VFS grants exactly what
  the access check algorithm of POSIX 1003.1e grants on the list of the inode (or the list its mode stands for) or what
  the capabilities override, with two exceptions: for others than the owner, an inode that has a list and no bit of
  the group class; and for the owner, an inode on which a call has failed with \<open>-ENOMEM\<close> since the last \<open>chmod\<close> of it
  that succeeded.\<close>

theorem tmpfs_permission:
  assumes "tmpfs_init s" "tmpfs_step\<^sup>*\<^sup>* s (fs, torn)" "fs i = Some inode" "IS_POSIXACL inode"
    "i_acl inode = None \<or> flag (i_mode inode) S_IRWXG \<or> fsuid c = i_uid inode" "i \<notin> torn \<or> fsuid c \<noteq> i_uid inode"
  shows "generic_permission c inode want (Some (generic_check_acl c)) =
    (if acl_grants c (i_uid inode) (i_gid inode) (effective_acl inode) (want AND 7) \<or> dac_override c inode want then 0 else - EACCES)"
proof -
  have v: "acl_valid inode" "acl_ok inode \<or> fsuid c \<noteq> i_uid inode"
    using tmpfs_sys.reachable_inv [OF assms(1,2)] assms(3,6) by (auto simp: tmpfs_inv_def)
  then show ?thesis
    unfolding generic_permission_def Let_def check_agrees [OF v(1) assms(4,5) v(2)] dac_override_def by auto
qed

theorem tmpfs_permission_witness:
  "tmpfs_step ([0 \<mapsto> ex_node 0x41ED None], {}) ([0 \<mapsto> snd ex_set], {}) \<and>
    generic_permission (ex_user 1001) (snd ex_set) MAY_READ (Some (generic_check_acl (ex_user 1001))) = 0"
proof -
  have p: "IS_POSIXACL (snd ex_set)" "flag (i_mode (snd ex_set)) S_IRWXG" by code_simp+
  have g: "acl_grants (ex_user 1001) (i_uid (snd ex_set)) (i_gid (snd ex_set)) (effective_acl (snd ex_set)) (MAY_READ AND 7)" by code_simp
  have "[0 \<mapsto> snd ex_set] 0 = Some (snd ex_set)" by simp
  moreover have st: "tmpfs_step\<^sup>*\<^sup>* ([0 \<mapsto> ex_node 0x41ED None], {}) ([0 \<mapsto> snd ex_set], {})" by (rule r_into_rtranclp) (rule ex_step)
  ultimately show ?thesis using tmpfs_permission [OF ex_init st _ p(1) disjI2 [OF disjI1 [OF p(2)]], of 0 "ex_user 1001" MAY_READ] ex_step g by simp
qed

text \<open>C28. On a list that \<open>posix_acl_valid\<close> accepts, the single pass of \<open>posix_acl_permission\<close> never ends in
  \<open>-EIO\<close> and gives the answer of the algorithm of POSIX 1003.1e over the set of entries.\<close>

theorem acl_check_posix:
  assumes "posix_acl_valid acl = 0"
  shows "posix_acl_permission c iuid igid acl want = (if acl_grants c iuid igid acl want then 0 else - EACCES)"
  by (rule permission_valid [OF assms])

theorem acl_check_posix_witness: "posix_acl_permission (ex_user 1001) 1000 1000 (ex_list 5) MAY_READ = 0"
proof -
  have "posix_acl_valid (ex_list 5) = 0" "acl_grants (ex_user 1001) 1000 1000 (ex_list 5) MAY_READ" by code_simp+
  then show ?thesis using acl_check_posix [of "ex_list 5" "ex_user 1001" 1000 1000 MAY_READ] by simp
qed

section \<open>Attributes and creation\<close>

text \<open>C29. A change of owner always returns, without reaching the \<open>BUG\<close> of \<open>notify_change\<close>. When it succeeds, a file that is
  not a directory has lost its set-user-id bit and a set-group-id bit with group execution; and without
  \<open>CAP_CHOWN\<close> the owner is the same, and a new group is one of the groups of the owner.\<close>

theorem chown_restricted:
  "\<exists>r inode'. chown_common env attr inode usr grp = Ok (r, inode') \<and>
    (r = 0 \<longrightarrow>
      (\<not> S_ISDIR (i_mode inode) \<longrightarrow> no_setid (i_mode inode')) \<and>
      (\<not> capable (current env) CAP_CHOWN \<longrightarrow> i_uid inode' = i_uid inode \<and>
        (i_gid inode' = i_gid inode \<or> fsuid (current env) = i_uid inode \<and> in_group_p (current env) (i_gid inode'))))"
proof -
  let ?a = "chown_attr attr inode usr grp"
  note cf = chown_flags [of attr inode usr grp]
  show ?thesis
  proof (cases rule: change_set [where env = env and inode = inode, OF cf(1) cf(8)])
    case (1 r)
    then show ?thesis by (auto simp: chown_common_def)
  next
    case (2 a)
    let ?k = "kill_sgid inode (kill_suid inode a)"
    obtain r inode' where s: "set_attributes env inode ?k = (r, inode')" by fastforce
    have "(\<not> S_ISDIR (i_mode inode) \<longrightarrow> no_setid (i_mode inode')) \<and>
      (\<not> capable (current env) CAP_CHOWN \<longrightarrow> i_uid inode' = i_uid inode \<and>
        (i_gid inode' = i_gid inode \<or> fsuid (current env) = i_uid inode \<and> in_group_p (current env) (i_gid inode')))" if r: "r = 0"
    proof -
      have fk: "flag (ia_valid ?k) f = flag (ia_valid ?a) f" if "f AND ATTR_MODE = 0" "ATTR_KILL_PRIV AND f = 0" for f
        using kill_sgid_flags(2) [OF that(1)] kill_suid_flags(2) [OF that(1)] 2(2) [OF that(2)] by simp
      have z: "\<not> flag (ia_valid ?k) ATTR_SIZE" "\<not> flag (ia_valid ?k) ATTR_FORCE"
        using fk [of ATTR_SIZE] fk [of ATTR_FORCE] cf(2,3) by simp_all
      obtain attr' where c: "inode_change_ok (current env) inode ?k = (0, attr')"
        "i_mode inode' = i_mode (generic_setattr env inode attr')" "i_uid inode' = i_uid (generic_setattr env inode attr')"
        "i_gid inode' = i_gid (generic_setattr env inode attr')"
        using set_attributes_ok [OF z(1) s [unfolded r]] by metis
      note v = change_ok_attr(1) [OF c(1)]
      have "no_setid (i_mode inode')" if d: "\<not> S_ISDIR (i_mode inode)"
      proof -
        have "flag (ia_valid a) ATTR_KILL_SUID" "flag (ia_valid a) ATTR_KILL_SGID" "\<not> flag (ia_valid a) ATTR_MODE"
          using 2(2) [of ATTR_KILL_SUID] 2(2) [of ATTR_KILL_SGID] 2(2) [of ATTR_MODE] cf(1,6,7) d by simp_all
        from kill_mode [OF this refl] show ?thesis
          unfolding c(2) setattr_mode(1) v using change_ok_mode [OF c(1)] no_setid_clear by (auto split: if_splits)
      qed
      moreover have "i_uid inode' = i_uid inode \<and>
          (i_gid inode' = i_gid inode \<or> fsuid (current env) = i_uid inode \<and> in_group_p (current env) (i_gid inode'))"
        if "\<not> capable (current env) CAP_CHOWN"
        using change_ok_owner [OF c(1) z(2) that] unfolding c(3,4) setattr_mode(2,3) v by auto
      ultimately show ?thesis by blast
    qed
    then show ?thesis using 2(1) s by (auto simp: chown_common_def)
  qed
qed

theorem chown_restricted_witness:
  "\<exists>inode'. chown_common (ex_fs_env 1000 True) ex_attr (ex_node 0x89ED None) (- 1) 1000 = Ok (0, inode') \<and> no_setid (i_mode inode')"
proof -
  let ?c = "chown_common (ex_fs_env 1000 True) ex_attr (ex_node 0x89ED None) (- 1) 1000"
  have "(case ?c of Ok (r, i) \<Rightarrow> r = 0 | Fault \<Rightarrow> False)" "\<not> S_ISDIR (i_mode (ex_node 0x89ED None))" by code_simp+
  with chown_restricted [of "ex_fs_env 1000 True" ex_attr "ex_node 0x89ED None" "- 1" 1000] show ?thesis by auto
qed

text \<open>C30. Storing a valid access list as an extended attribute and reading it back gives the same bytes; where the
  mode can express the list, nothing is stored and the mode stands for exactly that list.\<close>

theorem acl_set_get:
  assumes "posix_acl_valid a = 0" "map strip_id a = a" "length a < 2 ^ 28" "4 + length a * 8 \<le> unat sz"
    "posix_acl_to_xattr a (Some sz) = (n, bs)" "vfs_setxattr env inode ''system.posix_acl_access'' bs = (0, inode')"
  shows "effective_acl inode' = a \<and>
    (i_acl inode' \<noteq> None \<longrightarrow> generic_getxattr inode' ''system.posix_acl_access'' (Some sz) = (n, bs))"
proof -
  have rt: "posix_acl_from_xattr True (Some bs) = Inr (Some a)"
    using xattr_round_trip [OF valid_tags [OF assms(1)] assms(3,4)] assms(2,5) by auto
  have g: "generic_acl_set env inode [] (Some bs) ACL_TYPE_ACCESS = (0, inode')"
    using assms(6) unfolding vfs_setxattr_def Let_def generic_setxattr_def resolve_access by (auto split: if_splits)
  have m: "posix_acl_from_xattr (ve_mem env 0) (Some bs) = Inr (Some a)"
  proof (cases "ve_mem env 0")
    case False
    then have "posix_acl_from_xattr False (Some bs) = Inl (- ENOMEM)"
      using rt unfolding posix_acl_from_xattr_def Let_def by (auto split: if_splits option.splits)
    then show ?thesis using g False by (auto simp: generic_acl_set_def split: if_splits)
  qed (simp add: rt)
  obtain r m' where e: "posix_acl_equiv_mode a (i_mode inode) = (r, m')" by fastforce
  note q = equiv_mode_valid(1) [OF assms(1) e]
  have i: "inode' = inode\<lparr>i_mode := m', i_acl := if r = 0 then None else Some a\<rparr>"
    using g m q assms(1) by (auto simp: generic_acl_set_def acl_set_type_def e set_cached_acl_def split: if_splits)
  show ?thesis
  proof (cases "r = 0")
    case True
    then show ?thesis using minimal_effective [OF assms(1,2), of "i_mode inode" m' inode'] e by (simp add: i)
  next
    case False
    then show ?thesis
      using assms(5) by (simp add: i effective_acl_def generic_getxattr_def resolve_access generic_acl_get_def get_cached_acl_def)
  qed
qed

theorem acl_set_get_witness: "effective_acl (snd ex_set) = ex_list 5"
proof -
  have "posix_acl_valid (ex_list 5) = 0" "map strip_id (ex_list 5) = ex_list 5" by code_simp+
  moreover have "length (ex_list 5) < 2 ^ 28" "4 + length (ex_list 5) * 8 \<le> unat (100 :: u32)" by (simp_all add: ex_list_def)
  moreover have "fst ex_set = 0" by code_simp
  then have "vfs_setxattr (ex_fs_env 1000 True) (ex_node 0x41ED None) ''system.posix_acl_access''
      (snd (posix_acl_to_xattr (ex_list 5) (Some 100))) = (0, snd ex_set)"
    unfolding ex_set_def by (metis prod.collapse)
  ultimately show ?thesis using acl_set_get [OF _ _ _ _ prod.collapse [symmetric]] by blast
qed

text \<open>C31. A new inode belongs to the file system user of its creator, has the type that was asked for, and no
  permission that was not asked for, whatever default list its directory has; without a default list the bits of the
  umask are clear.\<close>

theorem created_mode:
  assumes "acl_valid dir" "ve_umask env AND NOT S_IRWXUGO = 0" "shmem_mknod env new dir mode = (0, dir', Some node)"
  shows "i_uid node = fsuid (current env) \<and> i_mode node AND S_IFMT = mode AND S_IFMT \<and>
    (i_mode node AND S_IRWXUGO) AND mode = i_mode node AND S_IRWXUGO \<and>
    (i_default_acl dir = None \<longrightarrow> i_mode node AND ve_umask env = 0)"
proof -
  obtain inode where g: "shmem_get_inode env new dir mode = Some inode" "generic_acl_init env inode dir = (0, node)"
    using assms(3) by (auto simp: shmem_mknod_def split: option.splits if_splits prod.splits)
  have i: "i_uid inode = fsuid (current env)" "i_mode inode AND 0x1FF = mode AND 0x1FF" "i_mode inode AND S_IFMT = mode AND S_IFMT"
    using g(1) init_owner by (auto simp: shmem_get_inode_def cache_no_acl_def Let_def split: if_splits)
  note b = acl_init_bounded [OF assms(1,2) g(2)]
  have "i_mode node AND S_IFMT = mode AND S_IFMT" using type_of_high [OF b(3)] i(3) by simp
  moreover have "(i_mode node AND 0x1FF) AND mode = i_mode node AND 0x1FF"
    by (rule and_low_mono [OF b(2) i(2)])
  ultimately show ?thesis using b(1,4) i(1) by (simp add: get_cached_acl_def)
qed

theorem created_mode_witness:
  "\<exists>dir' node. shmem_mknod (ex_fs_env 1000 True) (ex_node 0 None) (ex_node 0x41ED None) 0x81B6 = (0, dir', Some node) \<and>
    i_mode node AND 0x12 = 0 \<and> i_uid node = 1000"
proof -
  let ?c = "shmem_mknod (ex_fs_env 1000 True) (ex_node 0 None) (ex_node 0x41ED None) 0x81B6"
  have "case ?c of (r, d, n) \<Rightarrow> r = 0 \<and> n \<noteq> None" by code_simp
  then obtain d n where c: "?c = (0, d, Some n)" by (cases ?c) auto
  have "acl_valid (ex_node 0x41ED None)" "i_default_acl (ex_node 0x41ED None) = None" by (simp_all add: acl_valid_def ex_node_def)
  moreover have "ve_umask (ex_fs_env 1000 True) AND NOT S_IRWXUGO = 0" "ve_umask (ex_fs_env 1000 True) = 0x12" "fsuid (current (ex_fs_env 1000 True)) = 1000"
    by code_simp+
  ultimately show ?thesis using created_mode [OF _ _ c] c by auto
qed

section \<open>Where code and list disagree\<close>

text \<open>C36. Where the mask entry is empty, so that the mode has no group bits, \<open>acl_permission_check\<close> does not look
  at the list: a user with an entry of their own, to whom the list denies all access because of the mask, gets what
  the mode grants to others.\<close>

theorem empty_mask_ignored:
  assumes "acl_ok inode" "IS_POSIXACL inode" "i_acl inode = Some a" "\<not> flag (i_mode inode) S_IRWXG"
    "fsuid c \<noteq> i_uid inode" "\<not> in_group_p c (i_gid inode)" "e \<in> set a" "e_tag e = ACL_USER" "e_id e = fsuid c"
    "want AND 7 \<noteq> 0" "(i_mode inode AND 7) AND (want AND 7) = want AND 7"
  shows "acl_permission_check c inode want (Some (generic_check_acl c)) = 0 \<and>
    posix_acl_permission c (i_uid inode) (i_gid inode) a (want AND 7) = - EACCES"
proof
  show "acl_permission_check c inode want (Some (generic_check_acl c)) = 0"
    unfolding acl_permission_check_def Let_def verdict_iff using assms by simp
  have v: "posix_acl_valid a = 0" "posix_acl_equiv_mode a (i_mode inode) = (1, i_mode inode)"
    using assms(1,3) by (simp_all add: acl_ok_def)
  obtain uo us go gs mk ot where a: "a = acl_of uo us go gs mk ot" "acl_shape uo us go gs mk ot"
    using v(1) unfolding posix_acl_valid_iff by blast
  note cl = coherent_classes [OF a(2) v(2) [unfolded a(1)]]
  obtain m where m: "mk = Some m" using cl(4) by blast
  have z: "drop_bit 3 (x AND 0x38) = drop_bit 3 x AND (7 :: u16)" for x
    unfolding mode_masks by (rule bit_word_eqI) (auto simp: bit_simps)
  have "e_perm m = 0" using cl(2) assms(4) z [of "i_mode inode"] by (simp add: m group_class_def flag_def)
  moreover have "\<exists>u \<in> set us. e_id u = fsuid c"
    using shape_ex(2) [OF a(2), of "\<lambda>u. e_id u = fsuid c"] assms(7-9) unfolding a(1) by blast
  ultimately have "\<not> acl_grants c (i_uid inode) (i_gid inode) a (want AND 7)"
    unfolding a(1) grants_shape [OF a(2)] using assms(5,10) m by simp
  then show "posix_acl_permission c (i_uid inode) (i_gid inode) a (want AND 7) = - EACCES"
    unfolding permission_valid [OF v(1)] by simp
qed

theorem empty_mask_ignored_witness:
  "acl_permission_check (ex_user 1001) (ex_node 0x81C4 (Some (ex_list 0))) MAY_READ (Some (generic_check_acl (ex_user 1001))) = 0 \<and>
   posix_acl_permission (ex_user 1001) 1000 1000 (ex_list 0) MAY_READ = - EACCES"
proof -
  let ?i = "ex_node 0x81C4 (Some (ex_list 0))" and ?e = "\<lparr>e_tag = 2, e_perm = 4, e_id = 1001\<rparr>"
  have "IS_POSIXACL ?i" "\<not> flag (i_mode ?i) S_IRWXG" "fsuid (ex_user 1001) \<noteq> i_uid ?i" "\<not> in_group_p (ex_user 1001) (i_gid ?i)"
    "?e \<in> set (ex_list 0)" "e_tag ?e = ACL_USER" "e_id ?e = fsuid (ex_user 1001)" "(MAY_READ :: u16) AND 7 \<noteq> 0"
    "(i_mode ?i AND 7) AND (MAY_READ AND 7) = MAY_READ AND 7" "i_uid ?i = 1000" "i_gid ?i = 1000" "i_acl ?i = Some (ex_list 0)" by code_simp+
  with empty_mask_ignored [of ?i "ex_list 0" "ex_user 1001" ?e MAY_READ] ex_list_ok show ?thesis by simp
qed

text \<open>C37. When the copy of the list cannot be allocated, \<open>chmod\<close> on tmpfs fails with \<open>-ENOMEM\<close> but has already
  changed the mode, and mode and list no longer agree.\<close>

theorem chmod_without_memory:
  assumes "acl_ok inode" "i_acl inode = Some a" "\<not> ve_mem env 0" "is_owner_or_cap (current env) inode"
    "\<not> IS_IMMUTABLE inode" "\<not> IS_APPEND inode" "mode \<noteq> - 1" "mode AND 0x1FF \<noteq> i_mode inode AND 0x1FF"
  shows "\<exists>inode'. chmod_inode env attr inode mode = Ok (- ENOMEM, inode') \<and> i_mode inode' AND 0x1FF = mode AND 0x1FF \<and>
    i_acl inode' = i_acl inode \<and> \<not> acl_ok inode'"
proof -
  let ?m = "(mode AND S_IALLUGO) OR (i_mode inode AND NOT S_IALLUGO)"
  let ?now = "current_fs_time env (i_sb inode)"
  let ?attr = "attr\<lparr>ia_mode := ?m, ia_valid := 0x41, ia_ctime := ?now, ia_atime := ?now, ia_mtime := ?now\<rparr>"
  have l: "\<not> S_ISLNK (i_mode inode)" using assms(1,2) by (simp add: acl_ok_def)
  have f: "flag (0x41 :: u32) 1" "\<not> flag (0x41 :: u32) 0x80" "\<not> flag (0x41 :: u32) 0x100" "\<not> flag (0x41 :: u32) 0x4000"
    "\<not> flag (0x41 :: u32) 0x1800" "\<not> flag (0x41 :: u32) 0x800" "\<not> flag (0x41 :: u32) 0x1000" "\<not> flag (0x41 :: u32) 8"
    "\<not> flag (0x41 :: u32) 0x200" "\<not> flag (0x41 :: u32) 2" "\<not> flag (0x41 :: u32) 4" "\<not> flag (0x41 :: u32) 0x10180"
    by (simp_all add: flag_def)
  have c: "chmod_inode env attr inode mode = Ok (shmem_notify_change env inode ?attr)"
    using assms(5-7) l unfolding chmod_inode_def change_def notify_change_def Let_def kill_priv_def kill_suid_def kill_sgid_def shmem_operations_def
    by (simp add: f)
  obtain attr' where a': "inode_change_ok (current env) inode ?attr = (0, attr')" "ia_valid attr' = 0x41" "ia_mode attr' AND 0x1FF = mode AND 0x1FF"
    using assms(4) low_type by (auto simp: inode_change_ok_def Let_def f)
  let ?i = "generic_setattr env inode attr'"
  have m: "i_mode ?i AND 0x1FF = mode AND 0x1FF" using a'(3) low_type(2) [of "ia_mode attr'"] by (simp add: setattr_mode(1) a'(2) f)
  have "i_mode ?i AND S_IFMT = i_mode inode AND S_IFMT"
    using change_ok_attr(2) [OF a'(1)] chmod_type [of mode "i_mode inode"] by (intro generic_setattr_type(1)) simp
  then have "\<not> S_ISLNK (i_mode ?i)" using type_tests(1) l by blast
  then have "generic_acl_chmod env ?i = (- ENOMEM, ?i)"
    using assms(2,3) by (simp add: generic_acl_chmod_def get_cached_acl_def generic_setattr_keeps posix_acl_clone_def)
  then have "shmem_notify_change env inode ?attr = (- ENOMEM, ?i)"
    using a'(1,2) by (simp add: shmem_notify_change_def f)
  moreover have "\<not> acl_ok ?i"
    using assms(1,2,8) m equiv_mode_unique [of a "i_mode ?i" "i_mode inode"] by (auto simp: acl_ok_def generic_setattr_keeps)
  ultimately show ?thesis using c m by (simp add: generic_setattr_keeps)
qed

theorem chmod_without_memory_witness:
  "\<exists>inode'. chmod_inode (ex_fs_env 1000 False) ex_attr (ex_node 0x81C4 (Some (ex_list 0))) 0x1B4 = Ok (- ENOMEM, inode') \<and> \<not> acl_ok inode'"
proof -
  let ?i = "ex_node 0x81C4 (Some (ex_list 0))" and ?env = "ex_fs_env 1000 False"
  have "i_acl ?i = Some (ex_list 0)" "\<not> ve_mem ?env 0" "is_owner_or_cap (current ?env) ?i" "\<not> IS_IMMUTABLE ?i" "\<not> IS_APPEND ?i"
    "(0x1B4 :: u16) \<noteq> - 1" "0x1B4 AND 0x1FF \<noteq> i_mode ?i AND 0x1FF" by code_simp+
  from chmod_without_memory [OF ex_list_ok this, of ex_attr] show ?thesis by blast
qed

end
