(* ===== verification/FileLock.thy ===== *)
theory FileLock
  imports Inode
begin

text \<open>
  File locks, \<open>fs/locks.c\<close>: the lock structures, the lists they are on, and the two operations that take and
  release them, \<open>__posix_lock_file\<close> for byte ranges and \<open>flock_lock_file\<close> for whole files. A lock has an address;
  the list of an inode is the list of the addresses that \<open>fl_next\<close> links, and \<open>fl_next\<close> itself is kept for what it
  is in a waiting request, the lock the request waits for. \<open>fl_block\<close> is the list of requests that wait for a lock.
  An allocated structure holds what its last user left in it. Locks of lock managers other than the kernel's own
  lease manager, that is of lockd and nfsd, are left out, and with them \<open>fl_ops\<close>, \<open>fl_lmops\<close> and the callbacks.
\<close>

section \<open>Locks\<close>

record file_lock =
  fl_next :: "nat option"
  fl_block :: "nat list"
  fl_owner :: nat
  fl_flags :: u8
  fl_type :: u8
  fl_pid :: u32
  fl_nspid :: u32
  fl_file :: nat
  fl_start :: int
  fl_end :: int
  fl_break_time :: u32

record lock_state =
  fl_at :: "nat \<Rightarrow> file_lock"
  i_flock :: "nat \<Rightarrow> nat list"
  file_lock_list :: "nat list"
  blocked_list :: "nat list"
  fl_fresh :: nat

abbreviation (input) FL_POSIX :: u8 where "FL_POSIX \<equiv> 1"
abbreviation (input) FL_FLOCK :: u8 where "FL_FLOCK \<equiv> 2"
abbreviation (input) FL_ACCESS :: u8 where "FL_ACCESS \<equiv> 8"
abbreviation (input) FL_EXISTS :: u8 where "FL_EXISTS \<equiv> 16"
abbreviation (input) FL_LEASE :: u8 where "FL_LEASE \<equiv> 32"
abbreviation (input) FL_CLOSE :: u8 where "FL_CLOSE \<equiv> 64"
abbreviation (input) FL_SLEEP :: u8 where "FL_SLEEP \<equiv> 128"
abbreviation (input) F_RDLCK :: u8 where "F_RDLCK \<equiv> 0"
abbreviation (input) F_WRLCK :: u8 where "F_WRLCK \<equiv> 1"
abbreviation (input) F_UNLCK :: u8 where "F_UNLCK \<equiv> 2"
abbreviation (input) F_INPROGRESS :: u8 where "F_INPROGRESS \<equiv> 16"
abbreviation (input) LOCK_MAND :: u8 where "LOCK_MAND \<equiv> 32"
abbreviation (input) FILE_LOCK_DEFERRED :: int where "FILE_LOCK_DEFERRED \<equiv> 1"
abbreviation (input) OFFSET_MAX :: int where "OFFSET_MAX \<equiv> 0x7FFFFFFFFFFFFFFF"

definition IS_POSIX :: "file_lock \<Rightarrow> bool" where "IS_POSIX fl \<longleftrightarrow> flag (fl_flags fl) FL_POSIX"
definition IS_FLOCK :: "file_lock \<Rightarrow> bool" where "IS_FLOCK fl \<longleftrightarrow> flag (fl_flags fl) FL_FLOCK"
definition IS_LEASE :: "file_lock \<Rightarrow> bool" where "IS_LEASE fl \<longleftrightarrow> flag (fl_flags fl) FL_LEASE"

definition upd_fl :: "nat \<Rightarrow> (file_lock \<Rightarrow> file_lock) \<Rightarrow> lock_state \<Rightarrow> lock_state" where
  "upd_fl a f s = s\<lparr>fl_at := (fl_at s)(a := f (fl_at s a))\<rparr>"

text \<open>The argument is what the new structure contains, or \<open>None\<close> without memory.\<close>

definition locks_alloc_lock :: "file_lock option \<Rightarrow> lock_state \<Rightarrow> nat option \<times> lock_state" where
  "locks_alloc_lock mem s =
    (case mem of None \<Rightarrow> (None, s)
     | Some old \<Rightarrow> (Some (fl_fresh s),
         s\<lparr>fl_at := (fl_at s)(fl_fresh s := old\<lparr>fl_next := None, fl_block := [], fl_nspid := 0\<rparr>),
           fl_fresh := Suc (fl_fresh s)\<rparr>))"

definition locks_init_lock :: file_lock where
  "locks_init_lock = \<lparr>fl_next = None, fl_block = [], fl_owner = 0, fl_flags = 0, fl_type = 0, fl_pid = 0, fl_nspid = 0,
     fl_file = 0, fl_start = 0, fl_end = 0, fl_break_time = 0\<rparr>"

definition raw_copy_lock :: "file_lock \<Rightarrow> file_lock \<Rightarrow> file_lock" where
  "raw_copy_lock fl new = new\<lparr>fl_owner := fl_owner fl, fl_pid := fl_pid fl, fl_file := 0, fl_flags := fl_flags fl,
     fl_type := fl_type fl, fl_start := fl_start fl, fl_end := fl_end fl\<rparr>"

definition locks_copy_lock :: "file_lock \<Rightarrow> file_lock \<Rightarrow> file_lock" where
  "locks_copy_lock fl new = (raw_copy_lock fl new)\<lparr>fl_file := fl_file fl\<rparr>"

section \<open>Conflicts\<close>

definition locks_overlap :: "file_lock \<Rightarrow> file_lock \<Rightarrow> bool" where
  "locks_overlap fl1 fl2 \<longleftrightarrow> fl_end fl1 \<ge> fl_start fl2 \<and> fl_end fl2 \<ge> fl_start fl1"

definition posix_same_owner :: "file_lock \<Rightarrow> file_lock \<Rightarrow> bool" where
  "posix_same_owner fl1 fl2 \<longleftrightarrow> fl_owner fl1 = fl_owner fl2"

definition locks_conflict :: "file_lock \<Rightarrow> file_lock \<Rightarrow> bool" where
  "locks_conflict caller_fl sys_fl \<longleftrightarrow>
    (if fl_type sys_fl = F_WRLCK then True else if fl_type caller_fl = F_WRLCK then True else False)"

definition posix_locks_conflict :: "file_lock \<Rightarrow> file_lock \<Rightarrow> bool" where
  "posix_locks_conflict caller_fl sys_fl \<longleftrightarrow>
    (if \<not> IS_POSIX sys_fl \<or> posix_same_owner caller_fl sys_fl then False
     else if \<not> locks_overlap caller_fl sys_fl then False
     else locks_conflict caller_fl sys_fl)"

definition flock_locks_conflict :: "file_lock \<Rightarrow> file_lock \<Rightarrow> bool" where
  "flock_locks_conflict caller_fl sys_fl \<longleftrightarrow>
    (if \<not> IS_FLOCK sys_fl \<or> fl_file caller_fl = fl_file sys_fl then False
     else if flag (fl_type caller_fl) LOCK_MAND \<or> flag (fl_type sys_fl) LOCK_MAND then False
     else locks_conflict caller_fl sys_fl)"

section \<open>The lists\<close>

definition raw_delete_block :: "nat \<Rightarrow> lock_state \<Rightarrow> lock_state" where
  "raw_delete_block waiter s =
    (let s = (case fl_next (fl_at s waiter) of None \<Rightarrow> s
              | Some blocker \<Rightarrow> upd_fl blocker (fl_block_update (remove1 waiter)) s);
         s = s\<lparr>blocked_list := remove1 waiter (blocked_list s)\<rparr>
     in upd_fl waiter (fl_next_update (\<lambda>_. None)) s)"

definition locks_insert_block :: "nat \<Rightarrow> nat \<Rightarrow> lock_state \<Rightarrow> lock_state" where
  "locks_insert_block blocker waiter s =
    (let s = upd_fl blocker (fl_block_update (\<lambda>ws. ws @ [waiter])) s;
         s = upd_fl waiter (fl_next_update (\<lambda>_. Some blocker)) s
     in if IS_POSIX (fl_at s blocker) then s\<lparr>blocked_list := waiter # blocked_list s\<rparr> else s)"

definition locks_wake_up_blocks :: "nat \<Rightarrow> lock_state \<Rightarrow> lock_state" where
  "locks_wake_up_blocks blocker s = fold raw_delete_block (fl_block (fl_at s blocker)) s"

text \<open>A position \<open>before\<close> in the list of an inode is the pair of the addresses in front of it and behind it.\<close>

definition locks_insert_lock :: "u32 \<Rightarrow> nat \<Rightarrow> nat list \<Rightarrow> nat list \<Rightarrow> nat \<Rightarrow> lock_state \<Rightarrow> lock_state" where
  "locks_insert_lock tgid ino pre rest fl s =
    (let s = s\<lparr>file_lock_list := fl # file_lock_list s\<rparr>;
         s = upd_fl fl (fl_nspid_update (\<lambda>_. tgid)) s
     in s\<lparr>i_flock := (i_flock s)(ino := pre @ fl # rest)\<rparr>)"

definition locks_delete_lock :: "nat \<Rightarrow> nat list \<Rightarrow> nat \<Rightarrow> nat list \<Rightarrow> lock_state \<Rightarrow> lock_state" where
  "locks_delete_lock ino pre fl rest s =
    (let s = s\<lparr>i_flock := (i_flock s)(ino := pre @ rest)\<rparr>;
         s = upd_fl fl (fl_next_update (\<lambda>_. None)) s;
         s = s\<lparr>file_lock_list := remove1 fl (file_lock_list s)\<rparr>;
         s = upd_fl fl (fl_nspid_update (\<lambda>_. 0)) s
     in locks_wake_up_blocks fl s)"

section \<open>Deadlocks\<close>

definition what_owner_is_waiting_for :: "lock_state \<Rightarrow> nat \<Rightarrow> nat option" where
  "what_owner_is_waiting_for s block_fl =
    (case find (\<lambda>fl. posix_same_owner (fl_at s fl) (fl_at s block_fl)) (blocked_list s) of
       None \<Rightarrow> None | Some fl \<Rightarrow> fl_next (fl_at s fl))"

abbreviation (input) MAX_DEADLK_ITERATIONS :: nat where "MAX_DEADLK_ITERATIONS \<equiv> 10"

function deadlock_loop :: "lock_state \<Rightarrow> nat \<Rightarrow> nat \<Rightarrow> nat \<Rightarrow> bool" where
  "deadlock_loop s i caller_fl block_fl =
    (case what_owner_is_waiting_for s block_fl of None \<Rightarrow> False
     | Some block_fl \<Rightarrow>
         if i > MAX_DEADLK_ITERATIONS then False
         else if posix_same_owner (fl_at s caller_fl) (fl_at s block_fl) then True
         else deadlock_loop s (i + 1) caller_fl block_fl)"
  by pat_completeness auto
termination by (relation "measure (\<lambda>(s, i, _). Suc MAX_DEADLK_ITERATIONS - i)") auto

declare deadlock_loop.simps [simp del]

definition posix_locks_deadlock :: "lock_state \<Rightarrow> nat \<Rightarrow> nat \<Rightarrow> bool" where
  "posix_locks_deadlock s caller_fl block_fl = deadlock_loop s 0 caller_fl block_fl"

section \<open>Byte ranges\<close>

text \<open>Merging a request with a lock of the same type: both get the lower start and the higher end.\<close>

definition posix_merge :: "nat \<Rightarrow> nat \<Rightarrow> lock_state \<Rightarrow> lock_state" where
  "posix_merge fl request s =
    (let s = (if fl_start (fl_at s fl) > fl_start (fl_at s request)
              then upd_fl fl (fl_start_update (\<lambda>_. fl_start (fl_at s request))) s
              else upd_fl request (fl_start_update (\<lambda>_. fl_start (fl_at s fl))) s)
     in if fl_end (fl_at s fl) < fl_end (fl_at s request)
        then upd_fl fl (fl_end_update (\<lambda>_. fl_end (fl_at s request))) s
        else upd_fl request (fl_end_update (\<lambda>_. fl_end (fl_at s fl))) s)"

definition posix_replace :: "nat \<Rightarrow> nat \<Rightarrow> lock_state \<Rightarrow> lock_state" where
  "posix_replace fl request s =
    (let s = locks_wake_up_blocks fl s;
         rq = fl_at s request
     in upd_fl fl (\<lambda>x. x\<lparr>fl_start := fl_start rq, fl_end := fl_end rq, fl_type := fl_type rq\<rparr>) s)"

text \<open>The loop over the locks of the owner: the state, the position, the request (or the lock that took its place),
  whether it is in the list, and the locks to cut at its left and right end.\<close>

type_synonym posix_pos = "lock_state \<times> nat list \<times> nat list \<times> nat \<times> bool \<times> nat option \<times> nat option"

fun posix_walk :: "nat \<Rightarrow> lock_state \<Rightarrow> nat list \<Rightarrow> nat list \<Rightarrow> nat \<Rightarrow> bool \<Rightarrow> nat option \<Rightarrow> posix_pos" where
  "posix_walk ino s pre [] request added left = (s, pre, [], request, added, left, None)"
| "posix_walk ino s pre (fl # rest) request added left =
    (let f = fl_at s fl; r = fl_at s request in
     if \<not> posix_same_owner r f then (s, pre, fl # rest, request, added, left, None)
     else if fl_type r = fl_type f then
       if fl_end f < s64 (fl_start r - 1) then posix_walk ino s (pre @ [fl]) rest request added left
       else if s64 (fl_start f - 1) > fl_end r then (s, pre, fl # rest, request, added, left, None)
       else let s = posix_merge fl request s in
         if added then posix_walk ino (locks_delete_lock ino pre fl rest s) pre rest request added left
         else posix_walk ino s (pre @ [fl]) rest fl True left
     else if fl_end f < fl_start r then posix_walk ino s (pre @ [fl]) rest request added left
     else if fl_start f > fl_end r then (s, pre, fl # rest, request, added, left, None)
     else let added = (if fl_type r = F_UNLCK then True else added);
              left = (if fl_start f < fl_start r then Some fl else left)
       in if fl_end f > fl_end r then (s, pre, fl # rest, request, added, left, Some fl)
          else if fl_start f \<ge> fl_start r then
            if added then posix_walk ino (locks_delete_lock ino pre fl rest s) pre rest request added left
            else posix_walk ino (posix_replace fl request s) (pre @ [fl]) rest fl True left
          else posix_walk ino s (pre @ [fl]) rest request added left)"

text \<open>Cutting the locks at the ends of the request, the second half of \<open>__posix_lock_file\<close>.\<close>

definition posix_cut_left :: "nat option \<Rightarrow> nat \<Rightarrow> lock_state \<Rightarrow> lock_state" where
  "posix_cut_left left request s =
    (case left of None \<Rightarrow> s
     | Some l \<Rightarrow>
         locks_wake_up_blocks l (upd_fl l (fl_end_update (\<lambda>_. s64 (fl_start (fl_at s request) - 1))) s))"

definition posix_cut_right :: "nat \<Rightarrow> nat \<Rightarrow> lock_state \<Rightarrow> lock_state" where
  "posix_cut_right r request s =
    locks_wake_up_blocks r (upd_fl r (fl_start_update (\<lambda>_. s64 (fl_end (fl_at s request) + 1))) s)"

definition posix_install :: "u32 \<Rightarrow> nat \<Rightarrow> nat option \<Rightarrow> nat option \<Rightarrow> posix_pos \<Rightarrow> int \<times> lock_state" where
  "posix_install tgid ino new_fl new_fl2 pos =
    (case pos of (s, pre, rest, request, added, left, right) \<Rightarrow>
       if right \<noteq> None \<and> left = right \<and> new_fl2 = None then (- ENOLCK, s)
       else if \<not> added \<and> fl_type (fl_at s request) = F_UNLCK
       then (if flag (fl_flags (fl_at s request)) FL_EXISTS then - ENOENT else 0, s)
       else if \<not> added \<and> new_fl = None then (- ENOLCK, s)
       else
         let (s, rest) =
               (if added then (s, rest)
                else (locks_insert_lock tgid ino pre rest (the new_fl)
                        (upd_fl (the new_fl) (locks_copy_lock (fl_at s request)) s), the new_fl # rest))
         in case right of
              None \<Rightarrow> (0, posix_cut_left left request s)
            | Some r \<Rightarrow>
                let (s, left) =
                      (if left = right
                       then (locks_insert_lock tgid ino pre rest (the new_fl2)
                               (upd_fl (the new_fl2) (locks_copy_lock (fl_at s r)) s), new_fl2)
                       else (s, left))
                in (0, posix_cut_left left request (posix_cut_right r request s)))"

text \<open>What the call finds: the contents of the two structures it may allocate, and the thread group of the caller.\<close>

record lock_env =
  le_mem1 :: "file_lock option"
  le_mem2 :: "file_lock option"
  le_tgid :: u32

definition posix_apply :: "lock_env \<Rightarrow> nat \<Rightarrow> nat \<Rightarrow> nat option \<Rightarrow> nat option \<Rightarrow> lock_state \<Rightarrow> int \<times> lock_state" where
  "posix_apply env ino request new_fl new_fl2 s =
    (let mine = (\<lambda>fl. IS_POSIX (fl_at s fl) \<and> posix_same_owner (fl_at s request) (fl_at s fl))
     in posix_install (le_tgid env) ino new_fl new_fl2
          (posix_walk ino s (takeWhile (\<lambda>fl. \<not> mine fl) (i_flock s ino)) (dropWhile (\<lambda>fl. \<not> mine fl) (i_flock s ino))
             request False None))"

definition posix_alloc :: "lock_env \<Rightarrow> nat \<Rightarrow> lock_state \<Rightarrow> nat option \<times> nat option \<times> lock_state" where
  "posix_alloc env request s =
    (let r = fl_at s request in
     if \<not> flag (fl_flags r) FL_ACCESS \<and> (fl_type r \<noteq> F_UNLCK \<or> fl_start r \<noteq> 0 \<or> fl_end r \<noteq> OFFSET_MAX)
     then let (new_fl, s) = locks_alloc_lock (le_mem1 env) s;
              (new_fl2, s) = locks_alloc_lock (le_mem2 env) s
          in (new_fl, new_fl2, s)
     else (None, None, s))"

definition posix_conflict :: "lock_state \<Rightarrow> nat \<Rightarrow> nat \<Rightarrow> nat option" where
  "posix_conflict s ino request =
    (if fl_type (fl_at s request) \<noteq> F_UNLCK
     then find (\<lambda>fl. IS_POSIX (fl_at s fl) \<and> posix_locks_conflict (fl_at s request) (fl_at s fl)) (i_flock s ino)
     else None)"

definition raw_posix_lock_file :: "lock_env \<Rightarrow> nat \<Rightarrow> nat \<Rightarrow> lock_state \<Rightarrow> int \<times> lock_state" where
  "raw_posix_lock_file env ino request s =
    (let (new_fl, new_fl2, s) = posix_alloc env request s in
     case posix_conflict s ino request of
       Some fl \<Rightarrow>
         if \<not> flag (fl_flags (fl_at s request)) FL_SLEEP then (- EAGAIN, s)
         else if posix_locks_deadlock s request fl then (- EDEADLK, s)
         else (FILE_LOCK_DEFERRED, locks_insert_block fl request s)
     | None \<Rightarrow>
         if flag (fl_flags (fl_at s request)) FL_ACCESS then (0, s)
         else posix_apply env ino request new_fl new_fl2 s)"

section \<open>Whole files\<close>

text \<open>The first loop of \<open>flock_lock_file\<close> looks for the lock of the file, the second for a conflict. Between the two,
  after a lock was removed, the kernel lock may be given up by \<open>cond_resched\<close>.\<close>

fun flock_own :: "lock_state \<Rightarrow> nat \<Rightarrow> nat list \<Rightarrow> nat list \<Rightarrow> (nat list \<times> nat \<times> nat list) option" where
  "flock_own s filp pre [] = None"
| "flock_own s filp pre (fl # rest) =
    (if IS_POSIX (fl_at s fl) then None
     else if IS_LEASE (fl_at s fl) then flock_own s filp (pre @ [fl]) rest
     else if filp \<noteq> fl_file (fl_at s fl) then flock_own s filp (pre @ [fl]) rest
     else Some (pre, fl, rest))"

text \<open>The result is the returned error, or the structure for the new lock and \<open>found\<close>.\<close>

definition flock_release :: "file_lock option \<Rightarrow> nat \<Rightarrow> nat \<Rightarrow> nat \<Rightarrow> lock_state \<Rightarrow> (int + nat option \<times> bool) \<times> lock_state" where
  "flock_release mem ino filp request s =
    (let r = fl_at s request; unlock = (fl_type r = F_UNLCK) in
     if flag (fl_flags r) FL_ACCESS then (Inr (None, False), s)
     else
       let (new_fl, s) = (if \<not> unlock then locks_alloc_lock mem s else (None, s)) in
       if \<not> unlock \<and> new_fl = None then (Inl (- ENOMEM), s)
       else case flock_own s filp [] (i_flock s ino) of
              None \<Rightarrow> (if unlock then Inl (if flag (fl_flags r) FL_EXISTS then - ENOENT else 0) else Inr (new_fl, False), s)
            | Some (pre, fl, rest) \<Rightarrow>
                if fl_type r = fl_type (fl_at s fl) then (Inl 0, s)
                else (if unlock then Inl 0 else Inr (new_fl, True), locks_delete_lock ino pre fl rest s))"

fun flock_scan :: "lock_state \<Rightarrow> nat \<Rightarrow> nat list \<Rightarrow> nat list \<Rightarrow> nat list \<times> nat list \<times> nat option" where
  "flock_scan s request pre [] = (pre, [], None)"
| "flock_scan s request pre (fl # rest) =
    (if IS_POSIX (fl_at s fl) then (pre, fl # rest, None)
     else if IS_LEASE (fl_at s fl) then flock_scan s request (pre @ [fl]) rest
     else if \<not> flock_locks_conflict (fl_at s request) (fl_at s fl) then flock_scan s request (pre @ [fl]) rest
     else (pre, fl # rest, Some fl))"

definition flock_find_conflict :: "u32 \<Rightarrow> nat \<Rightarrow> nat \<Rightarrow> nat option \<Rightarrow> lock_state \<Rightarrow> int \<times> lock_state" where
  "flock_find_conflict tgid ino request new_fl s =
    (case flock_scan s request [] (i_flock s ino) of
       (pre, rest, Some fl) \<Rightarrow>
         if \<not> flag (fl_flags (fl_at s request)) FL_SLEEP then (- EAGAIN, s)
         else (FILE_LOCK_DEFERRED, locks_insert_block fl request s)
     | (pre, rest, None) \<Rightarrow>
         if flag (fl_flags (fl_at s request)) FL_ACCESS then (0, s)
         else (0, locks_insert_lock tgid ino pre rest (the new_fl)
                    (upd_fl (the new_fl) (locks_copy_lock (fl_at s request)) s)))"

definition flock_lock_file ::
    "lock_env \<Rightarrow> (lock_state \<Rightarrow> lock_state) \<Rightarrow> nat \<Rightarrow> nat \<Rightarrow> nat \<Rightarrow> lock_state \<Rightarrow> int \<times> lock_state" where
  "flock_lock_file env resched ino filp request s =
    (case flock_release (le_mem1 env) ino filp request s of
       (Inl error, s) \<Rightarrow> (error, s)
     | (Inr (new_fl, found), s) \<Rightarrow>
         flock_find_conflict (le_tgid env) ino request new_fl (if found then resched s else s))"

end
