(* ===== verification/LockRange.thy ===== *)
theory LockRange
  imports FileLock
begin

text \<open>
  Byte-range locks of one owner as a map from bytes to lock types, and the reference for what a request does to it.
  A list of segments is well-formed when it is sorted, its segments are disjoint, and neighbours of one type are
  not adjacent. \<open>set_range\<close> is the textbook insertion into such a list; it sets the requested bytes and no others,
  and keeps the list well-formed.
\<close>

datatype seg = Seg (lo: int) (hi: int) (ty: u8)

definition put_seg :: "seg \<Rightarrow> seg list \<Rightarrow> seg list" where
  "put_seg r xs = (if ty r = F_UNLCK then xs else r # xs)"

definition join_seg :: "seg \<Rightarrow> seg \<Rightarrow> seg" where
  "join_seg x r = Seg (min (lo x) (lo r)) (max (hi x) (hi r)) (ty r)"

lemma join_seg_sel [simp]: "lo (join_seg x r) = min (lo x) (lo r)" "hi (join_seg x r) = max (hi x) (hi r)" "ty (join_seg x r) = ty r"
  by (simp_all add: join_seg_def)

fun set_range :: "seg \<Rightarrow> seg list \<Rightarrow> seg list" where
  "set_range r [] = put_seg r []"
| "set_range r (x # xs) =
    (if ty x = ty r then
       if hi x < lo r - 1 then x # set_range r xs
       else if lo x - 1 > hi r then put_seg r (x # xs)
       else set_range (join_seg x r) xs
     else if hi x < lo r then x # set_range r xs
     else if lo x > hi r then put_seg r (x # xs)
     else (if lo x < lo r then [Seg (lo x) (lo r - 1) (ty x)] else []) @
          (if hi x > hi r then put_seg r (Seg (hi r + 1) (hi x) (ty x) # xs) else set_range r xs))"

definition seg_covers :: "seg \<Rightarrow> int \<Rightarrow> bool" where
  "seg_covers x b \<longleftrightarrow> lo x \<le> b \<and> b \<le> hi x"

definition held :: "seg list \<Rightarrow> int \<Rightarrow> u8 option" where
  "held xs b = map_option ty (find (\<lambda>x. seg_covers x b) xs)"

definition seg_ok :: "seg \<Rightarrow> bool" where
  "seg_ok x \<longleftrightarrow> 0 \<le> lo x \<and> lo x \<le> hi x \<and> hi x \<le> OFFSET_MAX \<and> (ty x = F_RDLCK \<or> ty x = F_WRLCK)"

definition sep :: "seg \<Rightarrow> seg \<Rightarrow> bool" where
  "sep x y \<longleftrightarrow> hi x < lo y \<and> (ty x = ty y \<longrightarrow> hi x + 1 < lo y)"

definition segs_ok :: "seg list \<Rightarrow> bool" where
  "segs_ok xs \<longleftrightarrow> sorted_wrt sep xs \<and> (\<forall>x\<in>set xs. seg_ok x)"

text \<open>A request: the type may also be \<open>F_UNLCK\<close>.\<close>

definition req_ok :: "seg \<Rightarrow> bool" where
  "req_ok r \<longleftrightarrow> 0 \<le> lo r \<and> lo r \<le> hi r \<and> hi r \<le> OFFSET_MAX \<and> (ty r = F_RDLCK \<or> ty r = F_WRLCK \<or> ty r = F_UNLCK)"

lemma held_Nil [simp]: "held [] b = None"
  by (simp add: held_def)

lemma held_Cons: "held (x # xs) b = (if seg_covers x b then Some (ty x) else held xs b)"
  by (simp add: held_def)

lemma held_append: "held (xs @ ys) b = (case held xs b of None \<Rightarrow> held ys b | Some t \<Rightarrow> Some t)"
  by (induction xs) (simp_all add: held_Cons)

lemma segs_ok_Cons: "segs_ok (x # xs) \<longleftrightarrow> seg_ok x \<and> (\<forall>y\<in>set xs. sep x y) \<and> segs_ok xs"
  by (auto simp: segs_ok_def)

lemma segs_ok_Nil [simp]: "segs_ok []"
  by (simp add: segs_ok_def)

lemma held_beyond: "(\<forall>y\<in>set xs. b < lo y) \<Longrightarrow> held xs b = None"
  by (induction xs) (auto simp: held_Cons seg_covers_def)

lemma held_put_seg: "held (put_seg r xs) b = (if ty r \<noteq> F_UNLCK \<and> seg_covers r b then Some (ty r) else held xs b)"
  by (simp add: put_seg_def held_Cons)

theorem held_set_range:
  assumes "segs_ok xs" "req_ok r"
  shows "held (set_range r xs) b = (if seg_covers r b then (if ty r = F_UNLCK then None else Some (ty r)) else held xs b)"
  using assms
proof (induction r xs rule: set_range.induct)
  case (1 r)
  then show ?case by (simp add: held_put_seg)
next
  case (2 r x xs)
  have x: "seg_ok x" "\<forall>y\<in>set xs. sep x y" "segs_ok xs" using "2.prems" by (simp_all add: segs_ok_Cons)
  have beyond: "b \<le> hi x \<Longrightarrow> held xs b = None" using x(2) by (intro held_beyond) (auto simp: sep_def)
  consider (left) "ty x = ty r" "hi x < lo r - 1" | (right) "ty x = ty r" "lo x - 1 > hi r" "\<not> hi x < lo r - 1"
    | (join) "ty x = ty r" "\<not> hi x < lo r - 1" "\<not> lo x - 1 > hi r" | (other) "ty x \<noteq> ty r" by blast
  then show ?case
  proof cases
    case left
    then show ?thesis using 2 x beyond by (auto simp: held_Cons seg_covers_def)
  next
    case right
    then show ?thesis using "2.prems" x beyond by (auto simp: held_Cons held_put_seg seg_covers_def seg_ok_def)
  next
    case join
    have un: "ty r \<noteq> F_UNLCK" using join x(1) by (auto simp: seg_ok_def)
    have ok: "req_ok (join_seg x r)" using join "2.prems" x(1) by (auto simp: req_ok_def seg_ok_def)
    have "held (set_range r (x # xs)) b = (if seg_covers (join_seg x r) b then Some (ty r) else held xs b)"
      using "2.IH" (2) [OF join x(3) ok] join un by simp
    then show ?thesis using join x beyond un "2.prems" by (auto simp: held_Cons seg_covers_def seg_ok_def req_ok_def)
  next
    case other
    have after: "hi r < lo x \<Longrightarrow> b \<le> hi r \<Longrightarrow> held xs b = None" using x by (intro beyond) (auto simp: seg_ok_def)
    show ?thesis
      using other 2 x beyond after
      by (auto simp: held_Cons held_append held_put_seg seg_covers_def seg_ok_def req_ok_def split: if_splits)
  qed
qed

lemma sep_set_range:
  assumes "segs_ok xs" "lo r \<le> hi r" "sep w r" "\<forall>x\<in>set xs. sep w x" "y \<in> set (set_range r xs)"
  shows "sep w y"
  using assms
  by (induction r xs rule: set_range.induct)
     (auto simp: put_seg_def segs_ok_Cons seg_ok_def sep_def min_def max_def split: if_splits)

lemma sep_mono: "sep x y \<Longrightarrow> hi z < hi x \<or> hi z = hi x \<and> ty z = ty x \<Longrightarrow> sep z y"
  by (auto simp: sep_def)

theorem segs_ok_set_range:
  assumes "segs_ok xs" "req_ok r"
  shows "segs_ok (set_range r xs)"
  using assms
proof (induction r xs rule: set_range.induct)
  case (1 r)
  then show ?case by (auto simp: put_seg_def segs_ok_Cons seg_ok_def req_ok_def)
next
  case (2 r x xs)
  have x: "seg_ok x" "\<forall>y\<in>set xs. sep x y" "segs_ok xs" using "2.prems" by (simp_all add: segs_ok_Cons)
  have r: "lo r \<le> hi r" using "2.prems" by (simp add: req_ok_def)
  have rk: "ty r \<noteq> F_UNLCK \<Longrightarrow> seg_ok r" using "2.prems" by (simp add: req_ok_def seg_ok_def)
  have keep: "sep w r \<Longrightarrow> \<forall>y\<in>set xs. sep w y \<Longrightarrow> \<forall>y\<in>set (set_range r xs). sep w y" for w
    using sep_set_range [OF x(3) r] by blast
  consider (left) "ty x = ty r" "hi x < lo r - 1" | (right) "ty x = ty r" "lo x - 1 > hi r" "\<not> hi x < lo r - 1"
    | (join) "ty x = ty r" "\<not> hi x < lo r - 1" "\<not> lo x - 1 > hi r" | (other) "ty x \<noteq> ty r" by blast
  then show ?case
  proof cases
    case left
    have "\<forall>y\<in>set (set_range r xs). sep x y" using left x(2) by (intro keep) (simp_all add: sep_def)
    moreover have "segs_ok (set_range r xs)" using "2.IH" (1) [OF left x(3) "2.prems" (2)] .
    ultimately show ?thesis using left x(1) by (simp add: segs_ok_Cons)
  next
    case right
    have "\<forall>y\<in>set xs. sep r y" using x(1) right by (intro ballI sep_mono [OF bspec [OF x(2)]]) (auto simp: seg_ok_def)
    moreover have "sep r x" using right by (simp add: sep_def)
    ultimately show ?thesis using right x rk by (simp add: put_seg_def segs_ok_Cons)
  next
    case join
    have "req_ok (join_seg x r)" using join "2.prems" x(1) by (auto simp: req_ok_def seg_ok_def)
    then show ?thesis using "2.IH" (2) [OF join x(3)] join by simp
  next
    case other
    consider (l) "hi x < lo r" | (g) "hi r < lo x" | (cut) "\<not> hi x < lo r" "\<not> hi r < lo x" "hi r < hi x"
      | (inside) "\<not> hi x < lo r" "\<not> hi r < lo x" "\<not> hi r < hi x" by linarith
    then show ?thesis
    proof cases
      case l
      have "\<forall>y\<in>set (set_range r xs). sep x y" using l other x(2) by (intro keep) (simp_all add: sep_def)
      moreover have "segs_ok (set_range r xs)" using "2.IH" (3) [OF other l x(3) "2.prems" (2)] .
      ultimately show ?thesis using l other x(1) by (simp add: segs_ok_Cons)
    next
      case g
      have "\<forall>y\<in>set xs. sep r y" using x(1) g by (intro ballI sep_mono [OF bspec [OF x(2)]]) (auto simp: seg_ok_def)
      moreover have "sep r x" using g other by (simp add: sep_def)
      ultimately show ?thesis using g other x rk r by (simp add: put_seg_def segs_ok_Cons seg_ok_def)
    next
      case cut
      have "\<forall>y\<in>set xs. sep r y" using x(1) cut by (intro ballI sep_mono [OF bspec [OF x(2)]]) (auto simp: seg_ok_def)
      moreover have "\<forall>y\<in>set xs. sep (Seg (hi r + 1) (hi x) (ty x)) y" using x(1) cut by (intro ballI sep_mono [OF bspec [OF x(2)]]) (auto simp: seg_ok_def)
      moreover have "\<forall>y\<in>set xs. sep (Seg (lo x) (lo r - 1) (ty x)) y" using x(1) cut by (intro ballI sep_mono [OF bspec [OF x(2)]]) (auto simp: seg_ok_def)
      moreover have "seg_ok (Seg (hi r + 1) (hi x) (ty x))" "lo x < lo r \<Longrightarrow> seg_ok (Seg (lo x) (lo r - 1) (ty x))"
        using x(1) cut "2.prems" by (auto simp: seg_ok_def req_ok_def)
      moreover have "sep (Seg (lo x) (lo r - 1) (ty x)) r" "sep r (Seg (hi r + 1) (hi x) (ty x))"
        "sep (Seg (lo x) (lo r - 1) (ty x)) (Seg (hi r + 1) (hi x) (ty x))"
        using other r by (auto simp: sep_def)
      ultimately show ?thesis using cut other x rk by (simp add: put_seg_def segs_ok_Cons)
    next
      case inside
      have ok: "segs_ok (set_range r xs)" using "2.IH" (4) [OF other inside x(3) "2.prems" (2)] .
      have "\<forall>y\<in>set xs. sep (Seg (lo x) (lo r - 1) (ty x)) y"
        using x(1) inside by (intro ballI sep_mono [OF bspec [OF x(2)]]) (auto simp: seg_ok_def)
      moreover have "sep (Seg (lo x) (lo r - 1) (ty x)) r" using other by (simp add: sep_def)
      ultimately have "\<forall>y\<in>set (set_range r xs). sep (Seg (lo x) (lo r - 1) (ty x)) y" by (intro keep)
      moreover have "lo x < lo r \<Longrightarrow> seg_ok (Seg (lo x) (lo r - 1) (ty x))"
        using x(1) inside "2.prems" by (auto simp: seg_ok_def req_ok_def)
      ultimately show ?thesis using inside other ok by (simp add: segs_ok_Cons)
    qed
  qed
qed

end
