(* ===== verification/LockWalk.thy ===== *)
theory LockWalk
  imports LockRange
begin

text \<open>
  The walk of \<open>__posix_lock_file\<close> over the locks of one owner computes \<open>set_range\<close>. The algorithm reuses lock
  structures, changes the request while it merges, and leaves the cutting of the locks at both ends for later;
  \<open>pending\<close> is the list of segments that is still to come out of a state of the walk, and it does not change from
  one round to the next.
\<close>

section \<open>What the list operations keep\<close>

text \<open>The part of a lock that waking and list operations do not touch.\<close>

definition core :: "file_lock \<Rightarrow> file_lock" where
  "core fl = fl\<lparr>fl_next := None, fl_block := [], fl_nspid := 0\<rparr>"

lemma core_sel [simp]:
  "fl_owner (core x) = fl_owner x" "fl_flags (core x) = fl_flags x" "fl_type (core x) = fl_type x"
  "fl_file (core x) = fl_file x" "fl_start (core x) = fl_start x" "fl_end (core x) = fl_end x"
  "fl_pid (core x) = fl_pid x" "fl_break_time (core x) = fl_break_time x"
  by (simp_all add: core_def)

lemma core_upd [simp]:
  "core (x\<lparr>fl_next := n\<rparr>) = core x" "core (x\<lparr>fl_block := b\<rparr>) = core x" "core (x\<lparr>fl_nspid := p\<rparr>) = core x"
  "core (fl_block_update f x) = core x" "core (fl_next_update g x) = core x"
  by (simp_all add: core_def)

lemma core_eqD:
  assumes "core x = core y"
  shows "fl_owner x = fl_owner y" "fl_flags x = fl_flags y" "fl_type x = fl_type y" "fl_file x = fl_file y"
    "fl_start x = fl_start y" "fl_end x = fl_end y"
  using assms by (metis core_sel)+

lemma upd_fl_sel [simp]:
  "fl_at (upd_fl a f s) = (fl_at s)(a := f (fl_at s a))" "i_flock (upd_fl a f s) = i_flock s"
  "file_lock_list (upd_fl a f s) = file_lock_list s" "blocked_list (upd_fl a f s) = blocked_list s"
  "fl_fresh (upd_fl a f s) = fl_fresh s"
  by (simp_all add: upd_fl_def)

lemma raw_delete_block_sel [simp]:
  "i_flock (raw_delete_block w s) = i_flock s" "fl_fresh (raw_delete_block w s) = fl_fresh s"
  "file_lock_list (raw_delete_block w s) = file_lock_list s"
  "core (fl_at (raw_delete_block w s) a) = core (fl_at s a)"
  by (auto simp: raw_delete_block_def Let_def split: option.splits)

lemma fold_delete_block_sel:
  "i_flock (fold raw_delete_block ws s) = i_flock s" "fl_fresh (fold raw_delete_block ws s) = fl_fresh s"
  "file_lock_list (fold raw_delete_block ws s) = file_lock_list s"
  "core (fl_at (fold raw_delete_block ws s) a) = core (fl_at s a)"
  by (induction ws arbitrary: s) simp_all

lemma wake_sel [simp]:
  "i_flock (locks_wake_up_blocks b s) = i_flock s" "fl_fresh (locks_wake_up_blocks b s) = fl_fresh s"
  "file_lock_list (locks_wake_up_blocks b s) = file_lock_list s"
  "core (fl_at (locks_wake_up_blocks b s) a) = core (fl_at s a)"
  by (simp_all add: locks_wake_up_blocks_def fold_delete_block_sel)

lemmas wake_core [simp] = core_eqD [OF wake_sel(4)]

lemma delete_lock_sel [simp]:
  "i_flock (locks_delete_lock ino pre fl rest s) = (i_flock s)(ino := pre @ rest)"
  "fl_fresh (locks_delete_lock ino pre fl rest s) = fl_fresh s"
  "core (fl_at (locks_delete_lock ino pre fl rest s) a) = core (fl_at s a)"
  by (simp_all add: locks_delete_lock_def Let_def)

lemmas delete_lock_core [simp] = core_eqD [OF delete_lock_sel(3)]

lemma insert_lock_sel [simp]:
  "i_flock (locks_insert_lock tgid ino pre rest fl s) = (i_flock s)(ino := pre @ fl # rest)"
  "fl_fresh (locks_insert_lock tgid ino pre rest fl s) = fl_fresh s"
  "core (fl_at (locks_insert_lock tgid ino pre rest fl s) a) = core (fl_at s a)"
  by (simp_all add: locks_insert_lock_def Let_def)

lemmas insert_lock_core [simp] = core_eqD [OF insert_lock_sel(3)]

lemma copy_lock_sel [simp]:
  "fl_owner (locks_copy_lock x y) = fl_owner x" "fl_flags (locks_copy_lock x y) = fl_flags x"
  "fl_type (locks_copy_lock x y) = fl_type x" "fl_file (locks_copy_lock x y) = fl_file x"
  "fl_start (locks_copy_lock x y) = fl_start x" "fl_end (locks_copy_lock x y) = fl_end x"
  "fl_next (locks_copy_lock x y) = fl_next y" "fl_block (locks_copy_lock x y) = fl_block y"
  by (simp_all add: locks_copy_lock_def raw_copy_lock_def)

section \<open>Segments of locks\<close>

definition seg_of :: "file_lock \<Rightarrow> seg" where
  "seg_of fl = Seg (fl_start fl) (fl_end fl) (fl_type fl)"

lemma seg_of_sel [simp]: "lo (seg_of fl) = fl_start fl" "hi (seg_of fl) = fl_end fl" "ty (seg_of fl) = fl_type fl"
  by (simp_all add: seg_of_def)

abbreviation seg_at :: "lock_state \<Rightarrow> nat \<Rightarrow> seg" where
  "seg_at s a \<equiv> seg_of (fl_at s a)"

lemma seg_of_sim [simp]:
  "seg_of (fl_at (locks_wake_up_blocks b s) a) = seg_at s a"
  "seg_of (fl_at (locks_delete_lock ino pre fl rest s) a) = seg_at s a"
  "seg_of (fl_at (locks_insert_lock tgid ino pre rest fl s) a) = seg_at s a"
  "seg_of (locks_copy_lock x y) = seg_of x"
  by (simp_all add: seg_of_def)

lemma posix_merge_at:
  assumes "fl \<noteq> request"
  shows "i_flock (posix_merge fl request s) = i_flock s"
    "fl_at (posix_merge fl request s) = (fl_at s)
      (fl := (fl_at s fl)\<lparr>fl_start := min (fl_start (fl_at s fl)) (fl_start (fl_at s request)),
                           fl_end := max (fl_end (fl_at s fl)) (fl_end (fl_at s request))\<rparr>,
       request := (fl_at s request)\<lparr>fl_start := min (fl_start (fl_at s fl)) (fl_start (fl_at s request)),
                           fl_end := max (fl_end (fl_at s fl)) (fl_end (fl_at s request))\<rparr>)"
  using assms by (auto simp: posix_merge_def Let_def min_def max_def fun_eq_iff)

section \<open>The invariant of the walk\<close>

text \<open>\<open>P\<close> are the locks of the owner the walk has passed, \<open>own\<close> those to come, between \<open>pre0\<close> and \<open>post\<close>; \<open>s0\<close> is the
  state at the start. Once something has changed, no lock to come begins in front of the request.\<close>

definition installed :: "lock_state \<Rightarrow> nat \<Rightarrow> bool \<Rightarrow> bool" where
  "installed s request added \<longleftrightarrow> added \<and> fl_type (fl_at s request) \<noteq> F_UNLCK"

definition kept :: "lock_state \<Rightarrow> nat \<Rightarrow> bool \<Rightarrow> nat list \<Rightarrow> nat list" where
  "kept s request added P = (if installed s request added then butlast P else P)"

definition trim :: "lock_state \<Rightarrow> nat \<Rightarrow> nat option \<Rightarrow> nat \<Rightarrow> seg" where
  "trim s request left a =
    (if left = Some a then Seg (fl_start (fl_at s a)) (fl_start (fl_at s request) - 1) (fl_type (fl_at s a))
     else seg_at s a)"

definition pending :: "lock_state \<Rightarrow> nat list \<Rightarrow> nat list \<Rightarrow> nat \<Rightarrow> bool \<Rightarrow> nat option \<Rightarrow> seg list" where
  "pending s P own request added left =
    map (trim s request left) (kept s request added P) @ set_range (seg_at s request) (map (seg_at s) own)"

definition walk_inv ::
    "lock_state \<Rightarrow> nat \<Rightarrow> nat list \<Rightarrow> nat list \<Rightarrow> lock_state \<Rightarrow> nat list \<Rightarrow> nat list \<Rightarrow> nat \<Rightarrow> bool \<Rightarrow> nat option \<Rightarrow> bool" where
  "walk_inv s0 ino pre0 post s P own request added left \<longleftrightarrow>
     i_flock s ino = pre0 @ P @ own @ post \<and> distinct (pre0 @ P @ own @ post) \<and>
     (\<forall>a\<in>set P \<union> set own. fl_owner (fl_at s a) = fl_owner (fl_at s request)) \<and>
     (post = [] \<or> fl_owner (fl_at s (hd post)) \<noteq> fl_owner (fl_at s request)) \<and>
     segs_ok (map (seg_at s) own) \<and> req_ok (seg_at s request) \<and>
     request \<notin> set pre0 \<union> set own \<union> set post \<and>
     (if installed s request added then P \<noteq> [] \<and> request = last P \<and> (\<forall>a\<in>set own. fl_start (fl_at s request) < fl_start (fl_at s a))
      else request \<notin> set P) \<and>
     (left \<noteq> None \<longrightarrow> kept s request added P \<noteq> [] \<and> left = Some (last (kept s request added P)) \<and>
        (\<forall>a\<in>set own. fl_start (fl_at s request) < fl_start (fl_at s a)) \<and>
        (fl_type (fl_at s request) = F_UNLCK \<longrightarrow> added)) \<and>
     (\<not> added \<longrightarrow> s = s0) \<and>
     (s = s0 \<or> (\<forall>a\<in>set own. fl_start (fl_at s request) < fl_start (fl_at s a)))"

lemma trim_cong:
  assumes "seg_at s' a = seg_at s a" "left = Some a \<Longrightarrow> fl_start (fl_at s' request') = fl_start (fl_at s request)"
  shows "trim s' request' left a = trim s request left a"
  using assms(1) assms(2) by (auto simp: trim_def seg_of_def)

lemma seg_at_upd: "a \<noteq> b \<Longrightarrow> seg_at (upd_fl b f s) a = seg_at s a"
  by simp

lemma segs_own:
  assumes "segs_ok (map (seg_at s) (a # own))"
  shows "seg_ok (seg_at s a)" "b \<in> set own \<Longrightarrow> fl_end (fl_at s a) < fl_start (fl_at s b)" "segs_ok (map (seg_at s) own)"
  using assms by (auto simp: segs_ok_Cons sep_def)

lemma butlast_notin: "distinct xs \<Longrightarrow> xs \<noteq> [] \<Longrightarrow> last xs \<notin> set (butlast xs)"
  by (induction xs) (auto dest: in_set_butlastD)

lemma walk_inv_Cons:
  assumes "walk_inv s0 ino pre0 post s P (a # own) request added left"
  shows "i_flock s ino = pre0 @ P @ a # own @ post" "distinct (pre0 @ P @ a # own @ post)"
    "\<forall>b\<in>set P \<union> set own. fl_owner (fl_at s b) = fl_owner (fl_at s request)" "fl_owner (fl_at s a) = fl_owner (fl_at s request)"
    "post = [] \<or> fl_owner (fl_at s (hd post)) \<noteq> fl_owner (fl_at s request)"
    "seg_ok (seg_at s a)" "\<forall>b\<in>set own. fl_end (fl_at s a) < fl_start (fl_at s b)" "segs_ok (map (seg_at s) own)"
    "req_ok (seg_at s request)"
    "request \<notin> set pre0 \<union> set own \<union> set post" "request \<noteq> a"
    "if installed s request added then P \<noteq> [] \<and> request = last P \<and> fl_start (fl_at s request) < fl_start (fl_at s a)
     else request \<notin> set P"
    "left \<noteq> None \<Longrightarrow> kept s request added P \<noteq> [] \<and> left = Some (last (kept s request added P)) \<and>
        fl_start (fl_at s request) < fl_start (fl_at s a) \<and> (fl_type (fl_at s request) = F_UNLCK \<longrightarrow> added)"
    "\<not> added \<Longrightarrow> s = s0" "s = s0 \<or> (\<forall>b\<in>set own. fl_start (fl_at s request) < fl_start (fl_at s b))"
proof -
  have own: "segs_ok (map (seg_at s) (a # own))" using assms unfolding walk_inv_def by blast
  show "seg_ok (seg_at s a)" "\<forall>b\<in>set own. fl_end (fl_at s a) < fl_start (fl_at s b)" "segs_ok (map (seg_at s) own)"
    using segs_own [OF own] by blast+
  show "s = s0 \<or> (\<forall>b\<in>set own. fl_start (fl_at s request) < fl_start (fl_at s b))"
    using assms unfolding walk_inv_def by simp blast
qed (use assms in \<open>simp_all add: walk_inv_def del: list.map split: if_splits\<close>)

text \<open>One round: the walk goes on from \<open>P'\<close>, \<open>request'\<close> and \<open>left'\<close> in a state with the same owners.\<close>

lemma walk_inv_step:
  assumes J: "walk_inv s0 ino pre0 post s P (a # own) request added left"
    and list: "i_flock s' ino = pre0 @ P' @ own @ post" "P' = P \<or> P' = P @ [a]"
    and owner: "\<And>b. fl_owner (fl_at s' b) = fl_owner (fl_at s b)"
    and own: "\<And>b. b \<in> set own \<Longrightarrow> seg_at s' b = seg_at s b"
    and req: "request' = request \<or> request' = a \<and> P' = P @ [a]" "req_ok (seg_at s' request')"
    and inst: "if installed s' request' added' then P' \<noteq> [] \<and> request' = last P' \<and>
        (\<forall>b\<in>set own. fl_start (fl_at s' request') < fl_start (fl_at s b)) else request' \<notin> set P'"
    and left: "left' \<noteq> None \<Longrightarrow> kept s' request' added' P' \<noteq> [] \<and> left' = Some (last (kept s' request' added' P')) \<and>
        (\<forall>b\<in>set own. fl_start (fl_at s' request') < fl_start (fl_at s b)) \<and> (fl_type (fl_at s' request') = F_UNLCK \<longrightarrow> added')"
    and same: "\<not> added' \<Longrightarrow> s' = s0" "s' = s0 \<or> (\<forall>b\<in>set own. fl_start (fl_at s' request') < fl_start (fl_at s b))"
  shows "walk_inv s0 ino pre0 post s' P' own request' added' left'"
proof -
  note j = walk_inv_Cons [OF J]
  have start: "b \<in> set own \<Longrightarrow> fl_start (fl_at s' b) = fl_start (fl_at s b)" for b
    using own [of b] by (simp add: seg_of_def)
  have segs: "map (seg_at s') own = map (seg_at s) own" using own by simp
  have rown: "fl_owner (fl_at s' request') = fl_owner (fl_at s request)" using req(1) j(4) owner by auto
  have "distinct (pre0 @ P' @ own @ post)" "request' \<notin> set pre0 \<union> set own \<union> set post"
    using list(2) req(1) j(2,10) by auto
  moreover have "\<forall>b\<in>set P' \<union> set own. fl_owner (fl_at s' b) = fl_owner (fl_at s' request')"
    using list(2) j(3,4) by (auto simp: owner rown [unfolded owner])
  moreover have "post = [] \<or> fl_owner (fl_at s' (hd post)) \<noteq> fl_owner (fl_at s' request')"
    using j(5) by (simp add: rown, simp add: owner)
  ultimately show ?thesis
    unfolding walk_inv_def segs using list(1) j(8) req(2) inst left same start by simp
qed

lemma walk_skip:
  assumes J: "walk_inv s0 ino pre0 post s P (a # own) request added left"
    and skip: "if fl_type (fl_at s request) = fl_type (fl_at s a) then fl_end (fl_at s a) < fl_start (fl_at s request) - 1
      else fl_end (fl_at s a) < fl_start (fl_at s request)"
  shows "walk_inv s0 ino pre0 post s (P @ [a]) own request added left"
    "pending s (P @ [a]) own request added left = pending s P (a # own) request added left"
proof -
  note j = walk_inv_Cons [OF J]
  have before: "\<not> fl_start (fl_at s request) < fl_start (fl_at s a)"
    using skip j(6) by (simp add: seg_ok_def split: if_splits)
  have ni: "\<not> installed s request added" using j(12) before by (intro notI) (simp only: if_True, blast)
  have nl: "left = None" using j(13) before by blast
  show "walk_inv s0 ino pre0 post s (P @ [a]) own request added left"
    using j ni nl by (simp add: walk_inv_def)
  show "pending s (P @ [a]) own request added left = pending s P (a # own) request added left"
    using ni nl skip by (simp add: pending_def kept_def trim_def split: if_splits)
qed

lemma posix_merge_sel:
  assumes "a \<noteq> request" "fl_type (fl_at s request) = fl_type (fl_at s a)"
  shows "fl_owner (fl_at (posix_merge a request s) b) = fl_owner (fl_at s b)"
    "fl_type (fl_at (posix_merge a request s) b) = fl_type (fl_at s b)"
    "b \<noteq> a \<Longrightarrow> b \<noteq> request \<Longrightarrow> fl_at (posix_merge a request s) b = fl_at s b"
    "seg_at (posix_merge a request s) a = join_seg (seg_at s a) (seg_at s request)"
    "seg_at (posix_merge a request s) request = join_seg (seg_at s a) (seg_at s request)"
    "fl_start (fl_at (posix_merge a request s) a) = min (fl_start (fl_at s a)) (fl_start (fl_at s request))"
    "fl_start (fl_at (posix_merge a request s) request) = min (fl_start (fl_at s a)) (fl_start (fl_at s request))"
  using assms by (simp_all add: posix_merge_at seg_of_def join_seg_def)

lemma segs_cong: "(\<And>b. b \<in> set bs \<Longrightarrow> fl_at s' b = fl_at s b) \<Longrightarrow> map (seg_at s') bs = map (seg_at s) bs"
  by simp

lemma walk_join_step:
  assumes j: "walk_inv s0 ino pre0 post s P (a # own) request added left"
    and t: "fl_type (fl_at s request) = fl_type (fl_at s a)" "\<not> fl_end (fl_at s a) < fl_start (fl_at s request) - 1"
      "\<not> fl_start (fl_at s a) - 1 > fl_end (fl_at s request)"
  shows "req_ok (join_seg (seg_at s a) (seg_at s request))" "fl_type (fl_at s request) \<noteq> F_UNLCK"
    "set_range (seg_at s request) (map (seg_at s) (a # own)) =
       set_range (join_seg (seg_at s a) (seg_at s request)) (map (seg_at s) own)"
  using walk_inv_Cons(6,9) [OF j] t by (auto simp: req_ok_def seg_ok_def)

lemma walk_merge_new:
  assumes J: "walk_inv s0 ino pre0 post s P (a # own) request False left"
    and t: "fl_type (fl_at s request) = fl_type (fl_at s a)" "\<not> fl_end (fl_at s a) < fl_start (fl_at s request) - 1"
      "\<not> fl_start (fl_at s a) - 1 > fl_end (fl_at s request)"
  defines "s' \<equiv> posix_merge a request s"
  shows "walk_inv s0 ino pre0 post s' (P @ [a]) own a True left"
    "pending s' (P @ [a]) own a True left = pending s P (a # own) request False left"
proof -
  note j = walk_inv_Cons [OF J] and step = walk_join_step [OF J t]
  note m = posix_merge_sel [OF not_sym [OF j(11)] t(1), folded s'_def]
  have ar: "a \<noteq> request" using j(11) by blast
  have ni: "\<not> installed s request False" "kept s request False P = P" "request \<notin> set P"
    using j(12) by (simp_all add: installed_def kept_def)
  have in': "installed s' a True" "kept s' a True (P @ [a]) = P"
    using step(2) t(1) by (simp_all add: installed_def kept_def m)
  have start: "\<forall>b\<in>set own. min (fl_start (fl_at s a)) (fl_start (fl_at s request)) < fl_start (fl_at s b)"
    using j(6,7) by (fastforce simp: seg_ok_def)
  have at_own: "b \<in> set own \<Longrightarrow> fl_at s' b = fl_at s b" for b using j(2,10) by (intro m(3)) auto
  have own: "map (seg_at s') own = map (seg_at s) own" using at_own by (intro segs_cong)
  show "walk_inv s0 ino pre0 post s' (P @ [a]) own a True left"
  proof (rule walk_inv_step [OF J])
    show "i_flock s' ino = pre0 @ (P @ [a]) @ own @ post" using j(1) ar by (simp add: s'_def posix_merge_at)
    show "req_ok (seg_at s' a)" using step(1) m(4) by simp
    show "left \<noteq> None \<Longrightarrow> kept s' a True (P @ [a]) \<noteq> [] \<and> left = Some (last (kept s' a True (P @ [a]))) \<and>
        (\<forall>b\<in>set own. fl_start (fl_at s' a) < fl_start (fl_at s b)) \<and> (fl_type (fl_at s' a) = F_UNLCK \<longrightarrow> True)"
      using j(13) ni(2) start by (simp add: in' m)
  qed (use in' start m at_own in auto)
  have "map (trim s' a left) P = map (trim s request left) P"
  proof (rule map_cong [OF refl], rule trim_cong)
    fix b assume b: "b \<in> set P"
    show "seg_at s' b = seg_at s b" using b j(2) ni(3) by (subst m(3)) auto
    show "left = Some b \<Longrightarrow> fl_start (fl_at s' a) = fl_start (fl_at s request)" using j(13) m(6) by auto
  qed
  then show "pending s' (P @ [a]) own a True left = pending s P (a # own) request False left"
    using step(3) by (simp add: pending_def in' ni own m(4) del: list.map(2) set_range.simps)
qed

lemma walk_merge_old:
  assumes J: "walk_inv s0 ino pre0 post s P (a # own) request True left"
    and t: "fl_type (fl_at s request) = fl_type (fl_at s a)" "\<not> fl_end (fl_at s a) < fl_start (fl_at s request) - 1"
      "\<not> fl_start (fl_at s a) - 1 > fl_end (fl_at s request)"
  defines "s' \<equiv> locks_delete_lock ino (pre0 @ P) a (own @ post) (posix_merge a request s)"
  shows "walk_inv s0 ino pre0 post s' P own request True left"
    "pending s' P own request True left = pending s P (a # own) request True left"
proof -
  note j = walk_inv_Cons [OF J] and step = walk_join_step [OF J t]
  note m = posix_merge_sel [OF not_sym [OF j(11)] t(1)]
  have inst: "installed s request True" "installed s' request True"
    using step(2) by (simp_all add: installed_def s'_def m)
  have r: "P \<noteq> []" "request = last P" "fl_start (fl_at s request) < fl_start (fl_at s a)" 
    using j(12) [unfolded if_P [OF inst(1)]] by blast+
  have K: "kept s' request True P = kept s request True P" using inst by (simp add: kept_def)
  have start: "fl_start (fl_at s' request) = fl_start (fl_at s request)" using r(3) by (simp add: s'_def m)
  have own: "\<forall>b\<in>set own. fl_start (fl_at s request) < fl_start (fl_at s b)"
    using j(6,7) r(3) by (fastforce simp: seg_ok_def)
  have seg: "seg_at s' b = seg_at s b" if "b \<noteq> a" "b \<noteq> request" for b using that by (simp add: s'_def m)
  have segs: "map (seg_at s') own = map (seg_at s) own" using j(2,10) by (auto intro!: seg)
  have rq: "seg_at s' request = join_seg (seg_at s a) (seg_at s request)" by (simp add: s'_def m)
  show "walk_inv s0 ino pre0 post s' P own request True left"
  proof (rule walk_inv_step [OF J])
    show "req_ok (seg_at s' request)" using step(1) rq by simp
    show "left \<noteq> None \<Longrightarrow> kept s' request True P \<noteq> [] \<and> left = Some (last (kept s' request True P)) \<and>
        (\<forall>b\<in>set own. fl_start (fl_at s' request) < fl_start (fl_at s b)) \<and> (fl_type (fl_at s' request) = F_UNLCK \<longrightarrow> True)"
      using j(13) own by (simp add: K start)
    show "b \<in> set own \<Longrightarrow> seg_at s' b = seg_at s b" for b using j(2,10) by (intro seg) auto
    show "i_flock s' ino = pre0 @ P @ own @ post" by (simp add: s'_def)
    show "fl_owner (fl_at s' b) = fl_owner (fl_at s b)" for b by (simp add: s'_def m)
  qed (use inst r own start in simp_all)
  have "map (trim s' request left) (butlast P) = map (trim s request left) (butlast P)"
  proof (rule map_cong [OF refl], rule trim_cong)
    fix b assume b: "b \<in> set (butlast P)"
    then show "seg_at s' b = seg_at s b" using j(2) r butlast_notin [of P] by (intro seg) (auto dest: in_set_butlastD)
  qed (rule start)
  then show "pending s' P own request True left = pending s P (a # own) request True left"
    using step(3) inst by (simp add: pending_def kept_def segs rq del: list.map(2) set_range.simps)
qed

text \<open>A lock of another type inside the request is deleted, or replaced when the request is not installed.\<close>

lemma walk_inside_step:
  assumes "walk_inv s0 ino pre0 post s P (a # own) request added left"
    and "fl_type (fl_at s request) \<noteq> fl_type (fl_at s a)" "fl_start (fl_at s request) \<le> fl_start (fl_at s a)"
      "fl_end (fl_at s a) \<le> fl_end (fl_at s request)"
  shows "\<forall>b\<in>set own. fl_start (fl_at s request) < fl_start (fl_at s b)"
    "set_range (seg_at s request) (map (seg_at s) (a # own)) = set_range (seg_at s request) (map (seg_at s) own)"
  using walk_inv_Cons(6,7) [OF assms(1)] assms(2-4) by (force simp: seg_ok_def)+

lemma walk_delete:
  assumes J: "walk_inv s0 ino pre0 post s P (a # own) request added left"
    and t: "fl_type (fl_at s request) \<noteq> fl_type (fl_at s a)" "fl_start (fl_at s request) \<le> fl_start (fl_at s a)"
      "fl_end (fl_at s a) \<le> fl_end (fl_at s request)" and yes: "added'"
    and added': "added' = added \<or> fl_type (fl_at s request) = F_UNLCK \<and> added'"
  defines "s' \<equiv> locks_delete_lock ino (pre0 @ P) a (own @ post) s"
  shows "walk_inv s0 ino pre0 post s' P own request added' left"
    "pending s' P own request added' left = pending s P (a # own) request added left"
proof -
  note j = walk_inv_Cons [OF J] and step = walk_inside_step [OF J t]
  have inst: "installed s' request added' = installed s request added" using added' by (auto simp: installed_def s'_def)
  have K: "kept s' request added' P = kept s request added P" using inst by (simp add: kept_def)
  show "walk_inv s0 ino pre0 post s' P own request added' left"
  proof (rule walk_inv_step [OF J])
    show "left \<noteq> None \<Longrightarrow> kept s' request added' P \<noteq> [] \<and> left = Some (last (kept s' request added' P)) \<and>
        (\<forall>b\<in>set own. fl_start (fl_at s' request) < fl_start (fl_at s b)) \<and> (fl_type (fl_at s' request) = F_UNLCK \<longrightarrow> added')"
      using j(13) step(1) added' by (auto simp: K) (simp_all add: s'_def)
    show "if installed s' request added' then P \<noteq> [] \<and> request = last P \<and>
        (\<forall>b\<in>set own. fl_start (fl_at s' request) < fl_start (fl_at s b)) else request \<notin> set P"
      using j(12) step(1) unfolding inst by (simp add: s'_def)
  qed (use j(9) step(1) yes in \<open>simp_all add: s'_def\<close>)
  have "trim s' request left = trim s request left" by (rule ext, rule trim_cong) (simp_all add: s'_def)
  then show "pending s' P own request added' left = pending s P (a # own) request added left"
    using step(2) by (simp add: pending_def K del: list.map(2) set_range.simps) (simp add: s'_def)
qed

lemma walk_replace:
  assumes J: "walk_inv s0 ino pre0 post s P (a # own) request False left"
    and t: "fl_type (fl_at s request) \<noteq> fl_type (fl_at s a)" "fl_start (fl_at s request) \<le> fl_start (fl_at s a)"
      "fl_end (fl_at s a) \<le> fl_end (fl_at s request)" and un: "fl_type (fl_at s request) \<noteq> F_UNLCK"
  defines "s' \<equiv> posix_replace a request s"
  shows "walk_inv s0 ino pre0 post s' (P @ [a]) own a True left"
    "pending s' (P @ [a]) own a True left = pending s P (a # own) request False left"
proof -
  note j = walk_inv_Cons [OF J] and step = walk_inside_step [OF J t]
  have K: "installed s' a True" "kept s' a True (P @ [a]) = P" "kept s request False P = P"
    using un by (simp_all add: kept_def installed_def s'_def posix_replace_def Let_def)
  have owner: "fl_owner (fl_at s' b) = fl_owner (fl_at s b)" for b by (simp add: s'_def posix_replace_def Let_def)
  have seg: "b \<noteq> a \<Longrightarrow> seg_at s' b = seg_at s b" for b by (simp add: s'_def posix_replace_def Let_def)
  have sega: "seg_at s' a = seg_at s request" "fl_start (fl_at s' a) = fl_start (fl_at s request)"
    by (simp_all add: s'_def posix_replace_def Let_def seg_of_def)
  have segs: "map (seg_at s') own = map (seg_at s) own" using j(2) by (auto intro!: seg)
  show "walk_inv s0 ino pre0 post s' (P @ [a]) own a True left"
  proof (rule walk_inv_step [OF J])
    show "i_flock s' ino = pre0 @ (P @ [a]) @ own @ post" using j(1) by (simp add: s'_def posix_replace_def Let_def)
    show "left \<noteq> None \<Longrightarrow> kept s' a True (P @ [a]) \<noteq> [] \<and> left = Some (last (kept s' a True (P @ [a]))) \<and>
        (\<forall>b\<in>set own. fl_start (fl_at s' a) < fl_start (fl_at s b)) \<and> (fl_type (fl_at s' a) = F_UNLCK \<longrightarrow> True)"
      using j(13) step(1) by (simp add: K sega)
    show "b \<in> set own \<Longrightarrow> seg_at s' b = seg_at s b" for b using j(2) by (intro seg) auto
  qed (use j(9) K step(1) sega owner in auto)
  have "map (trim s' a left) P = map (trim s request left) P"
  proof (rule map_cong [OF refl], rule trim_cong)
    show "b \<in> set P \<Longrightarrow> seg_at s' b = seg_at s b" for b using j(2) by (intro seg) auto
  qed (rule sega)
  then show "pending s' (P @ [a]) own a True left = pending s P (a # own) request False left"
    using step(2) by (simp add: pending_def K segs sega(1) del: list.map(2) set_range.simps)
qed

text \<open>A lock of another type that sticks out at the left end is passed and cut later.\<close>

lemma walk_left:
  assumes J: "walk_inv s0 ino pre0 post s P (a # own) request added left"
    and t: "fl_type (fl_at s request) \<noteq> fl_type (fl_at s a)" "fl_start (fl_at s a) < fl_start (fl_at s request)"
      "fl_start (fl_at s request) \<le> fl_end (fl_at s a)" "fl_end (fl_at s a) \<le> fl_end (fl_at s request)"
    and added': "added' = (if fl_type (fl_at s request) = F_UNLCK then True else added)"
  shows "walk_inv s0 ino pre0 post s (P @ [a]) own request added' (Some a)"
    "pending s (P @ [a]) own request added' (Some a) = pending s P (a # own) request added left"
proof -
  note j = walk_inv_Cons [OF J]
  have ni: "\<not> installed s request added" using j(12) t(2) by (intro notI) (simp only: if_True, force)
  have nl: "left = None" using j(13) t(2) by force
  have ni': "\<not> installed s request added'" using ni added' by (auto simp: installed_def)
  have K: "kept s request added P = P" "kept s request added' (P @ [a]) = P @ [a]" using ni ni' by (simp_all add: kept_def)
  have own: "\<forall>b\<in>set own. fl_start (fl_at s request) < fl_start (fl_at s b)" using j(7) t(3) by force
  show "walk_inv s0 ino pre0 post s (P @ [a]) own request added' (Some a)"
  proof (rule walk_inv_step [OF J])
    show "if installed s request added' then P @ [a] \<noteq> [] \<and> request = last (P @ [a]) \<and>
        (\<forall>b\<in>set own. fl_start (fl_at s request) < fl_start (fl_at s b)) else request \<notin> set (P @ [a])"
      using ni ni' j(11,12) by simp
  qed (use j(1,9,14) own K added' in \<open>simp_all split: if_splits\<close>)
  have "map (trim s request (Some a)) P = map (trim s request left) P"
    using j(2) nl by (auto simp: trim_def)
  then show "pending s (P @ [a]) own request added' (Some a) = pending s P (a # own) request added left"
    using t by (simp add: pending_def K) (simp add: trim_def)
qed

section \<open>The end of the walk\<close>

text \<open>The walk ends behind the last lock of the owner, in front of a lock behind the request, or at a lock of
  another type that sticks out at the right end.\<close>

definition walk_stop :: "lock_state \<Rightarrow> nat list \<Rightarrow> nat \<Rightarrow> bool \<Rightarrow> nat option \<Rightarrow> bool \<Rightarrow> nat option \<Rightarrow> nat option \<Rightarrow> bool" where
  "walk_stop s own request added0 left0 added left right \<longleftrightarrow>
    (case right of
       None \<Rightarrow> added = added0 \<and> left = left0 \<and>
         (own = [] \<or> set_range (seg_at s request) (map (seg_at s) own) = put_seg (seg_at s request) (map (seg_at s) own))
     | Some a \<Rightarrow> own \<noteq> [] \<and> a = hd own \<and> fl_type (fl_at s request) \<noteq> fl_type (fl_at s a) \<and>
         fl_start (fl_at s a) \<le> fl_end (fl_at s request) \<and> fl_start (fl_at s request) \<le> fl_end (fl_at s a) \<and>
         fl_end (fl_at s request) < fl_end (fl_at s a) \<and>
         added = (if fl_type (fl_at s request) = F_UNLCK then True else added0) \<and>
         left = (if fl_start (fl_at s a) < fl_start (fl_at s request) then Some a else left0))"

definition walk_result ::
    "lock_state \<Rightarrow> nat \<Rightarrow> nat list \<Rightarrow> nat list \<Rightarrow> seg list \<Rightarrow> posix_pos \<Rightarrow> bool" where
  "walk_result s0 ino pre0 post segs pos \<longleftrightarrow>
    (case pos of (s, pre, rest, request, added, left, right) \<Rightarrow>
       \<exists>P own added0 left0. pre = pre0 @ P \<and> rest = own @ post \<and> walk_inv s0 ino pre0 post s P own request added0 left0 \<and>
         pending s P own request added0 left0 = segs \<and> walk_stop s own request added0 left0 added left right)"

lemma walk_resultI:
  assumes "walk_inv s0 ino pre0 post s P own request added0 left0" "pending s P own request added0 left0 = segs"
    "walk_stop s own request added0 left0 added left right"
  shows "walk_result s0 ino pre0 post segs (s, pre0 @ P, own @ post, request, added, left, right)"
  using assms by (auto simp: walk_result_def)

lemma s64_start: "req_ok r \<or> seg_ok r \<Longrightarrow> s64 (lo r - 1) = lo r - 1"
  by (intro s64_id) (auto simp: req_ok_def seg_ok_def)

theorem posix_walk_result:
  assumes "walk_inv s0 ino pre0 post s P own request added left"
  shows "walk_result s0 ino pre0 post (pending s P own request added left)
    (posix_walk ino s (pre0 @ P) (own @ post) request added left)"
  using assms
proof (induction own arbitrary: s P request added left)
  case Nil
  have "posix_walk ino s (pre0 @ P) post request added left = (s, pre0 @ P, post, request, added, left, None)"
    using Nil by (cases post) (auto simp: walk_inv_def posix_same_owner_def Let_def)
  then show ?case using walk_resultI [OF Nil] by (simp add: walk_stop_def)
next
  case (Cons a own)
  note J = Cons.prems and j = walk_inv_Cons [OF Cons.prems]
  let ?f = "fl_at s a" and ?r = "fl_at s request"
  have s64: "s64 (fl_start ?f - 1) = fl_start ?f - 1" "s64 (fl_start ?r - 1) = fl_start ?r - 1"
    using s64_start [of "seg_at s a"] s64_start [of "seg_at s request"] j(6,9) by simp_all
  have same: "posix_same_owner ?r ?f" using j(4) by (simp add: posix_same_owner_def)
  have IH: "walk_inv s0 ino pre0 post s' P' own request' added' left' \<Longrightarrow>
      pending s' P' own request' added' left' = pending s P (a # own) request added left \<Longrightarrow>
      walk_result s0 ino pre0 post (pending s P (a # own) request added left)
        (posix_walk ino s' (pre0 @ P') (own @ post) request' added' left')" for s' P' request' added' left'
    using Cons.IH [of s' P' request' added' left'] by simp
  have stop: "walk_stop s (a # own) request added left added' left' right \<Longrightarrow>
      walk_result s0 ino pre0 post (pending s P (a # own) request added left)
        (s, pre0 @ P, a # own @ post, request, added', left', right)" for added' left' right
    using walk_resultI [OF J refl] by simp
  show ?case
  proof (cases "fl_type ?r = fl_type ?f")
    case True
    consider (skip) "fl_end ?f < fl_start ?r - 1" | (beyond) "\<not> fl_end ?f < fl_start ?r - 1" "fl_start ?f - 1 > fl_end ?r"
      | (join) "\<not> fl_end ?f < fl_start ?r - 1" "\<not> fl_start ?f - 1 > fl_end ?r" by blast
    then show ?thesis
    proof cases
      case skip
      then show ?thesis using IH [OF walk_skip [OF J]] True same s64 by (simp add: Let_def)
    next
      case beyond
      have "walk_stop s (a # own) request added left added left None" using beyond True by (simp add: walk_stop_def)
      then show ?thesis using stop beyond True same s64 by (simp add: Let_def)
    next
      case join
      show ?thesis
      proof (cases added)
        case added: True
        have "walk_inv s0 ino pre0 post s P (a # own) request True left" using J added by simp
        note A = walk_merge_old [OF this True join]
        from IH [OF A(1)] A(2) show ?thesis using added join True same s64 by (simp add: Let_def)
      next
        case added: False
        have "walk_inv s0 ino pre0 post s P (a # own) request False left" using J added by simp
        note A = walk_merge_new [OF this True join]
        from IH [OF A(1)] A(2) show ?thesis using added join True same s64 by (simp add: Let_def)
      qed
    qed
  next
    case False
    consider (skip) "fl_end ?f < fl_start ?r" | (beyond) "\<not> fl_end ?f < fl_start ?r" "fl_start ?f > fl_end ?r"
      | (right) "fl_start ?r \<le> fl_end ?f" "fl_start ?f \<le> fl_end ?r" "fl_end ?r < fl_end ?f"
      | (inside) "fl_start ?r \<le> fl_start ?f" "fl_end ?f \<le> fl_end ?r"
      | (left) "fl_start ?f < fl_start ?r" "fl_start ?r \<le> fl_end ?f" "fl_end ?f \<le> fl_end ?r" by linarith
    then show ?thesis
    proof cases
      case skip
      then show ?thesis using IH [OF walk_skip [OF J]] False same by (simp add: Let_def)
    next
      case beyond
      have "walk_stop s (a # own) request added left added left None" using beyond False by (simp add: walk_stop_def)
      then show ?thesis using stop beyond False same by (simp add: Let_def)
    next
      case right
      have "walk_stop s (a # own) request added left (if fl_type ?r = F_UNLCK then True else added)
          (if fl_start ?f < fl_start ?r then Some a else left) (Some a)"
        using right False by (simp add: walk_stop_def)
      then show ?thesis using stop right False same by (simp add: Let_def)
    next
      case inside
      define added' where "added' = (if fl_type ?r = F_UNLCK then True else added)"
      have fl: "posix_walk ino s (pre0 @ P) ((a # own) @ post) request added left =
          (if added' then posix_walk ino (locks_delete_lock ino (pre0 @ P) a (own @ post) s) (pre0 @ P) (own @ post) request added' left
           else posix_walk ino (posix_replace a request s) (pre0 @ P @ [a]) (own @ post) a True left)"
        using inside False same j(6) by (simp add: Let_def added'_def seg_ok_def)
      show ?thesis
      proof (cases added')
        case True
        have "added' = added \<or> fl_type ?r = F_UNLCK \<and> added'" by (simp add: added'_def)
        then show ?thesis using IH [OF walk_delete [OF J False inside True]] unfolding fl by (simp add: True)
      next
        case no: False
        then have un: "fl_type ?r \<noteq> F_UNLCK" and added: "added = False" by (auto simp: added'_def split: if_splits)
        have "walk_inv s0 ino pre0 post s P (a # own) request False left" using J added by simp
        note A = walk_replace [OF this False inside un]
        from IH [OF A(1)] A(2) show ?thesis using no added unfolding fl by simp
      qed
    next
      case left
      then show ?thesis using IH [OF walk_left [OF J False left refl]] False same by (simp add: Let_def)
    qed
  qed
qed

end
