(* ===== verification/LockPosix.thy ===== *)
theory LockPosix
  imports LockWalk
begin

text \<open>
  What \<open>__posix_lock_file\<close> does to the list of an inode: the second half of the function, which inserts the request
  and cuts the locks at its ends, turns the outcome of the walk into \<open>set_range\<close>; when it fails nothing has changed.
\<close>

section \<open>Installing the request\<close>

text \<open>Inserting a copy of the lock \<open>fl\<close>.\<close>

definition insert_copy :: "u32 \<Rightarrow> nat \<Rightarrow> nat list \<Rightarrow> nat list \<Rightarrow> nat \<Rightarrow> nat \<Rightarrow> lock_state \<Rightarrow> lock_state" where
  "insert_copy tgid ino pre rest n fl s = locks_insert_lock tgid ino pre rest n (upd_fl n (locks_copy_lock (fl_at s fl)) s)"

lemma insert_copy_sel [simp]:
  "i_flock (insert_copy tgid ino pre rest n fl s) = (i_flock s)(ino := pre @ n # rest)"
  "seg_at (insert_copy tgid ino pre rest n fl s) b = (if b = n then seg_at s fl else seg_at s b)"
  "fl_owner (fl_at (insert_copy tgid ino pre rest n fl s) b) = (if b = n then fl_owner (fl_at s fl) else fl_owner (fl_at s b))"
  "fl_flags (fl_at (insert_copy tgid ino pre rest n fl s) b) = (if b = n then fl_flags (fl_at s fl) else fl_flags (fl_at s b))"
  "fl_start (fl_at (insert_copy tgid ino pre rest n fl s) b) = (if b = n then fl_start (fl_at s fl) else fl_start (fl_at s b))"
  "fl_end (fl_at (insert_copy tgid ino pre rest n fl s) b) = (if b = n then fl_end (fl_at s fl) else fl_end (fl_at s b))"
  "fl_type (fl_at (insert_copy tgid ino pre rest n fl s) b) = (if b = n then fl_type (fl_at s fl) else fl_type (fl_at s b))"
  by (simp_all add: insert_copy_def)

lemma cut_left_sel [simp]:
  "i_flock (posix_cut_left left request s) = i_flock s"
  "fl_owner (fl_at (posix_cut_left left request s) b) = fl_owner (fl_at s b)"
  "fl_flags (fl_at (posix_cut_left left request s) b) = fl_flags (fl_at s b)"
  "fl_type (fl_at (posix_cut_left left request s) b) = fl_type (fl_at s b)"
  by (simp_all add: posix_cut_left_def split: option.split)

lemma cut_left_seg:
  assumes "req_ok (seg_at s request)"
  shows "seg_at (posix_cut_left left request s) b = trim s request left b"
  using s64_start [of "seg_at s request"] assms
  by (auto simp: posix_cut_left_def trim_def seg_of_def split: option.split)

lemma cut_right_sel [simp]:
  "i_flock (posix_cut_right r request s) = i_flock s"
  "fl_owner (fl_at (posix_cut_right r request s) b) = fl_owner (fl_at s b)"
  "fl_flags (fl_at (posix_cut_right r request s) b) = fl_flags (fl_at s b)"
  "fl_type (fl_at (posix_cut_right r request s) b) = fl_type (fl_at s b)"
  by (simp_all add: posix_cut_right_def)

lemma cut_right_seg:
  assumes "req_ok (seg_at s request)" "fl_end (fl_at s request) < fl_end (fl_at s r)" "seg_ok (seg_at s r)"
  shows "seg_at (posix_cut_right r request s) b =
    (if b = r then Seg (fl_end (fl_at s request) + 1) (fl_end (fl_at s r)) (fl_type (fl_at s r)) else seg_at s b)"
proof -
  have "s64 (fl_end (fl_at s request) + 1) = fl_end (fl_at s request) + 1"
    using assms by (intro s64_id) (auto simp: req_ok_def seg_ok_def)
  then show ?thesis by (simp add: posix_cut_right_def seg_of_def)
qed

lemma posix_install_alt:
  "posix_install tgid ino new_fl new_fl2 (s, pre, rest, request, added, left, right) =
    (if right \<noteq> None \<and> left = right \<and> new_fl2 = None then (- ENOLCK, s)
     else if \<not> added \<and> fl_type (fl_at s request) = F_UNLCK
     then (if flag (fl_flags (fl_at s request)) FL_EXISTS then - ENOENT else 0, s)
     else if \<not> added \<and> new_fl = None then (- ENOLCK, s)
     else
       let N = (if added then [] else [the new_fl]);
           s = (if added then s else insert_copy tgid ino pre rest (the new_fl) request s)
       in case right of
            None \<Rightarrow> (0, posix_cut_left left request s)
          | Some r \<Rightarrow>
              if left = right
              then (0, posix_cut_left new_fl2 request (posix_cut_right r request
                         (insert_copy tgid ino pre (N @ rest) (the new_fl2) r s)))
              else (0, posix_cut_left left request (posix_cut_right r request s)))"
  by (simp add: posix_install_def insert_copy_def Let_def split: option.split)

lemma walk_inv_left:
  assumes "walk_inv s0 ino pre0 post s P own request added left" "left = Some l"
  shows "l \<in> set P" "l \<notin> set own" "l \<noteq> request"
proof -
  have K: "l \<in> set (kept s request added P)" and d: "distinct (P @ own)"
    using assms by (auto simp: walk_inv_def)
  show P: "l \<in> set P" using K by (auto simp: kept_def dest: in_set_butlastD split: if_splits)
  show "l \<notin> set own" using P d by auto
  show "l \<noteq> request"
  proof (cases "installed s request added")
    case True
    then have "request = last P" "P \<noteq> []" using assms(1) unfolding walk_inv_def by simp_all
    then show ?thesis using K d True butlast_notin [of P] by (auto simp: kept_def)
  next
    case False
    then have "request \<notin> set P" using assms(1) unfolding walk_inv_def by simp
    then show ?thesis using P by blast
  qed
qed

lemma trim_noneI: "left \<noteq> Some b \<Longrightarrow> trim s request left b = seg_at s b"
  by (simp add: trim_def)

text \<open>The locks that were passed, with the request among them when it is installed.\<close>

lemma passed_segs:
  assumes J: "walk_inv s0 ino pre0 post s P own request added left"
  shows "map (trim s request left) P @ (if added \<or> fl_type (fl_at s request) = F_UNLCK then [] else [seg_at s request]) =
    map (trim s request left) (kept s request added P) @ put_seg (seg_at s request) []"
proof (cases "installed s request added")
  case True
  have P: "P = butlast P @ [request]" using J True by (simp add: walk_inv_def)
  have r: "trim s request left request = seg_at s request"
    using walk_inv_left(3) [OF J] by (intro trim_noneI) blast
  have "map (trim s request left) P = map (trim s request left) (butlast P) @ [seg_at s request]"
    by (subst P) (simp add: r)
  then show ?thesis using True by (simp add: kept_def installed_def put_seg_def)
next
  case False
  then show ?thesis by (auto simp: kept_def installed_def put_seg_def)
qed

lemma put_seg_Nil_append: "put_seg r [] @ xs = put_seg r xs"
  by (simp add: put_seg_def)

lemma install_no_right:
  fixes tgid :: u32
  assumes J: "walk_inv s0 ino pre0 post s P own request added left"
    and stop: "set_range (seg_at s request) (map (seg_at s) own) = put_seg (seg_at s request) (map (seg_at s) own)"
    and n: "\<not> added \<Longrightarrow> n \<notin> set (i_flock s ino) \<and> n \<noteq> request \<and> fl_type (fl_at s request) \<noteq> F_UNLCK"
  defines "N \<equiv> (if added then [] else [n])"
    and "s' \<equiv> posix_cut_left left request (if added then s else insert_copy tgid ino (pre0 @ P) (own @ post) n request s)"
  shows "i_flock s' ino = pre0 @ (P @ N @ own) @ post" "map (seg_at s') (P @ N @ own) = pending s P own request added left"
proof -
  define s1 where "s1 = (if added then s else insert_copy tgid ino (pre0 @ P) (own @ post) n request s)"
  have list: "i_flock s ino = pre0 @ P @ own @ post" and d: "distinct (pre0 @ P @ own @ post)"
    and ok: "req_ok (seg_at s request)" using J by (simp_all add: walk_inv_def)
  have nn: "\<not> added \<Longrightarrow> n \<notin> set P \<union> set own \<and> n \<noteq> request" using n list by auto
  have at1: "b \<in> set P \<union> set own \<or> b = request \<Longrightarrow> seg_at s1 b = seg_at s b" for b using nn by (auto simp: s1_def)
  have start: "fl_start (fl_at s1 request) = fl_start (fl_at s request)" using at1 [of request] by (simp add: seg_of_def)
  have ok1: "req_ok (seg_at s1 request)" using at1 ok by simp
  have s': "s' = posix_cut_left left request s1" unfolding s'_def s1_def ..
  have seg: "seg_at s' b = trim s request left b" if "b \<in> set P \<union> set own \<or> b = request" for b
    unfolding s' cut_left_seg [OF ok1] by (rule trim_cong [OF at1 [OF that] start])
  have "left \<noteq> Some b" if "b \<in> set own" for b using walk_inv_left(2) [OF J, of b] that by blast
  then have own: "map (seg_at s') own = map (seg_at s) own" using seg trim_noneI by simp
  have P: "map (seg_at s') P = map (trim s request left) P" using seg by simp
  have N: "map (seg_at s') N = (if added \<or> fl_type (fl_at s request) = F_UNLCK then [] else [seg_at s request])"
  proof (cases added)
    case False
    have l: "left \<noteq> Some n" using walk_inv_left(1) [OF J] nn [OF False] by blast
    have "seg_at s1 n = seg_at s request" using False by (simp add: s1_def)
    then have "seg_at s' n = seg_at s request" unfolding s' cut_left_seg [OF ok1] trim_noneI [OF l] .
    then show ?thesis using False n by (simp add: N_def)
  qed (simp add: N_def)
  show "i_flock s' ino = pre0 @ (P @ N @ own) @ post" using list by (simp add: s'_def N_def)
  have "map (seg_at s') (P @ N @ own) = (map (trim s request left) P @ map (seg_at s') N) @ map (seg_at s) own"
    using P own by simp
  also have "\<dots> = pending s P own request added left"
    unfolding N passed_segs [OF J] pending_def stop by (simp add: put_seg_Nil_append)
  finally show "map (seg_at s') (P @ N @ own) = pending s P own request added left" .
qed

text \<open>The request ends inside \<open>a\<close>, a lock of another type: \<open>a\<close> keeps the bytes behind the request, and when it
  also begins in front of it a second new lock gets the bytes there.\<close>

definition cut_state :: "u32 \<Rightarrow> nat \<Rightarrow> nat list \<Rightarrow> nat list \<Rightarrow> nat \<Rightarrow> nat \<Rightarrow> nat \<Rightarrow> nat \<Rightarrow> bool \<Rightarrow> bool \<Rightarrow> lock_state \<Rightarrow> lock_state" where
  "cut_state tgid ino pre rest n n2 a request added split s =
    (let N = (if added then [] else [n]);
         s = (if added then s else insert_copy tgid ino pre rest n request s);
         s = (if split then insert_copy tgid ino pre (N @ rest) n2 a s else s)
     in posix_cut_right a request s)"

lemma cut_state_sel:
  fixes tgid :: u32 and ino :: nat and pre rest :: "nat list" and added split :: bool
  assumes "n \<noteq> request" "n2 \<noteq> request" "n \<noteq> a" "n2 \<noteq> a" "n \<noteq> n2"
    "req_ok (seg_at s request)" "fl_end (fl_at s request) < fl_end (fl_at s a)" "seg_ok (seg_at s a)" "request \<noteq> a"
  defines "s3 \<equiv> cut_state tgid ino pre rest n n2 a request added split s"
  shows "i_flock s3 = (i_flock s)(ino := (if added \<and> \<not> split then i_flock s ino
      else pre @ (if split then [n2] else []) @ (if added then [] else [n]) @ rest))"
    "b \<noteq> a \<Longrightarrow> b \<noteq> n \<Longrightarrow> b \<noteq> n2 \<Longrightarrow> seg_at s3 b = seg_at s b"
    "seg_at s3 a = Seg (fl_end (fl_at s request) + 1) (fl_end (fl_at s a)) (fl_type (fl_at s a))"
    "\<not> added \<Longrightarrow> seg_at s3 n = seg_at s request" "split \<Longrightarrow> seg_at s3 n2 = seg_at s a"
proof -
  define s2 where "s2 = (let N = (if added then [] else [n]);
         s = (if added then s else insert_copy tgid ino pre rest n request s)
     in if split then insert_copy tgid ino pre (N @ rest) n2 a s else s)"
  have s3: "s3 = posix_cut_right a request s2" by (simp add: s3_def cut_state_def s2_def Let_def)
  have at2: "seg_at s2 b = seg_at s b" if "b \<noteq> n" "b \<noteq> n2" for b using that by (simp add: s2_def Let_def)
  have eqs: "seg_at s2 request = seg_at s request" "seg_at s2 a = seg_at s a" using assms(1-5) by (auto intro: at2)
  have ends: "fl_end (fl_at s2 request) = fl_end (fl_at s request)" "fl_end (fl_at s2 a) = fl_end (fl_at s a)"
    "fl_type (fl_at s2 a) = fl_type (fl_at s a)" using eqs by (simp_all add: seg_of_def)
  have cut: "seg_at s3 b = (if b = a then Seg (fl_end (fl_at s request) + 1) (fl_end (fl_at s a)) (fl_type (fl_at s a))
      else seg_at s2 b)" for b
    using cut_right_seg [of s2 request a b] assms(6-8) unfolding s3 eqs ends by blast
  show "i_flock s3 = (i_flock s)(ino := (if added \<and> \<not> split then i_flock s ino
      else pre @ (if split then [n2] else []) @ (if added then [] else [n]) @ rest))"
    by (simp add: s3 s2_def Let_def)
  show "b \<noteq> a \<Longrightarrow> b \<noteq> n \<Longrightarrow> b \<noteq> n2 \<Longrightarrow> seg_at s3 b = seg_at s b" by (simp add: cut at2)
  show "seg_at s3 a = Seg (fl_end (fl_at s request) + 1) (fl_end (fl_at s a)) (fl_type (fl_at s a))" by (simp add: cut)
  show "\<not> added \<Longrightarrow> seg_at s3 n = seg_at s request" using assms(3,5) by (simp add: cut) (simp add: s2_def Let_def)
  show "split \<Longrightarrow> seg_at s3 n2 = seg_at s a" using assms(3,4) by (simp add: cut) (simp add: s2_def Let_def)
qed

lemma install_right:
  fixes tgid :: u32
  assumes J: "walk_inv s0 ino pre0 post s P (a # xs) request added0 left0"
    and stop: "walk_stop s (a # xs) request added0 left0 added left (Some a)"
    and n: "n \<notin> set (i_flock s ino)" "n2 \<notin> set (i_flock s ino)" "n \<noteq> request" "n2 \<noteq> request" "n \<noteq> n2"
  defines "split \<equiv> left = Some a"
  defines "Q \<equiv> P @ (if split then [n2] else []) @ (if added then [] else [n]) @ a # xs"
    and "s' \<equiv> posix_cut_left (if split then Some n2 else left) request
      (cut_state tgid ino (pre0 @ P) (a # xs @ post) n n2 a request added split s)"
  shows "i_flock s' ino = pre0 @ Q @ post" "map (seg_at s') Q = pending s P (a # xs) request added0 left0"
proof -
  define s3 where "s3 = cut_state tgid ino (pre0 @ P) (a # xs @ post) n n2 a request added split s"
  define lf where "lf = (if split then Some n2 else left)"
  note j = walk_inv_Cons [OF J]
  have t: "fl_type (fl_at s request) \<noteq> fl_type (fl_at s a)" "fl_start (fl_at s a) \<le> fl_end (fl_at s request)"
    "fl_start (fl_at s request) \<le> fl_end (fl_at s a)" "fl_end (fl_at s request) < fl_end (fl_at s a)"
    "added = (if fl_type (fl_at s request) = F_UNLCK then True else added0)"
    "left = (if fl_start (fl_at s a) < fl_start (fl_at s request) then Some a else left0)"
    using stop by (simp_all add: walk_stop_def)
  have left0: "left0 \<noteq> Some a" using walk_inv_left(2) [OF J, of a] by auto
  then have sp: "split \<longleftrightarrow> fl_start (fl_at s a) < fl_start (fl_at s request)" using t(6) by (auto simp: split_def)
  have notin: "n \<notin> set P" "n2 \<notin> set P" "n \<noteq> a" "n2 \<noteq> a" "n \<notin> set xs" "n2 \<notin> set xs" using n(1,2) j(1) by auto
  note c = cut_state_sel [OF n(3,4) notin(3,4) n(5) j(9) t(4) j(6,11),
      where tgid = tgid and ino = ino and pre = "pre0 @ P" and rest = "a # xs @ post" and added = added and split = split,
      folded s3_def]
  have at3: "seg_at s3 b = seg_at s b" if "b \<in> set P \<or> b \<in> set xs \<or> b = request" for b
    using that notin n(3,4) j(2,11) by (intro c(2)) auto
  have rq: "seg_at s3 request = seg_at s request" using at3 by blast
  have start: "fl_start (fl_at s3 request) = fl_start (fl_at s request)" using rq by (simp add: seg_of_def)
  have seg: "seg_at s' b = trim s3 request lf b" for b
    unfolding s'_def s3_def [symmetric] lf_def [symmetric] using rq j(9) by (intro cut_left_seg) simp
  have nosplit: "lf = left0" if "\<not> split" using that sp t(6) by (simp add: lf_def)
  have left0_none: "left0 = None" if split using j(13) that sp by force
  have xs: "map (seg_at s') xs = map (seg_at s) xs"
  proof (rule map_cong [OF refl])
    fix b assume b: "b \<in> set xs"
    have "lf \<noteq> Some b" using b notin(6) walk_inv_left(2) [OF J, of b] nosplit by (auto simp: lf_def)
    then show "seg_at s' b = seg_at s b" using at3 b by (simp add: seg trim_noneI)
  qed
  have P: "map (seg_at s') P = map (trim s request left0) P"
  proof (rule map_cong [OF refl])
    fix b assume b: "b \<in> set P"
    show "seg_at s' b = trim s request left0 b"
    proof (cases split)
      case True
      then have "lf \<noteq> Some b" "left0 \<noteq> Some b" using b notin(2) left0_none by (auto simp: lf_def)
      then show ?thesis using at3 b by (simp add: seg trim_noneI)
    next
      case False
      then show ?thesis unfolding seg nosplit [OF False] using at3 b start by (intro trim_cong) auto
    qed
  qed
  have "lf \<noteq> Some a" "lf \<noteq> Some n"
    using notin n(5) left0 walk_inv_left(1) [OF J, of n] nosplit by (auto simp: lf_def)
  then have a: "seg_at s' a = Seg (fl_end (fl_at s request) + 1) (fl_end (fl_at s a)) (fl_type (fl_at s a))"
    and N: "\<not> added \<Longrightarrow> seg_at s' n = seg_at s request" using c(3,4) by (simp_all add: seg trim_noneI)
  have n2: "seg_at s' n2 = Seg (fl_start (fl_at s a)) (fl_start (fl_at s request) - 1) (fl_type (fl_at s a))" if split
    unfolding seg using c(5) that start by (simp add: trim_def lf_def seg_of_def)
  show "i_flock s' ino = pre0 @ Q @ post"
    unfolding s'_def s3_def [symmetric] using c(1) j(1) by (simp add: Q_def)
  have passed: "map (trim s request left0) P @ (if added then [] else [seg_at s request]) =
      map (trim s request left0) (kept s request added0 P) @ put_seg (seg_at s request) []"
    using passed_segs [OF J] t(5) by (simp split: if_splits)
  show "map (seg_at s') Q = pending s P (a # xs) request added0 left0"
  proof (cases split)
    case True
    have ni: "\<not> installed s request added0" using j(12) True sp by (intro notI) (simp only: if_True, force)
    then have K: "kept s request added0 P = P" by (simp add: kept_def)
    have "(if added then [] else [seg_at s request]) = put_seg (seg_at s request) []" using passed K by simp
    then have "map (seg_at s') (if added then [] else [n]) = put_seg (seg_at s request) []" using N by (simp split: if_splits)
    then show ?thesis
      using True sp t n2 a P xs K by (simp add: Q_def pending_def put_seg_def split: if_splits)
  next
    case False
    have "map (seg_at s') Q = (map (trim s request left0) P @ (if added then [] else [seg_at s request])) @
        Seg (fl_end (fl_at s request) + 1) (fl_end (fl_at s a)) (fl_type (fl_at s a)) # map (seg_at s) xs"
      using False P N a xs by (simp add: Q_def)
    also have "\<dots> = pending s P (a # xs) request added0 left0"
      unfolding passed pending_def using False sp t by (simp add: put_seg_def)
    finally show ?thesis .
  qed
qed

text \<open>What is left to install after the walk, put into the list.\<close>

lemma nothing_to_unlock:
  assumes J: "walk_inv s0 ino pre0 post s P own request added left" and "\<not> added" "fl_type (fl_at s request) = F_UNLCK"
    and stop: "set_range (seg_at s request) (map (seg_at s) own) = put_seg (seg_at s request) (map (seg_at s) own)"
  shows "map (seg_at s) (P @ own) = pending s P own request added left"
proof -
  have "left = None" using J assms(2,3) unfolding walk_inv_def by blast
  then show ?thesis
    using assms(2,3) stop by (simp add: pending_def kept_def installed_def put_seg_def trim_def)
qed

lemma posix_install_right:
  assumes "right = Some a" "\<not> (left = right \<and> new_fl2 = None)" "added \<or> fl_type (fl_at s request) \<noteq> F_UNLCK"
    "added \<or> new_fl \<noteq> None"
    and n: "added \<or> n = the new_fl" "left \<noteq> right \<or> n2 = the new_fl2"
  shows "posix_install tgid ino new_fl new_fl2 (s, pre, rest, request, added, left, right) =
    (0, posix_cut_left (if left = Some a then Some n2 else left) request
          (cut_state tgid ino pre rest n n2 a request added (left = Some a) s))"
  using assms by (cases added; cases "left = Some a") (auto simp: posix_install_alt cut_state_def Let_def)

lemma install_walk_result:
  assumes R: "walk_result s0 ino pre0 post segs (s, pre, rest, request, added, left, right)"
    and new: "\<And>n. new_fl = Some n \<or> new_fl2 = Some n \<Longrightarrow> n \<notin> set (i_flock s ino) \<and> n \<noteq> request" "new_fl = None \<or> new_fl \<noteq> new_fl2"
    and res: "posix_install tgid ino new_fl new_fl2 (s, pre, rest, request, added, left, right) = (e, s')" "e \<noteq> - ENOLCK"
  shows "\<exists>Q. i_flock s' ino = pre0 @ Q @ post \<and> map (seg_at s') Q = segs \<and> distinct (pre0 @ Q @ post) \<and>
    set Q \<subseteq> (set (i_flock s ino) - set pre0 - set post) \<union> set_option new_fl \<union> set_option new_fl2"
proof -
  obtain P own added0 left0 where pos: "pre = pre0 @ P" "rest = own @ post" and J: "walk_inv s0 ino pre0 post s P own request added0 left0"
    and segs: "pending s P own request added0 left0 = segs" and stop: "walk_stop s own request added0 left0 added left right"
    using R by (auto simp: walk_result_def)
  have list: "i_flock s ino = pre0 @ P @ own @ post" and d: "distinct (pre0 @ P @ own @ post)"
    using J by (simp_all add: walk_inv_def)
  have no: "\<not> (right \<noteq> None \<and> left = right \<and> new_fl2 = None)"
    "\<not> (\<not> added \<and> fl_type (fl_at s request) \<noteq> F_UNLCK \<and> new_fl = None)"
    using res by (auto simp: posix_install_alt split: if_splits)
  show ?thesis
  proof (cases right)
    case None
    have st: "added = added0" "left = left0" using stop None by (simp_all add: walk_stop_def)
    have sr: "set_range (seg_at s request) (map (seg_at s) own) = put_seg (seg_at s request) (map (seg_at s) own)"
      using stop None by (auto simp: walk_stop_def)
    show ?thesis
    proof (cases "\<not> added \<and> fl_type (fl_at s request) = F_UNLCK")
      case True
      then have "s' = s" using res None by (simp add: posix_install_alt)
      then show ?thesis
        using list d nothing_to_unlock [OF J _ _ sr] True st segs by (intro exI [of _ "P @ own"]) auto
    next
      case False
      define n where "n = the new_fl"
      have n: "\<not> added0 \<Longrightarrow> new_fl = Some n \<and> n \<notin> set (i_flock s ino) \<and> n \<noteq> request \<and> fl_type (fl_at s request) \<noteq> F_UNLCK"
        using no(2) False new(1) st by (auto simp: n_def)
      have s': "s' = posix_cut_left left0 request
          (if added0 then s else insert_copy tgid ino (pre0 @ P) (own @ post) n request s)"
        using res False no None st pos by (auto simp: posix_install_alt Let_def n_def split: if_splits)
      note r = install_no_right [OF J sr, of n tgid, folded s']
      show ?thesis
        using r n d segs list by (intro exI [of _ "P @ (if added0 then [] else [n]) @ own"]) auto
    qed
  next
    case (Some a)
    then obtain xs where own: "own = a # xs" using stop by (cases own) (auto simp: walk_stop_def)
    obtain k where k: "k \<notin> set (i_flock s ino) \<union> {request} \<union> set_option new_fl \<union> set_option new_fl2"
      using ex_new_if_finite [OF infinite_UNIV_nat, of "set (i_flock s ino) \<union> {request} \<union> set_option new_fl \<union> set_option new_fl2"]
      by auto
    obtain k2 where k2: "k2 \<notin> set (i_flock s ino) \<union> {request, k} \<union> set_option new_fl \<union> set_option new_fl2"
      using ex_new_if_finite [OF infinite_UNIV_nat, of "set (i_flock s ino) \<union> {request, k} \<union> set_option new_fl \<union> set_option new_fl2"]
      by auto
    define n where "n = (if added then k else the new_fl)"
    define n2 where "n2 = (if left = right then the new_fl2 else k2)"
    have un: "added \<or> fl_type (fl_at s request) \<noteq> F_UNLCK" using stop Some by (auto simp: walk_stop_def)
    have new_n: "added \<or> new_fl = Some n" "left \<noteq> right \<or> new_fl2 = Some n2" using no un Some by (auto simp: n_def n2_def)
    have fresh: "n \<notin> set (i_flock s ino)" "n2 \<notin> set (i_flock s ino)" "n \<noteq> request" "n2 \<noteq> request" "n \<noteq> n2"
      using k k2 new new_n by (auto simp: n_def n2_def split: if_splits)
    have "posix_install tgid ino new_fl new_fl2 (s, pre, rest, request, added, left, right) =
      (0, posix_cut_left (if left = Some a then Some n2 else left) request
            (cut_state tgid ino pre rest n n2 a request added (left = Some a) s))"
      by (rule posix_install_right [OF Some]) (use no un Some new_n in auto)
    then have s': "s' = posix_cut_left (if left = Some a then Some n2 else left) request
        (cut_state tgid ino (pre0 @ P) (a # xs @ post) n n2 a request added (left = Some a) s)"
      using res(1) unfolding pos own by simp
    define M where "M = (if left = Some a then [n2] else [])"
    define N where "N = (if added then [] else [n])"
    note r = install_right [OF J [unfolded own] stop [unfolded own Some] fresh, of tgid, folded s' M_def N_def]
    have MN: "set M \<subseteq> set_option new_fl2" "set N \<subseteq> set_option new_fl" "distinct (M @ N)"
      "set M \<inter> set (i_flock s ino) = {}" "set N \<inter> set (i_flock s ino) = {}"
      using new_n fresh Some by (auto simp: M_def N_def)
    have "distinct (pre0 @ (P @ M @ N @ a # xs) @ post)" using MN(3-5) d unfolding list own by auto
    moreover have "set (P @ M @ N @ a # xs) \<subseteq>
        (set (i_flock s ino) - set pre0 - set post) \<union> set_option new_fl \<union> set_option new_fl2"
      using MN(1,2) d unfolding list own by auto
    ultimately show ?thesis using r segs unfolding own by blast
  qed
qed

lemma install_failure:
  assumes R: "walk_result s0 ino pre0 post segs (s, pre, rest, request, added, left, right)"
    and res: "posix_install tgid ino new_fl new_fl2 (s, pre, rest, request, added, left, right) = (e, s')" "e \<noteq> 0"
  shows "s' = s0"
proof -
  obtain P own added0 left0 where J: "walk_inv s0 ino pre0 post s P own request added0 left0"
    and stop: "walk_stop s own request added0 left0 added left right"
    using R by (auto simp: walk_result_def)
  have bad: "right \<noteq> None \<and> left = right \<and> new_fl2 = None \<or> \<not> added \<and> (fl_type (fl_at s request) = F_UNLCK \<or> new_fl = None)"
  proof (rule ccontr)
    assume "\<not> ?thesis"
    then have "fst (posix_install tgid ino new_fl new_fl2 (s, pre, rest, request, added, left, right)) = 0"
      by (simp add: posix_install_alt Let_def split: option.split) blast
    then show False using res by simp
  qed
  then have "s' = s" using res(1) unfolding posix_install_alt by (elim if_eqE) auto
  moreover have "right \<noteq> None \<and> left = right \<or> \<not> added" using bad by blast
  moreover have "s = s0" if "\<not> added"
  proof -
    have "\<not> added0" using that stop by (cases right) (auto simp: walk_stop_def split: if_splits)
    moreover have "\<not> added0 \<longrightarrow> s = s0" using J unfolding walk_inv_def by blast
    ultimately show ?thesis by blast
  qed
  moreover have "s = s0" if r: "right = Some a" "left = right" for a
  proof -
    have own: "own \<noteq> []" "a = hd own" and l: "left = (if fl_start (fl_at s a) < fl_start (fl_at s request) then Some a else left0)"
      using stop r(1) by (simp_all add: walk_stop_def)
    have "a \<in> set own" using own by simp
    moreover have "left0 \<noteq> Some a" using walk_inv_left(2) [OF J, of a] \<open>a \<in> set own\<close> by blast
    ultimately have "fl_start (fl_at s a) < fl_start (fl_at s request)" using l r by (simp split: if_splits)
    moreover have "s = s0 \<or> (\<forall>b\<in>set own. fl_start (fl_at s request) < fl_start (fl_at s b))"
      using J unfolding walk_inv_def by blast
    ultimately show "s = s0" using \<open>a \<in> set own\<close> by force
  qed
  ultimately show ?thesis by blast
qed

section \<open>What the walk keeps\<close>

text \<open>A property of the state that the three operations of the walk keep.\<close>

lemma posix_walk_preserves:
  assumes "Pr s" "i_flock s ino = pre @ own @ post" "distinct (pre @ own @ post)" "request \<notin> set own" "A = insert request (set own)"
    and post: "\<And>s r. Pr s \<Longrightarrow> r \<in> A \<Longrightarrow> post \<noteq> [] \<Longrightarrow> \<not> posix_same_owner (fl_at s r) (fl_at s (hd post))"
    and merge: "\<And>s a r. Pr s \<Longrightarrow> a \<in> A \<Longrightarrow> r \<in> A \<Longrightarrow> a \<noteq> r \<Longrightarrow> a \<in> set (i_flock s ino) \<Longrightarrow>
      r = request \<or> r \<in> set (i_flock s ino) \<Longrightarrow>
      posix_same_owner (fl_at s r) (fl_at s a) \<Longrightarrow> fl_type (fl_at s r) = fl_type (fl_at s a) \<Longrightarrow> Pr (posix_merge a r s)"
    and delete: "\<And>s pre a rest. Pr s \<Longrightarrow> i_flock s ino = pre @ a # rest \<Longrightarrow> distinct (pre @ a # rest) \<Longrightarrow> a \<in> A \<Longrightarrow>
      Pr (locks_delete_lock ino pre a rest s)"
    and replace: "\<And>s a r. Pr s \<Longrightarrow> a \<in> A \<Longrightarrow> r \<in> A \<Longrightarrow> a \<noteq> r \<Longrightarrow> a \<in> set (i_flock s ino) \<Longrightarrow> Pr (posix_replace a r s)"
  shows "Pr (fst (posix_walk ino s pre (own @ post) request added left))"
proof -
  have "Pr (fst (posix_walk ino s pre (own @ post) r added left))"
    if "Pr s" "i_flock s ino = pre @ own @ post" "distinct (pre @ own @ post)" "r \<notin> set own" "r = request \<or> r \<in> set pre" "r \<in> A"
      "set own \<subseteq> A"
    for s r
    using that
  proof (induction own arbitrary: s pre r added left)
    case Nil
    then show ?case using post [OF Nil(1,6)] by (cases post) (simp_all add: Let_def)
  next
    case (Cons a own)
    have a: "a \<in> A" "a \<noteq> r" "a \<in> set (i_flock s ino)" "r = request \<or> r \<in> set (i_flock s ino)" using Cons.prems by auto
    have skip: "Pr (fst (posix_walk ino s (pre @ [a]) (own @ post) r added' left'))" for added' left'
      using Cons.prems by (intro Cons.IH) auto
    have next1: "Pr (fst (posix_walk ino s' (pre @ [a]) (own @ post) a True left'))"
      if "Pr s'" "i_flock s' ino = i_flock s ino" for s' left'
      using that Cons.prems by (intro Cons.IH) auto
    have next2: "Pr (fst (posix_walk ino (locks_delete_lock ino pre a (own @ post) s') pre (own @ post) r added' left'))"
      if "Pr s'" "i_flock s' ino = i_flock s ino" for s' added' left'
      using that Cons.prems by (intro Cons.IH delete) auto
    have m: "Pr (posix_merge a r s)"
      if "posix_same_owner (fl_at s r) (fl_at s a)" "fl_type (fl_at s r) = fl_type (fl_at s a)"
      using that a Cons.prems by (intro merge) auto
    have im: "i_flock (posix_merge a r s) ino = i_flock s ino" using posix_merge_at(1) [OF a(2)] by simp
    have rp: "Pr (posix_replace a r s)" using a Cons.prems by (intro replace) auto
    have ir: "i_flock (posix_replace a r s) ino = i_flock s ino" by (simp add: posix_replace_def Let_def)
    show ?case
      using skip next1 next2 m im rp ir Cons.prems(1) by (simp add: Let_def)
  qed
  then show ?thesis using assms(1-5) by auto
qed

end
