(* ===== verification/LockList.thy ===== *)
theory LockList
  imports LockPosix
begin

text \<open>
  The list of locks of an inode: leases first, then locks of whole files, then byte ranges grouped by owner, with
  the ranges of each owner well-formed. On such a list \<open>__posix_lock_file\<close> changes the ranges of the owner of the
  request as \<open>set_range\<close> does, leaves those of other owners alone, and keeps the list well-formed.
\<close>

section \<open>Grouped lists\<close>

fun grouped :: "'a list \<Rightarrow> bool" where
  "grouped [] = True"
| "grouped (k # ks) = ((k \<in> set ks \<longrightarrow> hd ks = k) \<and> grouped ks)"

lemma grouped_append:
  "grouped (xs @ ys) \<longleftrightarrow> grouped xs \<and> grouped ys \<and> (\<forall>k \<in> set xs \<inter> set ys. last xs = k \<and> hd ys = k)"
proof (induction xs)
  case (Cons x xs)
  show ?case
  proof (cases "xs = []")
    case True
    then show ?thesis by auto
  next
    case False
    have "hd xs \<in> set xs" "last xs \<in> set xs" using False by simp_all
    then have "x \<in> set ys \<Longrightarrow> \<forall>k \<in> set xs \<inter> set ys. last xs = k \<and> hd ys = k \<Longrightarrow>
        hd xs = x \<longleftrightarrow> (x \<in> set xs \<longrightarrow> hd xs = x) \<and> last xs = x \<and> hd ys = x" by auto
    then show ?thesis using False Cons.IH by (cases "x \<in> set ys") (auto simp: hd_append)
  qed
qed simp

lemma grouped_replicate: "grouped (replicate n k)"
proof (induction n)
  case (Suc n)
  then show ?case by (cases n) simp_all
qed simp

lemma grouped_same: "\<forall>x\<in>set xs. x = k \<Longrightarrow> grouped xs"
  using grouped_replicate [of "length xs" k] replicate_length_same [of xs k] by metis

text \<open>Exchanging the group of a key.\<close>

lemma grouped_exchange:
  assumes "grouped (p @ g @ q)" "k \<notin> set p \<union> set q" "\<forall>x\<in>set g \<union> set g'. x = k" "g = [] \<Longrightarrow> q = []"
  shows "grouped (p @ g' @ q)"
proof (cases "g = []")
  case True
  then show ?thesis using assms grouped_same [of g' k] by (auto simp: grouped_append)
next
  case False
  have g: "grouped p" "grouped (g @ q)" "\<forall>x \<in> set p \<inter> set (g @ q). hd (g @ q) = x"
    using assms(1) by (auto simp: grouped_append [of p])
  have "hd (g @ q) = k" using False assms(3) by (cases g) auto
  then have pq: "set p \<inter> set q = {}" using g(3) assms(2) unfolding set_append disjoint_iff by (metis IntI UnCI)
  moreover have "grouped q" using g(2) by (simp add: grouped_append)
  moreover have "set g' \<inter> set q = {}" "set p \<inter> set g' = {}" using assms(2,3) by fastforce+
  moreover have "grouped g'" using assms(3) by (intro grouped_same) blast
  ultimately show ?thesis using g(1) unfolding grouped_append set_append Int_Un_distrib by blast
qed

lemma grouped_dropWhile:
  assumes "grouped (map f xs)" "\<forall>x\<in>set xs. P x \<longleftrightarrow> f x = k"
  shows "\<exists>q. dropWhile (\<lambda>x. \<not> P x) xs = filter P xs @ q \<and> (\<forall>x\<in>set q. \<not> P x)"
  using assms
proof (induction xs)
  case (Cons x xs)
  show ?case
  proof (cases "P x")
    case True
    have "\<exists>q. xs = filter P xs @ q \<and> (\<forall>x\<in>set q. \<not> P x)"
    proof (cases "\<exists>y\<in>set xs. P y")
      case ex: True
      then have "hd (map f xs) = k" "xs \<noteq> []" using Cons.prems True by force+
      then have "P (hd xs)" using Cons.prems(2) by (simp add: hd_map)
      then have "dropWhile (\<lambda>x. \<not> P x) xs = xs" using \<open>xs \<noteq> []\<close> by (cases xs) auto
      then show ?thesis using Cons by auto
    next
      case False
      then show ?thesis by (intro exI [of _ xs]) auto
    qed
    then show ?thesis using True by auto
  next
    case False
    then show ?thesis using Cons by auto
  qed
qed simp

section \<open>The list of an inode\<close>

definition one_kind :: "file_lock \<Rightarrow> bool" where
  "one_kind fl \<longleftrightarrow> (IS_POSIX fl \<and> \<not> IS_FLOCK fl \<and> \<not> IS_LEASE fl) \<or> (\<not> IS_POSIX fl \<and> IS_FLOCK fl \<and> \<not> IS_LEASE fl) \<or>
     (\<not> IS_POSIX fl \<and> \<not> IS_FLOCK fl \<and> IS_LEASE fl)"

definition fl_rank :: "file_lock \<Rightarrow> nat" where
  "fl_rank fl = (if IS_POSIX fl then 2 else if IS_FLOCK fl then 1 else 0)"

definition mine :: "lock_state \<Rightarrow> nat \<Rightarrow> nat \<Rightarrow> bool" where
  "mine s own a \<longleftrightarrow> IS_POSIX (fl_at s a) \<and> fl_owner (fl_at s a) = own"

definition locks_of :: "lock_state \<Rightarrow> nat \<Rightarrow> nat \<Rightarrow> nat list" where
  "locks_of s ino own = filter (mine s own) (i_flock s ino)"

definition list_ok :: "lock_state \<Rightarrow> nat \<Rightarrow> bool" where
  "list_ok s ino \<longleftrightarrow> distinct (i_flock s ino) \<and> (\<forall>a\<in>set (i_flock s ino). one_kind (fl_at s a)) \<and>
     sorted (map (\<lambda>a. fl_rank (fl_at s a)) (i_flock s ino)) \<and>
     grouped (map (\<lambda>a. fl_owner (fl_at s a)) (filter (\<lambda>a. IS_POSIX (fl_at s a)) (i_flock s ino))) \<and>
     (\<forall>own. segs_ok (map (seg_at s) (locks_of s ino own)))"

text \<open>The byte-range locks are the end of the list.\<close>

lemma posix_suffix:
  assumes "sorted (map (\<lambda>a. fl_rank (fl_at s a)) xs)"
  shows "xs = filter (\<lambda>a. \<not> IS_POSIX (fl_at s a)) xs @ filter (\<lambda>a. IS_POSIX (fl_at s a)) xs"
  using assms
proof (induction xs)
  case (Cons x xs)
  show ?case
  proof (cases "IS_POSIX (fl_at s x)")
    case True
    have "IS_POSIX (fl_at s y)" if "y \<in> set xs" for y
    proof -
      have "fl_rank (fl_at s x) \<le> fl_rank (fl_at s y)" using Cons.prems that by simp
      then show ?thesis using True by (simp add: fl_rank_def split: if_splits)
    qed
    then show ?thesis using True by (simp add: filter_empty_conv)
  next
    case False
    then show ?thesis using Cons by simp
  qed
qed simp

lemma posix_split:
  assumes "list_ok s ino"
  obtains post where "i_flock s ino = takeWhile (\<lambda>a. \<not> mine s own a) (i_flock s ino) @ locks_of s ino own @ post"
    "dropWhile (\<lambda>a. \<not> mine s own a) (i_flock s ino) = locks_of s ino own @ post"
    "\<forall>a\<in>set post. IS_POSIX (fl_at s a) \<and> fl_owner (fl_at s a) \<noteq> own" "locks_of s ino own = [] \<Longrightarrow> post = []"
proof -
  define G where "G = filter (\<lambda>a. IS_POSIX (fl_at s a)) (i_flock s ino)"
  define F where "F = filter (\<lambda>a. \<not> IS_POSIX (fl_at s a)) (i_flock s ino)"
  have FG: "i_flock s ino = F @ G" unfolding F_def G_def
    by (rule posix_suffix) (use assms in \<open>simp add: list_ok_def\<close>)
  have F: "\<forall>a\<in>set F. \<not> mine s own a" by (simp add: F_def mine_def)
  have gr: "grouped (map (\<lambda>a. fl_owner (fl_at s a)) G)" using assms by (simp add: list_ok_def G_def)
  have mine: "\<forall>a\<in>set G. mine s own a \<longleftrightarrow> fl_owner (fl_at s a) = own" by (simp add: G_def mine_def)
  obtain q where q: "dropWhile (\<lambda>a. \<not> mine s own a) G = filter (mine s own) G @ q" "\<forall>a\<in>set q. \<not> mine s own a"
    using grouped_dropWhile [OF gr mine] by blast
  have of: "locks_of s ino own = filter (mine s own) G" using F by (simp add: locks_of_def FG filter_empty_conv)
  have drop: "dropWhile (\<lambda>a. \<not> mine s own a) (i_flock s ino) = locks_of s ino own @ q"
    using q(1) F by (simp add: FG of dropWhile_append2)
  have "set q \<subseteq> set G" using q(1) [symmetric] by (auto dest!: arg_cong [of _ _ set] dest: set_dropWhileD)
  then have "\<forall>a\<in>set q. IS_POSIX (fl_at s a) \<and> fl_owner (fl_at s a) \<noteq> own" using q(2) mine by (auto simp: G_def)
  moreover have "q = []" if "locks_of s ino own = []"
  proof -
    have "dropWhile (\<lambda>a. \<not> mine s own a) G = []" using that unfolding of by (simp add: filter_empty_conv)
    then show ?thesis using q(1) by simp
  qed
  moreover have "i_flock s ino = takeWhile (\<lambda>a. \<not> mine s own a) (i_flock s ino) @ locks_of s ino own @ q"
    unfolding drop [symmetric] by simp
  ultimately show ?thesis using that drop by blast
qed

section \<open>What changes\<close>

definition fl_ids :: "file_lock \<Rightarrow> nat \<times> u8 \<times> nat" where
  "fl_ids fl = (fl_owner fl, fl_flags fl, fl_file fl)"

text \<open>Only the new locks \<open>N\<close> get an owner, flags and a file, only the locks \<open>A\<close> and the new ones change otherwise, and
  only in the list of \<open>ino\<close>.\<close>

definition lock_frame :: "nat set \<Rightarrow> nat set \<Rightarrow> nat \<Rightarrow> lock_state \<Rightarrow> lock_state \<Rightarrow> bool" where
  "lock_frame N A ino s s' \<longleftrightarrow> (\<forall>b. b \<notin> N \<longrightarrow> fl_ids (fl_at s' b) = fl_ids (fl_at s b)) \<and>
     (\<forall>b. b \<notin> A \<union> N \<longrightarrow> core (fl_at s' b) = core (fl_at s b)) \<and>
     (\<forall>i. i \<noteq> ino \<longrightarrow> i_flock s' i = i_flock s i) \<and> fl_fresh s' = fl_fresh s"

lemma ids_core: "core x = core y \<Longrightarrow> fl_ids x = fl_ids y"
  by (auto simp: fl_ids_def dest: core_eqD)

lemma lock_frame_refl [simp]: "lock_frame N A ino s s"
  by (simp add: lock_frame_def)

lemma lock_frame_trans: "lock_frame N A ino s s' \<Longrightarrow> lock_frame N A ino s' s'' \<Longrightarrow> lock_frame N A ino s s''"
  by (simp add: lock_frame_def)

lemma lock_frame_mono: "lock_frame N A ino s s' \<Longrightarrow> N \<subseteq> N' \<Longrightarrow> A \<subseteq> A' \<Longrightarrow> lock_frame N' A' ino s s'"
  by (auto simp: lock_frame_def)

lemma frame_wake [simp]: "lock_frame N A ino s (locks_wake_up_blocks b s)"
  by (simp add: lock_frame_def ids_core [OF wake_sel(4)])

lemma frame_delete [simp]: "lock_frame N A ino s (locks_delete_lock ino pre a rest s)"
  by (simp add: lock_frame_def ids_core [OF delete_lock_sel(3)])

lemma frame_insert [simp]: "lock_frame N A ino s (locks_insert_lock tgid ino pre rest a s)"
  by (simp add: lock_frame_def ids_core [OF insert_lock_sel(3)])

lemma frame_upd_new: "a \<in> N \<Longrightarrow> lock_frame N A ino s (upd_fl a f s)"
  by (auto simp: lock_frame_def)

lemma frame_upd: "a \<in> A \<Longrightarrow> fl_ids (f (fl_at s a)) = fl_ids (fl_at s a) \<Longrightarrow> lock_frame N A ino s (upd_fl a f s)"
  by (auto simp: lock_frame_def)

lemma frame_merge: "a \<in> A \<Longrightarrow> r \<in> A \<Longrightarrow> lock_frame N A ino s (posix_merge a r s)"
  unfolding posix_merge_def Let_def
  by (auto simp: fl_ids_def intro!: frame_upd lock_frame_trans [OF frame_upd frame_upd])

lemma replace_list: "i_flock (posix_replace a r s) = i_flock s"
  by (simp add: posix_replace_def Let_def)

lemma frame_replace: "a \<in> A \<Longrightarrow> lock_frame N A ino s (posix_replace a r s)"
  unfolding posix_replace_def Let_def by (rule lock_frame_trans [OF frame_wake frame_upd]) (simp_all add: fl_ids_def)

lemma frame_insert_copy: "n \<in> N \<Longrightarrow> lock_frame N A ino s (insert_copy tgid ino pre rest n a s)"
  unfolding insert_copy_def by (rule lock_frame_trans [OF frame_upd_new frame_insert])

lemma frame_cut_left:
  assumes "\<And>l. left = Some l \<Longrightarrow> l \<in> A \<union> N"
  shows "lock_frame N A ino s (posix_cut_left left r s)"
proof (cases left)
  case (Some l)
  have "lock_frame N A ino s (upd_fl l (fl_end_update (\<lambda>_. s64 (fl_start (fl_at s r) - 1))) s)"
    using assms [OF Some] by (auto intro: frame_upd_new frame_upd simp: fl_ids_def)
  then show ?thesis by (simp add: posix_cut_left_def Some lock_frame_trans [OF _ frame_wake])
qed (simp add: posix_cut_left_def)

lemma frame_cut_right: "a \<in> A \<Longrightarrow> lock_frame N A ino s (posix_cut_right a r s)"
  unfolding posix_cut_right_def by (rule lock_frame_trans [OF frame_upd frame_wake]) (simp_all add: fl_ids_def)

lemma frame_owner: "lock_frame {} A ino s s' \<Longrightarrow> fl_owner (fl_at s' b) = fl_owner (fl_at s b)"
  by (simp add: lock_frame_def fl_ids_def)

lemma posix_walk_frame:
  assumes "i_flock s ino = pre @ own @ post" "distinct (pre @ own @ post)" "request \<notin> set own"
    and owner: "\<forall>a\<in>set own. fl_owner (fl_at s a) = fl_owner (fl_at s request)"
      "post = [] \<or> fl_owner (fl_at s (hd post)) \<noteq> fl_owner (fl_at s request)"
  defines "A \<equiv> insert request (set own)"
  shows "lock_frame {} A ino s (fst (posix_walk ino s pre (own @ post) request added left)) \<and>
    set (i_flock (fst (posix_walk ino s pre (own @ post) request added left)) ino) \<subseteq> set (i_flock s ino)"
proof (rule posix_walk_preserves [where Pr = "\<lambda>s'. lock_frame {} A ino s s' \<and> set (i_flock s' ino) \<subseteq> set (i_flock s ino)" and A = A,
      OF _ assms(1-3)])
  show "\<not> posix_same_owner (fl_at s' r) (fl_at s' (hd post))"
    if "lock_frame {} A ino s s' \<and> set (i_flock s' ino) \<subseteq> set (i_flock s ino)" "r \<in> A" "post \<noteq> []" for s' r
    using that owner by (auto simp: posix_same_owner_def frame_owner A_def)
qed (auto simp: A_def posix_merge_at replace_list intro: lock_frame_trans [OF _ frame_delete]
      lock_frame_trans [OF _ frame_merge] lock_frame_trans [OF _ frame_replace])

lemma ids_cut [simp]:
  "fl_ids (fl_at (posix_cut_left left r s) b) = fl_ids (fl_at s b)" "fl_ids (fl_at (posix_cut_right a r s) b) = fl_ids (fl_at s b)"
  "fl_ids (fl_at (insert_copy tgid ino pre rest n a s) b) = (if b = n then fl_ids (fl_at s a) else fl_ids (fl_at s b))"
  by (auto simp: fl_ids_def posix_cut_left_def posix_cut_right_def insert_copy_def split: option.split)

lemma install_cases:
  assumes "posix_install tgid ino new_fl new_fl2 (s, pre, rest, request, added, left, right) = (e, s')"
  obtains "s' = s"
    | "right = None" "added \<or> new_fl \<noteq> None"
      "s' = posix_cut_left left request (if added then s else insert_copy tgid ino pre rest (the new_fl) request s)"
    | r n where "right = Some r" "left = Some r" "new_fl2 = Some n" "added \<or> new_fl \<noteq> None"
      "s' = posix_cut_left (Some n) request (posix_cut_right r request
         (insert_copy tgid ino pre ((if added then [] else [the new_fl]) @ rest) n r
           (if added then s else insert_copy tgid ino pre rest (the new_fl) request s)))"
    | r where "right = Some r" "left \<noteq> right" "added \<or> new_fl \<noteq> None"
      "s' = posix_cut_left left request (posix_cut_right r request
         (if added then s else insert_copy tgid ino pre rest (the new_fl) request s))"
proof -
  define s1 where "s1 = (if added then s else insert_copy tgid ino pre rest (the new_fl) request s)"
  show ?thesis
    using assms that unfolding posix_install_alt s1_def [symmetric] Let_def
    by (elim if_eqE) (auto split: option.splits if_splits)
qed

text \<open>The locks that are cut are locks of the owner, and the new ones are copies of the request or of such a lock.\<close>

lemma install_frame:
  assumes R: "walk_result s0 ino pre0 post segs (s, pre, rest, request, added, left, right)"
    and res: "posix_install tgid ino new_fl new_fl2 (s, pre, rest, request, added, left, right) = (e, s')"
    and new: "new_fl = None \<or> new_fl \<noteq> new_fl2" "\<And>n. new_fl = Some n \<or> new_fl2 = Some n \<Longrightarrow> n \<notin> set (i_flock s ino) \<and> n \<noteq> request"
    and A: "set (i_flock s ino) - set pre0 - set post \<subseteq> A"
  shows "lock_frame (set_option new_fl \<union> set_option new_fl2) A ino s s'"
    "b \<in> set_option new_fl \<union> set_option new_fl2 \<Longrightarrow> b \<in> set (i_flock s' ino) \<Longrightarrow>
      \<exists>c\<in>insert request A. fl_ids (fl_at s' b) = fl_ids (fl_at s c)"
proof -
  let ?N = "set_option new_fl \<union> set_option new_fl2"
  obtain P own added0 left0 where J: "walk_inv s0 ino pre0 post s P own request added0 left0"
    and pos: "pre = pre0 @ P" "rest = own @ post" and stop: "walk_stop s own request added0 left0 added left right"
    using R by (auto simp: walk_result_def)
  have list: "i_flock s ino = pre0 @ P @ own @ post" and d: "distinct (pre0 @ P @ own @ post)"
    using J by (simp_all add: walk_inv_def)
  have PA: "set P \<union> set own \<subseteq> A" using A d unfolding list by auto
  have left0: "left0 = Some l \<Longrightarrow> l \<in> A" for l using walk_inv_left(1) [OF J] PA by blast
  have rt: "r \<in> A \<and> r \<in> set (i_flock s ino)" if "right = Some r" for r
    using stop that PA list by (cases own) (auto simp: walk_stop_def)
  have lt: "l \<in> A" if "left = Some l" for l
    using stop that left0 rt by (cases right) (auto simp: walk_stop_def split: if_splits)
  define s1 where "s1 = (if added then s else insert_copy tgid ino pre rest (the new_fl) request s)"
  have f1: "lock_frame ?N A ino s s1" if "added \<or> new_fl \<noteq> None"
    using that by (auto simp: s1_def intro!: frame_insert_copy)
  have s1b: "\<exists>c\<in>insert request A. fl_ids (fl_at s1 b) = fl_ids (fl_at s c)"
    if "b \<in> ?N" "b \<in> set (i_flock s1 ino)" for b
    using that new(2) [of b] pos by (auto simp: s1_def list split: if_splits)
  define rest' where "rest' = (if added then [] else [the new_fl]) @ rest"
  from install_cases [OF res]
  consider (same) "s' = s"
    | (none) "right = None" "added \<or> new_fl \<noteq> None" "s' = posix_cut_left left request s1"
    | (split) r n where "right = Some r" "left = Some r" "new_fl2 = Some n" "added \<or> new_fl \<noteq> None"
        "s' = posix_cut_left (Some n) request (posix_cut_right r request (insert_copy tgid ino pre rest' n r s1))"
    | (cut) r where "right = Some r" "left \<noteq> right" "added \<or> new_fl \<noteq> None"
        "s' = posix_cut_left left request (posix_cut_right r request s1)"
    unfolding s1_def rest'_def by blast
  then have "lock_frame ?N A ino s s' \<and>
    (\<forall>b\<in>?N. b \<in> set (i_flock s' ino) \<longrightarrow> (\<exists>c\<in>insert request A. fl_ids (fl_at s' b) = fl_ids (fl_at s c)))"
  proof cases
    case same
    then show ?thesis using new(2) by auto
  next
    case none
    have "lock_frame ?N A ino s s'"
      unfolding none(3) using lt by (intro lock_frame_trans [OF f1 [OF none(2)] frame_cut_left]) blast
    then show ?thesis using s1b none(3) by simp
  next
    case split
    have n: "n \<in> ?N" and r: "r \<in> A" "r \<in> set (i_flock s ino)" using split(1,3) rt by auto
    let ?s2 = "insert_copy tgid ino pre rest' n r s1" and ?s3 = "posix_cut_right r request (insert_copy tgid ino pre rest' n r s1)"
    have "lock_frame ?N A ino s1 ?s2" using n by (rule frame_insert_copy)
    moreover have "lock_frame ?N A ino ?s2 ?s3" using r(1) by (rule frame_cut_right)
    moreover have "lock_frame ?N A ino ?s3 s'" unfolding split(5) using n by (intro frame_cut_left) auto
    ultimately have "lock_frame ?N A ino s s'" using f1 [OF split(4)] lock_frame_trans by blast
    moreover have "\<exists>c\<in>insert request A. fl_ids (fl_at s' b) = fl_ids (fl_at s c)" if b: "b \<in> ?N" "b \<in> set (i_flock s' ino)" for b
    proof (cases "b = n")
      case True
      have "fl_ids (fl_at s1 r) = fl_ids (fl_at s r)" using new(2) [of "the new_fl"] r(2) split(4) by (auto simp: s1_def)
      then show ?thesis using True r(1) unfolding split(5) by auto
    next
      case False
      then have "b \<in> set (i_flock s1 ino)" using b(2) pos unfolding split(5) by (auto simp: s1_def rest'_def list)
      then show ?thesis using s1b b(1) False unfolding split(5) by auto
    qed
    ultimately show ?thesis by blast
  next
    case cut
    have "lock_frame ?N A ino s1 (posix_cut_right r request s1)" using rt [OF cut(1)] by (intro frame_cut_right) blast
    moreover have "lock_frame ?N A ino (posix_cut_right r request s1) s'" unfolding cut(4) using lt by (intro frame_cut_left) blast
    ultimately have "lock_frame ?N A ino s s'" using f1 [OF cut(3)] lock_frame_trans by blast
    then show ?thesis using s1b cut(4) by simp
  qed
  then show "lock_frame ?N A ino s s'"
    "b \<in> ?N \<Longrightarrow> b \<in> set (i_flock s' ino) \<Longrightarrow> \<exists>c\<in>insert request A. fl_ids (fl_at s' b) = fl_ids (fl_at s c)" by blast+
qed

text \<open>The request is itself or a lock of the owner.\<close>

lemma walk_request: "fst (snd (snd (snd (posix_walk ino s pre rest request added left)))) \<in> insert request (set rest)"
proof (induction rest arbitrary: s pre request added left)
  case (Cons a rest)
  have "fst (snd (snd (snd (posix_walk ino s' pre' rest r added' left')))) \<in> insert request (set (a # rest))"
    if "r = request \<or> r = a" for s' pre' r added' left'
    using Cons.IH [of s' pre' r added' left'] that by auto
  then show ?case by (simp add: Let_def del: set_simps)
qed simp

lemma mine_ids: "fl_ids (fl_at s' b) = fl_ids (fl_at s c) \<Longrightarrow> mine s' own b = mine s own c"
  by (simp add: mine_def fl_ids_def IS_POSIX_def)

lemma kind_ids:
  "fl_ids x = fl_ids y \<Longrightarrow> one_kind x = one_kind y" "fl_ids x = fl_ids y \<Longrightarrow> fl_rank x = fl_rank y"
  "fl_ids x = fl_ids y \<Longrightarrow> IS_POSIX x = IS_POSIX y" "fl_ids x = fl_ids y \<Longrightarrow> fl_owner x = fl_owner y"
  by (simp_all add: fl_ids_def one_kind_def fl_rank_def IS_POSIX_def IS_FLOCK_def IS_LEASE_def)

lemma seg_core: "core x = core y \<Longrightarrow> seg_of x = seg_of y"
  by (auto simp: seg_of_def dest: core_eqD)

text \<open>The list in which the locks of an owner are exchanged for others.\<close>

lemma list_ok_exchange:
  assumes ok: "list_ok s ino" and list: "i_flock s ino = pre0 @ locks_of s ino own @ post" "i_flock s' ino = pre0 @ Q @ post"
    and d: "distinct (pre0 @ Q @ post)"
    and others: "\<And>b. b \<in> set pre0 \<union> set post \<Longrightarrow> core (fl_at s' b) = core (fl_at s b)"
    and not_mine: "\<And>b. b \<in> set pre0 \<Longrightarrow> \<not> mine s own b"
      "\<And>b. b \<in> set post \<Longrightarrow> IS_POSIX (fl_at s b) \<and> fl_owner (fl_at s b) \<noteq> own" "locks_of s ino own = [] \<Longrightarrow> post = []"
    and Q: "\<And>b. b \<in> set Q \<Longrightarrow> mine s' own b \<and> one_kind (fl_at s' b)" "segs_ok (map (seg_at s') Q)"
  shows "locks_of s' ino own = Q" "own' \<noteq> own \<Longrightarrow> locks_of s' ino own' = locks_of s ino own'" "list_ok s' ino"
proof -
  have same: "mine s' w b = mine s w b" "one_kind (fl_at s' b) = one_kind (fl_at s b)" "fl_rank (fl_at s' b) = fl_rank (fl_at s b)"
      "IS_POSIX (fl_at s' b) = IS_POSIX (fl_at s b)" "fl_owner (fl_at s' b) = fl_owner (fl_at s b)" "seg_at s' b = seg_at s b"
    if "b \<in> set pre0 \<or> b \<in> set post" for b w
    using mine_ids [OF ids_core [OF others]] kind_ids [OF ids_core [OF others]] seg_core [OF others] that by blast+
  have pre: "filter (mine s' w) pre0 = filter (mine s w) pre0" "filter (mine s' w) post = filter (mine s w) post" for w
    using same(1) by (intro filter_cong refl, blast)+
  have post0: "filter (mine s own) post = []" "filter (mine s own) pre0 = []"
    using not_mine(1,2) unfolding filter_empty_conv mine_def by blast+
  have Qown: "filter (mine s' own) Q = Q" using Q(1) unfolding filter_id_conv by blast
  show own: "locks_of s' ino own = Q" by (simp add: locks_of_def list(2) pre post0 Qown)
  have Qo: "filter (mine s' w) Q = []" "filter (mine s w) (locks_of s ino own) = []" if "w \<noteq> own" for w
    using Q(1) that by (auto simp: filter_empty_conv mine_def locks_of_def)
  show other: "w \<noteq> own \<Longrightarrow> locks_of s' ino w = locks_of s ino w" for w
    unfolding locks_of_def [of s' ino w] locks_of_def [of s ino w] list filter_append pre using Qo by simp
  have Qp: "b \<in> set Q \<Longrightarrow> IS_POSIX (fl_at s' b) \<and> fl_owner (fl_at s' b) = own" for b using Q(1) by (simp add: mine_def)
  have kinds: "\<forall>a\<in>set (pre0 @ locks_of s ino own @ post). one_kind (fl_at s a)" and
    ranks: "sorted (map (\<lambda>a. fl_rank (fl_at s a)) (pre0 @ locks_of s ino own @ post))"
    using ok unfolding list_ok_def list(1) by blast+
  have ok': "\<forall>a\<in>set pre0 \<union> set post. one_kind (fl_at s a)" "sorted (map (\<lambda>a. fl_rank (fl_at s a)) pre0)"
    using kinds ranks unfolding set_append map_append sorted_append by blast+
  have "\<forall>a\<in>set (i_flock s' ino). one_kind (fl_at s' a)"
    using ok'(1) same(2) Q(1) unfolding list(2) set_append by blast
  moreover have "sorted (map (\<lambda>a. fl_rank (fl_at s' a)) (i_flock s' ino))"
  proof -
    have "map (\<lambda>a. fl_rank (fl_at s' a)) pre0 = map (\<lambda>a. fl_rank (fl_at s a)) pre0"
      using same(3) by (intro map_cong refl) blast
    moreover have "fl_rank (fl_at s' a) = 2" if "a \<in> set Q \<union> set post" for a
      using Qp [of a] not_mine(2) [of a] same(4) [of a] that by (auto simp: fl_rank_def)
    then have "map (\<lambda>a. fl_rank (fl_at s' a)) (Q @ post) = replicate (length (Q @ post)) 2"
      by (intro replicate_eqI) auto
    moreover have "\<forall>x\<in>set (map (\<lambda>a. fl_rank (fl_at s a)) pre0). x \<le> 2" by (auto simp: fl_rank_def)
    ultimately have "sorted (map (\<lambda>a. fl_rank (fl_at s' a)) pre0 @ map (\<lambda>a. fl_rank (fl_at s' a)) (Q @ post))"
      using ok'(2) unfolding sorted_append by (simp only: sorted_replicate set_replicate_conv_if) simp
    then show ?thesis unfolding list(2) by simp
  qed
  moreover have "grouped (map (\<lambda>a. fl_owner (fl_at s' a)) (filter (\<lambda>a. IS_POSIX (fl_at s' a)) (i_flock s' ino)))"
  proof -
    let ?p = "filter (\<lambda>a. IS_POSIX (fl_at s a)) pre0"
    have "filter (\<lambda>a. IS_POSIX (fl_at s' a)) pre0 = ?p" using same(4) by (intro filter_cong refl) blast
    moreover have "filter (\<lambda>a. IS_POSIX (fl_at s' a)) Q = Q" using Qp unfolding filter_id_conv by blast
    moreover have "filter (\<lambda>a. IS_POSIX (fl_at s' a)) post = post" using not_mine(2) same(4) unfolding filter_id_conv by blast
    ultimately have f: "filter (\<lambda>a. IS_POSIX (fl_at s' a)) (i_flock s' ino) = ?p @ Q @ post" by (simp add: list(2))
    have "filter (\<lambda>a. IS_POSIX (fl_at s a)) (locks_of s ino own) = locks_of s ino own"
      unfolding filter_id_conv by (simp add: locks_of_def mine_def)
    moreover have "filter (\<lambda>a. IS_POSIX (fl_at s a)) post = post" using not_mine(2) unfolding filter_id_conv by blast
    ultimately have "grouped (map (\<lambda>a. fl_owner (fl_at s a)) (?p @ locks_of s ino own @ post))"
      using ok unfolding list_ok_def list(1) filter_append by simp
    then have "grouped (map (\<lambda>a. fl_owner (fl_at s a)) ?p @ map (\<lambda>a. fl_owner (fl_at s' a)) Q @ map (\<lambda>a. fl_owner (fl_at s a)) post)"
      unfolding map_append
    proof (rule grouped_exchange [where k = own])
      show "own \<notin> set (map (\<lambda>a. fl_owner (fl_at s a)) ?p) \<union> set (map (\<lambda>a. fl_owner (fl_at s a)) post)"
        using not_mine(1,2) by (auto simp: mine_def)
      show "\<forall>x\<in>set (map (\<lambda>a. fl_owner (fl_at s a)) (locks_of s ino own)) \<union> set (map (\<lambda>a. fl_owner (fl_at s' a)) Q). x = own"
        using Qp by (auto simp: locks_of_def mine_def)
    qed (use not_mine(3) in simp)
    moreover have "map (\<lambda>a. fl_owner (fl_at s' a)) ?p = map (\<lambda>a. fl_owner (fl_at s a)) ?p"
      "map (\<lambda>a. fl_owner (fl_at s' a)) post = map (\<lambda>a. fl_owner (fl_at s a)) post"
      using same(5) by (intro map_cong refl, simp)+
    ultimately show ?thesis unfolding f map_append by (simp only:)
  qed
  moreover have "segs_ok (map (seg_at s') (locks_of s' ino w))" for w
  proof (cases "w = own")
    case False
    have "set (locks_of s ino w) \<inter> set (locks_of s ino own) = {}" using False by (auto simp: locks_of_def mine_def)
    moreover have "set (locks_of s ino w) \<subseteq> set (i_flock s ino)" by (auto simp: locks_of_def)
    ultimately have "set (locks_of s ino w) \<subseteq> set pre0 \<union> set post" unfolding list(1) set_append by blast
    then have "map (seg_at s') (locks_of s ino w) = map (seg_at s) (locks_of s ino w)"
      using same(6) by (intro map_cong refl) blast
    moreover have "segs_ok (map (seg_at s) (locks_of s ino w))" using ok unfolding list_ok_def by blast
    ultimately show ?thesis using other [OF False] by (simp only:)
  qed (use own Q(2) in simp)
  ultimately show "list_ok s' ino" using d by (simp add: list_ok_def list(2))
qed

section \<open>Applying a request\<close>

definition fresh_pair :: "lock_state \<Rightarrow> nat \<Rightarrow> nat \<Rightarrow> nat option \<Rightarrow> nat option \<Rightarrow> bool" where
  "fresh_pair s ino request new_fl new_fl2 \<longleftrightarrow> (new_fl = None \<or> new_fl \<noteq> new_fl2) \<and>
     (\<forall>n\<in>set_option new_fl \<union> set_option new_fl2. n \<notin> set (i_flock s ino) \<and> n \<noteq> request)"

definition request_ok :: "lock_state \<Rightarrow> nat \<Rightarrow> nat \<Rightarrow> bool" where
  "request_ok s ino request \<longleftrightarrow> request \<notin> set (i_flock s ino) \<and> req_ok (seg_at s request) \<and>
     IS_POSIX (fl_at s request) \<and> one_kind (fl_at s request)"

text \<open>The parts of \<open>posix_apply\<close>: the locks of the owner in the list, the walk over them, and the installation.\<close>

lemma posix_apply_parts:
  assumes ok: "list_ok s ino" and rq: "request_ok s ino request" and res: "posix_apply env ino request new_fl new_fl2 s = (e, s')"
  obtains pre0 post s1 pre1 rest1 request1 added1 left1 right1 where
    "i_flock s ino = pre0 @ locks_of s ino (fl_owner (fl_at s request)) @ post"
    "distinct (pre0 @ locks_of s ino (fl_owner (fl_at s request)) @ post)" "request \<notin> set (locks_of s ino (fl_owner (fl_at s request)))"
    "\<forall>a\<in>set (locks_of s ino (fl_owner (fl_at s request))). fl_owner (fl_at s a) = fl_owner (fl_at s request)"
    "post = [] \<or> fl_owner (fl_at s (hd post)) \<noteq> fl_owner (fl_at s request)"
    "\<forall>a\<in>set pre0. \<not> mine s (fl_owner (fl_at s request)) a"
    "\<forall>a\<in>set post. IS_POSIX (fl_at s a) \<and> fl_owner (fl_at s a) \<noteq> fl_owner (fl_at s request)"
    "locks_of s ino (fl_owner (fl_at s request)) = [] \<Longrightarrow> post = []"
    "posix_walk ino s pre0 (locks_of s ino (fl_owner (fl_at s request)) @ post) request False None =
       (s1, pre1, rest1, request1, added1, left1, right1)"
    "walk_result s ino pre0 post (set_range (seg_at s request) (map (seg_at s) (locks_of s ino (fl_owner (fl_at s request)))))
       (s1, pre1, rest1, request1, added1, left1, right1)"
    "posix_install (le_tgid env) ino new_fl new_fl2 (s1, pre1, rest1, request1, added1, left1, right1) = (e, s')"
proof -
  define own where "own = fl_owner (fl_at s request)"
  define pre0 where "pre0 = takeWhile (\<lambda>a. \<not> mine s own a) (i_flock s ino)"
  define L where "L = locks_of s ino own"
  obtain post where list: "i_flock s ino = pre0 @ L @ post" and drop: "dropWhile (\<lambda>a. \<not> mine s own a) (i_flock s ino) = L @ post"
    and post: "\<forall>a\<in>set post. IS_POSIX (fl_at s a) \<and> fl_owner (fl_at s a) \<noteq> own" "L = [] \<Longrightarrow> post = []"
    using posix_split [OF ok, of own] unfolding pre0_def L_def by blast
  have d: "distinct (pre0 @ L @ post)" using ok unfolding list_ok_def list by blast
  have r: "request \<notin> set (pre0 @ L @ post)" "req_ok (seg_at s request)" "mine s own request" "one_kind (fl_at s request)"
    using rq unfolding request_ok_def list mine_def own_def by blast+
  have Lm: "\<forall>a\<in>set L. mine s own a" by (simp add: L_def locks_of_def)
  have "segs_ok (map (seg_at s) L)" using ok unfolding list_ok_def L_def by blast
  moreover have hd_post: "post = [] \<or> fl_owner (fl_at s (hd post)) \<noteq> own" using post(1) by (cases post) auto
  ultimately have J: "walk_inv s ino pre0 post s [] L request False None"
    using list d r Lm unfolding walk_inv_def by (simp add: installed_def own_def [symmetric] mine_def)
  have pen: "pending s [] L request False None = set_range (seg_at s request) (map (seg_at s) L)"
    by (simp add: pending_def kept_def)
  obtain s1 pre1 rest1 request1 added1 left1 right1 where
    w: "posix_walk ino s pre0 (L @ post) request False None = (s1, pre1, rest1, request1, added1, left1, right1)"
    by (metis prod_cases7)
  have R: "walk_result s ino pre0 post (set_range (seg_at s request) (map (seg_at s) L)) (s1, pre1, rest1, request1, added1, left1, right1)"
    using posix_walk_result [OF J] unfolding pen by (simp add: w)
  have m: "(IS_POSIX (fl_at s fl) \<and> posix_same_owner (fl_at s request) (fl_at s fl)) = mine s own fl" for fl
    by (auto simp: mine_def own_def posix_same_owner_def)
  have "posix_apply env ino request new_fl new_fl2 s =
      posix_install (le_tgid env) ino new_fl new_fl2 (posix_walk ino s pre0 (L @ post) request False None)"
    unfolding posix_apply_def Let_def m pre0_def drop [symmetric] ..
  then have inst: "posix_install (le_tgid env) ino new_fl new_fl2 (s1, pre1, rest1, request1, added1, left1, right1) = (e, s')"
    using res w by simp
  have "\<forall>a\<in>set pre0. \<not> mine s own a" unfolding pre0_def by (auto dest: set_takeWhileD)
  moreover have "request \<notin> set L" "\<forall>a\<in>set L. fl_owner (fl_at s a) = fl_owner (fl_at s request)"
    using r(1) Lm by (simp_all add: mine_def own_def)
  ultimately show ?thesis using that list d hd_post post w R inst unfolding L_def own_def by blast
qed

theorem posix_apply_result:
  assumes ok: "list_ok s ino" and rq: "request_ok s ino request" and new: "fresh_pair s ino request new_fl new_fl2"
    and res: "posix_apply env ino request new_fl new_fl2 s = (e, s')"
  defines "own \<equiv> fl_owner (fl_at s request)" and "N \<equiv> set_option new_fl \<union> set_option new_fl2"
  shows "e \<noteq> 0 \<Longrightarrow> s' = s"
    and "e = 0 \<Longrightarrow> list_ok s' ino \<and>
      map (seg_at s') (locks_of s' ino own) = set_range (seg_at s request) (map (seg_at s) (locks_of s ino own)) \<and>
      (\<forall>w. w \<noteq> own \<longrightarrow> locks_of s' ino w = locks_of s ino w) \<and>
      lock_frame N (insert request (set (locks_of s ino own))) ino s s' \<and> set (i_flock s' ino) \<subseteq> set (i_flock s ino) \<union> N \<and>
      set (i_flock s' ino) \<inter> N \<subseteq> set (locks_of s' ino own)"
proof -
  define L where "L = locks_of s ino own"
  obtain pre0 post s1 pre1 rest1 request1 added1 left1 right1 where
    walk_pre: "i_flock s ino = pre0 @ L @ post" "distinct (pre0 @ L @ post)" "request \<notin> set L"
      "\<forall>a\<in>set L. fl_owner (fl_at s a) = fl_owner (fl_at s request)" "post = [] \<or> fl_owner (fl_at s (hd post)) \<noteq> fl_owner (fl_at s request)"
    and pre_no: "\<forall>a\<in>set pre0. \<not> mine s own a" and post: "\<forall>a\<in>set post. IS_POSIX (fl_at s a) \<and> fl_owner (fl_at s a) \<noteq> own" "L = [] \<Longrightarrow> post = []"
    and w: "posix_walk ino s pre0 (L @ post) request False None = (s1, pre1, rest1, request1, added1, left1, right1)"
    and R: "walk_result s ino pre0 post (set_range (seg_at s request) (map (seg_at s) L)) (s1, pre1, rest1, request1, added1, left1, right1)"
    and inst: "posix_install (le_tgid env) ino new_fl new_fl2 (s1, pre1, rest1, request1, added1, left1, right1) = (e, s')"
    using posix_apply_parts [OF ok rq res] unfolding L_def own_def by blast
  note list = walk_pre(1) and d = walk_pre(2)
  have r: "request \<notin> set (pre0 @ L @ post)" "req_ok (seg_at s request)" "mine s own request" "one_kind (fl_at s request)"
    using rq unfolding request_ok_def list mine_def own_def by blast+
  have Lm: "\<forall>a\<in>set L. mine s own a" by (simp add: L_def locks_of_def)
  show "e \<noteq> 0 \<Longrightarrow> s' = s" using install_failure [OF R inst] .
  assume e: "e = 0"
  define A where "A = insert request (set L)"
  have sub: "set (i_flock s1 ino) \<subseteq> set (i_flock s ino)" and f1: "lock_frame {} A ino s s1"
    using posix_walk_frame [OF walk_pre, of False None] by (simp_all add: w A_def)
  have r1: "request1 \<in> insert request (set (L @ post))" using walk_request [of ino s pre0 "L @ post" request False None] by (simp add: w)
  have new1: "new_fl = None \<or> new_fl \<noteq> new_fl2" "\<And>n. new_fl = Some n \<or> new_fl2 = Some n \<Longrightarrow> n \<notin> set (i_flock s1 ino) \<and> n \<noteq> request1"
    using new sub r1 list unfolding fresh_pair_def by auto
  have e': "e \<noteq> - ENOLCK" using e by simp
  obtain Q where Q: "i_flock s' ino = pre0 @ Q @ post" "map (seg_at s') Q = set_range (seg_at s request) (map (seg_at s) L)"
      "distinct (pre0 @ Q @ post)" "set Q \<subseteq> (set (i_flock s1 ino) - set pre0 - set post) \<union> N"
    using install_walk_result [OF R new1(2) new1(1) inst e'] unfolding N_def by auto
  have A1: "set (i_flock s1 ino) - set pre0 - set post \<subseteq> set L" using sub list by auto
  have f2: "lock_frame N (set L) ino s1 s'" and
    copies: "\<And>b. b \<in> N \<Longrightarrow> b \<in> set (i_flock s' ino) \<Longrightarrow> \<exists>c\<in>insert request1 (set L). fl_ids (fl_at s' b) = fl_ids (fl_at s1 c)"
    using install_frame [OF R inst new1 A1] unfolding N_def by blast+
  have frame: "lock_frame N A ino s s'"
    using lock_frame_mono [OF f1, of N A] lock_frame_mono [OF f2, of N A] lock_frame_trans unfolding A_def by blast
  have disj: "b \<notin> A \<union> N" if "b \<in> set pre0 \<union> set post" for b
    using that d r(1) new unfolding fresh_pair_def N_def A_def list by auto
  have ids1: "fl_ids (fl_at s1 c) = fl_ids (fl_at s c)" for c using f1 by (simp add: lock_frame_def)
  have "request1 \<notin> set post" using R by (auto simp: walk_result_def walk_inv_def)
  then have r1A: "request1 \<in> A" using r1 by (simp add: A_def)
  have mineA: "mine s own c \<and> one_kind (fl_at s c)" if "c \<in> A" for c
    using that r(3,4) Lm ok list unfolding A_def list_ok_def by auto
  have Qm: "mine s' own b \<and> one_kind (fl_at s' b)" if "b \<in> set Q" for b
  proof -
    have "\<exists>c\<in>A. fl_ids (fl_at s' b) = fl_ids (fl_at s c)"
    proof (cases "b \<in> N")
      case True
      then show ?thesis using copies [of b] that Q(1) r1A ids1 by (auto simp: A_def)
    next
      case False
      then have "fl_ids (fl_at s' b) = fl_ids (fl_at s b)" using frame by (simp add: lock_frame_def)
      moreover have "b \<in> A" using False that Q(4) A1 by (auto simp: A_def)
      ultimately show ?thesis by blast
    qed
    then show ?thesis using mineA mine_ids kind_ids(1) by metis
  qed
  have segsQ: "segs_ok (map (seg_at s') Q)"
    unfolding Q(2) using ok r(2) by (intro segs_ok_set_range) (simp_all add: list_ok_def L_def)
  have others: "core (fl_at s' b) = core (fl_at s b)" if "b \<in> set pre0 \<union> set post" for b
    using frame disj [OF that] by (simp add: lock_frame_def)
  note x = list_ok_exchange [OF ok list [unfolded L_def] Q(1,3) others pre_no [rule_format] _ post(2) [unfolded L_def] Qm segsQ]
  have newm: "set (i_flock s' ino) \<inter> N \<subseteq> set (locks_of s' ino own)"
  proof
    fix b assume b: "b \<in> set (i_flock s' ino) \<inter> N"
    then have "b \<in> set Q" using disj [of b] unfolding Q(1) by auto
    then show "b \<in> set (locks_of s' ino own)" using Qm [of b] b by (simp add: locks_of_def)
  qed
  have "set (i_flock s' ino) \<subseteq> set (i_flock s ino) \<union> N" using Q(1,4) sub list by auto
  then show "list_ok s' ino \<and>
      map (seg_at s') (locks_of s' ino own) = set_range (seg_at s request) (map (seg_at s) (locks_of s ino own)) \<and>
      (\<forall>w. w \<noteq> own \<longrightarrow> locks_of s' ino w = locks_of s ino w) \<and>
      lock_frame N (insert request (set (locks_of s ino own))) ino s s' \<and> set (i_flock s' ino) \<subseteq> set (i_flock s ino) \<union> N \<and>
      set (i_flock s' ino) \<inter> N \<subseteq> set (locks_of s' ino own)"
    using x post(1) Q(2) frame newm unfolding A_def L_def by simp
qed

end
