(* ===== verification/LockSys.thy ===== *)
theory LockSys
  imports LockList
begin

text \<open>
  The calls on file locks, the second half of \<open>fs/locks.c\<close>: \<open>fcntl\<close> with its two formats of a lock, \<open>flock\<close>,
  mandatory locks, what happens when a file is closed, and the questions nfsd asks. A call that sleeps takes the list
  of its wake-ups, each with what other tasks did in the meantime, and returns \<open>None\<close> when it is still asleep at the
  end of the list. Files have no \<open>lock\<close>, \<open>flock\<close> or \<open>setlease\<close> method of their own, as on local file systems.
\<close>

section \<open>The formats of a lock\<close>

record open_file =
  f_ino :: nat
  f_pos :: int
  f_flags :: u32
  f_mode :: u32

record flock =
  l_type :: int
  l_whence :: int
  l_start :: int
  l_len :: int
  l_pid :: u32

text \<open>The calling task: its table of open files, which owns the locks, and its thread group.\<close>

record lock_task =
  lt_files :: nat
  lt_tgid :: u32

definition assign_type :: "int \<Rightarrow> file_lock \<Rightarrow> int \<times> file_lock" where
  "assign_type type fl =
    (if type = 0 \<or> type = 1 \<or> type = 2 then (0, fl\<lparr>fl_type := word_of_int type\<rparr>) else (- EINVAL, fl))"

definition lock_origin :: "open_file \<Rightarrow> int \<Rightarrow> int \<Rightarrow> int option" where
  "lock_origin file isize whence =
    (if whence = 0 then Some 0 else if whence = 1 then Some (f_pos file) else if whence = 2 then Some isize else None)"

definition fill_posix :: "lock_task \<Rightarrow> nat \<Rightarrow> file_lock \<Rightarrow> file_lock" where
  "fill_posix t filp fl = fl\<lparr>fl_owner := lt_files t, fl_pid := lt_tgid t, fl_file := filp, fl_flags := FL_POSIX\<rparr>"

definition flock64_to_posix_lock :: "lock_task \<Rightarrow> nat \<Rightarrow> open_file \<Rightarrow> int \<Rightarrow> flock \<Rightarrow> file_lock \<Rightarrow> int \<times> file_lock" where
  "flock64_to_posix_lock t filp file isize l fl =
    (case lock_origin file isize (l_whence l) of
       None \<Rightarrow> (- EINVAL, fl)
     | Some origin \<Rightarrow>
         let start = s64 (origin + l_start l) in
         if start < 0 then (- EINVAL, fl)
         else
           let fl = fl\<lparr>fl_end := OFFSET_MAX\<rparr>;
               (fl, start) =
                 (if l_len l > 0 then (fl\<lparr>fl_end := s64 (start + l_len l - 1)\<rparr>, start)
                  else if l_len l < 0 then (fl\<lparr>fl_end := s64 (start - 1)\<rparr>, s64 (start + l_len l))
                  else (fl, start))
           in if l_len l < 0 \<and> start < 0 then (- EINVAL, fl)
              else
                let fl = fl\<lparr>fl_start := start\<rparr> in
                if fl_end fl < fl_start fl then (- EOVERFLOW, fl)
                else assign_type (l_type l) (fill_posix t filp fl))"

text \<open>The format with offsets of 32 bits: the position and the size of the file are cut to 32 bits first.\<close>

definition flock_to_posix_lock :: "lock_task \<Rightarrow> nat \<Rightarrow> open_file \<Rightarrow> int \<Rightarrow> flock \<Rightarrow> file_lock \<Rightarrow> int \<times> file_lock" where
  "flock_to_posix_lock t filp file isize l fl =
    (case lock_origin file isize (l_whence l) of
       None \<Rightarrow> (- EINVAL, fl)
     | Some origin \<Rightarrow>
         let start = s32 (s32 origin + l_start l) in
         if start < 0 then (- EINVAL, fl)
         else
           let fl = fl\<lparr>fl_end := OFFSET_MAX\<rparr>;
               (fl, start) =
                 (if l_len l > 0 then (fl\<lparr>fl_end := s32 (start + l_len l - 1)\<rparr>, start)
                  else if l_len l < 0 then (fl\<lparr>fl_end := s32 (start - 1)\<rparr>, s32 (start + l_len l))
                  else (fl, start))
           in if l_len l < 0 \<and> start < 0 then (- EINVAL, fl)
              else
                let fl = fl\<lparr>fl_start := start\<rparr> in
                if fl_end fl < fl_start fl then (- EOVERFLOW, fl)
                else assign_type (l_type l) (fill_posix t filp fl))"

abbreviation (input) OFFT_OFFSET_MAX :: int where "OFFT_OFFSET_MAX \<equiv> 0x7FFFFFFF"

definition posix_lock_to_flock64 :: "file_lock \<Rightarrow> flock \<Rightarrow> flock" where
  "posix_lock_to_flock64 fl l =
    l\<lparr>l_pid := fl_pid fl, l_start := fl_start fl,
      l_len := (if fl_end fl = OFFSET_MAX then 0 else s64 (fl_end fl - fl_start fl + 1)),
      l_whence := 0, l_type := uint (fl_type fl)\<rparr>"

definition posix_lock_to_flock :: "file_lock \<Rightarrow> flock \<Rightarrow> int \<times> flock" where
  "posix_lock_to_flock fl l =
    (let l = l\<lparr>l_pid := fl_pid fl\<rparr> in
     if fl_start fl > OFFT_OFFSET_MAX then (- EOVERFLOW, l)
     else if fl_end fl \<noteq> OFFSET_MAX \<and> fl_end fl > OFFT_OFFSET_MAX then (- EOVERFLOW, l)
     else (0, l\<lparr>l_start := s32 (fl_start fl),
        l_len := s32 (if fl_end fl = OFFSET_MAX then 0 else fl_end fl - fl_start fl + 1),
        l_whence := 0, l_type := uint (fl_type fl)\<rparr>))"

section \<open>Asking for a lock\<close>

text \<open>\<open>pid_vnr\<close> is the number of a process in the name space of the caller.\<close>

definition posix_test_lock :: "(u32 \<Rightarrow> u32) \<Rightarrow> lock_state \<Rightarrow> nat \<Rightarrow> file_lock \<Rightarrow> file_lock" where
  "posix_test_lock pid_vnr s ino fl =
    (case find (\<lambda>a. IS_POSIX (fl_at s a) \<and> posix_locks_conflict fl (fl_at s a)) (i_flock s ino) of
       Some a \<Rightarrow>
         let cfl = fl_at s a; fl = raw_copy_lock cfl fl
         in if fl_nspid cfl \<noteq> 0 then fl\<lparr>fl_pid := pid_vnr (fl_nspid cfl)\<rparr> else fl
     | None \<Rightarrow> fl\<lparr>fl_type := F_UNLCK\<rparr>)"

text \<open>The argument is the lock at the user's address, if it can be read; \<open>copy_ok\<close> says whether the result can be
  written. The lock on the stack of the caller starts as \<open>fl\<close>.\<close>

definition fcntl_getlk64 ::
    "(u32 \<Rightarrow> u32) \<Rightarrow> lock_task \<Rightarrow> nat \<Rightarrow> open_file \<Rightarrow> int \<Rightarrow> file_lock \<Rightarrow> flock option \<Rightarrow> bool \<Rightarrow> lock_state \<Rightarrow> int \<times> flock option" where
  "fcntl_getlk64 pid_vnr t filp file isize fl arg copy_ok s =
    (case arg of
       None \<Rightarrow> (- EFAULT, None)
     | Some l \<Rightarrow>
         if l_type l \<noteq> 0 \<and> l_type l \<noteq> 1 then (- EINVAL, None)
         else case flock64_to_posix_lock t filp file isize l fl of
                (error, fl) \<Rightarrow>
                  if error \<noteq> 0 then (error, None)
                  else
                    let fl = posix_test_lock pid_vnr s (f_ino file) fl;
                        l = l\<lparr>l_type := uint (fl_type fl)\<rparr>;
                        l = (if fl_type fl \<noteq> F_UNLCK then posix_lock_to_flock64 fl l else l)
                    in if copy_ok then (0, Some l) else (- EFAULT, None))"

definition fcntl_getlk ::
    "(u32 \<Rightarrow> u32) \<Rightarrow> lock_task \<Rightarrow> nat \<Rightarrow> open_file \<Rightarrow> int \<Rightarrow> file_lock \<Rightarrow> flock option \<Rightarrow> bool \<Rightarrow> lock_state \<Rightarrow> int \<times> flock option" where
  "fcntl_getlk pid_vnr t filp file isize fl arg copy_ok s =
    (case arg of
       None \<Rightarrow> (- EFAULT, None)
     | Some l \<Rightarrow>
         if l_type l \<noteq> 0 \<and> l_type l \<noteq> 1 then (- EINVAL, None)
         else case flock_to_posix_lock t filp file isize l fl of
                (error, fl) \<Rightarrow>
                  if error \<noteq> 0 then (error, None)
                  else
                    let fl = posix_test_lock pid_vnr s (f_ino file) fl;
                        l = l\<lparr>l_type := uint (fl_type fl)\<rparr>;
                        (error, l) = (if fl_type fl \<noteq> F_UNLCK then posix_lock_to_flock fl l else (0, l))
                    in if error \<noteq> 0 then (error, None) else if copy_ok then (0, Some l) else (- EFAULT, None))"

section \<open>Waiting\<close>

text \<open>The loops that repeat an attempt until it is not deferred. A task that runs again although its request is
  still queued was interrupted by a signal.\<close>

type_synonym 'env wakeup = "(lock_state \<Rightarrow> lock_state) \<times> 'env"

fun lock_wait ::
    "('env \<Rightarrow> lock_state \<Rightarrow> int \<times> lock_state) \<Rightarrow> nat \<Rightarrow> 'env \<Rightarrow> 'env wakeup list \<Rightarrow> lock_state \<Rightarrow> (int \<times> lock_state) option" where
  "lock_wait attempt fl env [] s =
    (case attempt env s of (error, s) \<Rightarrow> if error \<noteq> FILE_LOCK_DEFERRED then Some (error, s) else None)"
| "lock_wait attempt fl env ((others, env') # ws) s =
    (case attempt env s of
       (error, s) \<Rightarrow>
         if error \<noteq> FILE_LOCK_DEFERRED then Some (error, s)
         else let s = others s in
           if fl_next (fl_at s fl) = None then lock_wait attempt fl env' ws s
           else Some (- ERESTARTSYS, raw_delete_block fl s))"

definition posix_lock_file_wait :: "nat \<Rightarrow> nat \<Rightarrow> lock_env \<Rightarrow> lock_env wakeup list \<Rightarrow> lock_state \<Rightarrow> (int \<times> lock_state) option" where
  "posix_lock_file_wait ino fl env ws s = lock_wait (\<lambda>env. raw_posix_lock_file env ino fl) fl env ws s"

definition flock_lock_file_wait ::
    "nat \<Rightarrow> nat \<Rightarrow> nat \<Rightarrow> lock_env \<times> (lock_state \<Rightarrow> lock_state) \<Rightarrow> (lock_env \<times> (lock_state \<Rightarrow> lock_state)) wakeup list \<Rightarrow>
     lock_state \<Rightarrow> (int \<times> lock_state) option" where
  "flock_lock_file_wait ino filp fl env ws s = lock_wait (\<lambda>(env, resched). flock_lock_file env resched ino filp fl) fl env ws s"

definition do_lock_file_wait ::
    "(u8 \<Rightarrow> int) \<Rightarrow> nat \<Rightarrow> nat \<Rightarrow> lock_env \<Rightarrow> lock_env wakeup list \<Rightarrow> lock_state \<Rightarrow> (int \<times> lock_state) option" where
  "do_lock_file_wait security ino fl env ws s =
    (if security (fl_type (fl_at s fl)) \<noteq> 0 then Some (security (fl_type (fl_at s fl)), s)
     else lock_wait (\<lambda>env. raw_posix_lock_file env ino fl) fl env ws s)"

section \<open>Setting a lock\<close>

definition IS_MANDLOCK :: "inode \<Rightarrow> bool" where "IS_MANDLOCK inode \<longleftrightarrow> flag (s_flags (i_sb inode)) 64"

definition raw_mandatory_lock :: "inode \<Rightarrow> bool" where
  "raw_mandatory_lock inode \<longleftrightarrow> i_mode inode AND (0x400 OR 8) = 0x400"

definition mandatory_lock :: "inode \<Rightarrow> bool" where
  "mandatory_lock inode \<longleftrightarrow> IS_MANDLOCK inode \<and> raw_mandatory_lock inode"

abbreviation (input) FMODE_READ :: u32 where "FMODE_READ \<equiv> 1"
abbreviation (input) FMODE_WRITE :: u32 where "FMODE_WRITE \<equiv> 2"

text \<open>What \<open>fcntl_setlk\<close> finds: the new structure, the answers of the security module, what is written where, the
  memory and wake-ups of the two passes, and whether the descriptor still refers to the file after them.\<close>

record setlk_env =
  se_mem :: "file_lock option"
  se_security :: "u8 \<Rightarrow> int"
  se_mapped :: bool
  se_env1 :: lock_env
  se_wakeups1 :: "lock_env wakeup list"
  se_fcheck :: bool
  se_env2 :: lock_env
  se_wakeups2 :: "lock_env wakeup list"

text \<open>From the label \<open>again\<close> to the result of \<open>do_lock_file_wait\<close>; \<open>conv\<close> is the conversion of the format and \<open>sleep\<close> the
  command that waits.\<close>

definition setlk_again ::
    "(flock \<Rightarrow> file_lock \<Rightarrow> int \<times> file_lock) \<Rightarrow> bool \<Rightarrow> open_file \<Rightarrow> (u8 \<Rightarrow> int) \<Rightarrow> nat \<Rightarrow> lock_env \<Rightarrow> lock_env wakeup list \<Rightarrow> flock \<Rightarrow> lock_state \<Rightarrow>
     (int \<times> lock_state) option" where
  "setlk_again conv sleep file security fl env ws l s =
    (case conv l (fl_at s fl) of
       (error, x) \<Rightarrow>
         let s = upd_fl fl (\<lambda>_. x) s in
         if error \<noteq> 0 then Some (error, s)
         else
           let s = (if sleep then upd_fl fl (fl_flags_update (\<lambda>f. f OR FL_SLEEP)) s else s) in
           if l_type l = 0 \<and> \<not> flag (f_mode file) FMODE_READ then Some (- EBADF, s)
           else if l_type l = 1 \<and> \<not> flag (f_mode file) FMODE_WRITE then Some (- EBADF, s)
           else if l_type l \<noteq> 0 \<and> l_type l \<noteq> 1 \<and> l_type l \<noteq> 2 then Some (- EINVAL, s)
           else do_lock_file_wait security (f_ino file) fl env ws s)"

definition setlk_body ::
    "(flock \<Rightarrow> file_lock \<Rightarrow> int \<times> file_lock) \<Rightarrow> bool \<Rightarrow> setlk_env \<Rightarrow> open_file \<Rightarrow> inode \<Rightarrow> flock option \<Rightarrow> lock_state \<Rightarrow>
     (int \<times> lock_state) option" where
  "setlk_body conv sleep env file inode arg s =
    (case locks_alloc_lock (se_mem env) s of
       (None, s) \<Rightarrow> Some (- ENOLCK, s)
     | (Some fl, s) \<Rightarrow>
         case arg of
           None \<Rightarrow> Some (- EFAULT, s)
         | Some l \<Rightarrow>
             if mandatory_lock inode \<and> se_mapped env then Some (- EAGAIN, s)
             else case setlk_again conv sleep file (se_security env) fl (se_env1 env) (se_wakeups1 env) l s of
                    None \<Rightarrow> None
                  | Some (error, s) \<Rightarrow>
                      if error = 0 \<and> \<not> se_fcheck env \<and> l_type l \<noteq> 2
                      then setlk_again conv sleep file (se_security env) fl (se_env2 env) (se_wakeups2 env) (l\<lparr>l_type := 2\<rparr>) s
                      else Some (error, s))"

abbreviation (input) F_SETLKW :: u32 where "F_SETLKW \<equiv> 7"
abbreviation (input) F_SETLKW64 :: u32 where "F_SETLKW64 \<equiv> 14"

definition fcntl_setlk64 ::
    "setlk_env \<Rightarrow> lock_task \<Rightarrow> nat \<Rightarrow> open_file \<Rightarrow> inode \<Rightarrow> u32 \<Rightarrow> flock option \<Rightarrow> lock_state \<Rightarrow> (int \<times> lock_state) option" where
  "fcntl_setlk64 env t filp file inode cmd arg s =
    setlk_body (flock64_to_posix_lock t filp file (i_size inode)) (cmd = F_SETLKW64) env file inode arg s"

definition fcntl_setlk ::
    "setlk_env \<Rightarrow> lock_task \<Rightarrow> nat \<Rightarrow> open_file \<Rightarrow> inode \<Rightarrow> u32 \<Rightarrow> flock option \<Rightarrow> lock_state \<Rightarrow> (int \<times> lock_state) option" where
  "fcntl_setlk env t filp file inode cmd arg s =
    setlk_body (flock_to_posix_lock t filp file (i_size inode)) (cmd = F_SETLKW) env file inode arg s"

section \<open>Locks of whole files\<close>

abbreviation (input) LOCK_NB :: u32 where "LOCK_NB \<equiv> 4"

definition flock_translate_cmd :: "u32 \<Rightarrow> int + u8" where
  "flock_translate_cmd cmd =
    (if flag cmd 32 then Inr (ucast (cmd AND (32 OR 192)))
     else if cmd = 1 then Inr F_RDLCK else if cmd = 2 then Inr F_WRLCK else if cmd = 8 then Inr F_UNLCK
     else Inl (- EINVAL))"

definition flock_make_lock :: "file_lock option \<Rightarrow> u32 \<Rightarrow> nat \<Rightarrow> u32 \<Rightarrow> lock_state \<Rightarrow> (int + nat) \<times> lock_state" where
  "flock_make_lock mem tgid filp cmd s =
    (case flock_translate_cmd cmd of
       Inl error \<Rightarrow> (Inl error, s)
     | Inr type \<Rightarrow>
         case locks_alloc_lock mem s of
           (None, s) \<Rightarrow> (Inl (- ENOMEM), s)
         | (Some fl, s) \<Rightarrow>
             (Inr fl, upd_fl fl (\<lambda>x. x\<lparr>fl_file := filp, fl_pid := tgid, fl_flags := FL_FLOCK, fl_type := type, fl_end := OFFSET_MAX\<rparr>) s))"

definition sys_flock ::
    "file_lock option \<Rightarrow> int \<Rightarrow> u32 \<Rightarrow> (nat \<times> open_file) option \<Rightarrow> u32 \<Rightarrow> lock_env \<times> (lock_state \<Rightarrow> lock_state) \<Rightarrow>
     (lock_env \<times> (lock_state \<Rightarrow> lock_state)) wakeup list \<Rightarrow> lock_state \<Rightarrow> (int \<times> lock_state) option" where
  "sys_flock mem security tgid fd cmd env ws s =
    (case fd of
       None \<Rightarrow> Some (- EBADF, s)
     | Some (filp, file) \<Rightarrow>
         let can_sleep = (\<not> flag cmd LOCK_NB);
             cmd = cmd AND NOT LOCK_NB;
             unlock = (cmd = 8)
         in if \<not> unlock \<and> \<not> flag cmd 32 \<and> \<not> flag (f_mode file) (FMODE_READ OR FMODE_WRITE) then Some (- EBADF, s)
            else case flock_make_lock mem tgid filp cmd s of
                   (Inl error, s) \<Rightarrow> Some (error, s)
                 | (Inr lock, s) \<Rightarrow>
                     let s = (if can_sleep then upd_fl lock (fl_flags_update (\<lambda>f. f OR FL_SLEEP)) s else s) in
                     if security \<noteq> 0 then Some (security, s)
                     else flock_lock_file_wait (f_ino file) filp lock env ws s)"

section \<open>Mandatory locks\<close>

definition locks_mandatory_locked :: "nat \<Rightarrow> nat \<Rightarrow> lock_state \<Rightarrow> int" where
  "locks_mandatory_locked owner ino s =
    (if \<exists>a\<in>set (i_flock s ino). IS_POSIX (fl_at s a) \<and> fl_owner (fl_at s a) \<noteq> owner then - EAGAIN else 0)"

definition locks_verify_locked :: "nat \<Rightarrow> nat \<Rightarrow> inode \<Rightarrow> lock_state \<Rightarrow> int" where
  "locks_verify_locked owner ino inode s = (if mandatory_lock inode then locks_mandatory_locked owner ino s else 0)"

definition mandatory_request :: "lock_task \<Rightarrow> bool \<Rightarrow> (nat \<times> open_file) option \<Rightarrow> int \<Rightarrow> u32 \<Rightarrow> file_lock" where
  "mandatory_request t write filp offset len =
    locks_init_lock\<lparr>fl_owner := lt_files t, fl_pid := lt_tgid t,
      fl_file := (case filp of None \<Rightarrow> 0 | Some (f, _) \<Rightarrow> f),
      fl_flags := FL_POSIX OR FL_ACCESS OR
        (case filp of None \<Rightarrow> 0 | Some (_, file) \<Rightarrow> if \<not> flag (f_flags file) 0x800 then FL_SLEEP else 0),
      fl_type := (if write then F_WRLCK else F_RDLCK),
      fl_start := offset, fl_end := s64 (offset + uint len - 1)\<rparr>"

text \<open>A wake-up also has the inode as it is then: its mode may have changed.\<close>

fun mandatory_wait :: "nat \<Rightarrow> nat \<Rightarrow> lock_env \<Rightarrow> (lock_env \<times> inode) wakeup list \<Rightarrow> lock_state \<Rightarrow> (int \<times> lock_state) option" where
  "mandatory_wait ino fl env [] s =
    (case raw_posix_lock_file env ino fl s of (error, s) \<Rightarrow> if error \<noteq> FILE_LOCK_DEFERRED then Some (error, s) else None)"
| "mandatory_wait ino fl env ((others, env', inode) # ws) s =
    (case raw_posix_lock_file env ino fl s of
       (error, s) \<Rightarrow>
         if error \<noteq> FILE_LOCK_DEFERRED then Some (error, s)
         else let s = others s; error = (if fl_next (fl_at s fl) = None then 0 else - ERESTARTSYS) in
           if error = 0 \<and> raw_mandatory_lock inode then mandatory_wait ino fl env' ws s
           else Some (error, raw_delete_block fl s))"

definition locks_mandatory_area ::
    "lock_task \<Rightarrow> bool \<Rightarrow> nat \<Rightarrow> (nat \<times> open_file) option \<Rightarrow> int \<Rightarrow> u32 \<Rightarrow> lock_env \<Rightarrow> (lock_env \<times> inode) wakeup list \<Rightarrow> lock_state \<Rightarrow>
     (int \<times> lock_state) option" where
  "locks_mandatory_area t write ino filp offset len env ws s =
    (case locks_alloc_lock (Some (mandatory_request t write filp offset len)) s of
       (fl, s) \<Rightarrow> mandatory_wait ino (the fl) env ws s)"

text \<open>The length of the area is a \<open>size_t\<close>, so that the difference of two file sizes is cut to 32 bits.\<close>

definition locks_verify_truncate ::
    "lock_task \<Rightarrow> nat \<Rightarrow> inode \<Rightarrow> (nat \<times> open_file) option \<Rightarrow> int \<Rightarrow> lock_env \<Rightarrow> (lock_env \<times> inode) wakeup list \<Rightarrow> lock_state \<Rightarrow>
     (int \<times> lock_state) option" where
  "locks_verify_truncate t ino inode filp isize env ws s =
    (if i_flock s ino \<noteq> [] \<and> mandatory_lock inode
     then locks_mandatory_area t True ino filp (if isize < i_size inode then isize else i_size inode)
            (word_of_int (if isize < i_size inode then i_size inode - isize else isize - i_size inode)) env ws s
     else Some (0, s))"

section \<open>Closing a file\<close>

definition locks_remove_posix :: "lock_task \<Rightarrow> nat \<Rightarrow> open_file \<Rightarrow> nat \<Rightarrow> lock_env \<Rightarrow> file_lock \<Rightarrow> lock_state \<Rightarrow> lock_state" where
  "locks_remove_posix t filp file owner env junk s =
    (if i_flock s (f_ino file) = [] then s
     else case locks_alloc_lock (Some (junk\<lparr>fl_type := F_UNLCK, fl_flags := FL_POSIX OR FL_CLOSE, fl_start := 0,
                fl_end := OFFSET_MAX, fl_owner := owner, fl_pid := lt_tgid t, fl_file := filp\<rparr>)) s of
            (fl, s) \<Rightarrow> snd (raw_posix_lock_file env (f_ino file) (the fl) s))"

definition posix_unblock_lock :: "nat \<Rightarrow> lock_state \<Rightarrow> int \<times> lock_state" where
  "posix_unblock_lock waiter s =
    (if fl_next (fl_at s waiter) \<noteq> None then (0, raw_delete_block waiter s) else (- ENOENT, s))"

section \<open>Questions of nfsd\<close>

definition lock_may_read :: "lock_state \<Rightarrow> nat \<Rightarrow> int \<Rightarrow> u32 \<Rightarrow> bool" where
  "lock_may_read s ino start len \<longleftrightarrow>
    \<not> (\<exists>a\<in>set (i_flock s ino).
         let fl = fl_at s a in
         if IS_POSIX fl then
           fl_type fl \<noteq> F_RDLCK \<and> \<not> (fl_end fl < start \<or> fl_start fl > s64 (start + uint len))
         else if IS_FLOCK fl then flag (fl_type fl) LOCK_MAND \<and> \<not> flag (fl_type fl) 64
         else False)"

definition lock_may_write :: "lock_state \<Rightarrow> nat \<Rightarrow> int \<Rightarrow> u32 \<Rightarrow> bool" where
  "lock_may_write s ino start len \<longleftrightarrow>
    \<not> (\<exists>a\<in>set (i_flock s ino).
         let fl = fl_at s a in
         if IS_POSIX fl then \<not> (fl_end fl < start \<or> fl_start fl > s64 (start + uint len))
         else if IS_FLOCK fl then flag (fl_type fl) LOCK_MAND \<and> \<not> flag (fl_type fl) 128
         else False)"

end
