(* ===== verification/LockLease.thy ===== *)
theory LockLease
  imports LockSys InodeAttr
begin

text \<open>
  Leases, \<open>fs/locks.c\<close>: \<open>fcntl\<close> with \<open>F_SETLEASE\<close> and \<open>F_GETLEASE\<close>, breaking leases when a file is opened, and the
  removal of leases and whole-file locks when a file is closed for the last time. The lease manager is the kernel's
  own; the signal it sends to the holder of a broken lease is left out.
\<close>

definition time_before :: "u32 \<Rightarrow> u32 \<Rightarrow> bool" where
  "time_before a b \<longleftrightarrow> sint (a - b) < 0"

definition lease_init :: "lock_task \<Rightarrow> nat \<Rightarrow> int \<Rightarrow> file_lock \<Rightarrow> int \<times> file_lock" where
  "lease_init t filp type fl =
    (case assign_type type fl of
       (error, fl) \<Rightarrow>
         if error \<noteq> 0 then (- EINVAL, fl)
         else (0, fl\<lparr>fl_owner := lt_files t, fl_pid := lt_tgid t, fl_file := filp, fl_flags := FL_LEASE,
                   fl_start := 0, fl_end := OFFSET_MAX\<rparr>))"

definition lease_alloc :: "file_lock option \<Rightarrow> lock_task \<Rightarrow> nat \<Rightarrow> int \<Rightarrow> lock_state \<Rightarrow> (int + nat) \<times> lock_state" where
  "lease_alloc mem t filp type s =
    (case locks_alloc_lock mem s of
       (None, s) \<Rightarrow> (Inl (- ENOMEM), s)
     | (Some fl, s) \<Rightarrow>
         case lease_init t filp type (fl_at s fl) of
           (error, x) \<Rightarrow>
             let s = upd_fl fl (\<lambda>_. x) s in if error \<noteq> 0 then (Inl error, s) else (Inr fl, s))"

definition lease_modify :: "nat \<Rightarrow> nat list \<Rightarrow> nat \<Rightarrow> nat list \<Rightarrow> int \<Rightarrow> lock_state \<Rightarrow> int \<times> lock_state" where
  "lease_modify ino pre fl rest arg s =
    (case assign_type arg (fl_at s fl) of
       (error, x) \<Rightarrow>
         if error \<noteq> 0 then (error, s)
         else
           let s = locks_wake_up_blocks fl (upd_fl fl (\<lambda>_. x) s)
           in (0, if arg = 2 then locks_delete_lock ino pre fl rest s else s))"

fun time_out_walk :: "nat \<Rightarrow> u32 \<Rightarrow> lock_state \<Rightarrow> nat list \<Rightarrow> nat list \<Rightarrow> lock_state" where
  "time_out_walk ino jiffies s pre [] = s"
| "time_out_walk ino jiffies s pre (fl # rest) =
    (let f = fl_at s fl in
     if \<not> (IS_LEASE f \<and> flag (fl_type f) F_INPROGRESS) then s
     else if fl_break_time f = 0 \<or> time_before jiffies (fl_break_time f)
     then time_out_walk ino jiffies s (pre @ [fl]) rest
     else
       let s = snd (lease_modify ino pre fl rest (uint (fl_type f AND NOT F_INPROGRESS)) s)
       in if i_flock s ino = pre @ fl # rest then time_out_walk ino jiffies s (pre @ [fl]) rest
          else time_out_walk ino jiffies s pre rest)"

definition time_out_leases :: "nat \<Rightarrow> u32 \<Rightarrow> lock_state \<Rightarrow> lock_state" where
  "time_out_leases ino jiffies s = time_out_walk ino jiffies s [] (i_flock s ino)"

section \<open>Breaking leases\<close>

definition leases :: "lock_state \<Rightarrow> nat \<Rightarrow> nat list" where
  "leases s ino = takeWhile (\<lambda>a. IS_LEASE (fl_at s a)) (i_flock s ino)"

text \<open>The loop that sets the type and the break time of every lease.\<close>

fun break_leases :: "u8 \<Rightarrow> u32 \<Rightarrow> nat list \<Rightarrow> lock_state \<Rightarrow> lock_state" where
  "break_leases future break_time [] s = s"
| "break_leases future break_time (fl # rest) s =
    break_leases future break_time rest
      (if fl_type (fl_at s fl) \<noteq> future
       then upd_fl fl (\<lambda>x. x\<lparr>fl_type := future, fl_break_time := break_time\<rparr>) s else s)"

definition lease_deadline :: "int \<Rightarrow> u32 \<Rightarrow> u32" where
  "lease_deadline lease_break_time jiffies =
    (if lease_break_time > 0
     then let b = jiffies + word_of_int (lease_break_time * 100) in if b = 0 then b + 1 else b
     else 0)"

text \<open>Waiting until no lease is being broken. A wake-up has what other tasks did, the result of the wait (positive when
  woken, 0 when the time is over, negative on a signal) and the time.\<close>

fun break_lease_wait ::
    "nat \<Rightarrow> nat \<Rightarrow> nat \<Rightarrow> ((lock_state \<Rightarrow> lock_state) \<times> int \<times> u32) list \<Rightarrow> lock_state \<Rightarrow> (int \<times> lock_state) option" where
  "break_lease_wait ino new_fl flock [] s = None"
| "break_lease_wait ino new_fl flock ((others, error, jiffies) # ws) s =
    (let s = raw_delete_block new_fl (others (locks_insert_block flock new_fl s)) in
     if error < 0 then Some (error, s)
     else
       let s = (if error = 0 then time_out_leases ino jiffies s else s) in
       case find (\<lambda>a. flag (fl_type (fl_at s a)) F_INPROGRESS) (leases s ino) of
         Some flock \<Rightarrow> break_lease_wait ino new_fl flock ws s
       | None \<Rightarrow> Some (0, s))"

definition raw_break_lease ::
    "file_lock option \<Rightarrow> lock_task \<Rightarrow> int \<Rightarrow> u32 \<Rightarrow> nat \<Rightarrow> u32 \<Rightarrow> ((lock_state \<Rightarrow> lock_state) \<times> int \<times> u32) list \<Rightarrow> lock_state \<Rightarrow>
     (int \<times> lock_state) option" where
  "raw_break_lease mem t lease_break_time jiffies ino mode ws s =
    (let want_write = (mode AND 3 \<noteq> 0);
         (new_fl, s) = lease_alloc mem t 0 (if want_write then 1 else 0) s;
         s = time_out_leases ino jiffies s;
         i_have_this_lease = (\<exists>a\<in>set (leases s ino). fl_owner (fl_at s a) = lt_files t)
     in case leases s ino of
          [] \<Rightarrow> Some (0, s)
        | flock # _ \<Rightarrow>
            let type = fl_type (fl_at s flock);
                future =
                  (if want_write then Some (F_UNLCK OR F_INPROGRESS)
                   else if flag type F_INPROGRESS then Some type
                   else if flag type F_WRLCK then Some (F_RDLCK OR F_INPROGRESS)
                   else None)
            in case future of
                 None \<Rightarrow> Some (0, s)
               | Some future \<Rightarrow>
                   let nonblock = flag mode 0x800 in
                   case new_fl of
                     Inl error \<Rightarrow>
                       if \<not> i_have_this_lease \<and> \<not> nonblock then Some (error, s)
                       else Some (- EAGAIN, break_leases future (lease_deadline lease_break_time jiffies) (leases s ino) s)
                   | Inr new_fl \<Rightarrow>
                       let s = break_leases future (lease_deadline lease_break_time jiffies) (leases s ino) s in
                       if i_have_this_lease \<or> nonblock then Some (- EAGAIN, s)
                       else break_lease_wait ino new_fl flock ws s)"

definition break_lease ::
    "file_lock option \<Rightarrow> lock_task \<Rightarrow> int \<Rightarrow> u32 \<Rightarrow> nat \<Rightarrow> u32 \<Rightarrow> ((lock_state \<Rightarrow> lock_state) \<times> int \<times> u32) list \<Rightarrow> lock_state \<Rightarrow>
     (int \<times> lock_state) option" where
  "break_lease mem t lease_break_time jiffies ino mode ws s =
    (if i_flock s ino \<noteq> [] then raw_break_lease mem t lease_break_time jiffies ino mode ws s else Some (0, s))"

definition lease_get_mtime :: "vfs_env \<Rightarrow> lock_state \<Rightarrow> nat \<Rightarrow> inode \<Rightarrow> timespec" where
  "lease_get_mtime env s ino inode =
    (case i_flock s ino of
       a # _ \<Rightarrow> if IS_LEASE (fl_at s a) \<and> flag (fl_type (fl_at s a)) F_WRLCK then current_fs_time env (i_sb inode) else i_mtime inode
     | [] \<Rightarrow> i_mtime inode)"

section \<open>Taking leases\<close>

definition fcntl_getlease :: "u32 \<Rightarrow> nat \<Rightarrow> open_file \<Rightarrow> lock_state \<Rightarrow> u8 \<times> lock_state" where
  "fcntl_getlease jiffies filp file s =
    (let s = time_out_leases (f_ino file) jiffies s in
     (case find (\<lambda>a. fl_file (fl_at s a) = filp) (leases s (f_ino file)) of
        Some a \<Rightarrow> fl_type (fl_at s a) AND NOT F_INPROGRESS
      | None \<Rightarrow> F_UNLCK, s))"

text \<open>The scan of \<open>generic_setlease\<close>: the lease of the file and the numbers of other leases that are being given up
  (\<open>wrlease_count\<close>) and that are not.\<close>

fun lease_scan :: "lock_state \<Rightarrow> nat \<Rightarrow> nat list \<Rightarrow> nat list \<Rightarrow> (nat list \<times> nat \<times> nat list) option \<Rightarrow> nat \<Rightarrow> nat \<Rightarrow>
    (nat list \<times> nat list) \<times> (nat list \<times> nat \<times> nat list) option \<times> nat \<times> nat" where
  "lease_scan s filp pre [] my rd wr = ((pre, []), my, rd, wr)"
| "lease_scan s filp pre (fl # rest) my rd wr =
    (if \<not> IS_LEASE (fl_at s fl) then ((pre, fl # rest), my, rd, wr)
     else if fl_file (fl_at s fl) = filp then lease_scan s filp (pre @ [fl]) rest (Some (pre, fl, rest)) rd wr
     else if fl_type (fl_at s fl) = (F_INPROGRESS OR F_UNLCK) then lease_scan s filp (pre @ [fl]) rest my rd (wr + 1)
     else lease_scan s filp (pre @ [fl]) rest my (rd + 1) wr)"

text \<open>What \<open>F_SETLEASE\<close> finds: the caller, the security module, the counts of users of the inode, the tunables, the
  memory, and the results of the last steps of the call.\<close>

record lease_env =
  ls_task :: lock_task
  ls_cred :: cred
  ls_security :: int
  ls_writecount :: int
  ls_d_count :: int
  ls_i_count :: int
  ls_enable :: bool
  ls_jiffies :: u32
  ls_mem :: "file_lock option"
  ls_fasync :: int
  ls_setown :: int

abbreviation (input) CAP_LEASE :: nat where "CAP_LEASE \<equiv> 28"

text \<open>The result has the lease in the list, if there is one.\<close>

definition generic_setlease ::
    "lease_env \<Rightarrow> nat \<Rightarrow> open_file \<Rightarrow> inode \<Rightarrow> int \<Rightarrow> file_lock \<Rightarrow> lock_state \<Rightarrow> int \<times> nat option \<times> lock_state" where
  "generic_setlease env filp file inode arg lease s =
    (let ino = f_ino file in
     if fsuid (ls_cred env) \<noteq> i_uid inode \<and> \<not> capable (ls_cred env) CAP_LEASE then (- EACCES, None, s)
     else if \<not> S_ISREG (i_mode inode) then (- EINVAL, None, s)
     else if ls_security env \<noteq> 0 then (ls_security env, None, s)
     else
       let s = time_out_leases ino (ls_jiffies env) s;
           (new_fl, s) = (if arg \<noteq> 2 then locks_alloc_lock (ls_mem env) s else (None, s))
       in if arg \<noteq> 2 \<and> new_fl = None then (- ENOMEM, None, s)
          else if arg = 0 \<and> ls_writecount env > 0 then (- EAGAIN, None, s)
          else if arg = 1 \<and> (ls_d_count env > 1 \<or> ls_i_count env > 1) then (- EAGAIN, None, s)
          else case lease_scan s filp [] (i_flock s ino) None 0 0 of
                 ((pre, rest), my, rd, wr) \<Rightarrow>
                   if arg = 0 \<and> wr > 0 \<or> arg = 1 \<and> rd + wr > 0 then (- EAGAIN, None, s)
                   else case my of
                          Some (mpre, fl, mrest) \<Rightarrow>
                            (case lease_modify ino mpre fl mrest arg s of (error, s) \<Rightarrow> (error, Some fl, s))
                        | None \<Rightarrow>
                            if arg = 2 then (0, None, s)
                            else if \<not> ls_enable env then (- EINVAL, None, s)
                            else (0, new_fl, locks_insert_lock (lt_tgid (ls_task env)) ino pre rest (the new_fl)
                                   (upd_fl (the new_fl) (locks_copy_lock lease) s)))"

definition fcntl_setlease :: "lease_env \<Rightarrow> nat \<Rightarrow> open_file \<Rightarrow> inode \<Rightarrow> int \<Rightarrow> lock_state \<Rightarrow> int \<times> lock_state" where
  "fcntl_setlease env filp file inode arg s =
    (case lease_init (ls_task env) filp arg locks_init_lock of
       (error, lease) \<Rightarrow>
         if error \<noteq> 0 then (error, s)
         else case generic_setlease env filp file inode arg lease s of
                (error, flp, s) \<Rightarrow>
                  if error \<noteq> 0 \<or> arg = 2 then (error, s)
                  else if ls_fasync env < 0
                  then (ls_fasync env, time_out_leases (f_ino file) (ls_jiffies env)
                         (upd_fl (the flp) (\<lambda>x. x\<lparr>fl_type := F_UNLCK OR F_INPROGRESS, fl_break_time := ls_jiffies env - 10\<rparr>) s))
                  else (ls_setown env, s))"

section \<open>The last close\<close>

fun remove_flock_walk :: "nat \<Rightarrow> nat \<Rightarrow> lock_state \<Rightarrow> nat list \<Rightarrow> nat list \<Rightarrow> lock_state outcome" where
  "remove_flock_walk ino filp s pre [] = Ok s"
| "remove_flock_walk ino filp s pre (fl # rest) =
    (if fl_file (fl_at s fl) = filp then
       if IS_FLOCK (fl_at s fl) then remove_flock_walk ino filp (locks_delete_lock ino pre fl rest s) pre rest
       else if IS_LEASE (fl_at s fl) then remove_flock_walk ino filp (snd (lease_modify ino pre fl rest 2 s)) pre rest
       else Fault
     else remove_flock_walk ino filp s (pre @ [fl]) rest)"

definition locks_remove_flock :: "nat \<Rightarrow> open_file \<Rightarrow> lock_state \<Rightarrow> lock_state outcome" where
  "locks_remove_flock filp file s =
    (if i_flock s (f_ino file) = [] then Ok s else remove_flock_walk (f_ino file) filp s [] (i_flock s (f_ino file)))"

end
