(* ===== verification/LockWait.thy ===== *)
theory LockWait
  imports LockLease
begin

text \<open>
  Requests that wait. The links between waiting requests and the locks they wait for agree in both directions, a
  request waits only for a lock that is in the list of an inode and that it conflicts with, and \<open>blocked_list\<close> has the
  requests that wait for byte ranges. Waking, changing, inserting and deleting locks keep this.
\<close>

definition holds_up :: "file_lock \<Rightarrow> file_lock \<Rightarrow> bool" where
  "holds_up w b \<longleftrightarrow>
    (if IS_POSIX b then posix_locks_conflict w b
     else if IS_FLOCK b then flock_locks_conflict w b
     else IS_LEASE b \<and> flag (fl_type b) F_INPROGRESS)"

definition links_ok :: "lock_state \<Rightarrow> bool" where
  "links_ok s \<longleftrightarrow> (\<forall>w b. fl_next (fl_at s w) = Some b \<longleftrightarrow> w \<in> set (fl_block (fl_at s b))) \<and>
     (\<forall>b. distinct (fl_block (fl_at s b)))"

text \<open>Locks in \<open>X\<close> are exempt: they are about to be woken.\<close>

definition waiters_ok :: "nat set \<Rightarrow> lock_state \<Rightarrow> bool" where
  "waiters_ok X s \<longleftrightarrow> links_ok s \<and>
     (\<forall>w b. fl_next (fl_at s w) = Some b \<longrightarrow> (\<forall>ino. w \<notin> set (i_flock s ino)) \<and> w < fl_fresh s \<and>
        (b \<notin> X \<longrightarrow> (\<exists>ino. b \<in> set (i_flock s ino)) \<and> holds_up (fl_at s w) (fl_at s b))) \<and>
     distinct (blocked_list s) \<and>
     set (blocked_list s) = {w. \<exists>b. fl_next (fl_at s w) = Some b \<and> IS_POSIX (fl_at s b)}"

definition idle :: "lock_state \<Rightarrow> nat \<Rightarrow> bool" where
  "idle s a \<longleftrightarrow> a < fl_fresh s \<and> fl_next (fl_at s a) = None \<and> (\<forall>ino. a \<notin> set (i_flock s ino))"

lemma links_block: "links_ok s \<Longrightarrow> w \<in> set (fl_block (fl_at s b)) \<longleftrightarrow> fl_next (fl_at s w) = Some b"
  by (simp add: links_ok_def)

section \<open>Waking\<close>

lemma raw_delete_block_links:
  assumes "links_ok s"
  shows "fl_next (fl_at (raw_delete_block w s) a) = (if a = w then None else fl_next (fl_at s a))"
    "fl_block (fl_at (raw_delete_block w s) a) = filter (\<lambda>x. x \<noteq> w) (fl_block (fl_at s a))"
    "distinct (blocked_list s) \<Longrightarrow> blocked_list (raw_delete_block w s) = filter (\<lambda>x. x \<noteq> w) (blocked_list s)"
    "links_ok (raw_delete_block w s)"
proof -
  have d: "remove1 w (fl_block (fl_at s b)) = filter (\<lambda>x. x \<noteq> w) (fl_block (fl_at s b))" for b
    using assms by (simp add: links_ok_def distinct_remove1_removeAll removeAll_filter_not_eq) (auto intro: filter_cong)
  have out: "fl_next (fl_at s w) \<noteq> Some b \<Longrightarrow> filter (\<lambda>x. x \<noteq> w) (fl_block (fl_at s b)) = fl_block (fl_at s b)" for b
    using assms by (auto simp: links_ok_def filter_id_conv)
  show n: "fl_next (fl_at (raw_delete_block w s) a) = (if a = w then None else fl_next (fl_at s a))" for a
    by (auto simp: raw_delete_block_def Let_def split: option.split)
  show b: "fl_block (fl_at (raw_delete_block w s) a) = filter (\<lambda>x. x \<noteq> w) (fl_block (fl_at s a))" for a
    using d out by (auto simp: raw_delete_block_def Let_def split: option.split)
  show "distinct (blocked_list s) \<Longrightarrow> blocked_list (raw_delete_block w s) = filter (\<lambda>x. x \<noteq> w) (blocked_list s)"
    by (auto simp: raw_delete_block_def Let_def distinct_remove1_removeAll removeAll_filter_not_eq split: option.split intro: filter_cong)
  show "links_ok (raw_delete_block w s)"
    using assms by (auto simp: links_ok_def n b)
qed

lemma fold_delete_block_links:
  assumes "links_ok s"
  shows "fl_next (fl_at (fold raw_delete_block ws s) a) = (if a \<in> set ws then None else fl_next (fl_at s a))"
    "fl_block (fl_at (fold raw_delete_block ws s) a) = filter (\<lambda>x. x \<notin> set ws) (fl_block (fl_at s a))"
    "distinct (blocked_list s) \<Longrightarrow> blocked_list (fold raw_delete_block ws s) = filter (\<lambda>x. x \<notin> set ws) (blocked_list s)"
    "links_ok (fold raw_delete_block ws s)"
  using assms
proof (induction ws arbitrary: s)
  case (Cons w ws)
  {
    case 1
    then show ?case using Cons.IH(1) [OF raw_delete_block_links(4) [OF 1]] by (simp add: raw_delete_block_links(1))
  next
    case 2
    then show ?case using Cons.IH(2) [OF raw_delete_block_links(4) [OF 2]]
      by (simp add: raw_delete_block_links(2))
  next
    case 3
    have "distinct (blocked_list (raw_delete_block w s))" using 3 by (simp add: raw_delete_block_links(3))
    then show ?case using Cons.IH(3) [OF _ raw_delete_block_links(4) [OF 3(2)]] 3
      by (simp add: raw_delete_block_links(3))
  next
    case 4
    then show ?case using Cons.IH(4) [OF raw_delete_block_links(4) [OF 4]] by simp
  }
qed simp_all

lemma wake_links:
  assumes "links_ok s"
  shows "fl_next (fl_at (locks_wake_up_blocks b s) w) = (if fl_next (fl_at s w) = Some b then None else fl_next (fl_at s w))"
    "fl_block (fl_at (locks_wake_up_blocks b s) a) = (if a = b then [] else fl_block (fl_at s a))"
    "distinct (blocked_list s) \<Longrightarrow>
       blocked_list (locks_wake_up_blocks b s) = filter (\<lambda>w. fl_next (fl_at s w) \<noteq> Some b) (blocked_list s)"
    "links_ok (locks_wake_up_blocks b s)"
proof -
  have in_b: "w \<in> set (fl_block (fl_at s b)) \<longleftrightarrow> fl_next (fl_at s w) = Some b" for w
    using assms by (simp add: links_ok_def)
  have other: "a \<noteq> b \<Longrightarrow> filter (\<lambda>x. fl_next (fl_at s x) \<noteq> Some b) (fl_block (fl_at s a)) = fl_block (fl_at s a)" for a
    using assms by (auto simp: links_block filter_id_conv)
  note f = fold_delete_block_links [OF assms, of "fl_block (fl_at s b)", unfolded in_b, folded locks_wake_up_blocks_def]
  show "fl_next (fl_at (locks_wake_up_blocks b s) w) = (if fl_next (fl_at s w) = Some b then None else fl_next (fl_at s w))"
    by (rule f(1))
  show "fl_block (fl_at (locks_wake_up_blocks b s) a) = (if a = b then [] else fl_block (fl_at s a))"
    unfolding f(2) using other in_b by (auto simp: filter_empty_conv)
  show "distinct (blocked_list s) \<Longrightarrow>
      blocked_list (locks_wake_up_blocks b s) = filter (\<lambda>w. fl_next (fl_at s w) \<noteq> Some b) (blocked_list s)"
    by (rule f(3))
  show "links_ok (locks_wake_up_blocks b s)" by (rule f(4))
qed

lemma waiters_okD:
  assumes "waiters_ok X s"
  shows "links_ok s" "distinct (blocked_list s)"
    "fl_next (fl_at s w) = Some b \<Longrightarrow> w \<notin> set (i_flock s ino)" "fl_next (fl_at s w) = Some b \<Longrightarrow> w < fl_fresh s"
    "fl_next (fl_at s w) = Some b \<Longrightarrow> b \<notin> X \<Longrightarrow> \<exists>ino. b \<in> set (i_flock s ino)"
    "fl_next (fl_at s w) = Some b \<Longrightarrow> b \<notin> X \<Longrightarrow> holds_up (fl_at s w) (fl_at s b)"
    "w \<in> set (blocked_list s) \<longleftrightarrow> (\<exists>b. fl_next (fl_at s w) = Some b \<and> IS_POSIX (fl_at s b))"
  using assms by (auto simp: waiters_ok_def)

lemma holds_up_core:
  assumes "core w' = core w" "core b' = core b"
  shows "holds_up w' b' = holds_up w b"
  using core_eqD [OF assms(1)] core_eqD [OF assms(2)]
  by (simp add: holds_up_def IS_POSIX_def IS_FLOCK_def IS_LEASE_def posix_locks_conflict_def flock_locks_conflict_def
      posix_same_owner_def locks_overlap_def locks_conflict_def)

lemma posix_core: "core b' = core b \<Longrightarrow> IS_POSIX b' = IS_POSIX b"
  by (auto simp: IS_POSIX_def dest: core_eqD)

text \<open>Waking the requests that wait for \<open>b\<close> ends its exemption.\<close>

lemma waiters_ok_wake:
  assumes W: "waiters_ok (insert b X) s"
  shows "waiters_ok X (locks_wake_up_blocks b s)"
proof -
  note d = waiters_okD [OF W] and l = wake_links [OF waiters_okD(1) [OF W], of b]
  have bl: "blocked_list (locks_wake_up_blocks b s) = filter (\<lambda>w. fl_next (fl_at s w) \<noteq> Some b) (blocked_list s)"
    by (rule l(3) [OF d(2)])
  have next': "fl_next (fl_at (locks_wake_up_blocks b s) w) = Some c \<longleftrightarrow> fl_next (fl_at s w) = Some c \<and> c \<noteq> b" for w c
    unfolding l(1) by auto
  have blk: "holds_up (fl_at (locks_wake_up_blocks b s) w) (fl_at (locks_wake_up_blocks b s) c) = holds_up (fl_at s w) (fl_at s c)" for w c
    by (rule holds_up_core) simp_all
  have px: "IS_POSIX (fl_at (locks_wake_up_blocks b s) c) = IS_POSIX (fl_at s c)" for c by (rule posix_core) simp
  show ?thesis
    unfolding waiters_ok_def next' blk px wake_sel(1,2)
  proof (intro conjI allI impI)
    show "distinct (blocked_list (locks_wake_up_blocks b s))" unfolding bl using d(2) by simp
    show "set (blocked_list (locks_wake_up_blocks b s)) = {w. \<exists>c. (fl_next (fl_at s w) = Some c \<and> c \<noteq> b) \<and> IS_POSIX (fl_at s c)}"
      unfolding bl using d(7) by auto
  qed (use d l(4) in auto)
qed

text \<open>A change that leaves the links alone.\<close>

lemma waiters_ok_change:
  assumes W: "waiters_ok X s"
    and links: "\<And>a. fl_next (fl_at s' a) = fl_next (fl_at s a)" "\<And>a. fl_block (fl_at s' a) = fl_block (fl_at s a)"
      "blocked_list s' = blocked_list s" "fl_fresh s \<le> fl_fresh s'"
    and lists: "\<And>w ino. fl_next (fl_at s w) \<noteq> None \<Longrightarrow> w \<notin> set (i_flock s' ino)"
      "\<And>b ino. b \<in> set (i_flock s ino) \<Longrightarrow> fl_block (fl_at s b) \<noteq> [] \<Longrightarrow> b \<notin> X' \<Longrightarrow> \<exists>i. b \<in> set (i_flock s' i)"
    and data: "\<And>w b. fl_next (fl_at s w) = Some b \<Longrightarrow> IS_POSIX (fl_at s' b) = IS_POSIX (fl_at s b)"
      "\<And>w b. fl_next (fl_at s w) = Some b \<Longrightarrow> b \<notin> X' \<Longrightarrow> b \<notin> X \<and> (holds_up (fl_at s w) (fl_at s b) \<longrightarrow> holds_up (fl_at s' w) (fl_at s' b))"
  shows "waiters_ok X' s'"
proof -
  note d = waiters_okD [OF W]
  have blk: "fl_next (fl_at s w) = Some b \<Longrightarrow> fl_block (fl_at s b) \<noteq> []" for w b using d(1) by (force simp: links_ok_def)
  show ?thesis
    unfolding waiters_ok_def links(1,3)
  proof (intro conjI allI impI)
    show "links_ok s'" using d(1) by (simp add: links_ok_def links)
    fix w b assume w: "fl_next (fl_at s w) = Some b"
    show "w \<notin> set (i_flock s' ino)" for ino using lists(1) w by simp
    show "w < fl_fresh s'" using d(4) [OF w] links(4) by simp
    assume b: "b \<notin> X'"
    then have "b \<notin> X" using data(2) [OF w] by blast
    then show "\<exists>ino. b \<in> set (i_flock s' ino)" "holds_up (fl_at s' w) (fl_at s' b)"
      using d(5,6) [OF w] lists(2) blk [OF w] b data(2) [OF w] by blast+
  next
    show "set (blocked_list s) = {w. \<exists>b. fl_next (fl_at s w) = Some b \<and> IS_POSIX (fl_at s' b)}"
      using d(7) data(1) by auto
  qed (rule d(2))
qed

text \<open>An exempt lock nobody waits for is not exempt.\<close>

lemma waiters_ok_none:
  assumes "waiters_ok (insert b X) s" "fl_block (fl_at s b) = []"
  shows "waiters_ok X s"
proof -
  have "fl_next (fl_at s w) \<noteq> Some b" for w using assms by (simp add: waiters_ok_def links_ok_def)
  then show ?thesis using assms(1) unfolding waiters_ok_def by blast
qed

lemma idle_block: "waiters_ok {} s \<Longrightarrow> idle s a \<Longrightarrow> fl_block (fl_at s a) = []"
proof (rule ccontr)
  assume W: "waiters_ok {} s" and i: "idle s a" and "fl_block (fl_at s a) \<noteq> []"
  then obtain w where "fl_next (fl_at s w) = Some a" 
    using links_block [OF waiters_okD(1) [OF W], of _ a] by (metis list.set_sel(1))
  then show False using waiters_okD(5) [OF W] i by (auto simp: idle_def)
qed

section \<open>The operations on locks\<close>

lemma listed_not_waiting: "waiters_ok X s \<Longrightarrow> a \<in> set (i_flock s ino) \<Longrightarrow> fl_next (fl_at s a) = None"
  using waiters_okD(3) [of X s a] by (cases "fl_next (fl_at s a)") auto

lemma waiters_ok_upd:
  assumes "waiters_ok X s" "fl_next (fl_at s a) = None" "fl_next (f (fl_at s a)) = None" "fl_block (f (fl_at s a)) = fl_block (fl_at s a)"
    and "fl_block (fl_at s a) \<noteq> [] \<Longrightarrow> IS_POSIX (f (fl_at s a)) = IS_POSIX (fl_at s a)"
  shows "waiters_ok (insert a X) (upd_fl a f s)"
proof (rule waiters_ok_change [OF assms(1)])
  show "IS_POSIX (fl_at (upd_fl a f s) b) = IS_POSIX (fl_at s b)" if "fl_next (fl_at s w) = Some b" for w b
  proof -
    have "fl_block (fl_at s b) \<noteq> []" using that links_block [OF waiters_okD(1) [OF assms(1)], of w b] by auto
    then show ?thesis using assms(5) by auto
  qed
qed (use assms(2-4) waiters_okD(3) [OF assms(1)] in auto)

lemma waiters_ok_upd_wake:
  assumes "waiters_ok {} s" "fl_next (fl_at s a) = None" "fl_next (f (fl_at s a)) = None" "fl_block (f (fl_at s a)) = fl_block (fl_at s a)"
    and "fl_flags (f (fl_at s a)) = fl_flags (fl_at s a)"
  shows "waiters_ok {} (locks_wake_up_blocks a (upd_fl a f s))"
  by (rule waiters_ok_wake, rule waiters_ok_upd) (use assms in \<open>simp_all add: IS_POSIX_def\<close>)

lemma waiters_ok_upd_idle:
  assumes "waiters_ok {} s" "idle s a" "fl_next (f (fl_at s a)) = None" "fl_block (f (fl_at s a)) = fl_block (fl_at s a)"
  shows "waiters_ok {} (upd_fl a f s)"
  using assms idle_block [OF assms(1,2)]
  by - (rule waiters_ok_none [of a], rule waiters_ok_upd, simp_all add: idle_def)

lemma waiters_ok_delete_lock:
  assumes W: "waiters_ok {} s" and l: "i_flock s ino = pre @ a # rest"
  shows "waiters_ok {} (locks_delete_lock ino pre a rest s)"
proof -
  define s3 where "s3 = upd_fl a (fl_nspid_update (\<lambda>_. 0)) (upd_fl a (fl_next_update (\<lambda>_. None))
    (s\<lparr>i_flock := (i_flock s)(ino := pre @ rest)\<rparr>)\<lparr>file_lock_list := remove1 a (file_lock_list s)\<rparr>)"
  have a: "fl_next (fl_at s a) = None" using listed_not_waiting [OF W, of a ino] l by simp
  have eq: "locks_delete_lock ino pre a rest s = locks_wake_up_blocks a s3"
    by (simp add: locks_delete_lock_def s3_def Let_def upd_fl_def)
  have lists: "i_flock s3 = (i_flock s)(ino := pre @ rest)" by (simp add: s3_def)
  have "waiters_ok {a} s3"
  proof (rule waiters_ok_change [OF W])
    show "fl_next (fl_at s3 x) = fl_next (fl_at s x)" "fl_block (fl_at s3 x) = fl_block (fl_at s x)" for x
      using a by (simp_all add: s3_def)
    show "w \<notin> set (i_flock s3 i)" if "fl_next (fl_at s w) \<noteq> None" for w i
      using that waiters_okD(3) [OF W, of w _ i] l by (auto simp: lists)
    show "\<exists>j. b \<in> set (i_flock s3 j)" if "b \<in> set (i_flock s i)" "fl_block (fl_at s b) \<noteq> []" "b \<notin> {a}" for b i
      using that l by (intro exI [of _ i]) (auto simp: lists)
    have c: "core (fl_at s3 x) = core (fl_at s x)" for x by (simp add: s3_def)
    show "IS_POSIX (fl_at s3 b) = IS_POSIX (fl_at s b)" for b by (rule posix_core [OF c])
    show "b \<notin> {} \<and> (holds_up (fl_at s w) (fl_at s b) \<longrightarrow> holds_up (fl_at s3 w) (fl_at s3 b))" for w b
      using holds_up_core [OF c c] by simp
  qed (simp_all add: s3_def)
  then show ?thesis unfolding eq by (rule waiters_ok_wake)
qed

lemma waiters_ok_insert_lock:
  assumes W: "waiters_ok {} s" and "fl_next (fl_at s n) = None" "i_flock s ino = pre @ rest"
  shows "waiters_ok {} (locks_insert_lock tgid ino pre rest n s)"
proof (rule waiters_ok_change [OF W])
  let ?s = "locks_insert_lock tgid ino pre rest n s"
  show "fl_next (fl_at ?s x) = fl_next (fl_at s x)" "fl_block (fl_at ?s x) = fl_block (fl_at s x)" for x
    by (simp_all add: locks_insert_lock_def)
  show "w \<notin> set (i_flock ?s i)" if "fl_next (fl_at s w) \<noteq> None" for w i
    using that waiters_okD(3) [OF W, of w _ i] assms(2,3) by auto
  show "\<exists>j. b \<in> set (i_flock ?s j)" if "b \<in> set (i_flock s i)" for b i
    using that assms(3) by (intro exI [of _ i]) auto
  show "IS_POSIX (fl_at ?s b) = IS_POSIX (fl_at s b)" for b by (rule posix_core) simp
  show "b \<notin> {} \<and> (holds_up (fl_at s w) (fl_at s b) \<longrightarrow> holds_up (fl_at ?s w) (fl_at ?s b))" for w b
    using holds_up_core [of "fl_at ?s w" "fl_at s w" "fl_at ?s b" "fl_at s b"] by simp
qed (simp_all add: locks_insert_lock_def)

lemma waiters_ok_insert_copy:
  assumes "waiters_ok {} s" "idle s n" "i_flock s ino = pre @ rest"
  shows "waiters_ok {} (insert_copy tgid ino pre rest n a s)"
  unfolding insert_copy_def
  by (rule waiters_ok_insert_lock, rule waiters_ok_upd_idle) (use assms in \<open>simp_all add: idle_def\<close>)

text \<open>A lock that grows keeps everybody waiting who waits for it.\<close>

lemma waiters_ok_merge:
  assumes W: "waiters_ok {} s" and ar: "a \<noteq> r" "fl_next (fl_at s a) = None" "fl_next (fl_at s r) = None"
  shows "waiters_ok {} (posix_merge a r s)"
proof (rule waiters_ok_change [OF W])
  let ?s = "posix_merge a r s"
  show "fl_next (fl_at ?s x) = fl_next (fl_at s x)" "fl_block (fl_at ?s x) = fl_block (fl_at s x)" for x
    using ar(1) by (simp_all add: posix_merge_at)
  have other: "x \<noteq> a \<Longrightarrow> x \<noteq> r \<Longrightarrow> fl_at ?s x = fl_at s x" for x using ar(1) by (simp add: posix_merge_at)
  have same: "fl_owner (fl_at ?s x) = fl_owner (fl_at s x)" "fl_flags (fl_at ?s x) = fl_flags (fl_at s x)"
    "fl_type (fl_at ?s x) = fl_type (fl_at s x)" "fl_file (fl_at ?s x) = fl_file (fl_at s x)"
    "fl_start (fl_at ?s x) \<le> fl_start (fl_at s x)" "fl_end (fl_at s x) \<le> fl_end (fl_at ?s x)" for x
    using ar(1) by (simp_all add: posix_merge_at)
  then show "IS_POSIX (fl_at ?s b) = IS_POSIX (fl_at s b)" for b by (simp add: IS_POSIX_def)
  show "b \<notin> {} \<and> (holds_up (fl_at s w) (fl_at s b) \<longrightarrow> holds_up (fl_at ?s w) (fl_at ?s b))" if w: "fl_next (fl_at s w) = Some b" for w b
  proof -
    have "fl_at ?s w = fl_at s w" using w ar(2,3) by (intro other) auto
    then show ?thesis
      using same [of b] by (auto simp: holds_up_def IS_POSIX_def IS_FLOCK_def IS_LEASE_def posix_locks_conflict_def
          flock_locks_conflict_def posix_same_owner_def locks_overlap_def locks_conflict_def split: if_splits)
  qed
  show "w \<notin> set (i_flock ?s i)" if "fl_next (fl_at s w) \<noteq> None" for w i
    using that waiters_okD(3) [OF W, of w _ i] ar(1) by (auto simp: posix_merge_at)
qed (use assms in \<open>auto simp: posix_merge_at posix_merge_def Let_def\<close>)

lemma waiters_ok_replace:
  assumes W: "waiters_ok {} s" and a: "fl_next (fl_at s a) = None"
  shows "waiters_ok {} (posix_replace a r s)"
proof -
  have "waiters_ok {} (locks_wake_up_blocks a s)" by (rule waiters_ok_wake) (use W in \<open>simp add: waiters_ok_def\<close>)
  moreover have "fl_block (fl_at (locks_wake_up_blocks a s) a) = []" "fl_next (fl_at (locks_wake_up_blocks a s) a) = None"
    using wake_links [OF waiters_okD(1) [OF W]] a by simp_all
  ultimately show ?thesis
    unfolding posix_replace_def Let_def by - (rule waiters_ok_none [of a], rule waiters_ok_upd, simp_all)
qed

lemma waiters_ok_delete_block: "waiters_ok X s \<Longrightarrow> waiters_ok X (raw_delete_block w s)"
proof -
  assume W: "waiters_ok X s"
  note d = waiters_okD [OF W] and l = raw_delete_block_links [OF waiters_okD(1) [OF W], of w]
  let ?s = "raw_delete_block w s"
  have n: "fl_next (fl_at ?s v) = Some c \<longleftrightarrow> fl_next (fl_at s v) = Some c \<and> v \<noteq> w" for v c unfolding l(1) by auto
  have h: "holds_up (fl_at ?s v) (fl_at ?s c) = holds_up (fl_at s v) (fl_at s c)" for v c by (rule holds_up_core) simp_all
  have p: "IS_POSIX (fl_at ?s c) = IS_POSIX (fl_at s c)" for c by (rule posix_core) simp
  have bl: "blocked_list ?s = filter (\<lambda>x. x \<noteq> w) (blocked_list s)" by (rule l(3) [OF d(2)])
  show ?thesis
    unfolding waiters_ok_def n h p raw_delete_block_sel(1,2)
  proof (intro conjI allI impI)
    show "distinct (blocked_list ?s)" unfolding bl using d(2) by simp
    show "set (blocked_list ?s) = {v. \<exists>c. (fl_next (fl_at s v) = Some c \<and> v \<noteq> w) \<and> IS_POSIX (fl_at s c)}"
      unfolding bl using d(7) by auto
  qed (use d l(4) in auto)
qed

lemma waiters_ok_insert_block:
  assumes W: "waiters_ok {} s" and w: "idle s w" and b: "b \<in> set (i_flock s ino)" and h: "holds_up (fl_at s w) (fl_at s b)"
  shows "waiters_ok {} (locks_insert_block b w s)"
proof -
  let ?s = "locks_insert_block b w s"
  have bw: "b \<noteq> w" using b w by (auto simp: idle_def)
  have c: "core (fl_at ?s x) = core (fl_at s x)" for x by (simp add: locks_insert_block_def Let_def)
  have n: "fl_next (fl_at ?s x) = (if x = w then Some b else fl_next (fl_at s x))" for x
    by (simp add: locks_insert_block_def Let_def)
  have k: "fl_block (fl_at ?s x) = (if x = b then fl_block (fl_at s b) @ [w] else fl_block (fl_at s x))" for x
    using bw by (simp add: locks_insert_block_def Let_def)
  have i: "i_flock ?s = i_flock s" "fl_fresh ?s = fl_fresh s" by (simp_all add: locks_insert_block_def Let_def)
  have bl: "blocked_list ?s = (if IS_POSIX (fl_at s b) then w # blocked_list s else blocked_list s)"
    using posix_core [OF c, of b] by (simp add: locks_insert_block_def Let_def IS_POSIX_def)
  have h': "holds_up (fl_at ?s x) (fl_at ?s y) = holds_up (fl_at s x) (fl_at s y)" for x y by (rule holds_up_core [OF c c])
  have p: "IS_POSIX (fl_at ?s x) = IS_POSIX (fl_at s x)" for x by (rule posix_core [OF c])
  note d = waiters_okD [OF W]
  have wb: "w \<notin> set (fl_block (fl_at s x))" "w \<notin> set (blocked_list s)" for x
    using links_block [OF d(1)] d(7) w by (auto simp: idle_def)
  have "links_ok ?s" using d(1) wb(1) w unfolding links_ok_def n k by (auto simp: idle_def)
  then show ?thesis
    unfolding waiters_ok_def n i h' p using d w b h wb(2) by (auto simp: idle_def bl)
qed

lemma waiters_ok_alloc:
  assumes W: "waiters_ok {} s" and l: "\<And>ino. fl_fresh s \<notin> set (i_flock s ino)" and r: "locks_alloc_lock mem s = (n, s')"
  shows "waiters_ok {} s'"
proof (cases mem)
  case None
  then show ?thesis using r W by (simp add: locks_alloc_lock_def)
next
  case (Some old)
  have i: "fl_next (fl_at s (fl_fresh s)) = None" using waiters_okD(4) [OF W, of "fl_fresh s"] by (cases "fl_next (fl_at s (fl_fresh s))") auto
  have "fl_next (fl_at s w) \<noteq> Some (fl_fresh s)" for w using waiters_okD(5) [OF W] l by blast
  then have b: "fl_block (fl_at s (fl_fresh s)) = []" using links_block [OF waiters_okD(1) [OF W]] by (metis list.set_sel(1))
  have s': "s' = (upd_fl (fl_fresh s) (\<lambda>_. old\<lparr>fl_next := None, fl_block := [], fl_nspid := 0\<rparr>) s)\<lparr>fl_fresh := Suc (fl_fresh s)\<rparr>"
    using r Some by (simp add: locks_alloc_lock_def upd_fl_def)
  have W': "waiters_ok {} (upd_fl (fl_fresh s) (\<lambda>_. old\<lparr>fl_next := None, fl_block := [], fl_nspid := 0\<rparr>) s)"
    by (rule waiters_ok_none [of "fl_fresh s"], rule waiters_ok_upd) (use W i b in simp_all)
  show ?thesis unfolding s' by (rule waiters_ok_change [OF W']) (use waiters_okD(3) [OF W'] in auto)
qed

end
