(* ===== verification/LockInv.thy ===== *)
theory LockInv
  imports LockWait
begin

text \<open>
  The invariant of file locks: every list is well-formed, locks that exclude each other are never held together,
  and waiting requests are linked to locks they conflict with. Taking and releasing byte ranges keeps it.
\<close>

section \<open>Waiting requests over the walk\<close>

lemma next_None_wake: "links_ok s \<Longrightarrow> fl_next (fl_at s x) = None \<Longrightarrow> fl_next (fl_at (locks_wake_up_blocks b s) x) = None"
  by (simp add: wake_links(1))

lemma next_None_delete:
  assumes "links_ok s" "fl_next (fl_at s a) = None" "fl_next (fl_at s x) = None"
  shows "fl_next (fl_at (locks_delete_lock ino pre a rest s) x) = None"
proof -
  define s3 where "s3 = upd_fl a (fl_nspid_update (\<lambda>_. 0)) (upd_fl a (fl_next_update (\<lambda>_. None))
    (s\<lparr>i_flock := (i_flock s)(ino := pre @ rest)\<rparr>)\<lparr>file_lock_list := remove1 a (file_lock_list s)\<rparr>)"
  have eq: "locks_delete_lock ino pre a rest s = locks_wake_up_blocks a s3"
    by (simp add: locks_delete_lock_def s3_def Let_def upd_fl_def)
  have n: "fl_next (fl_at s3 y) = fl_next (fl_at s y)" "fl_block (fl_at s3 y) = fl_block (fl_at s y)" for y
    using assms(2) by (simp_all add: s3_def)
  have "links_ok s3" using assms(1) by (simp add: links_ok_def n)
  then show ?thesis unfolding eq using assms(3) by (intro next_None_wake) (simp_all add: n)
qed

lemma next_None_replace:
  "links_ok s \<Longrightarrow> fl_next (fl_at s x) = None \<Longrightarrow> fl_next (fl_at (posix_replace a r s) x) = None"
  by (auto simp: posix_replace_def Let_def wake_links(1))

definition keeps_idle :: "lock_state \<Rightarrow> lock_state \<Rightarrow> bool" where
  "keeps_idle s s' \<longleftrightarrow> (\<forall>x. fl_next (fl_at s x) = None \<longrightarrow> fl_next (fl_at s' x) = None)"

lemma walk_waiters:
  fixes added :: bool and left :: "nat option"
  assumes W: "waiters_ok {} s" and r: "fl_next (fl_at s request) = None"
    and pre: "i_flock s ino = pre @ own @ post" "distinct (pre @ own @ post)" "request \<notin> set own"
    and owner: "\<forall>a\<in>set own. fl_owner (fl_at s a) = fl_owner (fl_at s request)"
      "post = [] \<or> fl_owner (fl_at s (hd post)) \<noteq> fl_owner (fl_at s request)"
  defines "s' \<equiv> fst (posix_walk ino s pre (own @ post) request added left)"
  shows "waiters_ok {} s' \<and> keeps_idle s s'"
proof -
  let ?A = "insert request (set own)"
  let ?P = "\<lambda>s'. lock_frame {} ?A ino s s' \<and> waiters_ok {} s' \<and> keeps_idle s s'"
  have rn: "fl_next (fl_at t r) = None" if "?P t" "r = request \<or> r \<in> set (i_flock t ino)" for t r
    using that assms(2) listed_not_waiting [of "{}" t r ino] by (auto simp: keeps_idle_def)
  have "?P s'" unfolding s'_def
  proof (rule posix_walk_preserves [where Pr = ?P, OF _ pre refl])
    show "?P s" using W by (simp add: keeps_idle_def)
    show "\<not> posix_same_owner (fl_at t r) (fl_at t (hd post))" if "?P t" "r \<in> ?A" "post \<noteq> []" for t r
      using that owner by (auto simp: posix_same_owner_def frame_owner)
    show "?P (posix_merge a r t)"
      if t: "?P t" "a \<in> ?A" "r \<in> ?A" "a \<noteq> r" "a \<in> set (i_flock t ino)" "r = request \<or> r \<in> set (i_flock t ino)" for t a r
    proof (intro conjI)
      show "lock_frame {} ?A ino s (posix_merge a r t)" using t(1) frame_merge [OF t(2,3)] lock_frame_trans by blast
      show "waiters_ok {} (posix_merge a r t)" 
        by (rule waiters_ok_merge [OF _ t(4) rn [OF t(1)] rn [OF t(1) t(6)]]) (use t(1,5) in simp_all)
      show "keeps_idle s (posix_merge a r t)" using t(1,4) by (simp add: keeps_idle_def posix_merge_at)
    qed
    show "?P (locks_delete_lock ino p a q t)" if t: "?P t" "i_flock t ino = p @ a # q" for t p a q
    proof (intro conjI)
      show "lock_frame {} ?A ino s (locks_delete_lock ino p a q t)" using t(1) frame_delete lock_frame_trans by blast
      show "waiters_ok {} (locks_delete_lock ino p a q t)" 
        by (rule waiters_ok_delete_lock [OF _ t(2)]) (use t(1) in simp)
      show "keeps_idle s (locks_delete_lock ino p a q t)"
        unfolding keeps_idle_def
      proof (intro allI impI)
        fix x assume "fl_next (fl_at s x) = None"
        moreover have "links_ok t" "fl_next (fl_at t a) = None" using t(1) rn [OF t(1), of a] t(2) waiters_okD(1) by auto
        ultimately show "fl_next (fl_at (locks_delete_lock ino p a q t) x) = None"
          using t(1) by (intro next_None_delete) (auto simp: keeps_idle_def)
      qed
    qed
    show "?P (posix_replace a r t)" if t: "?P t" "a \<in> ?A" "a \<in> set (i_flock t ino)" for t a r
    proof (intro conjI)
      show "lock_frame {} ?A ino s (posix_replace a r t)" using t(1) frame_replace [OF t(2)] lock_frame_trans by blast
      show "waiters_ok {} (posix_replace a r t)" 
        by (rule waiters_ok_replace [OF _ rn [OF t(1)]]) (use t(1,3) in simp_all)
      show "keeps_idle s (posix_replace a r t)"
        using t(1) waiters_okD(1) [of "{}" t] by (simp add: keeps_idle_def next_None_replace)
    qed
  qed
  then show ?thesis by blast
qed

lemma keeps_idle_trans: "keeps_idle s s' \<Longrightarrow> keeps_idle s' s'' \<Longrightarrow> keeps_idle s s''"
  by (simp add: keeps_idle_def)

text \<open>A change of a listed lock whose waiters are woken.\<close>

lemma listed_upd_wake:
  assumes "waiters_ok {} s" "a \<in> set (i_flock s ino)"
    and f: "\<And>x. fl_next (f x) = fl_next x" "\<And>x. fl_block (f x) = fl_block x" "\<And>x. fl_flags (f x) = fl_flags x"
  shows "waiters_ok {} (locks_wake_up_blocks a (upd_fl a f s)) \<and> keeps_idle s (locks_wake_up_blocks a (upd_fl a f s))"
proof -
  have n: "fl_next (fl_at (upd_fl a f s) x) = fl_next (fl_at s x)" "fl_block (fl_at (upd_fl a f s) x) = fl_block (fl_at s x)" for x
    using f by simp_all
  have "links_ok (upd_fl a f s)" using waiters_okD(1) [OF assms(1)] unfolding links_ok_def n .
  then have "keeps_idle s (locks_wake_up_blocks a (upd_fl a f s))" unfolding keeps_idle_def using next_None_wake n(1) by simp
  then show ?thesis using waiters_ok_upd_wake [OF assms(1) listed_not_waiting [OF assms(1,2)], of f] listed_not_waiting [OF assms(1,2)] f by simp
qed

lemma cut_waiters:
  assumes "waiters_ok {} s" "\<And>l. left = Some l \<Longrightarrow> l \<in> set (i_flock s ino)"
  shows "waiters_ok {} (posix_cut_left left r s) \<and> keeps_idle s (posix_cut_left left r s)"
proof (cases left)
  case (Some l)
  then show ?thesis unfolding posix_cut_left_def using listed_upd_wake [OF assms(1) assms(2) [OF Some]] by simp
qed (simp add: assms(1) posix_cut_left_def keeps_idle_def)

lemma cut_right_waiters:
  assumes "waiters_ok {} s" "a \<in> set (i_flock s ino)"
  shows "waiters_ok {} (posix_cut_right a r s) \<and> keeps_idle s (posix_cut_right a r s)"
  unfolding posix_cut_right_def using listed_upd_wake [OF assms] by simp

lemma insert_copy_waiters:
  assumes "waiters_ok {} s" "idle s n" "i_flock s ino = pre @ rest"
  shows "waiters_ok {} (insert_copy tgid ino pre rest n a s) \<and> keeps_idle s (insert_copy tgid ino pre rest n a s)"
  using waiters_ok_insert_copy [OF assms] by (simp add: keeps_idle_def insert_copy_def locks_insert_lock_def)

lemma install_waiters:
  assumes R: "walk_result s0 ino pre0 post segs (s, pre, rest, request, added, left, right)"
    and res: "posix_install tgid ino new_fl new_fl2 (s, pre, rest, request, added, left, right) = (e, s')"
    and W: "waiters_ok {} s" and new: "\<And>n. new_fl = Some n \<or> new_fl2 = Some n \<Longrightarrow> idle s n" "new_fl = None \<or> new_fl \<noteq> new_fl2"
  shows "waiters_ok {} s' \<and> keeps_idle s s'"
proof -
  obtain P own added0 left0 where J: "walk_inv s0 ino pre0 post s P own request added0 left0"
    and pos: "pre = pre0 @ P" "rest = own @ post" and stop: "walk_stop s own request added0 left0 added left right"
    using R by (auto simp: walk_result_def)
  have list: "i_flock s ino = pre @ rest" using J pos by (simp add: walk_inv_def)
  have rt: "r \<in> set (i_flock s ino)" if "right = Some r" for r
    using stop that list pos by (cases own) (auto simp: walk_stop_def)
  have lt: "l \<in> set (i_flock s ino)" if "left = Some l" for l
    using stop that walk_inv_left(1) [OF J] rt list pos by (cases right) (auto simp: walk_stop_def split: if_splits)
  define s1 where "s1 = (if added then s else insert_copy tgid ino pre rest (the new_fl) request s)"
  have W1: "waiters_ok {} s1" "keeps_idle s s1" if "added \<or> new_fl \<noteq> None"
    using that W insert_copy_waiters [OF W new(1) list] by (auto simp: s1_def keeps_idle_def)
  have sub: "set (i_flock s ino) \<subseteq> set (i_flock s1 ino)" using list by (auto simp: s1_def)
  from install_cases [OF res, folded s1_def]
  show ?thesis
  proof cases
    case 1
    then show ?thesis using W by (simp add: keeps_idle_def)
  next
    case 2
    have "waiters_ok {} s' \<and> keeps_idle s1 s'" unfolding 2(3) using lt sub by (intro cut_waiters [OF W1(1) [OF 2(2)], of _ ino]) blast
    then show ?thesis using keeps_idle_trans [OF W1(2) [OF 2(2)]] by blast
  next
    case (3 r n)
    let ?s2 = "insert_copy tgid ino pre ((if added then [] else [the new_fl]) @ rest) n r s1"
    have l1: "i_flock s1 ino = pre @ (if added then [] else [the new_fl]) @ rest" using list by (simp add: s1_def)
    have nn: "idle s n" "n \<notin> set pre" "n \<notin> set rest" using new(1) [of n] 3(3) list by (auto simp: idle_def dest: spec [of _ ino])
    have i1: "idle s1 n"
      using nn new(2) 3(3,4) by (auto simp: s1_def idle_def insert_copy_def locks_insert_lock_def)
    have w2: "waiters_ok {} ?s2 \<and> keeps_idle s1 ?s2" by (rule insert_copy_waiters [OF W1(1) [OF 3(4)] i1 l1])
    moreover have "r \<in> set (i_flock ?s2 ino)" "n \<in> set (i_flock ?s2 ino)" using rt [OF 3(1)] list by auto
    moreover note w3 = cut_right_waiters [OF conjunct1 [OF w2] this(1), of request]
    ultimately have "waiters_ok {} s' \<and> keeps_idle (posix_cut_right r request ?s2) s'"
      unfolding 3(5) by (intro cut_waiters [of _ _ ino]) auto
    then show ?thesis using w2 w3 keeps_idle_trans W1(2) [OF 3(4)] by blast
  next
    case (4 r)
    have "r \<in> set (i_flock s1 ino)" using rt [OF 4(1)] sub by blast
    note w2 = cut_right_waiters [OF W1(1) [OF 4(3)] this, of request]
    then have "waiters_ok {} s' \<and> keeps_idle (posix_cut_right r request s1) s'"
      unfolding 4(4) using lt sub by (intro cut_waiters [of _ _ ino]) auto
    then show ?thesis using w2 keeps_idle_trans W1(2) [OF 4(3)] by blast
  qed
qed

theorem posix_apply_waiters:
  assumes ok: "list_ok s ino" and rq: "request_ok s ino request" and W: "waiters_ok {} s"
    and r: "fl_next (fl_at s request) = None"
    and new: "\<And>n. new_fl = Some n \<or> new_fl2 = Some n \<Longrightarrow> idle s n" "new_fl = None \<or> new_fl \<noteq> new_fl2"
    and res: "posix_apply env ino request new_fl new_fl2 s = (e, s')"
  shows "waiters_ok {} s'" "keeps_idle s s'"
proof -
  define L where "L = locks_of s ino (fl_owner (fl_at s request))"
  obtain pre0 post s1 pre1 rest1 request1 added1 left1 right1 where
    pre: "i_flock s ino = pre0 @ L @ post" "distinct (pre0 @ L @ post)" "request \<notin> set L"
      "\<forall>a\<in>set L. fl_owner (fl_at s a) = fl_owner (fl_at s request)" "post = [] \<or> fl_owner (fl_at s (hd post)) \<noteq> fl_owner (fl_at s request)"
    and "\<forall>a\<in>set pre0. \<not> mine s (fl_owner (fl_at s request)) a"
      "\<forall>a\<in>set post. IS_POSIX (fl_at s a) \<and> fl_owner (fl_at s a) \<noteq> fl_owner (fl_at s request)" "L = [] \<Longrightarrow> post = []"
    and w: "posix_walk ino s pre0 (L @ post) request False None = (s1, pre1, rest1, request1, added1, left1, right1)"
    and R: "walk_result s ino pre0 post (set_range (seg_at s request) (map (seg_at s) L)) (s1, pre1, rest1, request1, added1, left1, right1)"
    and inst: "posix_install (le_tgid env) ino new_fl new_fl2 (s1, pre1, rest1, request1, added1, left1, right1) = (e, s')"
    by (rule posix_apply_parts [OF ok rq res, folded L_def]) (rule that; (assumption | blast))
  have W1: "waiters_ok {} s1" "keeps_idle s s1" using walk_waiters [OF W r pre, of False None] by (simp_all add: w)
  have f1: "lock_frame {} (insert request (set L)) ino s s1" and sub: "set (i_flock s1 ino) \<subseteq> set (i_flock s ino)"
    using posix_walk_frame [OF pre, of False None] by (simp_all add: w)
  have "idle s1 n" if "idle s n" for n
  proof -
    have "n \<notin> set (i_flock s1 i)" for i using that f1 sub by (cases "i = ino") (auto simp: idle_def lock_frame_def)
    then show ?thesis using that f1 W1(2) by (simp add: idle_def lock_frame_def keeps_idle_def)
  qed
  then have "waiters_ok {} s' \<and> keeps_idle s1 s'" using install_waiters [OF R inst W1(1) _ new(2)] new(1) by blast
  then show "waiters_ok {} s'" "keeps_idle s s'" using keeps_idle_trans [OF W1(2)] by blast+
qed

section \<open>The invariant\<close>

text \<open>What an owner holds at a byte of a file.\<close>

definition held_by :: "lock_state \<Rightarrow> nat \<Rightarrow> nat \<Rightarrow> int \<Rightarrow> u8 option" where
  "held_by s ino own b = held (map (seg_at s) (locks_of s ino own)) b"

definition posix_excl :: "lock_state \<Rightarrow> nat \<Rightarrow> bool" where
  "posix_excl s ino \<longleftrightarrow> (\<forall>v w b t u. v \<noteq> w \<and> held_by s ino v b = Some t \<and> held_by s ino w b = Some u \<longrightarrow> t = F_RDLCK \<and> u = F_RDLCK)"

definition flock_excl :: "lock_state \<Rightarrow> nat \<Rightarrow> bool" where
  "flock_excl s ino \<longleftrightarrow> (\<forall>a\<in>set (i_flock s ino). \<forall>b\<in>set (i_flock s ino).
     IS_FLOCK (fl_at s a) \<longrightarrow> \<not> flock_locks_conflict (fl_at s a) (fl_at s b))"

definition lists_ok :: "lock_state \<Rightarrow> bool" where
  "lists_ok s \<longleftrightarrow> (\<forall>ino. list_ok s ino \<and> posix_excl s ino \<and> flock_excl s ino) \<and>
     (\<forall>ino a. a \<in> set (i_flock s ino) \<longrightarrow> a < fl_fresh s) \<and>
     (\<forall>i j. i \<noteq> j \<longrightarrow> set (i_flock s i) \<inter> set (i_flock s j) = {})"

definition lock_inv :: "lock_state \<Rightarrow> bool" where
  "lock_inv s \<longleftrightarrow> lists_ok s \<and> waiters_ok {} s"

text \<open>The conditions on one list depend on the owners and kinds of its locks, and on the contents of those that are not
  leases.\<close>

lemma list_cong:
  assumes "i_flock s' ino = i_flock s ino" "\<And>a. a \<in> set (i_flock s ino) \<Longrightarrow> fl_ids (fl_at s' a) = fl_ids (fl_at s a)"
    and core: "\<And>a. a \<in> set (i_flock s ino) \<Longrightarrow> IS_POSIX (fl_at s a) \<or> IS_FLOCK (fl_at s a) \<Longrightarrow> core (fl_at s' a) = core (fl_at s a)"
  shows "locks_of s' ino own = locks_of s ino own" "held_by s' ino own b = held_by s ino own b"
    "list_ok s' ino = list_ok s ino" "posix_excl s' ino = posix_excl s ino" "flock_excl s' ino = flock_excl s ino"
proof -
  have e: "mine s' w a = mine s w a" "one_kind (fl_at s' a) = one_kind (fl_at s a)" "fl_rank (fl_at s' a) = fl_rank (fl_at s a)"
      "IS_POSIX (fl_at s' a) = IS_POSIX (fl_at s a)" "fl_owner (fl_at s' a) = fl_owner (fl_at s a)"
    if "a \<in> set (i_flock s ino)" for a w
    using assms(2) [OF that] by (simp_all add: fl_ids_def mine_def one_kind_def fl_rank_def IS_POSIX_def IS_FLOCK_def IS_LEASE_def)
  have fk: "IS_FLOCK (fl_at s' a) = IS_FLOCK (fl_at s a)" if "a \<in> set (i_flock s ino)" for a
    using assms(2) [OF that] by (simp add: fl_ids_def IS_FLOCK_def)
  have of: "locks_of s' ino w = locks_of s ino w" for w
    unfolding locks_of_def assms(1) using e(1) by (intro filter_cong refl) blast
  have "seg_at s' a = seg_at s a" if "a \<in> set (locks_of s ino w)" for a w
    by (rule seg_core, rule core) (use that in \<open>simp_all add: locks_of_def mine_def\<close>)
  then have segs: "map (seg_at s') (locks_of s ino w) = map (seg_at s) (locks_of s ino w)" for w by (intro map_cong refl) blast
  show "locks_of s' ino own = locks_of s ino own" by (rule of)
  have held: "held_by s' ino w b = held_by s ino w b" for w b unfolding held_by_def of segs ..
  show "held_by s' ino own b = held_by s ino own b" by (rule held)
  have "map (\<lambda>a. fl_rank (fl_at s' a)) (i_flock s ino) = map (\<lambda>a. fl_rank (fl_at s a)) (i_flock s ino)"
    using e(3) by (intro map_cong refl) blast
  moreover have "filter (\<lambda>a. IS_POSIX (fl_at s' a)) (i_flock s ino) = filter (\<lambda>a. IS_POSIX (fl_at s a)) (i_flock s ino)"
    using e(4) by (intro filter_cong refl) blast
  moreover have "map (\<lambda>a. fl_owner (fl_at s' a)) (filter (\<lambda>a. IS_POSIX (fl_at s a)) (i_flock s ino)) =
      map (\<lambda>a. fl_owner (fl_at s a)) (filter (\<lambda>a. IS_POSIX (fl_at s a)) (i_flock s ino))"
    using e(5) by (intro map_cong refl) simp
  moreover have "(\<forall>a\<in>set (i_flock s ino). one_kind (fl_at s' a)) = (\<forall>a\<in>set (i_flock s ino). one_kind (fl_at s a))" using e(2) by blast
  ultimately show "list_ok s' ino = list_ok s ino" unfolding list_ok_def of segs assms(1) by (simp only:)
  show "posix_excl s' ino = posix_excl s ino" unfolding posix_excl_def held ..
  have "flock_locks_conflict (fl_at s' a) (fl_at s' b) = flock_locks_conflict (fl_at s a) (fl_at s b)"
    if ab: "a \<in> set (i_flock s ino)" "b \<in> set (i_flock s ino)" "IS_FLOCK (fl_at s a)" for a b
  proof (cases "IS_FLOCK (fl_at s b)")
    case True
    then show ?thesis using core_eqD [OF core [OF ab(1)]] core_eqD [OF core [OF ab(2)]] ab(3) fk [OF ab(2)]
      by (simp add: flock_locks_conflict_def locks_conflict_def)
  qed (use fk [OF ab(2)] in \<open>simp add: flock_locks_conflict_def\<close>)
  then show "flock_excl s' ino = flock_excl s ino" unfolding flock_excl_def assms(1) using fk by simp
qed

lemma lists_ok_cong:
  assumes "lists_ok s" "i_flock s' = i_flock s" "\<And>a ino. a \<in> set (i_flock s ino) \<Longrightarrow> fl_ids (fl_at s' a) = fl_ids (fl_at s a)"
    "\<And>a ino. a \<in> set (i_flock s ino) \<Longrightarrow> IS_POSIX (fl_at s a) \<or> IS_FLOCK (fl_at s a) \<Longrightarrow> core (fl_at s' a) = core (fl_at s a)"
    "fl_fresh s \<le> fl_fresh s'"
  shows "lists_ok s'"
proof -
  have "list_ok s' ino = list_ok s ino" "posix_excl s' ino = posix_excl s ino" "flock_excl s' ino = flock_excl s ino" for ino
    using list_cong [of s' ino s] assms(2-4) by simp_all
  then show ?thesis using assms(1,5) unfolding lists_ok_def assms(2) by force
qed

end
