(* ===== verification/LockStep.thy ===== *)
theory LockStep
  imports LockInv
begin

text \<open>
  Every operation of \<open>fs/locks.c\<close> that runs under the kernel lock keeps the invariant of file locks, and
  \<open>__posix_lock_file\<close> changes what the owner of the request holds on the requested bytes and nothing else.
\<close>

lemma listsD:
  assumes "lists_ok s"
  shows "list_ok s ino" "posix_excl s ino" "flock_excl s ino" "a \<in> set (i_flock s ino) \<Longrightarrow> a < fl_fresh s"
    "a \<in> set (i_flock s i) \<Longrightarrow> i \<noteq> j \<Longrightarrow> a \<notin> set (i_flock s j)"
proof -
  show "list_ok s ino" "posix_excl s ino" "flock_excl s ino" "a \<in> set (i_flock s ino) \<Longrightarrow> a < fl_fresh s"
    using assms unfolding lists_ok_def by blast+
  assume "a \<in> set (i_flock s i)" "i \<noteq> j"
  moreover have "i \<noteq> j \<longrightarrow> set (i_flock s i) \<inter> set (i_flock s j) = {}" using assms unfolding lists_ok_def by blast
  ultimately show "a \<notin> set (i_flock s j)" by blast
qed

lemma lock_invD: "lock_inv s \<Longrightarrow> lists_ok s" "lock_inv s \<Longrightarrow> waiters_ok {} s"
  by (simp_all add: lock_inv_def)

lemma kindD: "list_ok s ino \<Longrightarrow> a \<in> set (i_flock s ino) \<Longrightarrow> one_kind (fl_at s a)" "list_ok s ino \<Longrightarrow> distinct (i_flock s ino)"
  "list_ok s ino \<Longrightarrow> segs_ok (map (seg_at s) (locks_of s ino own))"
  unfolding list_ok_def by blast+

section \<open>New structures\<close>

definition untouched :: "lock_state \<Rightarrow> lock_state \<Rightarrow> bool" where
  "untouched s s' \<longleftrightarrow> (\<forall>a<fl_fresh s. fl_at s' a = fl_at s a) \<and> i_flock s' = i_flock s \<and> fl_fresh s \<le> fl_fresh s'"

lemma untouched_refl [simp]: "untouched s s"
  by (simp add: untouched_def)

lemma untouched_trans: "untouched s s' \<Longrightarrow> untouched s' s'' \<Longrightarrow> untouched s s''"
  by (simp add: untouched_def)

lemma untouched_alloc: "locks_alloc_lock mem s = (n, s') \<Longrightarrow> untouched s s'"
  by (auto simp: locks_alloc_lock_def untouched_def split: option.splits)

lemma untouched_idle: "untouched s s' \<Longrightarrow> idle s a \<Longrightarrow> idle s' a"
  by (simp add: untouched_def idle_def)

lemma untouched_at: "untouched s s' \<Longrightarrow> idle s a \<Longrightarrow> fl_at s' a = fl_at s a"
  by (simp add: untouched_def idle_def)

lemma untouched_held:
  assumes "lists_ok s" "untouched s s'"
  shows "held_by s' ino own b = held_by s ino own b"
  by (rule list_cong(2)) (use assms(2) listsD(4) [OF assms(1)] in \<open>simp_all add: untouched_def\<close>)

lemma untouched_lists: "lists_ok s \<Longrightarrow> untouched s s' \<Longrightarrow> lists_ok s'"
  by (rule lists_ok_cong [of s]) (use listsD(4) [of s] in \<open>simp_all add: untouched_def\<close>)

lemma lock_inv_alloc:
  assumes "lock_inv s" "locks_alloc_lock mem s = (n, s')"
  shows "lock_inv s'" "n = Some m \<Longrightarrow> idle s' m \<and> m = fl_fresh s \<and> \<not> idle s m"
proof -
  have l: "fl_fresh s \<notin> set (i_flock s ino)" for ino using listsD(4) [OF lock_invD(1) [OF assms(1)]] by blast
  show "lock_inv s'"
    using waiters_ok_alloc [OF lock_invD(2) [OF assms(1)] l assms(2)] untouched_lists [OF lock_invD(1) [OF assms(1)] untouched_alloc [OF assms(2)]]
    by (simp add: lock_inv_def)
  show "n = Some m \<Longrightarrow> idle s' m \<and> m = fl_fresh s \<and> \<not> idle s m"
    using assms(2) l by (auto simp: locks_alloc_lock_def idle_def split: option.splits)
qed

lemma lock_inv_fill:
  assumes "lock_inv s" "idle s a" "fl_next (f (fl_at s a)) = None" "fl_block (f (fl_at s a)) = fl_block (fl_at s a)"
  shows "lock_inv (upd_fl a f s)"
proof -
  have "lists_ok (upd_fl a f s)"
    by (rule lists_ok_cong [OF lock_invD(1) [OF assms(1)]]) (use assms(2) in \<open>auto simp: idle_def\<close>)
  then show ?thesis using waiters_ok_upd_idle [where f = f, OF lock_invD(2) [OF assms(1)] assms(2-4)] by (simp add: lock_inv_def)
qed

lemma posix_alloc_result:
  assumes I: "lock_inv s" and res: "posix_alloc env request s = (n1, n2, s')"
  shows "lock_inv s'" "untouched s s'" "n1 = Some n \<or> n2 = Some n \<Longrightarrow> idle s' n \<and> \<not> idle s n" "n1 = None \<or> n1 \<noteq> n2"
proof -
  let ?R = "lock_inv s' \<and> untouched s s' \<and> (\<forall>n. n1 = Some n \<or> n2 = Some n \<longrightarrow> idle s' n \<and> \<not> idle s n) \<and> (n1 = None \<or> n1 \<noteq> n2)"
  have ?R
  proof (cases "(n1, n2, s') = (None, None, s)")
    case True
    then show ?thesis using I by simp
  next
    case False
    then obtain s1 where a: "locks_alloc_lock (le_mem1 env) s = (n1, s1)" "locks_alloc_lock (le_mem2 env) s1 = (n2, s')"
      using res by (auto simp: posix_alloc_def Let_def split: if_splits prod.splits)
    note i1 = lock_inv_alloc [OF I a(1)] and u1 = untouched_alloc [OF a(1)] and u2 = untouched_alloc [OF a(2)]
    note i2 = lock_inv_alloc [OF i1(1) a(2)]
    have "idle s' n \<and> \<not> idle s n" if "n1 = Some n" for n using i1(2) [OF that] untouched_idle [OF u2] by blast
    moreover have "idle s' n \<and> \<not> idle s n" if "n2 = Some n" for n using i2(2) [OF that] untouched_idle [OF u1] by blast
    moreover have "n1 = None \<or> n1 \<noteq> n2" using i1(2) i2(2) by (cases n1; cases n2) auto
    ultimately show ?thesis using i2(1) untouched_trans [OF u1 u2] by blast
  qed
  then show "lock_inv s'" "untouched s s'" "n1 = Some n \<or> n2 = Some n \<Longrightarrow> idle s' n \<and> \<not> idle s n" "n1 = None \<or> n1 \<noteq> n2"
    by blast+
qed

section \<open>Byte ranges\<close>

lemma held_by_Some:
  assumes "held_by s ino own b = Some t"
  obtains a where "a \<in> set (i_flock s ino)" "mine s own a" "fl_start (fl_at s a) \<le> b" "b \<le> fl_end (fl_at s a)" "fl_type (fl_at s a) = t"
proof -
  obtain x where x: "find (\<lambda>x. seg_covers x b) (map (seg_at s) (locks_of s ino own)) = Some x" "ty x = t"
    using assms by (auto simp: held_by_def held_def)
  then have "x \<in> set (map (seg_at s) (locks_of s ino own))" "seg_covers x b"
    unfolding find_Some_iff using nth_mem by metis+
  then show thesis using that x(2) by (auto simp: locks_of_def seg_covers_def)
qed

lemma posix_conflict_None:
  assumes "posix_conflict s ino request = None" "fl_type (fl_at s request) \<noteq> F_UNLCK" "a \<in> set (i_flock s ino)"
  shows "\<not> posix_locks_conflict (fl_at s request) (fl_at s a)"
  using assms by (auto simp: posix_conflict_def find_None_iff posix_locks_conflict_def)

lemma posix_conflict_Some:
  assumes "posix_conflict s ino request = Some a"
  shows "a \<in> set (i_flock s ino)" "holds_up (fl_at s request) (fl_at s a)" "posix_locks_conflict (fl_at s request) (fl_at s a)" "IS_POSIX (fl_at s a)"
  using assms unfolding posix_conflict_def holds_up_def by (auto simp: find_Some_iff split: if_splits)

definition set_held :: "file_lock \<Rightarrow> (int \<Rightarrow> u8 option) \<Rightarrow> int \<Rightarrow> u8 option" where
  "set_held r h b = (if fl_start r \<le> b \<and> b \<le> fl_end r then (if fl_type r = F_UNLCK then None else Some (fl_type r)) else h b)"

definition changed_to :: "lock_state \<Rightarrow> nat \<Rightarrow> file_lock \<Rightarrow> lock_state \<Rightarrow> bool" where
  "changed_to s ino r s' \<longleftrightarrow> (\<forall>i own. held_by s' i own =
     (if i = ino \<and> own = fl_owner r then set_held r (held_by s ino own) else held_by s i own))"

text \<open>A change that is confined to the list of one inode and to idle structures.\<close>

lemma lists_ok_frame:
  assumes L: "lists_ok s" and frame: "lock_frame N A ino s s'" and N: "\<And>n. n \<in> N \<Longrightarrow> idle s n"
    and A: "\<And>a j. a \<in> A \<Longrightarrow> j \<noteq> ino \<Longrightarrow> a \<notin> set (i_flock s j)" and sub: "set (i_flock s' ino) \<subseteq> set (i_flock s ino) \<union> N"
    and ok: "list_ok s' ino" "posix_excl s' ino" "flock_excl s' ino"
  shows "lists_ok s'" "j \<noteq> ino \<Longrightarrow> held_by s' j w b = held_by s j w b"
proof -
  have list: "i_flock s' j = i_flock s j" and fresh: "fl_fresh s' = fl_fresh s" if "j \<noteq> ino" for j
    using frame that by (simp_all add: lock_frame_def)
  have same: "core (fl_at s' a) = core (fl_at s a)" if "a \<in> set (i_flock s j)" "j \<noteq> ino" for a j
    using frame that A [of a j] N [of a] by (auto simp: lock_frame_def idle_def)
  have c: "list_ok s' j = list_ok s j" "posix_excl s' j = posix_excl s j" "flock_excl s' j = flock_excl s j" "held_by s' j w b = held_by s j w b"
    if "j \<noteq> ino" for j w b
    by (rule list_cong [OF list]; use that same [OF _ that] ids_core in blast)+
  show "j \<noteq> ino \<Longrightarrow> held_by s' j w b = held_by s j w b" by (rule c(4))
  have inv: "list_ok s' j \<and> posix_excl s' j \<and> flock_excl s' j" for j
    using ok c(1-3) listsD(1-3) [OF L, of j] by (cases "j = ino") simp_all
  have s: "set (i_flock s' j) \<subseteq> set (i_flock s j) \<union> (if j = ino then N else {})" for j using sub list by (cases "j = ino") auto
  have lt: "a < fl_fresh s'" if "a \<in> set (i_flock s' j)" for a j
    using that s [of j] N [of a] listsD(4) [OF L, of a j] frame by (auto simp: idle_def lock_frame_def split: if_splits)
  have "x \<notin> set (i_flock s' k)" if "x \<in> set (i_flock s' j)" "j \<noteq> k" for x j k
    using s [of j] s [of k] that listsD(5) [OF L, of x j k] N [of x] by (auto simp: idle_def split: if_splits)
  then have "set (i_flock s' j) \<inter> set (i_flock s' k) = {}" if "j \<noteq> k" for j k using that by blast
  then show "lists_ok s'" unfolding lists_ok_def using inv lt by blast
qed

lemma flock_core: "core b' = core b \<Longrightarrow> IS_FLOCK b' = IS_FLOCK b"
  by (auto simp: IS_FLOCK_def dest: core_eqD)

lemma flock_conflict_core:
  assumes "core a' = core a" "core b' = core b"
  shows "flock_locks_conflict a' b' = flock_locks_conflict a b"
  using core_eqD [OF assms(1)] core_eqD [OF assms(2)] by (simp add: flock_locks_conflict_def IS_FLOCK_def locks_conflict_def)

lemma flock_excl_frame:
  assumes "flock_excl s ino"
    and old: "\<And>a. a \<in> set (i_flock s' ino) \<Longrightarrow> IS_FLOCK (fl_at s' a) \<Longrightarrow> a \<in> set (i_flock s ino) \<and> core (fl_at s' a) = core (fl_at s a)"
  shows "flock_excl s' ino"
  unfolding flock_excl_def
proof (intro ballI impI notI)
  fix a b assume ab: "a \<in> set (i_flock s' ino)" "b \<in> set (i_flock s' ino)" "IS_FLOCK (fl_at s' a)"
    and k: "flock_locks_conflict (fl_at s' a) (fl_at s' b)"
  have "IS_FLOCK (fl_at s' b)" using k by (simp add: flock_locks_conflict_def split: if_splits)
  then have ca: "core (fl_at s' a) = core (fl_at s a)" and cb: "core (fl_at s' b) = core (fl_at s b)" and
    l: "a \<in> set (i_flock s ino)" "b \<in> set (i_flock s ino)" using old ab by blast+
  have "IS_FLOCK (fl_at s a) \<and> flock_locks_conflict (fl_at s a) (fl_at s b)"
    using k ab(3) flock_core [OF ca] flock_conflict_core [OF ca cb] by simp
  then show False using assms(1) l unfolding flock_excl_def by blast
qed

text \<open>Setting a range that conflicts with nobody keeps the exclusion.\<close>

lemma posix_excl_set:
  assumes ok: "list_ok s ino" "posix_excl s ino" and rq: "req_ok (seg_of r)" 
    and free: "\<And>a. a \<in> set (i_flock s ino) \<Longrightarrow> fl_type r \<noteq> F_UNLCK \<Longrightarrow> \<not> posix_locks_conflict r (fl_at s a)"
    and held: "held_by s' ino (fl_owner r) = set_held r (held_by s ino (fl_owner r))" 
      "\<And>w. w \<noteq> fl_owner r \<Longrightarrow> held_by s' ino w = held_by s ino w"
  shows "posix_excl s' ino"
proof -
  have shared: "t = F_RDLCK \<and> u = F_RDLCK"
    if w: "w \<noteq> fl_owner r" and h: "held_by s' ino (fl_owner r) b = Some t" "held_by s ino w b = Some u" for w b t u
  proof (cases "fl_start r \<le> b \<and> b \<le> fl_end r")
    case True
    then have t: "t = fl_type r" "fl_type r \<noteq> F_UNLCK" using h(1) held(1) by (simp_all add: set_held_def split: if_splits)
    obtain a where a: "a \<in> set (i_flock s ino)" "mine s w a" "fl_start (fl_at s a) \<le> b" "b \<le> fl_end (fl_at s a)" "fl_type (fl_at s a) = u"
      using held_by_Some [OF h(2)] .
    have "fl_type r \<noteq> F_WRLCK" "u \<noteq> F_WRLCK" using free [OF a(1) t(2)] a True w
      by (auto simp: posix_locks_conflict_def posix_same_owner_def mine_def locks_overlap_def locks_conflict_def split: if_splits)
    moreover have "a \<in> set (locks_of s ino w)" using a by (simp add: locks_of_def)
    then have "seg_ok (seg_at s a)" using kindD(3) [OF ok(1), of w] by (simp add: segs_ok_def)
    ultimately show ?thesis using rq t a(5) by (auto simp: seg_ok_def req_ok_def)
  next
    case False
    then have "held_by s ino (fl_owner r) b = Some t" using h(1) held(1) by (auto simp: set_held_def)
    then show ?thesis using ok(2) w h(2) unfolding posix_excl_def by blast
  qed
  show ?thesis
    unfolding posix_excl_def
  proof (intro allI impI)
    fix v w b t u assume a: "v \<noteq> w \<and> held_by s' ino v b = Some t \<and> held_by s' ino w b = Some u"
    consider "v = fl_owner r" | "w = fl_owner r" | "v \<noteq> fl_owner r" "w \<noteq> fl_owner r" by blast
    then show "t = F_RDLCK \<and> u = F_RDLCK"
    proof cases
      case 1
      then show ?thesis using shared [of w b t u] a held(2) by auto
    next
      case 2
      then show ?thesis using shared [of v b u t] a held(2) by auto
    next
      case 3
      then show ?thesis using ok(2) a unfolding held(2) [OF 3(1)] held(2) [OF 3(2)] posix_excl_def by blast
    qed
  qed
qed

lemma posix_apply_inv:
  assumes I: "lock_inv s" and i: "idle s request" and p: "IS_POSIX (fl_at s request)" "one_kind (fl_at s request)" "req_ok (seg_at s request)"
    and free: "posix_conflict s ino request = None"
    and new: "\<And>n. new_fl = Some n \<or> new_fl2 = Some n \<Longrightarrow> idle s n \<and> n \<noteq> request" "new_fl = None \<or> new_fl \<noteq> new_fl2"
    and res: "posix_apply env ino request new_fl new_fl2 s = (0, s')"
  shows "lists_ok s'" "changed_to s ino (fl_at s request) s'"
proof -
  define own where "own = fl_owner (fl_at s request)"
  define N where "N = set_option new_fl \<union> set_option new_fl2"
  define A where "A = insert request (set (locks_of s ino own))"
  note L = lock_invD(1) [OF I]
  have rq: "request_ok s ino request" using p i by (simp add: request_ok_def idle_def)
  have fp: "fresh_pair s ino request new_fl new_fl2" using new by (auto simp: fresh_pair_def idle_def)
  note R = posix_apply_result(2) [OF listsD(1) [OF L] rq fp res refl, folded own_def, folded N_def A_def]
  have ok: "list_ok s' ino" and segs: "map (seg_at s') (locks_of s' ino own) = set_range (seg_at s request) (map (seg_at s) (locks_of s ino own))"
    and others: "\<And>w. w \<noteq> own \<Longrightarrow> locks_of s' ino w = locks_of s ino w" and frame: "lock_frame N A ino s s'"
    and sub: "set (i_flock s' ino) \<subseteq> set (i_flock s ino) \<union> N" and newm: "set (i_flock s' ino) \<inter> N \<subseteq> set (locks_of s' ino own)"
    using R by blast+
  have Ni: "idle s n" if "n \<in> N" for n using that new(1) by (auto simp: N_def)
  have Ai: "a \<notin> set (i_flock s j)" if "a \<in> A" "j \<noteq> ino" for a j
    using that i listsD(5) [OF L, of a ino j] by (auto simp: A_def locks_of_def idle_def)
  have same: "core (fl_at s' a) = core (fl_at s a)" if "a \<in> set (i_flock s ino)" "\<not> mine s own a" for a
  proof -
    have "a \<notin> A \<union> N" using that i Ni [of a] by (auto simp: A_def idle_def locks_of_def)
    then show ?thesis using frame by (simp add: lock_frame_def)
  qed
  have held_own: "held_by s' ino own = set_held (fl_at s request) (held_by s ino own)"
    using held_set_range [OF kindD(3) [OF listsD(1) [OF L]] p(3), of ino own]
    by (simp add: held_by_def segs set_held_def seg_covers_def fun_eq_iff)
  have held_w: "held_by s' ino w = held_by s ino w" if "w \<noteq> own" for w
  proof -
    have "seg_at s' a = seg_at s a" if "a \<in> set (locks_of s ino w)" for a
      using that \<open>w \<noteq> own\<close> by (intro seg_core same) (auto simp: locks_of_def mine_def)
    then have "map (seg_at s') (locks_of s ino w) = map (seg_at s) (locks_of s ino w)" by (intro map_cong refl) blast
    then show ?thesis unfolding held_by_def others [OF that] by (intro ext) (simp only:)
  qed
  have px: "posix_excl s' ino"
    by (rule posix_excl_set [OF listsD(1,2) [OF L] p(3)])
      (use posix_conflict_None [OF free] held_own held_w in \<open>simp_all add: own_def\<close>)
  have fx: "flock_excl s' ino"
  proof (rule flock_excl_frame [OF listsD(3) [OF L]])
    fix a assume a: "a \<in> set (i_flock s' ino)" "IS_FLOCK (fl_at s' a)"
    have np: "\<not> IS_POSIX (fl_at s' a)" using kindD(1) [OF ok a(1)] a(2) by (auto simp: one_kind_def)
    then have "a \<notin> N" using newm a(1) by (auto simp: locks_of_def mine_def)
    then have l: "a \<in> set (i_flock s ino)" and "fl_ids (fl_at s' a) = fl_ids (fl_at s a)" using sub a(1) frame by (auto simp: lock_frame_def)
    then have "\<not> IS_POSIX (fl_at s a)" using np kind_ids(3) by blast
    then show "a \<in> set (i_flock s ino) \<and> core (fl_at s' a) = core (fl_at s a)" using l same [OF l] by (simp add: mine_def)
  qed
  note fr = lists_ok_frame [OF L frame Ni Ai sub ok px fx]
  show "lists_ok s'" by (rule fr(1))
  show "changed_to s ino (fl_at s request) s'"
    unfolding changed_to_def own_def [symmetric]
  proof (intro allI)
    show "held_by s' j w = (if j = ino \<and> w = own then set_held (fl_at s request) (held_by s ino w) else held_by s j w)" for j w
      using held_own held_w [of w] fr(2) [of j w] by (cases "j = ino"; cases "w = own") (auto simp: fun_eq_iff)
  qed
qed

text \<open>The whole of \<open>__posix_lock_file\<close>.\<close>

definition posix_request :: "file_lock \<Rightarrow> bool" where
  "posix_request r \<longleftrightarrow> IS_POSIX r \<and> one_kind r \<and> (flag (fl_flags r) FL_ACCESS \<or> req_ok (seg_of r))"

lemma lock_inv_insert_block:
  assumes "lock_inv s" "idle s w" "b \<in> set (i_flock s ino)" "holds_up (fl_at s w) (fl_at s b)"
  shows "lock_inv (locks_insert_block b w s)" "held_by (locks_insert_block b w s) = held_by s"
proof -
  let ?s = "locks_insert_block b w s"
  have c: "core (fl_at ?s x) = core (fl_at s x)" for x by (simp add: locks_insert_block_def Let_def)
  have i: "i_flock ?s = i_flock s" "fl_fresh ?s = fl_fresh s" by (simp_all add: locks_insert_block_def Let_def)
  have "lists_ok ?s" by (rule lists_ok_cong [OF lock_invD(1) [OF assms(1)] i(1)]) (simp_all add: c i(2) ids_core [OF c])
  then show "lock_inv ?s" using waiters_ok_insert_block [OF lock_invD(2) [OF assms(1)] assms(2-4)] by (simp add: lock_inv_def)
  show "held_by ?s = held_by s" by (intro ext list_cong(2)) (simp_all add: c i ids_core [OF c])
qed

definition posix_effect :: "lock_state \<Rightarrow> nat \<Rightarrow> nat \<Rightarrow> int \<Rightarrow> lock_state \<Rightarrow> bool" where
  "posix_effect s ino request e s' \<longleftrightarrow>
    (if e = 0 \<and> \<not> flag (fl_flags (fl_at s request)) FL_ACCESS then changed_to s ino (fl_at s request) s' else held_by s' = held_by s)"

text \<open>The request itself: it sleeps unchanged or is on no list.\<close>

definition request_left :: "lock_state \<Rightarrow> nat \<Rightarrow> int \<Rightarrow> lock_state \<Rightarrow> bool" where
  "request_left s request e s' \<longleftrightarrow>
    (if e = FILE_LOCK_DEFERRED then core (fl_at s' request) = core (fl_at s request) \<and> (\<exists>b. fl_next (fl_at s' request) = Some b)
     else idle s' request)"

lemma posix_apply_deferred: "posix_apply env ino request new_fl new_fl2 s = (e, s') \<Longrightarrow> e \<noteq> FILE_LOCK_DEFERRED"
  by (auto simp: posix_apply_def posix_install_def Let_def split: prod.splits if_splits option.splits)

lemma posix_apply_step:
  assumes I: "lock_inv s" and i: "idle s request" and p: "IS_POSIX (fl_at s request)" "one_kind (fl_at s request)" "req_ok (seg_at s request)"
    and free: "posix_conflict s ino request = None" 
    and new: "\<And>n. new_fl = Some n \<or> new_fl2 = Some n \<Longrightarrow> idle s n \<and> n \<noteq> request" "new_fl = None \<or> new_fl \<noteq> new_fl2"
    and res: "posix_apply env ino request new_fl new_fl2 s = (e, s')"
  shows "lock_inv s'" "idle s' request" "if e = 0 then changed_to s ino (fl_at s request) s' else s' = s"
proof -
  note L = lock_invD(1) [OF I]
  have rq: "request_ok s ino request" using p i by (simp add: request_ok_def idle_def)
  have fp: "fresh_pair s ino request new_fl new_fl2" using new by (auto simp: fresh_pair_def idle_def)
  have rn: "fl_next (fl_at s request) = None" and ni: "\<And>n. new_fl = Some n \<or> new_fl2 = Some n \<Longrightarrow> idle s n" using i new(1) by (simp_all add: idle_def)
  note W = posix_apply_waiters [OF listsD(1) [OF L] rq lock_invD(2) [OF I] rn ni new(2) res] and R = posix_apply_result [OF listsD(1) [OF L] rq fp res]
  show "if e = 0 then changed_to s ino (fl_at s request) s' else s' = s"
    using R(1) posix_apply_inv(2) [OF I i p free new] res by auto
  show "lock_inv s'" using posix_apply_inv(1) [OF I i p free new] res W(1) R(1) I by (cases "e = 0") (auto simp: lock_inv_def)
  show "idle s' request"
  proof (cases "e = 0")
    case True
    have "fl_next (fl_at s' request) = None" using W(2) rn by (simp add: keeps_idle_def)
    moreover have "fl_fresh s' = fl_fresh s" "i_flock s' j = i_flock s j \<or> j = ino" for j using R(2) [OF True] by (auto simp: lock_frame_def)
    moreover have "request \<notin> set (i_flock s' ino)" using R(2) [OF True] i new(1) by (force simp: idle_def)
    ultimately show ?thesis using i unfolding idle_def by metis
  qed (use R(1) i in simp)
qed

theorem raw_posix_lock_file_step:
  assumes I: "lock_inv s" and i: "idle s request" and p: "posix_request (fl_at s request)"
    and res: "raw_posix_lock_file env ino request s = (e, s')"
  shows "lock_inv s'" "posix_effect s ino request e s'" "request_left s request e s'"
proof -
  let ?acc = "flag (fl_flags (fl_at s request)) FL_ACCESS"
  obtain n1 n2 s1 where a: "posix_alloc env request s = (n1, n2, s1)" by (cases "posix_alloc env request s") auto
  note A = posix_alloc_result [OF I a]
  have r1: "fl_at s1 request = fl_at s request" and i1: "idle s1 request" using untouched_at [OF A(2) i] untouched_idle [OF A(2) i] .
  have h1: "held_by s1 = held_by s" using untouched_held [OF lock_invD(1) [OF I] A(2)] by (intro ext)
  have "lock_inv s' \<and> posix_effect s1 ino request e s' \<and> request_left s1 request e s'"
  proof (cases "posix_conflict s1 ino request")
    case (Some b)
    then consider "s' = s1" "e \<noteq> 0" "e \<noteq> FILE_LOCK_DEFERRED" | "s' = locks_insert_block b request s1" "e = FILE_LOCK_DEFERRED"
      using res by (auto simp: raw_posix_lock_file_def a split: if_splits)
    then show ?thesis
    proof cases
      case 1
      then show ?thesis using A(1) i1 by (simp add: posix_effect_def request_left_def)
    next
      case 2
      have "b \<noteq> request" using posix_conflict_Some(1) [OF Some] i1 by (auto simp: idle_def)
      then have "request_left s1 request e s'" unfolding 2 by (simp add: request_left_def locks_insert_block_def Let_def)
      then show ?thesis using lock_inv_insert_block [OF A(1) i1 posix_conflict_Some(1,2) [OF Some]] 2 by (simp add: posix_effect_def)
    qed
  next
    case None
    show ?thesis
    proof (cases ?acc)
      case True
      then have "e = 0" "s' = s1" using res by (simp_all add: raw_posix_lock_file_def a None r1)
      then show ?thesis using A(1) i1 True r1 by (simp add: posix_effect_def request_left_def)
    next
      case False
      have ap: "posix_apply env ino request n1 n2 s1 = (e, s')" using res False by (simp add: raw_posix_lock_file_def a None r1)
      have p1: "IS_POSIX (fl_at s1 request)" "one_kind (fl_at s1 request)" "req_ok (seg_at s1 request)"
        using p False by (simp_all add: posix_request_def r1)
      have new: "idle s1 n \<and> n \<noteq> request" if "n1 = Some n \<or> n2 = Some n" for n using A(3) [OF that] i by blast
      note R = posix_apply_step [OF A(1) i1 p1 None new A(4) ap]
      show ?thesis using R posix_apply_deferred [OF ap] False r1 by (simp add: posix_effect_def request_left_def split: if_splits)
    qed
  qed
  then show "lock_inv s'" "posix_effect s ino request e s'" "request_left s request e s'"
    unfolding posix_effect_def changed_to_def request_left_def h1 r1 by blast+
qed

end
