(* ===== verification/LockFlock.thy ===== *)
theory LockFlock
  imports LockStep
begin

text \<open>
  Locks of whole files and leases keep the invariant of file locks: the list operations on locks that are not byte
  ranges, \<open>flock_lock_file\<close>, the timing out, breaking and setting of leases, and the last close.
\<close>

section \<open>Lists with the same byte ranges\<close>

lemma posix_part_cong:
  assumes P: "filter (\<lambda>a. IS_POSIX (fl_at s' a)) (i_flock s' ino) = filter (\<lambda>a. IS_POSIX (fl_at s a)) (i_flock s ino)"
    and core: "\<forall>a\<in>set (i_flock s ino). IS_POSIX (fl_at s a) \<longrightarrow> core (fl_at s' a) = core (fl_at s a)"
  shows "held_by s' ino own b = held_by s ino own b" "posix_excl s' ino = posix_excl s ino"
    "list_ok s ino \<Longrightarrow> distinct (i_flock s' ino) \<Longrightarrow> (\<And>a. a \<in> set (i_flock s' ino) \<Longrightarrow> one_kind (fl_at s' a)) \<Longrightarrow>
      sorted (map (\<lambda>a. fl_rank (fl_at s' a)) (i_flock s' ino)) \<Longrightarrow> list_ok s' ino"
proof -
  let ?G = "filter (\<lambda>a. IS_POSIX (fl_at s a)) (i_flock s ino)"
  have own: "fl_owner (fl_at s' a) = fl_owner (fl_at s a)" "seg_at s' a = seg_at s a" if "a \<in> set ?G" for a
    using core_eqD [of "fl_at s' a" "fl_at s a"] seg_core [of "fl_at s' a" "fl_at s a"] core that by auto
  have split: "locks_of t ino w = filter (\<lambda>a. fl_owner (fl_at t a) = w) (filter (\<lambda>a. IS_POSIX (fl_at t a)) (i_flock t ino))" for t w
    by (auto simp: locks_of_def mine_def intro!: filter_cong)
  have of: "locks_of s' ino w = locks_of s ino w" for w
    unfolding split P using own(1) by (intro filter_cong refl) simp
  have segs: "map (seg_at s') (locks_of s ino w) = map (seg_at s) (locks_of s ino w)" for w
    by (intro map_cong refl own(2)) (simp add: split)
  have held: "held_by s' ino w b = held_by s ino w b" for w b unfolding held_by_def of segs ..
  show "held_by s' ino own b = held_by s ino own b" "posix_excl s' ino = posix_excl s ino" unfolding posix_excl_def held by (rule refl)+
  have ow: "map (\<lambda>a. fl_owner (fl_at s' a)) ?G = map (\<lambda>a. fl_owner (fl_at s a)) ?G" using own(1) by (intro map_cong refl) blast
  show "list_ok s ino \<Longrightarrow> distinct (i_flock s' ino) \<Longrightarrow> (\<And>a. a \<in> set (i_flock s' ino) \<Longrightarrow> one_kind (fl_at s' a)) \<Longrightarrow>
      sorted (map (\<lambda>a. fl_rank (fl_at s' a)) (i_flock s' ino)) \<Longrightarrow> list_ok s' ino"
    unfolding list_ok_def of segs P ow by blast
qed

lemma lock_inv_delete:
  assumes I: "lock_inv s" and l: "i_flock s ino = pre @ a # rest" and np: "\<not> IS_POSIX (fl_at s a)"
  shows "lock_inv (locks_delete_lock ino pre a rest s)" "held_by (locks_delete_lock ino pre a rest s) = held_by s"
proof -
  let ?s = "locks_delete_lock ino pre a rest s"
  note L = lock_invD(1) [OF I]
  have c: "core (fl_at ?s x) = core (fl_at s x)" for x by simp
  have l': "i_flock ?s = (i_flock s)(ino := pre @ rest)" by simp
  have k: "one_kind (fl_at ?s x) = one_kind (fl_at s x)" "fl_rank (fl_at ?s x) = fl_rank (fl_at s x)" "IS_POSIX (fl_at ?s x) = IS_POSIX (fl_at s x)" for x
    by (rule kind_ids [OF ids_core [OF c]])+
  have P: "filter (\<lambda>a. IS_POSIX (fl_at ?s a)) (i_flock ?s ino) = filter (\<lambda>a. IS_POSIX (fl_at s a)) (i_flock s ino)"
    unfolding k(3) l' using l np by simp
  have "\<forall>a\<in>set (i_flock s ino). IS_POSIX (fl_at s a) \<longrightarrow> core (fl_at ?s a) = core (fl_at s a)" using c by blast
  note cong = posix_part_cong [OF P this]
  have sub: "set (i_flock ?s ino) \<subseteq> set (i_flock s ino)" unfolding l' l by auto
  have ok: "list_ok ?s ino"
  proof (rule cong(3) [OF listsD(1) [OF L]])
    show "distinct (i_flock ?s ino)" using kindD(2) [OF listsD(1) [OF L], of ino] unfolding l' l by simp
    show "one_kind (fl_at ?s x)" if "x \<in> set (i_flock ?s ino)" for x
      unfolding k using kindD(1) [OF listsD(1) [OF L]] that sub by blast
    have "sorted (map (\<lambda>a. fl_rank (fl_at s a)) (i_flock s ino))" using listsD(1) [OF L, of ino] unfolding list_ok_def by blast
    then show "sorted (map (\<lambda>a. fl_rank (fl_at ?s a)) (i_flock ?s ino))" unfolding k l' l by (auto simp: sorted_append)
  qed
  have px: "posix_excl ?s ino" unfolding cong(2) by (rule listsD(2) [OF L])
  have fx: "flock_excl ?s ino" by (rule flock_excl_frame [OF listsD(3) [OF L]]) (use sub c in blast)
  have frame: "lock_frame {} {} ino s ?s" by simp
  note fr = lists_ok_frame [OF L frame _ _ _ ok px fx]
  have "lists_ok ?s" using sub by (intro fr) simp_all
  then show "lock_inv ?s" using waiters_ok_delete_lock [OF lock_invD(2) [OF I] l] by (simp add: lock_inv_def)
  show "held_by ?s = held_by s"
  proof (intro ext)
    show "held_by ?s j w b = held_by s j w b" for j w b using fr(2) [of j w b] cong(1) [of w b] sub by (cases "j = ino") simp_all
  qed
qed

lemma flock_conflict_self [simp]: "\<not> flock_locks_conflict a a"
  by (simp add: flock_locks_conflict_def)

lemma flock_conflict_sym: "IS_FLOCK a \<Longrightarrow> flock_locks_conflict a b \<Longrightarrow> flock_locks_conflict b a"
  by (auto simp: flock_locks_conflict_def locks_conflict_def split: if_splits)

lemma flock_excl_insert:
  assumes X: "flock_excl s ino" and l: "\<And>x. x \<in> set (i_flock s' ino) \<Longrightarrow> x = n \<or> x \<in> set (i_flock s ino)"
    and cl: "\<And>x. x \<in> set (i_flock s ino) \<Longrightarrow> core (fl_at s' x) = core (fl_at s x)"
    and r: "fl_ids (fl_at s' n) = fl_ids r" "fl_type (fl_at s' n) = fl_type r"
    and free: "\<And>x. x \<in> set (i_flock s ino) \<Longrightarrow> IS_FLOCK r \<Longrightarrow> \<not> flock_locks_conflict r (fl_at s x)"
  shows "flock_excl s' ino"
proof -
  have r': "fl_file (fl_at s' n) = fl_file r" "IS_FLOCK (fl_at s' n) = IS_FLOCK r" using r(1) by (simp_all add: fl_ids_def IS_FLOCK_def)
  have same: "flock_locks_conflict (fl_at s' n) y = flock_locks_conflict r y" for y
    by (simp add: flock_locks_conflict_def locks_conflict_def r' r(2))
  have new: "\<not> flock_locks_conflict (fl_at s' n) (fl_at s' x)" if "x \<in> set (i_flock s ino)" "IS_FLOCK (fl_at s' n)" for x
    unfolding flock_conflict_core [OF refl cl [OF that(1)]] same using free [OF that(1)] that(2) r'(2) by blast
  have "\<not> flock_locks_conflict (fl_at s' a) (fl_at s' b)"
    if ab: "a \<in> set (i_flock s' ino)" "b \<in> set (i_flock s' ino)" "IS_FLOCK (fl_at s' a)" for a b
  proof -
    consider "a = n" | "b = n" | "a \<in> set (i_flock s ino)" "b \<in> set (i_flock s ino)" using l ab by blast
    then show ?thesis
    proof cases
      case 1
      then show ?thesis using new [of b] l [OF ab(2)] ab(3) by auto
    next
      case 2
      then show ?thesis using new [of a] l [OF ab(1)] flock_conflict_sym [OF ab(3), of "fl_at s' n"]
        by (auto simp: flock_locks_conflict_def split: if_splits)
    next
      case 3
      then show ?thesis using X flock_conflict_core [OF cl cl, of a b] flock_core [OF cl, of a] ab(3) unfolding flock_excl_def by blast
    qed
  qed
  then show ?thesis unfolding flock_excl_def by blast
qed

text \<open>Inserting a copy of a request that is not a byte range.\<close>

lemma lock_inv_insert:
  fixes tgid :: u32
  assumes I: "lock_inv s" and n: "idle s n" and l: "i_flock s ino = pre @ rest"
    and r: "one_kind r" "\<not> IS_POSIX r"
    and rank: "\<And>x. x \<in> set pre \<Longrightarrow> fl_rank (fl_at s x) \<le> fl_rank r" "\<And>x. x \<in> set rest \<Longrightarrow> fl_rank r \<le> fl_rank (fl_at s x)"
    and free: "\<And>x. x \<in> set (i_flock s ino) \<Longrightarrow> IS_FLOCK r \<Longrightarrow> \<not> flock_locks_conflict r (fl_at s x)"
  defines "s' \<equiv> locks_insert_lock tgid ino pre rest n (upd_fl n (locks_copy_lock r) s)"
  shows "lock_inv s'" "held_by s' = held_by s"
proof -
  note L = lock_invD(1) [OF I]
  have nl: "n \<notin> set (i_flock s j)" for j using n by (simp add: idle_def)
  have c: "core (fl_at s' x) = core (fl_at s x)" if "x \<noteq> n" for x using that by (simp add: s'_def)
  have ni: "fl_ids (fl_at s' n) = fl_ids r" "fl_type (fl_at s' n) = fl_type r" by (simp_all add: s'_def locks_copy_lock_def raw_copy_lock_def fl_ids_def)
  have l': "i_flock s' = (i_flock s)(ino := pre @ n # rest)" by (simp add: s'_def)
  have k: "one_kind (fl_at s' x) = one_kind (fl_at s x)" "fl_rank (fl_at s' x) = fl_rank (fl_at s x)" "IS_POSIX (fl_at s' x) = IS_POSIX (fl_at s x)"
    if "x \<in> set (i_flock s ino)" for x using kind_ids [OF ids_core [OF c]] that nl by metis+
  note kn = kind_ids [OF ni(1)]
  have P: "filter (\<lambda>a. IS_POSIX (fl_at s' a)) (i_flock s' ino) = filter (\<lambda>a. IS_POSIX (fl_at s a)) (i_flock s ino)"
    unfolding l' l using k(3) kn(3) r(2) l by (auto intro!: arg_cong2 [where f = "(@)"] filter_cong)
  have cl: "core (fl_at s' a) = core (fl_at s a)" if "a \<in> set (i_flock s ino)" for a using c nl that by metis
  have "\<forall>a\<in>set (i_flock s ino). IS_POSIX (fl_at s a) \<longrightarrow> core (fl_at s' a) = core (fl_at s a)" using cl by blast
  note cong = posix_part_cong [OF P this]
  have ok: "list_ok s' ino"
  proof (rule cong(3) [OF listsD(1) [OF L]])
    show "distinct (i_flock s' ino)" using kindD(2) [OF listsD(1) [OF L], of ino] nl [of ino] unfolding l' l by simp
    show "one_kind (fl_at s' x)" if "x \<in> set (i_flock s' ino)" for x
      using that k(1) [of x] kindD(1) [OF listsD(1) [OF L], of x ino] kn(1) r(1) unfolding l' l by (cases "x = n") auto
    have "sorted (map (\<lambda>a. fl_rank (fl_at s a)) (i_flock s ino))" using listsD(1) [OF L, of ino] unfolding list_ok_def by blast
    moreover have "map (\<lambda>a. fl_rank (fl_at s' a)) pre = map (\<lambda>a. fl_rank (fl_at s a)) pre"
      "map (\<lambda>a. fl_rank (fl_at s' a)) rest = map (\<lambda>a. fl_rank (fl_at s a)) rest" using k(2) l by simp_all
    ultimately show "sorted (map (\<lambda>a. fl_rank (fl_at s' a)) (i_flock s' ino))"
      using rank kn(2) unfolding l' l by (simp add: sorted_append del: map_eq_conv)
  qed
  have px: "posix_excl s' ino" unfolding cong(2) by (rule listsD(2) [OF L])
  have fx: "flock_excl s' ino"
    by (rule flock_excl_insert [OF listsD(3) [OF L], where n = n]) (use cl ni free in \<open>auto simp: l' l\<close>)
  have frame: "lock_frame {n} {} ino s s'" unfolding s'_def by (rule lock_frame_trans [OF frame_upd_new frame_insert]) simp
  have sub: "set (i_flock s' ino) \<subseteq> set (i_flock s ino) \<union> {n}" unfolding l' l by auto
  note fr = lists_ok_frame [OF L frame _ _ sub ok px fx]
  have "lists_ok s'" using n by (intro fr) simp_all
  moreover have "waiters_ok {} s'" unfolding s'_def
    by (rule waiters_ok_insert_lock, rule waiters_ok_upd_idle) (use lock_invD(2) [OF I] n l in \<open>simp_all add: idle_def locks_copy_lock_def raw_copy_lock_def\<close>)
  ultimately show "lock_inv s'" by (simp add: lock_inv_def)
  show "held_by s' = held_by s"
  proof (intro ext)
    show "held_by s' j w b = held_by s j w b" for j w b using fr(2) [of j w b] cong(1) [of w b] n by (cases "j = ino") simp_all
  qed
qed

section \<open>Quiet changes\<close>

text \<open>Changes that leave alone what is held of byte ranges and the structures on no list.\<close>

definition quiet :: "lock_state \<Rightarrow> lock_state \<Rightarrow> bool" where
  "quiet s s' \<longleftrightarrow> lock_inv s' \<and> held_by s' = held_by s \<and> (\<forall>x. idle s x \<longrightarrow> idle s' x \<and> core (fl_at s' x) = core (fl_at s x))"

lemma quiet_refl: "lock_inv s \<Longrightarrow> quiet s s"
  by (simp add: quiet_def)

lemma quiet_trans: "quiet s s' \<Longrightarrow> quiet s' s'' \<Longrightarrow> quiet s s''"
  by (simp add: quiet_def)

lemma quietD: "quiet s s' \<Longrightarrow> lock_inv s'" "quiet s s' \<Longrightarrow> held_by s' = held_by s" "quiet s s' \<Longrightarrow> idle s x \<Longrightarrow> idle s' x"
  "quiet s s' \<Longrightarrow> idle s x \<Longrightarrow> core (fl_at s' x) = core (fl_at s x)"
  by (simp_all add: quiet_def)

lemma quiet_alloc: "lock_inv s \<Longrightarrow> locks_alloc_lock mem s = (n, s') \<Longrightarrow> quiet s s'"
  unfolding quiet_def
  using lock_inv_alloc(1) untouched_held [OF lock_invD(1) untouched_alloc] untouched_idle [OF untouched_alloc] untouched_at [OF untouched_alloc]
  by (metis ext)

lemma quiet_delete:
  assumes I: "lock_inv s" and l: "i_flock s ino = pre @ a # rest" and np: "\<not> IS_POSIX (fl_at s a)"
  shows "quiet s (locks_delete_lock ino pre a rest s)"
proof -
  have "fl_next (fl_at s a) = None" using listed_not_waiting [OF lock_invD(2) [OF I]] l by (metis in_set_conv_decomp)
  then have "idle (locks_delete_lock ino pre a rest s) x" if "idle s x" for x
    using next_None_delete [OF waiters_okD(1) [OF lock_invD(2) [OF I]], of a x] that l by (auto simp: idle_def dest: spec [of _ ino])
  then show ?thesis using lock_inv_delete [OF I l np] by (simp add: quiet_def)
qed

lemma lock_inv_delete_block:
  assumes I: "lock_inv s"
  shows "lock_inv (raw_delete_block w s)" "held_by (raw_delete_block w s) = held_by s"
proof -
  let ?s = "raw_delete_block w s"
  have c: "core (fl_at ?s x) = core (fl_at s x)" for x by simp
  have "lists_ok ?s" by (rule lists_ok_cong [OF lock_invD(1) [OF I]]) (simp_all add: c ids_core [OF c])
  then show "lock_inv ?s" using waiters_ok_delete_block [OF lock_invD(2) [OF I]] by (simp add: lock_inv_def)
  show "held_by ?s = held_by s" by (intro ext list_cong(2)) (simp_all add: c ids_core [OF c])
qed

section \<open>Locks of whole files\<close>

lemma flock_own_Some:
  "flock_own s filp pre xs = Some (p, a, q) \<Longrightarrow>
    pre @ xs = p @ a # q \<and> \<not> IS_POSIX (fl_at s a) \<and> \<not> IS_LEASE (fl_at s a) \<and> fl_file (fl_at s a) = filp"
  by (induction s filp pre xs rule: flock_own.induct) (auto split: if_splits)

lemma flock_scan_result:
  "flock_scan s r pre xs = (p, q, b) \<Longrightarrow> pre @ xs = p @ q \<and>
    (\<forall>x\<in>set p. x \<in> set pre \<or> \<not> IS_POSIX (fl_at s x) \<and> (IS_LEASE (fl_at s x) \<or> \<not> flock_locks_conflict (fl_at s r) (fl_at s x))) \<and>
    (case b of None \<Rightarrow> q = [] \<or> IS_POSIX (fl_at s (hd q))
     | Some c \<Rightarrow> c \<in> set xs \<and> \<not> IS_POSIX (fl_at s c) \<and> flock_locks_conflict (fl_at s r) (fl_at s c))"
  by (induction s r pre xs rule: flock_scan.induct) (auto split: if_splits option.splits)

definition flock_request :: "file_lock \<Rightarrow> bool" where
  "flock_request r \<longleftrightarrow> IS_FLOCK r \<and> one_kind r"

text \<open>The structure for the new lock between the two halves of \<open>flock_lock_file\<close>.\<close>

definition flock_new :: "lock_state \<Rightarrow> nat \<Rightarrow> nat option \<Rightarrow> bool" where
  "flock_new s request new_fl \<longleftrightarrow> flag (fl_flags (fl_at s request)) FL_ACCESS \<or> (\<exists>n. new_fl = Some n \<and> idle s n \<and> n \<noteq> request)"

lemma flock_release_step:
  assumes I: "lock_inv s" and i: "idle s request" and res: "flock_release mem ino filp request s = (r, s')"
  shows "quiet s s'" "r = Inr (new_fl, found) \<Longrightarrow> flock_new s' request new_fl" "r \<noteq> Inl FILE_LOCK_DEFERRED"
proof -
  let ?acc = "flag (fl_flags (fl_at s request)) FL_ACCESS" and ?unlock = "fl_type (fl_at s request) = F_UNLCK"
  obtain n s1 where a: "(if \<not> ?unlock then locks_alloc_lock mem s else (None, s)) = (n, s1)"
    by (cases "if \<not> ?unlock then locks_alloc_lock mem s else (None, s)")
  have q1: "quiet s s1" using a I quiet_refl quiet_alloc by (auto split: if_splits)
  have n1: "idle s1 m \<and> m \<noteq> request" if "n = Some m" for m
    using a that lock_inv_alloc(2) [OF I, of mem n s1 m] i by (auto split: if_splits)
  have r1: "fl_flags (fl_at s' request) = fl_flags (fl_at s request)" if "quiet s s'" for s'
    using core_eqD [OF quietD(4) [OF that i]] by simp
  have "quiet s s' \<and> (\<forall>new_fl found. r = Inr (new_fl, found) \<longrightarrow> flock_new s' request new_fl) \<and> r \<noteq> Inl FILE_LOCK_DEFERRED"
  proof (cases "?acc \<or> (\<not> ?unlock \<and> n = None)")
    case True
    then show ?thesis using res a q1 I
      by (auto simp: flock_release_def Let_def quiet_refl flock_new_def split: if_splits)
  next
    case False
    show ?thesis
    proof (cases "flock_own s1 filp [] (i_flock s1 ino)")
      case None
      then show ?thesis using False res a q1 n1 by (auto simp: flock_release_def Let_def flock_new_def split: if_splits)
    next
      case (Some t)
      obtain p b q where t: "t = (p, b, q)" by (cases t)
      note found = flock_own_Some [OF Some [unfolded t]]
      have d: "quiet s1 (locks_delete_lock ino p b q s1)" using found by (intro quiet_delete [OF quietD(1) [OF q1]]) simp_all
      have "flock_new (locks_delete_lock ino p b q s1) request n" if "\<not> ?unlock"
        using n1 False that quietD(3) [OF d] by (auto simp: flock_new_def)
      then show ?thesis using False res a q1 quiet_trans [OF q1 d] Some t
        by (auto simp: flock_release_def Let_def split: if_splits)
    qed
  qed
  then show "quiet s s'" "r = Inr (new_fl, found) \<Longrightarrow> flock_new s' request new_fl" "r \<noteq> Inl FILE_LOCK_DEFERRED" by blast+
qed

lemma posix_tail:
  assumes "list_ok s ino" "i_flock s ino = p @ q" "q = [] \<or> IS_POSIX (fl_at s (hd q))" "x \<in> set q"
  shows "IS_POSIX (fl_at s x)"
proof -
  have "sorted (map (\<lambda>a. fl_rank (fl_at s a)) q)" using assms(1,2) unfolding list_ok_def by (simp add: sorted_append)
  then have "fl_rank (fl_at s (hd q)) \<le> fl_rank (fl_at s x)" using assms(4) by (cases q) auto
  then show ?thesis using assms(3,4) by (auto simp: fl_rank_def split: if_splits)
qed

lemma flock_find_conflict_step:
  assumes I: "lock_inv s" and i: "idle s request" and f: "flock_request (fl_at s request)" and n: "flock_new s request new_fl"
    and res: "flock_find_conflict tgid ino request new_fl s = (e, s')"
  shows "lock_inv s'" "held_by s' = held_by s" "request_left s request e s'"
proof -
  note L = lock_invD(1) [OF I]
  let ?r = "fl_at s request"
  obtain p q b where sc: "flock_scan s request [] (i_flock s ino) = (p, q, b)" by (cases "flock_scan s request [] (i_flock s ino)")
  note S = flock_scan_result [OF sc, simplified]
  have "lock_inv s' \<and> held_by s' = held_by s \<and> request_left s request e s'"
  proof (cases b)
    case (Some c)
    have cl: "c \<in> set (i_flock s ino)" "\<not> IS_POSIX (fl_at s c)" "flock_locks_conflict ?r (fl_at s c)" using S Some by auto
    have "IS_FLOCK (fl_at s c)" using cl(3) by (simp add: flock_locks_conflict_def split: if_splits)
    then have h: "holds_up ?r (fl_at s c)" using cl by (simp add: holds_up_def)
    have "c \<noteq> request" using cl(1) i by (auto simp: idle_def)
    then have "request_left s request FILE_LOCK_DEFERRED (locks_insert_block c request s)"
      by (simp add: request_left_def locks_insert_block_def Let_def)
    moreover have "s' = s \<and> e = - EAGAIN \<or> s' = locks_insert_block c request s \<and> e = FILE_LOCK_DEFERRED"
      using res by (auto simp: flock_find_conflict_def sc Some split: if_splits)
    ultimately show ?thesis using lock_inv_insert_block [OF I i cl(1) h] I i by (auto simp: request_left_def)
  next
    case None
    show ?thesis
    proof (cases "flag (fl_flags ?r) FL_ACCESS")
      case True
      then show ?thesis using res I i by (auto simp: flock_find_conflict_def sc None request_left_def)
    next
      case False
      then obtain m where m: "new_fl = Some m" "idle s m" "m \<noteq> request" using n by (auto simp: flock_new_def)
      have s': "e = 0" "s' = locks_insert_lock tgid ino p q m (upd_fl m (locks_copy_lock ?r) s)"
        using res False m by (simp_all add: flock_find_conflict_def sc None)
      have l: "i_flock s ino = p @ q" using S by simp
      have kind: "IS_FLOCK ?r" "one_kind ?r" "\<not> IS_POSIX ?r" using f by (auto simp: flock_request_def one_kind_def)
      have pre: "\<not> IS_POSIX (fl_at s x)" "IS_LEASE (fl_at s x) \<or> \<not> flock_locks_conflict ?r (fl_at s x)" if "x \<in> set p" for x
        using S that by simp_all
      have post: "IS_POSIX (fl_at s x)" if "x \<in> set q" for x
        using posix_tail [OF listsD(1) [OF L] l _ that] S None by simp
      have free: "\<not> flock_locks_conflict ?r (fl_at s x)" if "x \<in> set (i_flock s ino)" for x
        using that pre(2) [of x] post [of x] kindD(1) [OF listsD(1) [OF L] that] l
        by (auto simp: flock_locks_conflict_def one_kind_def)
      have "lock_inv s' \<and> held_by s' = held_by s" unfolding s'(2)
        using lock_inv_insert [OF I m(2) l kind(2,3) _ _ free, of tgid] pre(1) post kind by (simp add: fl_rank_def)
      moreover have "idle s' request" using i m(3) l unfolding s'(2) by (auto simp: idle_def locks_insert_lock_def dest: spec [of _ ino])
      ultimately show ?thesis using s'(1) by (simp add: request_left_def)
    qed
  qed
  then show "lock_inv s'" "held_by s' = held_by s" "request_left s request e s'" by blast+
qed

section \<open>Leases\<close>

text \<open>A change of the type and the break time of a lease.\<close>

lemma lists_upd_lease:
  assumes I: "lock_inv s" and a: "a \<in> set (i_flock s ino)" "IS_LEASE (fl_at s a)"
    and f: "\<And>x. fl_ids (f x) = fl_ids x"
  shows "lists_ok (upd_fl a f s)" "held_by (upd_fl a f s) = held_by s"
proof -
  have k: "\<not> IS_POSIX (fl_at s a) \<and> \<not> IS_FLOCK (fl_at s a)"
    using kindD(1) [OF listsD(1) [OF lock_invD(1) [OF I]] a(1)] a(2) by (auto simp: one_kind_def)
  have i: "fl_ids (fl_at (upd_fl a f s) x) = fl_ids (fl_at s x)" for x using f by (cases "x = a") simp_all
  have c: "core (fl_at (upd_fl a f s) x) = core (fl_at s x)" if "IS_POSIX (fl_at s x) \<or> IS_FLOCK (fl_at s x)" for x
    using that k by (cases "x = a") auto
  show "lists_ok (upd_fl a f s)" by (rule lists_ok_cong [OF lock_invD(1) [OF I]]; (rule i | rule c, assumption | simp))
  show "held_by (upd_fl a f s) = held_by s" by (intro ext list_cong(2); (rule i | rule c, assumption | simp))
qed

lemma quiet_break:
  assumes I: "lock_inv s" and a: "a \<in> set (i_flock s ino)" "IS_LEASE (fl_at s a)" and t: "flag t F_INPROGRESS"
  shows "quiet s (upd_fl a (\<lambda>x. x\<lparr>fl_type := t, fl_break_time := b\<rparr>) s)"
proof -
  let ?f = "\<lambda>x::file_lock. x\<lparr>fl_type := t, fl_break_time := b\<rparr>"
  let ?s = "upd_fl a ?f s"
  have an: "fl_next (fl_at s a) = None" using listed_not_waiting [OF lock_invD(2) [OF I] a(1)] .
  have k: "\<not> IS_POSIX (fl_at s a) \<and> \<not> IS_FLOCK (fl_at s a)"
    using kindD(1) [OF listsD(1) [OF lock_invD(1) [OF I]] a(1)] a(2) by (auto simp: one_kind_def)
  have "holds_up (fl_at ?s w) (fl_at ?s c)" if "fl_next (fl_at s w) = Some c" "holds_up (fl_at s w) (fl_at s c)" for w c
  proof -
    have "w \<noteq> a" using that an by auto
    moreover have "holds_up x (?f (fl_at s a))" for x using k a(2) t by (simp add: holds_up_def IS_POSIX_def IS_FLOCK_def IS_LEASE_def)
    ultimately show ?thesis using that by (cases "c = a") simp_all
  qed
  then have "waiters_ok {} ?s"
    by (intro waiters_ok_change [OF lock_invD(2) [OF I]]) (use waiters_okD(3) [OF lock_invD(2) [OF I]] in \<open>auto simp: IS_POSIX_def\<close>)
  then have "lock_inv ?s" using lists_upd_lease [OF I a, of ?f] by (simp add: lock_inv_def fl_ids_def)
  moreover have "idle ?s x \<and> core (fl_at ?s x) = core (fl_at s x)" if "idle s x" for x
    using that a(1) by (cases "x = a") (auto simp: idle_def)
  ultimately show ?thesis using lists_upd_lease(2) [OF I a, of ?f] by (simp add: quiet_def fl_ids_def)
qed

lemma quiet_lease_type:
  assumes I: "lock_inv s" and a: "a \<in> set (i_flock s ino)" "IS_LEASE (fl_at s a)"
  shows "quiet s (locks_wake_up_blocks a (upd_fl a (fl_type_update g) s))"
proof -
  let ?u = "upd_fl a (fl_type_update g) s"
  let ?s = "locks_wake_up_blocks a ?u"
  note u = lists_upd_lease [OF I a, of "fl_type_update g"] and w = listed_upd_wake [OF lock_invD(2) [OF I] a(1), of "fl_type_update g"]
  have c: "core (fl_at ?s x) = core (fl_at ?u x)" for x by simp
  have "lists_ok ?s" by (rule lists_ok_cong [of ?u]) (use u(1) in \<open>simp_all add: fl_ids_def c ids_core [OF c]\<close>)
  moreover have "held_by ?s = held_by s" using u(2) list_cong(2) [of ?s _ ?u] by (intro ext) (simp add: fl_ids_def c ids_core [OF c])
  moreover have "idle ?s x \<and> core (fl_at ?s x) = core (fl_at s x)" if "idle s x" for x
  proof -
    have "x \<noteq> a" using that a(1) by (auto simp: idle_def)
    then show ?thesis using that w by (auto simp: idle_def keeps_idle_def)
  qed
  ultimately show ?thesis using w by (simp add: quiet_def lock_inv_def)
qed

lemma lease_modify_step:
  assumes I: "lock_inv s" and l: "i_flock s ino = pre @ a # rest" and a: "IS_LEASE (fl_at s a)"
    and res: "lease_modify ino pre a rest arg s = (e, s')"
  shows "quiet s s'" "i_flock s' ino = pre @ (if e = 0 \<and> arg = 2 then rest else a # rest)"
    "fl_ids (fl_at s' x) = fl_ids (fl_at s x)" "x \<noteq> a \<Longrightarrow> core (fl_at s' x) = core (fl_at s x)"
proof -
  let ?u = "locks_wake_up_blocks a (upd_fl a (fl_type_update (\<lambda>_. word_of_int arg)) s)"
  have al: "a \<in> set (i_flock s ino)" using l by simp
  have fl_ids: "fl_ids (fl_at ?u y) = fl_ids (fl_at s y)" for y by (simp add: fl_ids_def)
  have q: "quiet s ?u" by (rule quiet_lease_type [OF I al a])
  have "\<not> IS_POSIX (fl_at ?u a)"
    using kindD(1) [OF listsD(1) [OF lock_invD(1) [OF I]] al] a kind_ids(3) [OF fl_ids] by (auto simp: one_kind_def)
  then have d: "quiet ?u (locks_delete_lock ino pre a rest ?u)" by (intro quiet_delete [OF quietD(1) [OF q]]) (simp_all add: l)
  have s': "if e = 0 then s' = (if arg = 2 then locks_delete_lock ino pre a rest ?u else ?u) else s' = s"
    using res by (auto simp: lease_modify_def assign_type_def Let_def upd_fl_def split: if_splits)
  show "quiet s s'" using s' q quiet_trans [OF q d] quiet_refl [OF I] by (auto split: if_splits)
  show "i_flock s' ino = pre @ (if e = 0 \<and> arg = 2 then rest else a # rest)" using s' l by (auto split: if_splits)
  show "fl_ids (fl_at s' x) = fl_ids (fl_at s x)" using s' by (auto simp: fl_ids_def split: if_splits)
  show "x \<noteq> a \<Longrightarrow> core (fl_at s' x) = core (fl_at s x)" using s' by (auto split: if_splits)
qed

lemma quiet_time_out_walk: "lock_inv s \<Longrightarrow> i_flock s ino = pre @ xs \<Longrightarrow> quiet s (time_out_walk ino jiffies s pre xs)"
proof (induction ino jiffies s pre xs rule: time_out_walk.induct)
  case (1 ino jiffies s pre)
  then show ?case by (simp add: quiet_refl)
next
  case (2 ino jiffies s pre a rest)
  let ?f = "fl_at s a"
  let ?m = "lease_modify ino pre a rest (uint (fl_type ?f AND NOT F_INPROGRESS)) s"
  consider "\<not> (IS_LEASE ?f \<and> flag (fl_type ?f) F_INPROGRESS)"
    | "IS_LEASE ?f \<and> flag (fl_type ?f) F_INPROGRESS" "fl_break_time ?f = 0 \<or> time_before jiffies (fl_break_time ?f)"
    | "IS_LEASE ?f \<and> flag (fl_type ?f) F_INPROGRESS" "\<not> (fl_break_time ?f = 0 \<or> time_before jiffies (fl_break_time ?f))" by blast
  then show ?case
  proof cases
    case 1
    then show ?thesis using 2(4) by (simp add: Let_def quiet_refl)
  next
    case c: 2
    then show ?thesis using "2.IH"(1) [OF refl] "2.prems" by (simp add: Let_def)
  next
    case c: 3
    have le: "IS_LEASE ?f" using c by blast
    obtain e t where m: "?m = (e, t)" by (cases ?m)
    note M = lease_modify_step [OF 2(4,5) le m]
    have "i_flock t ino \<noteq> pre @ a # rest \<Longrightarrow> i_flock t ino = pre @ rest" using M(2) by (auto split: if_splits)
    then have "quiet t (if i_flock t ino = pre @ a # rest then time_out_walk ino jiffies t (pre @ [a]) rest else time_out_walk ino jiffies t pre rest)"
      using "2.IH"(2,3) [OF refl _ c(2), of t] c(1) quietD(1) [OF M(1)] m by (simp split: if_splits)
    then show ?thesis using quiet_trans [OF M(1)] c m by (simp add: Let_def)
  qed
qed

lemma quiet_time_out_leases: "lock_inv s \<Longrightarrow> quiet s (time_out_leases ino jiffies s)"
  unfolding time_out_leases_def by (rule quiet_time_out_walk) simp_all

lemma quiet_break_leases:
  assumes "flag future F_INPROGRESS"
  shows "lock_inv s \<Longrightarrow> (\<And>a. a \<in> set as \<Longrightarrow> a \<in> set (i_flock s ino) \<and> IS_LEASE (fl_at s a)) \<Longrightarrow> quiet s (break_leases future b as s)"
proof (induction as arbitrary: s)
  case (Cons a as)
  let ?t = "if fl_type (fl_at s a) \<noteq> future then upd_fl a (\<lambda>x. x\<lparr>fl_type := future, fl_break_time := b\<rparr>) s else s"
  have q: "quiet s ?t" using quiet_break [OF Cons.prems(1), of a ino future b] Cons.prems assms quiet_refl by auto
  have "quiet ?t (break_leases future b as ?t)"
    by (rule Cons.IH [OF quietD(1) [OF q]]) (use Cons.prems(2) in \<open>auto simp: IS_LEASE_def\<close>)
  then show ?case using quiet_trans [OF q] by simp
qed (simp add: quiet_refl)

section \<open>Setting a lease\<close>

definition scan_ok :: "lock_state \<Rightarrow> nat list \<Rightarrow> nat list \<Rightarrow> (nat list \<times> nat \<times> nat list) option \<Rightarrow> bool" where
  "scan_ok s L pre my \<longleftrightarrow> (\<forall>x\<in>set pre. IS_LEASE (fl_at s x)) \<and>
     (case my of None \<Rightarrow> True | Some (mp, a, mq) \<Rightarrow> L = mp @ a # mq \<and> IS_LEASE (fl_at s a))"

lemma lease_scan_result:
  "lease_scan s filp pre xs my rd wr = ((p, q), my', rd', wr') \<Longrightarrow> pre @ xs = L \<Longrightarrow> scan_ok s L pre my \<Longrightarrow> L = p @ q \<and> scan_ok s L p my'"
proof (induction s filp pre xs my rd wr rule: lease_scan.induct)
  case (2 s filp pre fl rest my rd wr)
  have "IS_LEASE (fl_at s fl) \<Longrightarrow> scan_ok s L (pre @ [fl]) my" "IS_LEASE (fl_at s fl) \<Longrightarrow> scan_ok s L (pre @ [fl]) (Some (pre, fl, rest))"
    using 2(5,6) by (auto simp: scan_ok_def)
  then show ?case using 2(1-3) 2(4-6) by (auto split: if_splits)
qed simp

lemma lease_init_kind:
  assumes "lease_init t filp arg fl = (0, lease)"
  shows "one_kind lease" "\<not> IS_POSIX lease" "\<not> IS_FLOCK lease" "IS_LEASE lease"
  using assms
  by (auto simp: lease_init_def one_kind_def IS_POSIX_def IS_FLOCK_def IS_LEASE_def flag_def split: prod.splits if_splits)

lemma generic_setlease_step:
  assumes I: "lock_inv s" and lease: "one_kind lease" "\<not> IS_POSIX lease" "\<not> IS_FLOCK lease" "IS_LEASE lease"
    and res: "generic_setlease env filp file inode arg lease s = (e, flp, s')"
  shows "lock_inv s' \<and> held_by s' = held_by s" "flp = Some a \<Longrightarrow> e = 0 \<Longrightarrow> arg \<noteq> 2 \<Longrightarrow> a \<in> set (i_flock s' (f_ino file)) \<and> IS_LEASE (fl_at s' a)"
    "e = 0 \<Longrightarrow> arg \<noteq> 2 \<Longrightarrow> flp \<noteq> None"
proof -
  let ?ino = "f_ino file"
  define s1 where "s1 = time_out_leases ?ino (ls_jiffies env) s"
  obtain n s2 where al: "(if arg \<noteq> 2 then locks_alloc_lock (ls_mem env) s1 else (None, s1)) = (n, s2)"
    by (cases "if arg \<noteq> 2 then locks_alloc_lock (ls_mem env) s1 else (None, s1)")
  obtain p q my rd wr where sc: "lease_scan s2 filp [] (i_flock s2 ?ino) None 0 0 = ((p, q), my, rd, wr)"
    by (cases "lease_scan s2 filp [] (i_flock s2 ?ino) None 0 0") auto
  have "scan_ok s2 (i_flock s2 ?ino) [] None" by (simp add: scan_ok_def)
  then have S: "i_flock s2 ?ino = p @ q" "scan_ok s2 (i_flock s2 ?ino) p my" using lease_scan_result [OF sc append_Nil] by blast+
  have q1: "quiet s s1" unfolding s1_def by (rule quiet_time_out_leases [OF I])
  have q2: "quiet s1 s2" using al quietD(1) [OF q1] quiet_refl quiet_alloc by (auto split: if_splits)
  have n: "idle s2 m" if "n = Some m" for m using lock_inv_alloc(2) [OF quietD(1) [OF q1]] al that by (auto split: if_splits)
  note q = quiet_trans [OF q1 q2] and I2 = quietD(1) [OF q2]
  have rk: "fl_rank (fl_at s2 x) = 0" if "x \<in> set p" for x
    using that S kindD(1) [OF listsD(1) [OF lock_invD(1) [OF I2]], of x ?ino] by (auto simp: scan_ok_def fl_rank_def one_kind_def)
  have ins: "lock_inv (locks_insert_lock g ?ino p q m (upd_fl m (locks_copy_lock lease) s2)) \<and>
      held_by (locks_insert_lock g ?ino p q m (upd_fl m (locks_copy_lock lease) s2)) = held_by s2" if "n = Some m" for m g
    using lock_inv_insert [OF I2 n [OF that] S(1) lease(1,2), of g] lease rk by (simp add: fl_rank_def [of lease])
  consider (old) "s' = s \<or> s' = s2" "e \<noteq> 0 \<or> arg = 2"
    | (mod) mp a mq where "my = Some (mp, a, mq)" "lease_modify ?ino mp a mq arg s2 = (e, s')" "flp = Some a"
    | (new) m where "n = Some m" "e = 0" "flp = Some m" "s' = locks_insert_lock (lt_tgid (ls_task env)) ?ino p q m (upd_fl m (locks_copy_lock lease) s2)"
    using res al unfolding generic_setlease_def Let_def s1_def [symmetric]
    by (auto simp: sc split: if_splits option.splits prod.splits)
  then have "(lock_inv s' \<and> held_by s' = held_by s) \<and> (\<forall>a. flp = Some a \<and> e = 0 \<and> arg \<noteq> 2 \<longrightarrow> a \<in> set (i_flock s' ?ino) \<and> IS_LEASE (fl_at s' a)) \<and>
    (e = 0 \<and> arg \<noteq> 2 \<longrightarrow> flp \<noteq> None)"
  proof cases
    case old
    then show ?thesis using I quietD(1,2) [OF q] by auto
  next
    case (mod mp a mq)
    have A: "i_flock s2 ?ino = mp @ a # mq \<and> IS_LEASE (fl_at s2 a)" using S(2) mod(1) by (simp add: scan_ok_def)
    note M = lease_modify_step [OF I2 conjunct1 [OF A] conjunct2 [OF A] mod(2)]
    have "IS_LEASE (fl_at s' a)" using A M(3) [of a] by (simp add: IS_LEASE_def fl_ids_def)
    then show ?thesis using quietD(1,2) [OF quiet_trans [OF q M(1)]] M(2) mod(3) by auto
  next
    case (new m)
    have "IS_LEASE (fl_at s' m)" unfolding new(4) using lease(4) by (simp add: locks_copy_lock_def raw_copy_lock_def IS_LEASE_def)
    then show ?thesis using ins [OF new(1)] quietD(2) [OF q] new by simp
  qed
  then show "lock_inv s' \<and> held_by s' = held_by s" "flp = Some a \<Longrightarrow> e = 0 \<Longrightarrow> arg \<noteq> 2 \<Longrightarrow> a \<in> set (i_flock s' ?ino) \<and> IS_LEASE (fl_at s' a)"
    "e = 0 \<Longrightarrow> arg \<noteq> 2 \<Longrightarrow> flp \<noteq> None" by blast+
qed

lemma fcntl_setlease_step:
  assumes I: "lock_inv s" and res: "fcntl_setlease env filp file inode arg s = (e, s')"
  shows "lock_inv s' \<and> held_by s' = held_by s"
proof -
  let ?ino = "f_ino file"
  obtain e0 lease where i: "lease_init (ls_task env) filp arg locks_init_lock = (e0, lease)" by fastforce
  show ?thesis
  proof (cases "e0 = 0")
    case True
    obtain e1 flp s1 where g: "generic_setlease env filp file inode arg lease s = (e1, flp, s1)" by (metis prod_cases3)
    note G = generic_setlease_step [OF I lease_init_kind [OF i [unfolded True]] g]
    show ?thesis
    proof (cases "e1 = 0 \<and> arg \<noteq> 2 \<and> ls_fasync env < 0")
      case c: True
      then obtain a where a: "flp = Some a" using G(3) by blast
      have q: "quiet s1 (upd_fl a (\<lambda>x. x\<lparr>fl_type := F_UNLCK OR F_INPROGRESS, fl_break_time := ls_jiffies env - 10\<rparr>) s1)" (is "quiet _ ?s2")
        using G(1,2) a c by (intro quiet_break [where ino = ?ino]) (simp_all add: flag_def)
      note q' = quiet_trans [OF q quiet_time_out_leases [OF quietD(1) [OF q], of ?ino "ls_jiffies env"]]
      have "s' = time_out_leases ?ino (ls_jiffies env) ?s2" using res True c a by (simp add: fcntl_setlease_def i g)
      then show ?thesis using quietD(1,2) [OF q'] G(1) by simp
    next
      case False
      then show ?thesis using res True G(1) by (auto simp: fcntl_setlease_def i g split: if_splits)
    qed
  qed (use res I in \<open>simp add: fcntl_setlease_def i\<close>)
qed

section \<open>The last close\<close>

text \<open>When no byte range was taken through the file any more, all its locks go.\<close>

lemma remove_flock_walk_step:
  "lock_inv s \<Longrightarrow> i_flock s ino = pre @ xs \<Longrightarrow> \<forall>x\<in>set xs. fl_file (fl_at s x) = filp \<longrightarrow> \<not> IS_POSIX (fl_at s x) \<Longrightarrow>
    \<exists>s'. remove_flock_walk ino filp s pre xs = Ok s' \<and> quiet s s' \<and> i_flock s' ino = pre @ filter (\<lambda>x. fl_file (fl_at s x) \<noteq> filp) xs"
proof (induction ino filp s pre xs rule: remove_flock_walk.induct)
  case (1 ino filp s pre)
  then show ?case by (simp add: quiet_refl)
next
  case (2 ino filp s pre a rest)
  note I = 2(4) and l = 2(5) and np = 2(6)
  have d: "distinct (pre @ a # rest)" using kindD(2) [OF listsD(1) [OF lock_invD(1) [OF I]], of ino] l by simp
  have k: "one_kind (fl_at s a)" using kindD(1) [OF listsD(1) [OF lock_invD(1) [OF I]], of a ino] l by simp
  show ?case
  proof (cases "fl_file (fl_at s a) = filp")
    case False
    then show ?thesis using "2.IH"(3) [OF False I] l np by simp
  next
    case f: True
    then have an: "\<not> IS_POSIX (fl_at s a)" using np by simp
    let ?t = "if IS_FLOCK (fl_at s a) then locks_delete_lock ino pre a rest s else snd (lease_modify ino pre a rest 2 s)"
    have le: "\<not> IS_FLOCK (fl_at s a) \<Longrightarrow> IS_LEASE (fl_at s a)" using k an by (auto simp: one_kind_def)
    have t: "quiet s ?t \<and> i_flock ?t ino = pre @ rest \<and> (\<forall>x. fl_ids (fl_at ?t x) = fl_ids (fl_at s x))"
    proof (cases "IS_FLOCK (fl_at s a)")
      case True
      then show ?thesis using quiet_delete [OF I l an] by (simp add: fl_ids_def)
    next
      case False
      obtain e t where m: "lease_modify ino pre a rest 2 s = (e, t)" by fastforce
      have "e = 0" using m by (auto simp: lease_modify_def assign_type_def)
      then show ?thesis using lease_modify_step [OF I l le [OF False] m] False m by simp
    qed
    have ft: "fl_file (fl_at ?t x) = fl_file (fl_at s x)" "IS_POSIX (fl_at ?t x) = IS_POSIX (fl_at s x)" for x
      using t by (auto simp: fl_ids_def IS_POSIX_def)
    have "\<exists>s'. remove_flock_walk ino filp ?t pre rest = Ok s' \<and> quiet ?t s' \<and> i_flock s' ino = pre @ filter (\<lambda>x. fl_file (fl_at ?t x) \<noteq> filp) rest"
      using "2.IH"(1) [OF f] "2.IH"(2) [OF f _ le] quietD(1) [OF conjunct1 [OF t]] t np ft by (cases "IS_FLOCK (fl_at s a)") simp_all
    moreover have "remove_flock_walk ino filp s pre (a # rest) = remove_flock_walk ino filp ?t pre rest" using f le by simp
    ultimately show ?thesis using quiet_trans [OF conjunct1 [OF t]] f ft(1) by auto
  qed
qed

lemma locks_remove_flock_step:
  assumes "lock_inv s" "\<forall>x\<in>set (i_flock s (f_ino file)). fl_file (fl_at s x) = filp \<longrightarrow> \<not> IS_POSIX (fl_at s x)"
  shows "\<exists>s'. locks_remove_flock filp file s = Ok s' \<and> quiet s s' \<and>
    i_flock s' (f_ino file) = filter (\<lambda>x. fl_file (fl_at s x) \<noteq> filp) (i_flock s (f_ino file))"
  using remove_flock_walk_step [of s "f_ino file" "[]" "i_flock s (f_ino file)" filp] assms
  by (auto simp: locks_remove_flock_def quiet_refl)

lemma lease_modify_ids: "fl_ids (fl_at (snd (lease_modify ino pre a rest arg s)) x) = fl_ids (fl_at s x)"
  by (auto simp: lease_modify_def assign_type_def Let_def fl_ids_def split: prod.splits)

lemma remove_flock_walk_Ok:
  "remove_flock_walk ino filp s pre xs = Ok s' \<Longrightarrow> \<forall>x\<in>set xs. one_kind (fl_at s x) \<Longrightarrow>
    \<forall>x\<in>set xs. fl_file (fl_at s x) = filp \<longrightarrow> \<not> IS_POSIX (fl_at s x)"
proof (induction ino filp s pre xs rule: remove_flock_walk.induct)
  case (2 ino filp s pre a rest)
  have fl_ids: "one_kind x = one_kind y" "IS_POSIX x = IS_POSIX y" "fl_file x = fl_file y" if "fl_ids x = fl_ids y" for x y
    using that by (auto simp: fl_ids_def one_kind_def IS_POSIX_def IS_FLOCK_def IS_LEASE_def)
  have d: "fl_ids (fl_at (locks_delete_lock ino pre a rest s) x) = fl_ids (fl_at s x)" for x by (simp add: fl_ids_def)
  note m = lease_modify_ids [of ino pre a rest 2 s]
  show ?case using 2 fl_ids [OF d] fl_ids [OF m] by (auto simp: one_kind_def split: if_splits)
qed simp

lemma locks_remove_flock_Ok:
  assumes "lock_inv s" "locks_remove_flock filp file s = Ok s'"
  shows "\<forall>x\<in>set (i_flock s (f_ino file)). fl_file (fl_at s x) = filp \<longrightarrow> \<not> IS_POSIX (fl_at s x)"
proof -
  have "\<forall>x\<in>set (i_flock s (f_ino file)). one_kind (fl_at s x)"
    using kindD(1) [OF listsD(1) [OF lock_invD(1) [OF assms(1)]]] by blast
  then show ?thesis using remove_flock_walk_Ok [of "f_ino file" filp s "[]" "i_flock s (f_ino file)" s'] assms(2)
    by (auto simp: locks_remove_flock_def split: if_splits)
qed

end
