(* ===== verification/LockRun.thy ===== *)
theory LockRun
  imports LockFlock
begin

text \<open>
  File locks at run time: the steps that tasks take under the kernel lock as a transition system whose invariant is
  that of the lists and waiting requests, the calls that sleep between such steps, and the detection of deadlocks.
\<close>

section \<open>The transition system\<close>

definition lock_init :: "lock_state \<Rightarrow> bool" where
  "lock_init s \<longleftrightarrow> (\<forall>ino. i_flock s ino = []) \<and> blocked_list s = [] \<and> (\<forall>a. fl_next (fl_at s a) = None \<and> fl_block (fl_at s a) = [])"

text \<open>A task allocates and fills in a structure that is on no list, runs one of the operations with it, gives up
  waiting, or lets the time of leases run out.\<close>

inductive lock_step :: "lock_state \<Rightarrow> lock_state \<Rightarrow> bool" where
  step_alloc: "locks_alloc_lock mem s = (n, s') \<Longrightarrow> lock_step s s'"
| step_fill: "idle s a \<Longrightarrow> fl_next x = None \<Longrightarrow> fl_block x = [] \<Longrightarrow> lock_step s (upd_fl a (\<lambda>_. x) s)"
| step_posix: "idle s request \<Longrightarrow> posix_request (fl_at s request) \<Longrightarrow> raw_posix_lock_file env ino request s = (e, s') \<Longrightarrow> lock_step s s'"
| step_release: "idle s request \<Longrightarrow> flock_release mem ino filp request s = (r, s') \<Longrightarrow> lock_step s s'"
| step_find: "idle s request \<Longrightarrow> flock_request (fl_at s request) \<Longrightarrow> flock_new s request new_fl \<Longrightarrow>
    flock_find_conflict tgid ino request new_fl s = (e, s') \<Longrightarrow> lock_step s s'"
| step_unblock: "lock_step s (raw_delete_block w s)"
| step_time_out: "lock_step s (time_out_leases ino jiffies s)"
| step_setlease: "fcntl_setlease lenv filp file inode arg s = (e, s') \<Longrightarrow> lock_step s s'"
| step_break: "flag future F_INPROGRESS \<Longrightarrow> lock_step s (break_leases future break_time (leases s ino) s)"
| step_break_wait: "idle s new_fl \<Longrightarrow> b \<in> set (leases s ino) \<Longrightarrow> flag (fl_type (fl_at s b)) F_INPROGRESS \<Longrightarrow>
    lock_step s (locks_insert_block b new_fl s)"
| step_close: "locks_remove_flock filp file s = Ok s' \<Longrightarrow> lock_step s s'"

lemma lock_init_inv: "lock_init s \<Longrightarrow> lock_inv s"
  by (auto simp: lock_init_def lock_inv_def lists_ok_def list_ok_def posix_excl_def flock_excl_def held_by_def locks_of_def segs_ok_def
      waiters_ok_def links_ok_def)

lemma leasesD: "a \<in> set (leases s ino) \<Longrightarrow> a \<in> set (i_flock s ino) \<and> IS_LEASE (fl_at s a)"
  by (auto simp: leases_def dest: set_takeWhileD)

lemma lease_holds_up:
  assumes "lock_inv s" "b \<in> set (leases s ino)" "flag (fl_type (fl_at s b)) F_INPROGRESS"
  shows "holds_up w (fl_at s b)"
  using assms(3) leasesD [OF assms(2)] kindD(1) [OF listsD(1) [OF lock_invD(1) [OF assms(1)]], of b ino]
  by (auto simp: holds_up_def one_kind_def)

lemma lock_step_inv:
  assumes "lock_inv s" "lock_step s s'"
  shows "lock_inv s'"
  using assms(2,1)
proof (induction rule: lock_step.induct)
  case (step_fill s a x)
  then show ?case using idle_block [OF lock_invD(2)] by (intro lock_inv_fill) simp_all
next
  case (step_break_wait s new_fl b ino)
  then show ?case using leasesD [of b s ino] by (intro lock_inv_insert_block(1) [where ino = ino] lease_holds_up [where ino = ino]) simp_all
next
  case (step_close filp opened s s')
  then show ?case using locks_remove_flock_step [OF _ locks_remove_flock_Ok, of s filp opened s'] quietD(1) by auto
next
  case (step_break future s break_time ino)
  then show ?case using quiet_break_leases [of future s "leases s ino" ino break_time] leasesD quietD(1) by blast
next
  case (step_alloc mem s n s')
  then show ?case by - (rule lock_inv_alloc(1))
next
  case (step_posix s request env ino e s')
  then show ?case by - (rule raw_posix_lock_file_step(1))
next
  case (step_release s request mem ino filp r s')
  then show ?case by - (rule quietD(1), rule flock_release_step(1))
next
  case (step_find s request new_fl tgid ino e s')
  then show ?case by - (rule flock_find_conflict_step(1))
next
  case (step_unblock s w)
  then show ?case by - (rule lock_inv_delete_block(1))
next
  case (step_time_out s ino jiffies)
  then show ?case by - (rule quietD(1), rule quiet_time_out_leases)
next
  case (step_setlease lenv filp opened inode arg s e s')
  then show ?case using fcntl_setlease_step by blast
qed

interpretation lock_sys: invariant_system lock_init lock_step lock_inv
  by unfold_locales (rule lock_init_inv, assumption, rule lock_step_inv)

section \<open>Calls that sleep\<close>

text \<open>What other tasks may do while a request of this task waits: they keep the invariant, leave the request as it is
  and off every list, and may at most wake it.\<close>

definition unlisted :: "lock_state \<Rightarrow> nat \<Rightarrow> bool" where
  "unlisted s fl \<longleftrightarrow> fl < fl_fresh s \<and> (\<forall>ino. fl \<notin> set (i_flock s ino))"

definition leaves_alone :: "nat \<Rightarrow> (lock_state \<Rightarrow> lock_state) \<Rightarrow> bool" where
  "leaves_alone fl others \<longleftrightarrow> (\<forall>s. lock_inv s \<and> unlisted s fl \<longrightarrow>
     lock_inv (others s) \<and> unlisted (others s) fl \<and> core (fl_at (others s) fl) = core (fl_at s fl))"

lemma posix_request_core: "core x = core y \<Longrightarrow> posix_request x = posix_request y"
  using core_eqD [of x y] kind_ids [OF ids_core, of x y] seg_core [of x y] by (simp add: posix_request_def)

lemma lock_wait_inv:
  assumes "lock_inv s" "idle s fl" "posix_request (fl_at s fl)" "\<forall>w\<in>set ws. leaves_alone fl (fst w)"
    "lock_wait (\<lambda>env. raw_posix_lock_file env ino fl) fl env ws s = Some (e, s')"
  shows "lock_inv s' \<and> idle s' fl"
  using assms
proof (induction ws arbitrary: env s)
  case Nil
  obtain e1 s1 where r: "raw_posix_lock_file env ino fl s = (e1, s1)" by fastforce
  note R = raw_posix_lock_file_step [OF Nil(1-3) r]
  show ?case using R(1,3) Nil.prems(5) by (auto simp: r request_left_def split: if_splits)
next
  case (Cons w ws)
  obtain others env' where w: "w = (others, env')" by fastforce
  obtain e1 s1 where r: "raw_posix_lock_file env ino fl s = (e1, s1)" by fastforce
  note R = raw_posix_lock_file_step [OF Cons.prems(1-3) r]
  show ?case
  proof (cases "e1 = FILE_LOCK_DEFERRED")
    case False
    then show ?thesis using R(1,3) Cons.prems(5) by (auto simp: r w request_left_def split: if_splits)
  next
    case True
    let ?t = "others s1"
    obtain b where b: "fl_next (fl_at s1 fl) = Some b" "core (fl_at s1 fl) = core (fl_at s fl)" using R(3) True by (auto simp: request_left_def)
    have "unlisted s1 fl" using waiters_okD(3,4) [OF lock_invD(2) [OF R(1)] b(1)] by (simp add: unlisted_def)
    then have t: "lock_inv ?t" "unlisted ?t fl" "core (fl_at ?t fl) = core (fl_at s fl)"
      using Cons.prems(4) R(1) b(2) by (simp_all add: w leaves_alone_def)
    show ?thesis
    proof (cases "fl_next (fl_at ?t fl)")
      case None
      then show ?thesis using Cons.IH [OF t(1), of env'] t Cons.prems posix_request_core [OF t(3)] True
        by (simp add: r w idle_def unlisted_def)
    next
      case (Some c)
      then have "s' = raw_delete_block fl ?t" using Cons.prems(5) True by (simp add: r w)
      then show ?thesis using lock_inv_delete_block(1) [OF t(1)] t(2) raw_delete_block_links(1) [OF waiters_okD(1) [OF lock_invD(2) [OF t(1)]]]
        by (simp add: idle_def unlisted_def)
    qed
  qed
qed

text \<open>The two formats of a lock: both conversions give a request for bytes of the file, whatever was in the structure.\<close>

definition conv_ok :: "lock_task \<Rightarrow> (flock \<Rightarrow> file_lock \<Rightarrow> int \<times> file_lock) \<Rightarrow> bool" where
  "conv_ok t conv \<longleftrightarrow> (\<forall>l fl e x. conv l fl = (e, x) \<longrightarrow> fl_next x = fl_next fl \<and> fl_block x = fl_block fl \<and>
     (e = 0 \<longrightarrow> fl_flags x = FL_POSIX \<and> fl_owner x = lt_files t \<and> req_ok (seg_of x)))"

lemma s64_max: "s64 i \<le> OFFSET_MAX"
  using signed_take_bit_int_less_exp [of 63 i] by (simp add: s64_def)

lemma s32_max: "s32 i \<le> OFFSET_MAX"
  using signed_take_bit_int_less_exp [of 31 i] by (simp add: s32_def)

lemma conv_ok_flock64: "conv_ok t (flock64_to_posix_lock t filp opened isize)"
  unfolding conv_ok_def
proof (intro allI impI)
  fix l fl e x assume "flock64_to_posix_lock t filp opened isize l fl = (e, x)"
  then show "fl_next x = fl_next fl \<and> fl_block x = fl_block fl \<and> (e = 0 \<longrightarrow> fl_flags x = FL_POSIX \<and> fl_owner x = lt_files t \<and> req_ok (seg_of x))"
    unfolding flock64_to_posix_lock_def Let_def
    by (cases "lock_origin opened isize (l_whence l)"; cases "l_len l > 0"; cases "l_len l < 0")
      (auto simp: req_ok_def s64_max fill_posix_def assign_type_def split: if_splits)
qed

lemma conv_ok_flock: "conv_ok t (flock_to_posix_lock t filp opened isize)"
  unfolding conv_ok_def
proof (intro allI impI)
  fix l fl e x assume "flock_to_posix_lock t filp opened isize l fl = (e, x)"
  then show "fl_next x = fl_next fl \<and> fl_block x = fl_block fl \<and> (e = 0 \<longrightarrow> fl_flags x = FL_POSIX \<and> fl_owner x = lt_files t \<and> req_ok (seg_of x))"
    unfolding flock_to_posix_lock_def Let_def
    by (cases "lock_origin opened isize (l_whence l)"; cases "l_len l > 0"; cases "l_len l < 0")
      (auto simp: req_ok_def s32_max fill_posix_def assign_type_def split: if_splits)
qed

lemma fill_step:
  assumes "lock_inv s" "idle s a" "fl_next x = fl_next (fl_at s a)" "fl_block x = fl_block (fl_at s a)"
  shows "lock_inv (upd_fl a (\<lambda>_. x) s)" "held_by (upd_fl a (\<lambda>_. x) s) = held_by s" "idle (upd_fl a (\<lambda>_. x) s) a"
proof -
  show "lock_inv (upd_fl a (\<lambda>_. x) s)" using assms by (intro lock_inv_fill) (simp_all add: idle_def)
  have "a \<notin> set (i_flock s ino)" for ino using assms(2) by (simp add: idle_def)
  then show "held_by (upd_fl a (\<lambda>_. x) s) = held_by s" by (intro ext list_cong(2)) auto
  show "idle (upd_fl a (\<lambda>_. x) s) a" using assms by (simp add: idle_def)
qed

lemma setlk_flags: "fl_flags x = FL_POSIX \<or> fl_flags x = FL_POSIX OR FL_SLEEP \<Longrightarrow> req_ok (seg_of x) \<Longrightarrow>
    posix_request x \<and> \<not> flag (fl_flags x) FL_ACCESS"
  by (auto simp: posix_request_def one_kind_def IS_POSIX_def IS_FLOCK_def IS_LEASE_def flag_def)

text \<open>The request of \<open>fcntl\<close> that reaches the list.\<close>

definition setlk_request :: "(flock \<Rightarrow> file_lock \<Rightarrow> int \<times> file_lock) \<Rightarrow> bool \<Rightarrow> flock \<Rightarrow> file_lock \<Rightarrow> file_lock" where
  "setlk_request conv sleep l old =
    (let x = snd (conv l old) in if sleep then fl_flags_update (\<lambda>f. f OR FL_SLEEP) x else x)"

lemma setlk_again_cases:
  assumes I: "lock_inv s" and i: "idle s fl" and c: "conv_ok t conv" and res: "setlk_again conv sleep opened security fl env ws l s = Some (e, s')"
  obtains (refused) "e \<noteq> 0" "lock_inv s'" "held_by s' = held_by s" "idle s' fl"
  | (locked) s1 where "lock_inv s1" "held_by s1 = held_by s" "idle s1 fl" "fl_at s1 fl = setlk_request conv sleep l (fl_at s fl)"
      "posix_request (fl_at s1 fl)" "\<not> flag (fl_flags (fl_at s1 fl)) FL_ACCESS"
      "lock_wait (\<lambda>env. raw_posix_lock_file env (f_ino opened) fl) fl env ws s1 = Some (e, s')"
proof -
  obtain e1 x where x: "conv l (fl_at s fl) = (e1, x)" by fastforce
  have X: "fl_next x = fl_next (fl_at s fl)" "fl_block x = fl_block (fl_at s fl)"
    "e1 = 0 \<Longrightarrow> fl_flags x = FL_POSIX \<and> req_ok (seg_of x)" using c x unfolding conv_ok_def by blast+
  define y where "y = setlk_request conv sleep l (fl_at s fl)"
  have Y: "fl_next y = fl_next (fl_at s fl)" "fl_block y = fl_block (fl_at s fl)" using X by (simp_all add: y_def setlk_request_def x)
  note fx = fill_step [OF I i X(1,2)] and fy = fill_step [OF I i Y]
  have up: "(if sleep then upd_fl fl (fl_flags_update (\<lambda>f. f OR FL_SLEEP)) (upd_fl fl (\<lambda>_. x) s) else upd_fl fl (\<lambda>_. x) s) = upd_fl fl (\<lambda>_. y) s"
    by (simp add: y_def setlk_request_def x upd_fl_def)
  consider "e1 \<noteq> 0" "e = e1" "s' = upd_fl fl (\<lambda>_. x) s" | "e1 = 0" "e \<noteq> 0" "s' = upd_fl fl (\<lambda>_. y) s"
    | "e1 = 0" "lock_wait (\<lambda>env. raw_posix_lock_file env (f_ino opened) fl) fl env ws (upd_fl fl (\<lambda>_. y) s) = Some (e, s')"
    using res unfolding setlk_again_def x prod.case Let_def up do_lock_file_wait_def by (auto split: if_splits)
  then show thesis
  proof cases
    case 1
    then show ?thesis using fx by (intro refused) simp_all
  next
    case 2
    then show ?thesis using fy by (intro refused) simp_all
  next
    case 3
    have "posix_request y \<and> \<not> flag (fl_flags y) FL_ACCESS"
      by (rule setlk_flags) (use X(3) [OF 3(1)] in \<open>auto simp: y_def setlk_request_def x seg_of_def\<close>)
    then show ?thesis using fy 3 by (intro locked [of "upd_fl fl (\<lambda>_. y) s"]) (simp_all add: y_def)
  qed
qed

lemma setlk_again_inv:
  assumes "lock_inv s" "idle s fl" "conv_ok t conv" "\<forall>w\<in>set ws. leaves_alone fl (fst w)"
    "setlk_again conv sleep opened security fl env ws l s = Some (e, s')"
  shows "lock_inv s' \<and> idle s' fl"
  using setlk_again_cases [OF assms(1-3,5)] lock_wait_inv [of _ fl ws "f_ino opened" env e s'] assms(4) by metis

theorem setlk_body_inv:
  assumes I: "lock_inv s" and c: "conv_ok t conv"
    and o: "\<forall>w\<in>set (se_wakeups1 env) \<union> set (se_wakeups2 env). leaves_alone (fl_fresh s) (fst w)"
    and res: "setlk_body conv sleep env opened inode arg s = Some (e, s')"
  shows "lock_inv s'"
proof -
  obtain n s1 where a: "locks_alloc_lock (se_mem env) s = (n, s1)" by fastforce
  note A = lock_inv_alloc [OF I a]
  show ?thesis
  proof (cases "n = None \<or> arg = None \<or> mandatory_lock inode \<and> se_mapped env")
    case True
    then show ?thesis using res A(1) by (auto simp: setlk_body_def a split: option.splits)
  next
    case False
    then obtain fl l where f: "n = Some fl" "arg = Some l" by auto
    have i: "idle s1 fl" and fl: "fl = fl_fresh s" using A(2) [OF f(1)] by blast+
    obtain e2 s2 where r: "setlk_again conv sleep opened (se_security env) fl (se_env1 env) (se_wakeups1 env) l s1 = Some (e2, s2)"
      using res False f by (auto simp: setlk_body_def a split: option.splits)
    have R: "lock_inv s2 \<and> idle s2 fl" by (rule setlk_again_inv [OF A(1) i c _ r]) (use o fl in blast)
    consider "s' = s2" | "setlk_again conv sleep opened (se_security env) fl (se_env2 env) (se_wakeups2 env) (l\<lparr>l_type := 2\<rparr>) s2 = Some (e, s')"
      using res False f by (auto simp: setlk_body_def a r split: if_splits)
    then show ?thesis
    proof cases
      case 2
      then show ?thesis using setlk_again_inv [OF conjunct1 [OF R] conjunct2 [OF R] c _ 2] o fl by blast
    qed (use R in simp)
  qed
qed

text \<open>Without sleeping, and with the descriptor still open afterwards: the request is carried out or nothing changes.\<close>

lemma setlk_again_effect:
  assumes "lock_inv s" "idle s fl" "conv_ok t conv" "setlk_again conv sleep opened security fl env [] l s = Some (e, s')"
  shows "if e = 0 then changed_to s (f_ino opened) (setlk_request conv sleep l (fl_at s fl)) s' else held_by s' = held_by s"
  using assms
proof (cases rule: setlk_again_cases)
  case (locked s1)
  then have r: "raw_posix_lock_file env (f_ino opened) fl s1 = (e, s')" by (auto split: prod.splits if_splits)
  show ?thesis using raw_posix_lock_file_step(2) [OF locked(1,3,5) r] locked(2,4,6) by (simp add: posix_effect_def changed_to_def split: if_splits)
qed simp

theorem setlk_body_effect:
  assumes I: "lock_inv s" and c: "conv_ok t conv" and w: "se_wakeups1 env = []" "se_fcheck env \<or> l_type l = 2"
    and res: "setlk_body conv sleep env opened inode (Some l) s = Some (e, s')"
  shows "if e = 0 then \<exists>old. changed_to s (f_ino opened) (setlk_request conv sleep l old) s' else held_by s' = held_by s"
proof -
  obtain n s1 where a: "locks_alloc_lock (se_mem env) s = (n, s1)" by fastforce
  note A = lock_inv_alloc [OF I a]
  have h: "held_by s1 = held_by s" by (rule quietD(2) [OF quiet_alloc [OF I a]])
  show ?thesis
  proof (cases "n = None \<or> mandatory_lock inode \<and> se_mapped env")
    case True
    then show ?thesis using res h by (auto simp: setlk_body_def a split: option.splits)
  next
    case False
    then obtain fl where f: "n = Some fl" by auto
    have i: "idle s1 fl" using A(2) [OF f] by blast
    have r: "setlk_again conv sleep opened (se_security env) fl (se_env1 env) [] l s1 = Some (e, s')"
      using res False f w by (auto simp: setlk_body_def a split: option.splits if_splits)
    show ?thesis using setlk_again_effect [OF A(1) i c r] h by (auto simp: changed_to_def split: if_splits)
  qed
qed

section \<open>Mandatory locks\<close>

lemma locks_mandatory_area_result:
  assumes I: "lock_inv s" and res: "locks_mandatory_area t write ino filp offset len env [] s = Some (e, s')"
  shows "lock_inv s'" "held_by s' = held_by s"
    "e = 0 \<Longrightarrow> held_by s ino w b = Some u \<Longrightarrow> w \<noteq> lt_files t \<Longrightarrow> offset \<le> b \<Longrightarrow> b \<le> s64 (offset + uint len - 1) \<Longrightarrow> u \<noteq> F_WRLCK \<and> \<not> write"
proof -
  let ?m = "mandatory_request t write filp offset len"
  obtain n s1 where a: "locks_alloc_lock (Some ?m) s = (n, s1)" by fastforce
  define fl where "fl = fl_fresh s"
  have n: "n = Some fl" "fl_at s1 fl = ?m\<lparr>fl_next := None, fl_block := [], fl_nspid := 0\<rparr>" using a by (auto simp: locks_alloc_lock_def fl_def)
  note A = lock_inv_alloc [OF I a]
  have i: "idle s1 fl" using A(2) [OF n(1)] by blast
  have h: "held_by s1 = held_by s" by (rule quietD(2) [OF quiet_alloc [OF I a]])
  have fg: "flag (fl_flags ?m) FL_ACCESS" "IS_POSIX ?m" "one_kind ?m"
    by (auto simp: mandatory_request_def one_kind_def IS_POSIX_def IS_FLOCK_def IS_LEASE_def flag_def split: option.splits)
  have req: "posix_request (fl_at s1 fl)" using fg by (simp add: n(2) posix_request_def IS_POSIX_def one_kind_def IS_FLOCK_def IS_LEASE_def)
  have r: "raw_posix_lock_file env ino fl s1 = (e, s')"
    using res by (auto simp: locks_mandatory_area_def a n(1) split: prod.splits if_splits)
  have fs: "fl_flags (fl_at s1 fl) = fl_flags ?m" by (simp add: n(2))
  note R = raw_posix_lock_file_step [OF A(1) i req r]
  show "lock_inv s'" by (rule R(1))
  show "held_by s' = held_by s" using R(2) fg(1) h by (simp add: posix_effect_def fs)
  assume e: "e = 0" and u: "held_by s ino w b = Some u" and w: "w \<noteq> lt_files t" and b: "offset \<le> b" "b \<le> s64 (offset + uint len - 1)"
  have al: "posix_alloc env fl s1 = (None, None, s1)" using fg(1) by (simp add: posix_alloc_def fs)
  have "posix_conflict s1 ino fl = None"
    using r e by (auto simp: raw_posix_lock_file_def al split: option.splits if_splits)
  moreover have ty: "fl_type (fl_at s1 fl) = (if write then F_WRLCK else F_RDLCK)" by (simp add: n(2) mandatory_request_def)
  moreover obtain c where c: "c \<in> set (i_flock s1 ino)" "mine s1 w c" "fl_start (fl_at s1 c) \<le> b" "b \<le> fl_end (fl_at s1 c)" "fl_type (fl_at s1 c) = u"
    using held_by_Some [of s1 ino w b u] u h by auto
  ultimately have "\<not> posix_locks_conflict (fl_at s1 fl) (fl_at s1 c)" by (intro posix_conflict_None) auto
  moreover have "fl_start (fl_at s1 fl) = offset" "fl_end (fl_at s1 fl) = s64 (offset + uint len - 1)" "fl_owner (fl_at s1 fl) = lt_files t"
    by (simp_all add: n(2) mandatory_request_def)
  ultimately show "u \<noteq> F_WRLCK \<and> \<not> write" using c ty b w
    by (auto simp: posix_locks_conflict_def mine_def posix_same_owner_def locks_overlap_def locks_conflict_def split: if_splits)
qed

section \<open>Closing a file\<close>

text \<open>Unlocking never changes a lock before its end, so that the request stays what it was.\<close>

lemma posix_walk_unlock:
  "posix_walk ino s pre xs request added left = (s1, pre1, rest1, r1, added1, left1, right1) \<Longrightarrow>
   fl_type (fl_at s request) = F_UNLCK \<Longrightarrow> \<forall>a\<in>set xs. fl_type (fl_at s a) \<noteq> F_UNLCK \<and> fl_end (fl_at s a) \<le> fl_end (fl_at s request) \<Longrightarrow>
   r1 = request \<and> core (fl_at s1 request) = core (fl_at s request) \<and> right1 = None"
proof (induction xs arbitrary: s pre added left)
  case (Cons a xs)
  let ?f = "fl_at s a" and ?r = "fl_at s request"
  let ?d = "locks_delete_lock ino pre a xs s"
  have t: "fl_type ?r \<noteq> fl_type ?f" "\<not> fl_end ?f > fl_end ?r" using Cons.prems(2,3) by auto
  have p: "\<forall>a\<in>set xs. fl_type (fl_at s a) \<noteq> F_UNLCK \<and> fl_end (fl_at s a) \<le> fl_end ?r" using Cons.prems(3) by simp
  have eq: "posix_walk ino s pre (a # xs) request added left =
      (if \<not> posix_same_owner ?r ?f \<or> \<not> fl_end ?f < fl_start ?r \<and> fl_start ?f > fl_end ?r then (s, pre, a # xs, request, added, left, None)
       else if fl_end ?f < fl_start ?r then posix_walk ino s (pre @ [a]) xs request added left
       else if fl_start ?f \<ge> fl_start ?r then posix_walk ino ?d pre xs request True left
       else posix_walk ino s (pre @ [a]) xs request True (Some a))"
    using t Cons.prems(2) by (simp add: Let_def)
  have IH: "posix_walk ino s (pre @ [a]) xs request A L = (s1, pre1, rest1, r1, added1, left1, right1) \<Longrightarrow>
      r1 = request \<and> core (fl_at s1 request) = core ?r \<and> right1 = None"
    "posix_walk ino ?d pre xs request A L = (s1, pre1, rest1, r1, added1, left1, right1) \<Longrightarrow>
      r1 = request \<and> core (fl_at s1 request) = core ?r \<and> right1 = None" for A L
    using Cons.IH [of s] Cons.IH [of ?d] Cons.prems(2) p by simp_all
  show ?case using Cons.prems(1) IH unfolding eq by (auto split: if_splits)
qed simp

lemma listed_posix:
  assumes "list_ok s ino" "a \<in> set (i_flock s ino)" "IS_POSIX (fl_at s a)"
  shows "seg_ok (seg_at s a)"
proof -
  have "a \<in> set (locks_of s ino (fl_owner (fl_at s a)))" using assms by (simp add: locks_of_def mine_def)
  then show ?thesis using kindD(3) [OF assms(1), of "fl_owner (fl_at s a)"] by (auto simp: segs_ok_def)
qed

lemma posix_apply_unlock:
  assumes ok: "list_ok s ino" and rq: "request_ok s ino request"
    and r: "fl_type (fl_at s request) = F_UNLCK" "fl_end (fl_at s request) = OFFSET_MAX" "\<not> flag (fl_flags (fl_at s request)) FL_EXISTS"
    and res: "posix_apply env ino request new_fl new_fl2 s = (e, s')"
  shows "e = 0"
proof -
  define mine' where "mine' = (\<lambda>fl. IS_POSIX (fl_at s fl) \<and> posix_same_owner (fl_at s request) (fl_at s fl))"
  let ?pre = "takeWhile (\<lambda>fl. \<not> mine' fl) (i_flock s ino)" and ?xs = "dropWhile (\<lambda>fl. \<not> mine' fl) (i_flock s ino)"
  obtain s1 pre1 rest1 r1 added1 left1 right1 where
    w: "posix_walk ino s ?pre ?xs request False None = (s1, pre1, rest1, r1, added1, left1, right1)"
    by (metis prod_cases7)
  have l: "i_flock s ino = ?pre @ ?xs" by simp
  have hd: "?xs = [] \<or> IS_POSIX (fl_at s (hd ?xs))" using hd_dropWhile [of "\<lambda>fl. \<not> mine' fl" "i_flock s ino"] by (auto simp: mine'_def)
  have sx: "seg_ok (seg_at s a)" if "a \<in> set ?xs" for a
    using listed_posix [OF ok] posix_tail [OF ok l hd that] that by (meson set_dropWhileD)
  have "fl_type (fl_at s a) \<noteq> F_UNLCK \<and> fl_end (fl_at s a) \<le> fl_end (fl_at s request)" if "a \<in> set ?xs" for a
    using sx [OF that] r(2) by (auto simp: seg_ok_def)
  then have W: "r1 = request" "core (fl_at s1 request) = core (fl_at s request)" "right1 = None" using posix_walk_unlock [OF w r(1)] by blast+
  have "posix_install (le_tgid env) ino new_fl new_fl2 (s1, pre1, rest1, r1, added1, left1, right1) = (e, s')"
    using res by (simp add: posix_apply_def Let_def mine'_def [symmetric] w)
  then show ?thesis using W r core_eqD [OF W(2)] by (auto simp: posix_install_def Let_def split: if_splits prod.splits)
qed

theorem locks_remove_posix_result:
  assumes I: "lock_inv s" and s'_def: "s' = locks_remove_posix t filp opened owner env junk s"
  shows "lock_inv s'" "held_by s' ino w b = (if ino = f_ino opened \<and> w = owner then None else held_by s ino w b)"
proof -
  let ?ino = "f_ino opened"
  have out: "held_by s ?ino owner b = None" if "\<not> (0 \<le> b \<and> b \<le> OFFSET_MAX)" for b
  proof (rule ccontr)
    assume "held_by s ?ino owner b \<noteq> None"
    then obtain u where "held_by s ?ino owner b = Some u" by blast
    then obtain a where "a \<in> set (i_flock s ?ino)" "mine s owner a" "fl_start (fl_at s a) \<le> b" "b \<le> fl_end (fl_at s a)"
      using held_by_Some by metis
    moreover then have "seg_ok (seg_at s a)" using listed_posix [OF listsD(1) [OF lock_invD(1) [OF I]]] by (simp add: mine_def)
    ultimately show False using that by (auto simp: seg_ok_def)
  qed
  have "lock_inv s' \<and> (\<forall>ino w b. held_by s' ino w b = (if ino = ?ino \<and> w = owner then None else held_by s ino w b))"
  proof (cases "i_flock s ?ino = []")
    case True
    then show ?thesis using I by (simp add: s'_def locks_remove_posix_def held_by_def locks_of_def)
  next
    case False
    let ?m = "junk\<lparr>fl_type := F_UNLCK, fl_flags := FL_POSIX OR FL_CLOSE, fl_start := 0, fl_end := OFFSET_MAX, fl_owner := owner, fl_pid := lt_tgid t, fl_file := filp\<rparr>"
    obtain n s1 where a: "locks_alloc_lock (Some ?m) s = (n, s1)" by fastforce
    define fl where "fl = fl_fresh s"
    have n: "n = Some fl" "fl_at s1 fl = ?m\<lparr>fl_next := None, fl_block := [], fl_nspid := 0\<rparr>" using a by (auto simp: locks_alloc_lock_def fl_def)
    note A = lock_inv_alloc [OF I a]
    have i: "idle s1 fl" using A(2) [OF n(1)] by blast
    have h: "held_by s1 = held_by s" by (rule quietD(2) [OF quiet_alloc [OF I a]])
    have p: "IS_POSIX (fl_at s1 fl)" "one_kind (fl_at s1 fl)" "req_ok (seg_at s1 fl)"
      by (simp_all add: n(2) req_ok_def one_kind_def IS_POSIX_def IS_FLOCK_def IS_LEASE_def flag_def)
    have al: "posix_alloc env fl s1 = (None, None, s1)" and cf: "posix_conflict s1 ?ino fl = None"
      by (simp_all add: posix_alloc_def posix_conflict_def n(2) flag_def)
    obtain e s2 where ap: "posix_apply env ?ino fl None None s1 = (e, s2)" by fastforce
    have s2: "s' = s2" using False ap unfolding s'_def locks_remove_posix_def a prod.case n(1) option.sel raw_posix_lock_file_def al cf
      by (simp add: n(2) flag_def cf)
    have rq: "request_ok s1 ?ino fl" using p i by (simp add: request_ok_def idle_def)
    have e: "e = 0" using posix_apply_unlock [OF listsD(1) [OF lock_invD(1) [OF A(1)]] rq _ _ _ ap] by (simp add: n(2) flag_def)
    note R = posix_apply_step [OF A(1) i p cf _ _ ap]
    have "lock_inv s2" "changed_to s1 ?ino (fl_at s1 fl) s2" using R(1,3) e by simp_all
    then show ?thesis unfolding s2 changed_to_def h using out by (simp add: n(2) set_held_def)
  qed
  then show "lock_inv s'" "held_by s' ino w b = (if ino = ?ino \<and> w = owner then None else held_by s ino w b)" by blast+
qed

section \<open>Deadlocks\<close>

text \<open>Who waits for whom, by owners.\<close>

definition waits :: "lock_state \<Rightarrow> (nat \<times> nat) set" where
  "waits s = (\<lambda>a. (fl_owner (fl_at s a), fl_owner (fl_at s (the (fl_next (fl_at s a)))))) ` set (blocked_list s)"

lemma waits_next:
  assumes "what_owner_is_waiting_for s b = Some c"
  shows "(fl_owner (fl_at s b), fl_owner (fl_at s c)) \<in> waits s"
proof -
  obtain a where a: "find (\<lambda>fl. posix_same_owner (fl_at s fl) (fl_at s b)) (blocked_list s) = Some a" "fl_next (fl_at s a) = Some c"
    using assms by (auto simp: what_owner_is_waiting_for_def split: option.splits)
  then have "a \<in> set (blocked_list s)" "fl_owner (fl_at s a) = fl_owner (fl_at s b)"
    by (auto simp: find_Some_iff posix_same_owner_def)
  then show ?thesis unfolding waits_def using a(2) by (intro image_eqI [of _ _ a]) simp_all
qed

lemma deadlock_loop_sound: "deadlock_loop s i c b \<Longrightarrow> (fl_owner (fl_at s b), fl_owner (fl_at s c)) \<in> (waits s)\<^sup>+"
proof (induction s i c b rule: deadlock_loop.induct)
  case (1 s i c b)
  from 1(2) obtain d where d: "what_owner_is_waiting_for s b = Some d" "\<not> i > MAX_DEADLK_ITERATIONS"
    "posix_same_owner (fl_at s c) (fl_at s d) \<or> deadlock_loop s (i + 1) c d"
    by (subst (asm) deadlock_loop.simps) (auto split: option.splits if_splits)
  note e = waits_next [OF d(1)]
  show ?case
  proof (cases "posix_same_owner (fl_at s c) (fl_at s d)")
    case True
    then show ?thesis using e by (auto simp: posix_same_owner_def)
  next
    case False
    then have "deadlock_loop s (i + 1) c d" using d(3) by blast
    then show ?thesis using 1(1) [OF d(1,2) False] trancl_into_trancl2 [OF e] by blast
  qed
qed

text \<open>The loop finds every chain of at most eleven requests, when no owner waits twice.\<close>

lemma waits_step:
  assumes one: "distinct (map (\<lambda>a. fl_owner (fl_at s a)) (blocked_list s))" and nx: "\<forall>a\<in>set (blocked_list s). fl_next (fl_at s a) \<noteq> None"
    and e: "(fl_owner (fl_at s b), y) \<in> waits s"
  shows "\<exists>d. what_owner_is_waiting_for s b = Some d \<and> fl_owner (fl_at s d) = y"
proof -
  let ?find = "find (\<lambda>fl. posix_same_owner (fl_at s fl) (fl_at s b)) (blocked_list s)"
  obtain a where a: "a \<in> set (blocked_list s)" "fl_owner (fl_at s a) = fl_owner (fl_at s b)" "y = fl_owner (fl_at s (the (fl_next (fl_at s a))))"
    using e by (auto simp: waits_def)
  obtain a' where a': "?find = Some a'"
    using a(1,2) by (cases ?find) (auto simp: find_None_iff posix_same_owner_def)
  then have "a' \<in> set (blocked_list s)" "fl_owner (fl_at s a') = fl_owner (fl_at s b)" by (auto simp: find_Some_iff posix_same_owner_def)
  then have "a' = a" using one a(1,2) by (auto simp: distinct_map inj_on_def)
  then show ?thesis using a(1,3) nx a' by (auto simp: what_owner_is_waiting_for_def)
qed

lemma deadlock_loop_complete:
  assumes one: "distinct (map (\<lambda>a. fl_owner (fl_at s a)) (blocked_list s))" and nx: "\<forall>a\<in>set (blocked_list s). fl_next (fl_at s a) \<noteq> None"
  shows "(fl_owner (fl_at s b), fl_owner (fl_at s c)) \<in> waits s ^^ Suc n \<Longrightarrow> i + n \<le> MAX_DEADLK_ITERATIONS \<Longrightarrow> deadlock_loop s i c b"
proof (induction n arbitrary: i b)
  case 0
  then obtain d where "what_owner_is_waiting_for s b = Some d" "fl_owner (fl_at s d) = fl_owner (fl_at s c)" using waits_step [OF one nx] by auto
  then show ?case using 0(2) by (subst deadlock_loop.simps) (simp add: posix_same_owner_def)
next
  case (Suc n)
  from Suc.prems(1) obtain y where y: "(fl_owner (fl_at s b), y) \<in> waits s" "(y, fl_owner (fl_at s c)) \<in> waits s ^^ Suc n" by (rule relpow_Suc_E2)
  obtain d where d: "what_owner_is_waiting_for s b = Some d" "fl_owner (fl_at s d) = y" using waits_step [OF one nx y(1)] by blast
  have "deadlock_loop s (i + 1) c d" using Suc.IH [of d "i + 1"] y(2) d(2) Suc.prems(2) by simp
  then show ?case using d Suc.prems(2) by (subst deadlock_loop.simps) simp
qed

text \<open>With at most eleven waiting requests the loop decides whether sleeping would close a cycle.\<close>

lemma posix_locks_deadlock_complete:
  assumes "waiters_ok {} s" "distinct (map (\<lambda>a. fl_owner (fl_at s a)) (blocked_list s))" "length (blocked_list s) \<le> 11"
    "(fl_owner (fl_at s b), fl_owner (fl_at s c)) \<in> (waits s)\<^sup>+"
  shows "posix_locks_deadlock s c b"
proof -
  have f: "finite (waits s)" by (simp add: waits_def)
  obtain n where n: "0 < n" "n \<le> card (waits s)" "(fl_owner (fl_at s b), fl_owner (fl_at s c)) \<in> waits s ^^ n"
    using assms(4) unfolding trancl_finite_eq_relpow [OF f] by blast
  have "card (waits s) \<le> card (set (blocked_list s))" unfolding waits_def by (rule card_image_le) simp
  then have "card (waits s) \<le> 11" using card_length [of "blocked_list s"] assms(3) by simp
  then obtain m where m: "n = Suc m" "m \<le> 10" using n by (cases n) auto
  have "\<forall>a\<in>set (blocked_list s). fl_next (fl_at s a) \<noteq> None" using waiters_okD(7) [OF assms(1)] by auto
  then show ?thesis unfolding posix_locks_deadlock_def using deadlock_loop_complete [OF assms(2)] n(3) m by simp
qed

lemma waits_insert_block:
  assumes W: "waiters_ok {} s" and i: "idle s w" and b: "b \<noteq> w" "IS_POSIX (fl_at s b)"
  shows "waits (locks_insert_block b w s) = insert (fl_owner (fl_at s w), fl_owner (fl_at s b)) (waits s)"
proof -
  let ?s = "locks_insert_block b w s"
  have o: "fl_owner (fl_at ?s x) = fl_owner (fl_at s x)" for x by (simp add: locks_insert_block_def Let_def)
  have n: "fl_next (fl_at ?s x) = (if x = w then Some b else fl_next (fl_at s x))" for x by (simp add: locks_insert_block_def Let_def)
  have bl: "blocked_list ?s = w # blocked_list s" using b by (simp add: locks_insert_block_def Let_def IS_POSIX_def)
  have "w \<notin> set (blocked_list s)" using waiters_okD(7) [OF W, of w] i by (auto simp: idle_def)
  then have "(\<lambda>a. (fl_owner (fl_at ?s a), fl_owner (fl_at ?s (the (fl_next (fl_at ?s a)))))) ` set (blocked_list s) = waits s"
    unfolding waits_def o n by (intro image_cong refl) auto
  then show ?thesis unfolding waits_def [of ?s] bl by (simp add: o n)
qed

end
