(* ===== verification/LockProps.thy ===== *)
theory LockProps
  imports LockRun
begin

text \<open>
  Properties of the file locks: the answer to a request for a range of bytes and its effect on who holds which byte,
  mutual exclusion and waiting requests in all reachable states, and the detection of deadlocks. States are those
  between two sections under the kernel lock: \<open>lock_step\<close> has a step for each operation that takes it, so that
  whole calls, which may sleep in between, are sequences of such steps mixed with those of other tasks.
\<close>

section \<open>The answer to a request\<close>

lemma held_covers: "segs_ok xs \<Longrightarrow> x \<in> set xs \<Longrightarrow> seg_covers x b \<Longrightarrow> held xs b = Some (ty x)"
  by (induction xs) (auto simp: segs_ok_Cons held_Cons seg_covers_def sep_def)

lemma held_by_listed:
  assumes "lock_inv s" "a \<in> set (i_flock s ino)" "IS_POSIX (fl_at s a)" "fl_start (fl_at s a) \<le> b" "b \<le> fl_end (fl_at s a)"
  shows "held_by s ino (fl_owner (fl_at s a)) b = Some (fl_type (fl_at s a))"
proof -
  have "seg_at s a \<in> set (map (seg_at s) (locks_of s ino (fl_owner (fl_at s a))))" using assms(2,3) by (simp add: locks_of_def mine_def)
  then show ?thesis
    using held_covers [OF kindD(3) [OF listsD(1) [OF lock_invD(1) [OF assms(1)]]]] assms(4,5) by (force simp: held_by_def seg_covers_def)
qed

text \<open>Another owner holds a byte of the request, and one of the two is for writing.\<close>

definition in_conflict :: "lock_state \<Rightarrow> nat \<Rightarrow> file_lock \<Rightarrow> bool" where
  "in_conflict s ino r \<longleftrightarrow> fl_type r \<noteq> F_UNLCK \<and> (\<exists>w b u. w \<noteq> fl_owner r \<and> fl_start r \<le> b \<and> b \<le> fl_end r \<and>
     held_by s ino w b = Some u \<and> (u = F_WRLCK \<or> fl_type r = F_WRLCK))"

lemma posix_conflict_held:
  assumes I: "lock_inv s" and r: "fl_start (fl_at s request) \<le> fl_end (fl_at s request)"
  shows "posix_conflict s ino request \<noteq> None \<longleftrightarrow> in_conflict s ino (fl_at s request)"
proof
  let ?r = "fl_at s request"
  assume "posix_conflict s ino request \<noteq> None"
  then obtain a where c: "posix_conflict s ino request = Some a" by blast
  note C = posix_conflict_Some [OF c]
  have "fl_start (fl_at s a) \<le> fl_end (fl_at s a)"
    using listed_posix [OF listsD(1) [OF lock_invD(1) [OF I]] C(1,4)] by (auto simp: seg_ok_def)
  moreover define b where "b = max (fl_start ?r) (fl_start (fl_at s a))"
  ultimately have b: "fl_start ?r \<le> b" "b \<le> fl_end ?r" "fl_start (fl_at s a) \<le> b" "b \<le> fl_end (fl_at s a)"
    using C(3) r by (auto simp: posix_locks_conflict_def locks_overlap_def split: if_splits)
  moreover have "fl_type ?r \<noteq> F_UNLCK" using c by (auto simp: posix_conflict_def split: if_splits)
  moreover have "fl_owner (fl_at s a) \<noteq> fl_owner ?r" "fl_type (fl_at s a) = F_WRLCK \<or> fl_type ?r = F_WRLCK"
    using C(3) by (auto simp: posix_locks_conflict_def posix_same_owner_def locks_conflict_def split: if_splits)
  ultimately show "in_conflict s ino ?r" unfolding in_conflict_def using held_by_listed [OF I C(1,4) b(3,4)] by blast
next
  let ?r = "fl_at s request"
  assume "in_conflict s ino ?r"
  then obtain w b u where u: "fl_type ?r \<noteq> F_UNLCK" "w \<noteq> fl_owner ?r" "fl_start ?r \<le> b" "b \<le> fl_end ?r" "held_by s ino w b = Some u"
    "u = F_WRLCK \<or> fl_type ?r = F_WRLCK" unfolding in_conflict_def by blast
  obtain a where a: "a \<in> set (i_flock s ino)" "mine s w a" "fl_start (fl_at s a) \<le> b" "b \<le> fl_end (fl_at s a)" "fl_type (fl_at s a) = u"
    using held_by_Some [OF u(5)] .
  have "posix_locks_conflict ?r (fl_at s a)"
    using a u by (auto simp: posix_locks_conflict_def mine_def posix_same_owner_def locks_overlap_def locks_conflict_def)
  then show "posix_conflict s ino request \<noteq> None" using posix_conflict_None [OF _ u(1) a(1)] by blast
qed

lemma posix_walk_added:
  "posix_walk ino s pre xs request added left = (s1, pre1, rest1, r1, False, left1, right1) \<Longrightarrow> \<not> added \<and> s1 = s \<and> r1 = request"
proof (induction xs arbitrary: s pre request added left)
  case (Cons a xs)
  from Cons.prems show ?case by (auto simp: Let_def split: if_splits dest: Cons.IH)
qed simp

lemma posix_install_error:
  "fst (posix_install tgid ino new_fl new_fl2 (s, pre, rest, request, added, left, right)) =
    (if right \<noteq> None \<and> left = right \<and> new_fl2 = None then - ENOLCK
     else if \<not> added \<and> fl_type (fl_at s request) = F_UNLCK then (if flag (fl_flags (fl_at s request)) FL_EXISTS then - ENOENT else 0)
     else if \<not> added \<and> new_fl = None then - ENOLCK else 0)"
  by (cases right) (simp_all add: posix_install_def Let_def case_prod_beta)

lemma posix_apply_errors:
  assumes "posix_apply env ino request new_fl new_fl2 s = (e, s')"
  shows "e = 0 \<or> e = - ENOLCK \<or> e = - ENOENT"
    "new_fl \<noteq> None \<Longrightarrow> new_fl2 \<noteq> None \<Longrightarrow> e = 0 \<or> flag (fl_flags (fl_at s request)) FL_EXISTS"
proof -
  let ?m = "\<lambda>fl. \<not> (IS_POSIX (fl_at s fl) \<and> posix_same_owner (fl_at s request) (fl_at s fl))"
  obtain s1 pre1 rest1 r1 added1 left1 right1 where
    w: "posix_walk ino s (takeWhile ?m (i_flock s ino)) (dropWhile ?m (i_flock s ino)) request False None =
      (s1, pre1, rest1, r1, added1, left1, right1)" by (rule prod_cases7)
  have "posix_install (le_tgid env) ino new_fl new_fl2 (s1, pre1, rest1, r1, added1, left1, right1) = (e, s')"
    using assms unfolding posix_apply_def Let_def w .
  then have p: "e = fst (posix_install (le_tgid env) ino new_fl new_fl2 (s1, pre1, rest1, r1, added1, left1, right1))" by simp
  show "e = 0 \<or> e = - ENOLCK \<or> e = - ENOENT" unfolding p posix_install_error by simp
  show "e = 0 \<or> flag (fl_flags (fl_at s request)) FL_EXISTS" if n: "new_fl \<noteq> None" "new_fl2 \<noteq> None"
  proof (cases added1)
    case True
    then show ?thesis using n unfolding p posix_install_error by auto
  next
    case False
    then have "s1 = s" "r1 = request" using posix_walk_added w by simp_all
    then show ?thesis using n unfolding p posix_install_error by auto
  qed
qed

lemma posix_lock_answer:
  assumes I: "lock_inv s" and i: "idle s request" and q: "posix_request (fl_at s request)" "\<not> flag (fl_flags (fl_at s request)) FL_ACCESS"
    and res: "raw_posix_lock_file env ino request s = (e, s')"
  shows "e \<in> {- EAGAIN, - EDEADLK, FILE_LOCK_DEFERRED} \<longleftrightarrow> in_conflict s ino (fl_at s request)"
    "\<not> in_conflict s ino (fl_at s request) \<Longrightarrow> le_mem1 env \<noteq> None \<Longrightarrow> le_mem2 env \<noteq> None \<Longrightarrow>
      \<not> flag (fl_flags (fl_at s request)) FL_EXISTS \<Longrightarrow> e = 0"
proof -
  obtain n1 n2 s1 where a: "posix_alloc env request s = (n1, n2, s1)" by (metis prod_cases3)
  note A = posix_alloc_result [OF I a]
  have r1: "fl_at s1 request = fl_at s request" and i1: "idle s1 request" using untouched_at [OF A(2) i] untouched_idle [OF A(2) i] .
  have h1: "held_by s1 = held_by s" using untouched_held [OF lock_invD(1) [OF I] A(2)] by (intro ext)
  have rq: "req_ok (seg_at s request)" using q by (simp add: posix_request_def)
  then have c: "posix_conflict s1 ino request \<noteq> None \<longleftrightarrow> in_conflict s ino (fl_at s request)"
    using posix_conflict_held [OF A(1), of request ino] by (simp add: r1 req_ok_def in_conflict_def h1)
  have d: "in_conflict s ino (fl_at s request) \<Longrightarrow> e \<in> {- EAGAIN, - EDEADLK, FILE_LOCK_DEFERRED}"
    using c res by (auto simp: raw_posix_lock_file_def a split: if_splits)
  have f: "posix_apply env ino request n1 n2 s1 = (e, s')" if "\<not> in_conflict s ino (fl_at s request)"
    using c that res q(2) by (simp add: raw_posix_lock_file_def a r1)
  show "e \<in> {- EAGAIN, - EDEADLK, FILE_LOCK_DEFERRED} \<longleftrightarrow> in_conflict s ino (fl_at s request)"
    using d posix_apply_errors(1) [OF f] by (cases "in_conflict s ino (fl_at s request)") auto
  show "e = 0" if n: "\<not> in_conflict s ino (fl_at s request)" "le_mem1 env \<noteq> None" "le_mem2 env \<noteq> None"
      "\<not> flag (fl_flags (fl_at s request)) FL_EXISTS"
  proof (cases "fl_type (fl_at s request) = F_UNLCK \<and> fl_start (fl_at s request) = 0 \<and> fl_end (fl_at s request) = OFFSET_MAX")
    case True
    have "request_ok s1 ino request" using rq q(1) i1 by (auto simp: request_ok_def idle_def r1 posix_request_def)
    then show ?thesis
      using posix_apply_unlock [OF listsD(1) [OF lock_invD(1) [OF A(1)]] _ _ _ _ f [OF n(1)]] True n(4) by (simp add: r1)
  next
    case False
    then have "n1 \<noteq> None" "n2 \<noteq> None" using a n(2,3) q(2)
      by (auto simp: posix_alloc_def Let_def locks_alloc_lock_def split: if_splits prod.splits)
    then show ?thesis using posix_apply_errors(2) [OF f [OF n(1)]] n(4) by (simp add: r1)
  qed
qed

section \<open>Sleeping\<close>

lemma waits_alloc:
  assumes I: "lock_inv s" and u: "untouched s s1" "blocked_list s1 = blocked_list s"
  shows "waits s1 = waits s"
proof -
  note W = lock_invD(2) [OF I]
  have "(fl_owner (fl_at s1 a), fl_owner (fl_at s1 (the (fl_next (fl_at s1 a))))) = (fl_owner (fl_at s a), fl_owner (fl_at s (the (fl_next (fl_at s a)))))"
    if m: "a \<in> set (blocked_list s)" for a
  proof -
    obtain b where b: "fl_next (fl_at s a) = Some b" using iffD1 [OF waiters_okD(7) [OF W] m] by blast
    obtain ino where "b \<in> set (i_flock s ino)" using waiters_okD(5) [OF W b] by auto
    then have "b < fl_fresh s" by (rule listsD(4) [OF lock_invD(1) [OF I]])
    moreover have "a < fl_fresh s" by (rule waiters_okD(4) [OF W b])
    ultimately show ?thesis using u(1) b by (simp add: untouched_def)
  qed
  then show ?thesis unfolding waits_def u(2) by (intro image_cong) simp_all
qed

lemma posix_alloc_blocked: "posix_alloc env request s = (n1, n2, s1) \<Longrightarrow> blocked_list s1 = blocked_list s"
  by (auto simp: posix_alloc_def Let_def locks_alloc_lock_def split: if_splits prod.splits option.splits)

lemma posix_lock_sleep:
  assumes I: "lock_inv s" and i: "idle s request" and res: "raw_posix_lock_file env ino request s = (e, s')"
  shows "e = - EDEADLK \<Longrightarrow> \<exists>b\<in>set (i_flock s ino). posix_locks_conflict (fl_at s request) (fl_at s b) \<and>
      (fl_owner (fl_at s b), fl_owner (fl_at s request)) \<in> (waits s)\<^sup>+"
    "e = FILE_LOCK_DEFERRED \<Longrightarrow> distinct (map (\<lambda>a. fl_owner (fl_at s a)) (blocked_list s)) \<Longrightarrow> length (blocked_list s) \<le> 11 \<Longrightarrow>
      acyclic (waits s) \<Longrightarrow> acyclic (waits s')"
proof -
  obtain n1 n2 s1 where a: "posix_alloc env request s = (n1, n2, s1)" by (metis prod_cases3)
  note A = posix_alloc_result [OF I a] and bl = posix_alloc_blocked [OF a]
  have r1: "fl_at s1 request = fl_at s request" and i1: "idle s1 request" using untouched_at [OF A(2) i] untouched_idle [OF A(2) i] .
  note w1 = waits_alloc [OF I A(2) bl]
  have listed: "fl_at s1 b = fl_at s b" "b \<in> set (i_flock s ino)" if "b \<in> set (i_flock s1 ino)" for b
    using that A(2) listsD(4) [OF lock_invD(1) [OF I]] by (auto simp: untouched_def)
  have c: "\<exists>b. posix_conflict s1 ino request = Some b \<and>
      (e = - EDEADLK \<and> posix_locks_deadlock s1 request b \<or>
       e = FILE_LOCK_DEFERRED \<and> \<not> posix_locks_deadlock s1 request b \<and> s' = locks_insert_block b request s1)"
    if "e = - EDEADLK \<or> e = FILE_LOCK_DEFERRED"
  proof (cases "posix_conflict s1 ino request")
    case None
    have "e = 0" if "flag (fl_flags (fl_at s request)) FL_ACCESS" using res that by (simp add: raw_posix_lock_file_def a None r1)
    moreover have "posix_apply env ino request n1 n2 s1 = (e, s')" if "\<not> flag (fl_flags (fl_at s request)) FL_ACCESS"
      using res that by (simp add: raw_posix_lock_file_def a None r1)
    ultimately show ?thesis using posix_apply_errors(1) that by fastforce
  next
    case (Some b)
    then show ?thesis using res that by (auto simp: raw_posix_lock_file_def a split: if_splits)
  qed
  show "\<exists>b\<in>set (i_flock s ino). posix_locks_conflict (fl_at s request) (fl_at s b) \<and>
      (fl_owner (fl_at s b), fl_owner (fl_at s request)) \<in> (waits s)\<^sup>+" if e: "e = - EDEADLK"
  proof -
    obtain b where b: "posix_conflict s1 ino request = Some b" "posix_locks_deadlock s1 request b" using c e by auto
    note C = posix_conflict_Some [OF b(1)]
    have "(fl_owner (fl_at s1 b), fl_owner (fl_at s1 request)) \<in> (waits s1)\<^sup>+"
      by (rule deadlock_loop_sound) (use b(2) in \<open>simp add: posix_locks_deadlock_def\<close>)
    then show ?thesis using C(3) listed [OF C(1)] by (auto simp: r1 w1)
  qed
  show "acyclic (waits s')" if e: "e = FILE_LOCK_DEFERRED" and one: "distinct (map (\<lambda>a. fl_owner (fl_at s a)) (blocked_list s))"
    "length (blocked_list s) \<le> 11" and ac: "acyclic (waits s)"
  proof -
    obtain b where b: "posix_conflict s1 ino request = Some b" "\<not> posix_locks_deadlock s1 request b" "s' = locks_insert_block b request s1"
      using c e by auto
    note C = posix_conflict_Some [OF b(1)]
    have ne: "fl_owner (fl_at s1 b) \<noteq> fl_owner (fl_at s1 request)" "b \<noteq> request"
      using C(3) by (auto simp: posix_locks_conflict_def posix_same_owner_def split: if_splits)
    have lt: "a < fl_fresh s" if "a \<in> set (blocked_list s)" for a
      using iffD1 [OF waiters_okD(7) [OF lock_invD(2) [OF I]] that] waiters_okD(4) [OF lock_invD(2) [OF I]] by blast
    have "map (\<lambda>a. fl_owner (fl_at s1 a)) (blocked_list s1) = map (\<lambda>a. fl_owner (fl_at s a)) (blocked_list s)"
      using A(2) lt by (simp add: bl untouched_def)
    then have "(fl_owner (fl_at s1 b), fl_owner (fl_at s1 request)) \<notin> (waits s1)\<^sup>+"
      using posix_locks_deadlock_complete [OF lock_invD(2) [OF A(1)]] one b(2) bl by metis
    then have "(fl_owner (fl_at s1 b), fl_owner (fl_at s1 request)) \<notin> (waits s1)\<^sup>*" using ne(1) by (auto simp: rtrancl_eq_or_trancl)
    then show ?thesis unfolding b(3) waits_insert_block [OF lock_invD(2) [OF A(1)] i1 ne(2) C(4)] using ac by (simp add: w1)
  qed
qed

section \<open>An example\<close>

text \<open>The owner 3 locks the first hundred bytes of inode 5 for writing. Then it unlocks bytes 40 to 59 with the same
  structure, or the owner 4 asks for byte 50 and waits.\<close>

definition ex_range :: "u8 \<Rightarrow> u8 \<Rightarrow> nat \<Rightarrow> int \<Rightarrow> int \<Rightarrow> file_lock" where
  "ex_range flags type own a b = locks_init_lock\<lparr>fl_flags := flags, fl_type := type, fl_owner := own, fl_start := a, fl_end := b\<rparr>"

definition ex_env :: lock_env where
  "ex_env = \<lparr>le_mem1 = Some locks_init_lock, le_mem2 = Some locks_init_lock, le_tgid = 9\<rparr>"

definition ex_none :: lock_state where
  "ex_none = \<lparr>fl_at = (\<lambda>_. locks_init_lock), i_flock = (\<lambda>_. []), file_lock_list = [], blocked_list = [], fl_fresh = 0\<rparr>"

definition ex_request :: lock_state where
  "ex_request = upd_fl 0 (\<lambda>_. ex_range 1 1 3 0 99) (snd (locks_alloc_lock (Some locks_init_lock) ex_none))"

definition ex_locked :: lock_state where
  "ex_locked = snd (raw_posix_lock_file ex_env 5 0 ex_request)"

definition ex_unlock :: lock_state where
  "ex_unlock = upd_fl 0 (\<lambda>_. ex_range 1 2 3 40 59) ex_locked"

definition ex_second :: lock_state where
  "ex_second = upd_fl 0 (\<lambda>_. ex_range 129 0 4 50 50) ex_locked"

lemma ex_answer: "fst (raw_posix_lock_file ex_env 5 0 ex_request) = 0"
  by code_simp

lemma ex_request_ok: "posix_request (ex_range 1 1 3 0 99)" "posix_request (ex_range 1 2 3 40 59)" "posix_request (ex_range 129 0 4 50 50)"
  by code_simp+

lemma ex_none_init: "lock_init ex_none"
  by (simp add: lock_init_def ex_none_def locks_init_lock_def)

lemma ex_blank: "fl_next (ex_range f t n a b) = None" "fl_block (ex_range f t n a b) = []"
  by (simp_all add: ex_range_def locks_init_lock_def)

lemma ex_request_reached: "lock_step\<^sup>*\<^sup>* ex_none ex_request" "idle ex_request 0" "fl_at ex_request 0 = ex_range 1 1 3 0 99"
proof -
  let ?s = "snd (locks_alloc_lock (Some locks_init_lock) ex_none)"
  have i: "idle ?s 0" by (simp add: idle_def locks_alloc_lock_def ex_none_def)
  have "lock_step ex_none ?s" by (rule step_alloc [OF prod.collapse [symmetric]])
  moreover have "lock_step ?s ex_request" unfolding ex_request_def by (rule step_fill [OF i ex_blank])
  ultimately show "lock_step\<^sup>*\<^sup>* ex_none ex_request" by (meson converse_rtranclp_into_rtranclp rtranclp.rtrancl_refl)
  show "idle ex_request 0" using i by (simp add: ex_request_def idle_def ex_blank)
  show "fl_at ex_request 0 = ex_range 1 1 3 0 99" by (simp add: ex_request_def)
qed

lemma ex_locked_reached: "lock_step\<^sup>*\<^sup>* ex_none ex_locked" "idle ex_locked 0"
proof -
  have q: "posix_request (fl_at ex_request 0)" by (simp add: ex_request_reached(3) ex_request_ok)
  have r: "raw_posix_lock_file ex_env 5 0 ex_request = (0, ex_locked)" by (simp add: ex_locked_def prod_eq_iff ex_answer)
  show "lock_step\<^sup>*\<^sup>* ex_none ex_locked"
    by (rule rtranclp.rtrancl_into_rtrancl [OF ex_request_reached(1) step_posix [OF ex_request_reached(2) q r]])
  show "idle ex_locked 0"
    using raw_posix_lock_file_step(3) [OF lock_sys.reachable_inv [OF ex_none_init ex_request_reached(1)] ex_request_reached(2) q r]
    by (simp add: request_left_def)
qed

lemma ex_filled:
  assumes "s = upd_fl 0 (\<lambda>_. ex_range f t n a b) ex_locked"
  shows "lock_step\<^sup>*\<^sup>* ex_none s" "idle s 0" "fl_at s 0 = ex_range f t n a b"
  using rtranclp.rtrancl_into_rtrancl [OF ex_locked_reached(1) step_fill [OF ex_locked_reached(2) ex_blank]] ex_locked_reached(2)
  unfolding assms by (simp_all add: idle_def ex_blank)

lemmas ex_unlock_reached = ex_filled [OF ex_unlock_def] and ex_second_reached = ex_filled [OF ex_second_def]

definition ex_asleep :: lock_state where
  "ex_asleep = snd (raw_posix_lock_file ex_env 5 0 ex_second)"

lemma ex_asleep_answer: "raw_posix_lock_file ex_env 5 0 ex_second = (FILE_LOCK_DEFERRED, ex_asleep)"
proof -
  have "fst (raw_posix_lock_file ex_env 5 0 ex_second) = FILE_LOCK_DEFERRED" by code_simp
  then show ?thesis by (simp add: ex_asleep_def prod_eq_iff)
qed

lemma ex_asleep_reached: "lock_step\<^sup>*\<^sup>* ex_none ex_asleep"
proof -
  have "posix_request (fl_at ex_second 0)" by (simp add: ex_second_reached(3) ex_request_ok)
  from step_posix [OF ex_second_reached(2) this ex_asleep_answer] show ?thesis
    by (rule rtranclp.rtrancl_into_rtrancl [OF ex_second_reached(1)])
qed

section \<open>Properties\<close>



text \<open>C39. In every state that the lock operations reach: two owners that hold the same byte of a file both hold it for
  reading; no two whole-file locks of an inode conflict; and a request that sleeps is on the list of waiters of a lock
  that is in the list of an inode and that still stands in its way, so that none is forgotten when its lock goes or
  changes.\<close>

theorem locks_exclusive:
  assumes "lock_init s0" "lock_step\<^sup>*\<^sup>* s0 s"
  shows "(v \<noteq> w \<and> held_by s ino v b = Some t \<and> held_by s ino w b = Some u \<longrightarrow> t = F_RDLCK \<and> u = F_RDLCK) \<and>
    (a \<in> set (i_flock s ino) \<and> c \<in> set (i_flock s ino) \<and> IS_FLOCK (fl_at s a) \<longrightarrow> \<not> flock_locks_conflict (fl_at s a) (fl_at s c)) \<and>
    (fl_next (fl_at s x) = Some y \<longrightarrow> x \<in> set (fl_block (fl_at s y)) \<and> (\<exists>j. y \<in> set (i_flock s j)) \<and>
       (if IS_POSIX (fl_at s y) then posix_locks_conflict (fl_at s x) (fl_at s y)
        else if IS_FLOCK (fl_at s y) then flock_locks_conflict (fl_at s x) (fl_at s y)
        else IS_LEASE (fl_at s y) \<and> flag (fl_type (fl_at s y)) F_INPROGRESS))"
proof -
  note I = lock_sys.reachable_inv [OF assms]
  note L = lock_invD(1) [OF I] and W = lock_invD(2) [OF I]
  show ?thesis
  proof (intro conjI impI; (elim conjE)?)
    show "\<not> flock_locks_conflict (fl_at s a) (fl_at s c)" if "a \<in> set (i_flock s ino)" "c \<in> set (i_flock s ino)" "IS_FLOCK (fl_at s a)"
      using listsD(3) [OF L] that unfolding flock_excl_def by blast
    assume n: "fl_next (fl_at s x) = Some y"
    show "x \<in> set (fl_block (fl_at s y))" using links_block [OF waiters_okD(1) [OF W]] n by blast
    show "\<exists>j. y \<in> set (i_flock s j)" by (rule waiters_okD(5) [OF W n]) simp
    show "if IS_POSIX (fl_at s y) then posix_locks_conflict (fl_at s x) (fl_at s y)
        else if IS_FLOCK (fl_at s y) then flock_locks_conflict (fl_at s x) (fl_at s y)
        else IS_LEASE (fl_at s y) \<and> flag (fl_type (fl_at s y)) F_INPROGRESS"
      using waiters_okD(6) [OF W n] by (simp add: holds_up_def)
  qed (use listsD(2) [OF L] in \<open>unfold posix_excl_def, blast\<close>)+
qed

theorem locks_exclusive_witness:
  "fl_next (fl_at ex_asleep 0) = Some 1 \<and> 0 \<in> set (fl_block (fl_at ex_asleep 1)) \<and> posix_locks_conflict (fl_at ex_asleep 0) (fl_at ex_asleep 1)"
proof -
  have n: "fl_next (fl_at ex_asleep 0) = Some 1" "IS_POSIX (fl_at ex_asleep 1)" by code_simp+
  then show ?thesis using locks_exclusive [OF ex_none_init ex_asleep_reached, of _ _ _ _ _ _ _ _ 0 1] by simp
qed

text \<open>C40. Deadlock detection, in any state that the lock operations reach. A request is answered with EDEADLK only when the
  owner of a lock in its way waits, directly or through other owners, for the owner of the request. With at most eleven
  requests asleep and none of them of the same owner, a request that is put to sleep never makes owners wait for each
  other in a circle.\<close>

theorem deadlock_detection:
  assumes "lock_init s0" "lock_step\<^sup>*\<^sup>* s0 s" "idle s request" "raw_posix_lock_file env ino request s = (e, s')"
  shows "(e = - EDEADLK \<longrightarrow> (\<exists>b\<in>set (i_flock s ino). posix_locks_conflict (fl_at s request) (fl_at s b) \<and>
      (fl_owner (fl_at s b), fl_owner (fl_at s request)) \<in> (waits s)\<^sup>+)) \<and>
    (e = FILE_LOCK_DEFERRED \<and> distinct (map (\<lambda>a. fl_owner (fl_at s a)) (blocked_list s)) \<and> length (blocked_list s) \<le> 11 \<and>
      acyclic (waits s) \<longrightarrow> acyclic (waits s'))"
  using posix_lock_sleep [OF lock_sys.reachable_inv [OF assms(1,2)] assms(3,4)] by blast

theorem deadlock_detection_witness:
  "fst (raw_posix_lock_file ex_env 5 0 ex_second) = FILE_LOCK_DEFERRED \<and> blocked_list ex_second = [] \<and>
   acyclic (waits (snd (raw_posix_lock_file ex_env 5 0 ex_second)))"
proof -
  have "blocked_list ex_second = []" by code_simp
  then show ?thesis using deadlock_detection [OF ex_none_init ex_second_reached(1,2) ex_asleep_answer]
    by (simp add: waits_def ex_asleep_answer acyclic_def)
qed

end
