(* ===== verification/Spec2Isabelle.thy ===== *)
theory Spec2Isabelle
  imports SockProps SemProps CredProps InodeProps LockProps
begin

text \<open>
  A verification library for parts of the Linux 2.6.35.11 kernel under \<open>src/linux-2.6.35.11\<close>. The parts are
  those that decide on their own data what a user program may do: the filter it attaches to a socket, the
  semaphores it shares with other programs, the credentials it runs under, the access to inodes that the
  credentials allow, and the locks it takes on files. Paths below are relative to \<open>src/linux-2.6.35.11\<close>.

  \<^bold>\<open>Conventions.\<close> The machine is ILP32 and little-endian. A C structure is a record with the fields the modelled
  functions use; unsigned integers are words of their width; an \<open>int\<close> or \<open>long\<close> that can overflow is an \<open>int\<close>
  reduced with \<open>s32\<close>; file offsets are integers. A function that returns an error returns the negative error
  number of \<open>Prelude\<close>; one that returns a pointer or an error returns a sum or an option. \<open>Fault\<close> is an access
  outside an object or a \<open>BUG\<close>. What code outside the model answers (the allocator, copies from user memory, the
  other security hooks, the clock) is an argument, mostly a field of an environment record; a theorem holds for all its
  values, failed allocations included, unless its hypotheses name a restriction. Code under a lock is one step of a transition system; the order of such steps
  is arbitrary, so the invariants hold for every interleaving of tasks.

  \<^bold>\<open>Prelude.\<close> Machine integers, error numbers, \<open>outcome\<close>, byte order, and two interfaces: \<open>invariant_system\<close>, a
  step relation with an invariant, interpreted for sockets, semaphores, credentials, tmpfs and file locks; and
  \<open>fixed_codec\<close>, items of fixed width stored in sequence, interpreted for the entries of access control
  lists.

  \<^bold>\<open>Socket filters.\<close> \<open>SkBuff\<close> and \<open>SkTrim\<close> model the packet: the linear area, page fragments and fragment list
  (\<open>net/core/skbuff.c\<close>: \<open>skb_copy_bits\<close>, \<open>___pskb_trim\<close>; \<open>include/linux/skbuff.h\<close>) and the attribute walk of
  \<open>lib/nlattr.c\<close>. \<open>SockFilter\<close> has the checker and the interpreter of \<open>net/core/filter.c\<close> with every instruction.
  \<open>FilterCheck\<close> shows that the checker accepts exactly the legal programs; \<open>FilterRun\<close> that accepted programs end,
  read the packet and stay within memory; \<open>FilterProps\<close> states the properties, and the two attribute loads and
  the header-relative load that leave the packet. The interpreter is a \<open>partial_function\<close> over the program
  counter, and termination of checked programs is a theorem. \<open>SockAttach\<close> models attaching, detaching and
  running filters on a socket with its reference counts and option memory (\<open>sk_attach_filter\<close>,
  \<open>sk_detach_filter\<close>, \<open>sk_filter\<close>, \<open>include/net/sock.h\<close>, \<open>net/core/sock.c\<close>) as a heap and a step relation;
  \<open>SockProps\<close> has its invariant, the absence of use after free, and the verdict on packets.

  \<^bold>\<open>System V semaphores.\<close> \<open>SysvSem\<close> models one array of \<open>ipc/sem.c\<close> with its pending queues and undo
  structures and the functions on it, from \<open>try_atomic_semop\<close> to \<open>semtimedop\<close>, \<open>semctl_main\<close>, \<open>freeary\<close> and
  \<open>exit_sem\<close>. \<open>SemQueue\<close> characterises one operation, \<open>SemWalk\<close> the well-formed states, \<open>SemUpdate\<close> the queue
  scans, which end because each restart wakes a task, and \<open>SemSys\<close> the transition system. \<open>SemProps\<close> shows
  atomicity, that no wake-up is lost, that every call returns or sleeps as a queued entry, and an overflow of
  undo adjustments.

  \<^bold>\<open>Credentials.\<close> \<open>CapSet\<close> models \<open>include/linux/capability.h\<close>, \<open>GroupInfo\<close> models \<open>kernel/groups.c\<close> with its
  Shell sort and binary search, and \<open>Cred\<close> the capability module \<open>security/commoncap.c\<close>, \<open>kernel/capability.c\<close>,
  \<open>commit_creds\<close> of \<open>kernel/cred.c\<close>, the set-user-id calls of \<open>kernel/sys.c\<close> and the credentials of execve in
  \<open>fs/exec.c\<close>. \<open>CredStep\<close> bounds what each call does, and \<open>CredProps\<close> concludes over all sequences of calls and
  executions. Executions by init are included; they keep the effective set, which the statements say where it matters.

  \<^bold>\<open>Inodes and access control lists.\<close> \<open>PosixAcl\<close>, \<open>AclCheck\<close> and \<open>AclMode\<close> model \<open>fs/posix_acl.c\<close> and relate it to
  the POSIX 1003.1e draft algorithm; \<open>AclXattr\<close> models \<open>fs/xattr_acl.c\<close>. \<open>Inode\<close> has the inode, the lists of
  \<open>fs/generic_acl.c\<close> and the permission checks of \<open>fs/namei.c\<close>, which read the credentials of \<open>Cred\<close>; \<open>InodeAttr\<close>
  has \<open>fs/attr.c\<close>, the attribute changes and creation of \<open>mm/shmem.c\<close>; \<open>InodeSys\<close> has the system calls on
  them (\<open>fs/open.c\<close>, \<open>fs/xattr.c\<close>, \<open>mm/filemap.c\<close>). \<open>InodeInv\<close> shows that lists stay valid and what keeps them in
  agreement with the mode; \<open>TmpfsSys\<close> makes a transition system of it, in which a call may run out of memory between
  the mode and the list and the inodes where that happened are recorded; \<open>InodeEffect\<close> describes the effect of the calls, and \<open>InodeProps\<close>
  states the properties: who gets access, what chown and chmod may change, and what a new inode looks like.

  \<^bold>\<open>File locks.\<close> \<open>FileLock\<close> models the structures and lists of \<open>fs/locks.c\<close> and the operations on byte ranges and whole
  files, \<open>__posix_lock_file\<close> (here \<open>raw_posix_lock_file\<close>) and \<open>flock_lock_file\<close>; \<open>LockSys\<close> the conversions of \<open>fcntl\<close>, the
  calls that sleep and mandatory locks (\<open>include/linux/fs.h\<close>); \<open>LockLease\<close> the leases and the last close. A call that
  sleeps takes a list of what other tasks do before each wake-up, and returns \<open>None\<close> when the list ends first.
  \<open>LockRange\<close> has the specification, a sorted list of segments with the operation \<open>set_range\<close>; \<open>LockWalk\<close>, \<open>LockList\<close> and
  \<open>LockPosix\<close> show that the loop over the locks of an owner implements it in the presence of other locks; \<open>LockWait\<close>
  has the invariant of waiting requests and \<open>LockInv\<close> that of the lists; \<open>LockStep\<close> and \<open>LockFlock\<close> show that each
  operation keeps both, and \<open>LockRun\<close> makes a transition system of them. \<open>LockProps\<close> states the properties: the answer
  to a request and its effect, exclusion, and the detection of deadlocks, which follows at most eleven waiting
  requests as the code does.

  \<^bold>\<open>Configuration.\<close> \<open>CONFIG_SECURITY\<close> with the capability module alone, file capabilities, tmpfs with access
  control lists, no user namespaces but the initial one, \<open>CONFIG_AUDIT\<close>, \<open>CONFIG_KEYS\<close> off.

  \<^bold>\<open>Not modelled.\<close> Drivers, architecture code, the scheduler, memory management, the block layer, other file
  systems, the network protocols, and the build system: they work on hardware, page tables or data of their own that
  the modelled parts do not see. Within the modelled files: reference counts of credentials and lists, RCU grace
  periods (the free happens at once), path lookup, page contents, the identifier tables of \<open>ipc/util.c\<close>, the lock
  methods and lock managers of network file systems, signals to lease holders, and output to logs and \<open>/proc\<close>.
\<close>

end
